(* ===== verification/Prelude.thy ===== *)
theory Prelude
  imports "HOL-Library.Word" "HOL-Library.Monad_Syntax"
begin

unbundle bit_operations_syntax

text \<open>
  The vocabulary shared by every component of the Pisces model: the C integer types as
  words, the errno values the module returns, byte copies with their bounds checks, the
  intrusive list operations of the kernel as operations on HOL lists, and the lemma
  collections the component proofs use.

  A C function that touches memory returns an \<open>option\<close>: the value \<open>None\<close> stands for a
  run that does not come back normally (an access outside an object, or a busy-wait that
  nobody ends). A theorem that such a function returns \<open>Some\<close> is therefore a memory
  safety and termination statement.
\<close>

section \<open>Types and constants\<close>

type_synonym u8 = "8 word"
type_synonym u16 = "16 word"
type_synonym u32 = "32 word"
type_synonym u64 = "64 word"
type_synonym bytes = "8 word list"

named_theorems word_nat \<open>word comparison and arithmetic read as natural numbers\<close>
named_theorems mem_simps \<open>byte copies on lists\<close>

text \<open>The errno values of Linux that the module returns negated.\<close>

abbreviation EPERM :: int where "EPERM \<equiv> 1"
abbreviation ENOMEM :: int where "ENOMEM \<equiv> 12"
abbreviation EFAULT :: int where "EFAULT \<equiv> 14"
abbreviation EBUSY :: int where "EBUSY \<equiv> 16"
abbreviation ENODEV :: int where "ENODEV \<equiv> 19"
abbreviation EINVAL :: int where "EINVAL \<equiv> 22"

section \<open>Words as natural numbers\<close>

lemmas [word_nat] = word_less_nat_alt word_le_nat_alt

lemma unat_add_small [word_nat]:
  fixes a b :: "'a::len word"
  assumes "unat a + unat b < 2 ^ LENGTH('a)"
  shows "unat (a + b) = unat a + unat b"
  using assms by (simp add: unat_word_ariths)

lemma unat_diff_le [word_nat]:
  fixes a b :: "'a::len word"
  assumes "unat b \<le> unat a"
  shows "unat (a - b) = unat a - unat b"
  using assms by (simp add: unat_sub word_le_nat_alt)

lemma unat_eq_zero_iff [word_nat]: "(a :: 'a::len word) = 0 \<longleftrightarrow> unat a = 0"
  by (simp add: unat_eq_0)

lemma unat_inj_iff: "(a :: 'a::len word) = b \<longleftrightarrow> unat a = unat b"
  by (rule word_unat_eq_iff)

lemma unat_u64_lt [simp]: "unat (w :: u64) < 18446744073709551616"
  using unsigned_less [of w] by simp

lemma unat_u32_lt [simp]: "unat (w :: u32) < 4294967296"
  using unsigned_less [of w] by simp

lemma unat_of_nat_u64: "n < 18446744073709551616 \<Longrightarrow> unat (of_nat n :: u64) = n"
  by (simp add: unat_of_nat take_bit_nat_eq_self)

lemma unat_of_nat_u32: "n < 4294967296 \<Longrightarrow> unat (of_nat n :: u32) = n"
  by (simp add: unat_of_nat take_bit_nat_eq_self)

lemma unat_ucast_u32: "unat (ucast (w :: u32) :: u64) = unat w"
proof -
  have "unat w < 2 ^ 64" using unat_u32_lt [of w] by (rule less_trans) simp
  then show ?thesis by (simp add: unsigned_ucast_eq take_bit_nat_eq_self)
qed

lemma ucast_unat_u32: "(ucast (w :: u32) :: u64) = of_nat (unat w)"
proof -
  have "unat w < 18446744073709551616" using unat_u32_lt [of w] by (rule less_trans) simp
  then show ?thesis by (simp add: unat_inj_iff unat_ucast_u32 unat_of_nat_u64)
qed

lemma unat_bound_bits:
  fixes w :: "'a::len word"
  assumes "\<And>n. m \<le> n \<Longrightarrow> \<not> bit w n"
  shows "unat w < 2 ^ m"
proof -
  have "w = take_bit m w" using assms leI by (intro bit_eqI) (auto simp: bit_take_bit_iff)
  then have "unat w = take_bit m (unat w)" by (metis unsigned_take_bit_eq)
  then show ?thesis by (metis take_bit_nat_less_exp)
qed

lemma mod_shift: "(a :: nat) mod n = b mod n \<Longrightarrow> (a + c) mod n = (b + c) mod n"
  by (rule mod_add_cong) simp_all

section \<open>Copies between byte arrays\<close>

text \<open>
  \<open>memcpy dst d src s n\<close> is \<open>memcpy(dst + d, src + s, n)\<close> between two distinct arrays:
  \<open>None\<close> when one of the two ranges leaves its array.
\<close>

definition memcpy :: "'a list \<Rightarrow> nat \<Rightarrow> 'a list \<Rightarrow> nat \<Rightarrow> nat \<Rightarrow> 'a list option" where
  "memcpy dst d src s n =
     (if d + n \<le> length dst \<and> s + n \<le> length src
      then Some (take d dst @ take n (drop s src) @ drop (d + n) dst)
      else None)"

lemma memcpy_Some [mem_simps]:
  "d + n \<le> length dst \<Longrightarrow> s + n \<le> length src \<Longrightarrow>
     memcpy dst d src s n = Some (take d dst @ take n (drop s src) @ drop (d + n) dst)"
  by (simp add: memcpy_def)

lemma memcpy_length: "memcpy dst d src s n = Some dst' \<Longrightarrow> length dst' = length dst"
  by (auto simp: memcpy_def split: if_splits)

lemma nth_splice:
  assumes "d + n \<le> length dst" and "n \<le> length xs" and "i < length dst"
  shows "(take d dst @ take n xs @ drop (d + n) dst) ! i =
           (if d \<le> i \<and> i < d + n then xs ! (i - d) else dst ! i)"
  using assms by (auto simp: nth_append min_def)

section \<open>Runs of cyclic indices\<close>

text \<open>
  The contents of a ring: \<open>cyc buf r n\<close> is the sequence of the \<open>n\<close> cells that start at
  index \<open>r\<close>, taken modulo the length of the array.
\<close>

definition cyc :: "'a list \<Rightarrow> nat \<Rightarrow> nat \<Rightarrow> 'a list" where
  "cyc buf r n = map (\<lambda>i. buf ! ((r + i) mod length buf)) [0..<n]"

lemma length_cyc [simp]: "length (cyc buf r n) = n"
  by (simp add: cyc_def)

lemma nth_cyc [simp]: "i < n \<Longrightarrow> cyc buf r n ! i = buf ! ((r + i) mod length buf)"
  by (simp add: cyc_def)

lemma cyc_0 [simp]: "cyc buf r 0 = []"
  by (simp add: cyc_def)

lemma cyc_split: "m \<le> n \<Longrightarrow> cyc buf r n = cyc buf r m @ cyc buf (r + m) (n - m)"
  by (rule nth_equalityI) (auto simp: nth_append ac_simps)

lemma cyc_take: "m \<le> n \<Longrightarrow> take m (cyc buf r n) = cyc buf r m"
  using cyc_split [of m n buf r] by simp

lemma cyc_drop: "m \<le> n \<Longrightarrow> drop m (cyc buf r n) = cyc buf (r + m) (n - m)"
  using cyc_split [of m n buf r] by simp

lemma cyc_mod: "cyc buf (r mod length buf) n = cyc buf r n"
  by (simp add: cyc_def mod_add_left_eq)

lemma cyc_linear: "r + n \<le> length buf \<Longrightarrow> cyc buf r n = take n (drop r buf)"
  by (rule nth_equalityI) auto

lemma cyc_wrap:
  assumes "r \<le> length buf" and "length buf \<le> r + n" and "r + n \<le> length buf + r"
  shows "cyc buf r n = drop r buf @ take (n - (length buf - r)) buf"
proof -
  let ?m = "length buf - r"
  have "cyc buf r n = cyc buf r ?m @ cyc buf (r + ?m) (n - ?m)"
    using assms by (intro cyc_split) auto
  moreover have "cyc buf r ?m = drop r buf"
    using assms(1) by (simp add: cyc_linear)
  moreover have "cyc buf (r + ?m) (n - ?m) = take (n - ?m) buf"
    using assms cyc_mod [of buf "r + ?m" "n - ?m"] by (simp add: cyc_linear)
  ultimately show ?thesis by simp
qed

text \<open>Writing into cells outside a cyclic run leaves the run as it is.\<close>

lemma cyc_cong:
  "length buf = length buf' \<Longrightarrow>
   (\<And>i. i < n \<Longrightarrow> buf ! ((r + i) mod length buf) = buf' ! ((r + i) mod length buf)) \<Longrightarrow>
   cyc buf r n = cyc buf' r n"
  by (rule nth_equalityI) auto

section \<open>Kernel lists\<close>

text \<open>
  A circular list of \<open>struct list_head\<close> nodes is the HOL list of its entries from
  \<open>head->next\<close> on. \<open>list_add_tail(new, &iter->node)\<close> puts the entry right before the
  node \<open>iter\<close>, \<open>list_add(new, &iter->node)\<close> right after it, and \<open>list_del\<close> takes the
  node itself out.
\<close>

fun list_del_first :: "('a \<Rightarrow> bool) \<Rightarrow> 'a list \<Rightarrow> 'a list" where
  "list_del_first P [] = []"
| "list_del_first P (x # xs) = (if P x then xs else x # list_del_first P xs)"

lemma set_list_del_first: "set (list_del_first P xs) \<subseteq> set xs"
  by (induction xs) auto

lemma list_del_first_none: "\<not> list_ex P xs \<Longrightarrow> list_del_first P xs = xs"
  by (induction xs) auto

lemma length_list_del_first:
  "length (list_del_first P xs) = (if list_ex P xs then length xs - 1 else length xs)"
proof (induction xs)
  case (Cons x xs)
  moreover have "list_ex P xs \<Longrightarrow> 0 < length xs"
    by (cases xs) auto
  ultimately show ?case by auto
qed simp

lemma list_del_first_eq_remove1: "list_del_first (\<lambda>y. y = x) xs = remove1 x xs"
  by (induction xs) auto

lemma list_del_first_filter:
  "distinct (map f xs) \<Longrightarrow> list_del_first (\<lambda>y. f y = k) xs = filter (\<lambda>y. f y \<noteq> k) xs"
proof (induction xs)
  case (Cons x xs)
  moreover have "f x \<notin> f ` set xs \<Longrightarrow> filter (\<lambda>y. f y \<noteq> f x) xs = xs"
    by (rule filter_True) (metis imageI)
  ultimately show ?case by auto
qed simp

end
