(* ===== verification/PiscesLock.thy ===== *)
theory PiscesLock
  imports Prelude
begin

text \<open>
  The cross-OS spinlock of \<open>src/src/pisces_lock.c\<close>. The lock is one 64-bit word shared by
  Linux and the enclave; it is taken with an atomic exchange of its low byte.
  \<open>pisces_spin_lock\<close> is the loop as one thread sees it when nobody else runs, and
  \<open>lock_step\<close> the same loop executed by any number of threads, one memory access per step.
\<close>

record pisces_spinlock =
  raw_lock :: u64

text \<open>\<open>xchgb\<close> writes the low byte of the word and returns what it held.\<close>

definition pisces_xchg8 :: "pisces_spinlock \<Rightarrow> u8 \<Rightarrow> u8 \<times> pisces_spinlock" where
  "pisces_xchg8 l x =
     (ucast (raw_lock l), l\<lparr>raw_lock := (raw_lock l AND NOT 0xFF) OR ucast x\<rparr>)"

definition pisces_lock_init :: "pisces_spinlock \<Rightarrow> pisces_spinlock" where
  "pisces_lock_init l = l\<lparr>raw_lock := 0\<rparr>"

text \<open>
  The loop of one thread running alone: after a failed exchange it spins for as long as the
  word is nonzero, which nobody changes, so the call does not return (\<open>None\<close>).
\<close>

partial_function (option) pisces_spin_lock :: "pisces_spinlock \<Rightarrow> pisces_spinlock option" where
  "pisces_spin_lock l =
     (let (old, l') = pisces_xchg8 l 1
      in if old = 0 then Some l' else pisces_spin_lock l')"

definition pisces_spin_unlock :: "pisces_spinlock \<Rightarrow> pisces_spinlock" where
  "pisces_spin_unlock l = l\<lparr>raw_lock := 0\<rparr>"

lemma xchg8_free: "raw_lock l = 0 \<Longrightarrow> pisces_xchg8 l 1 = (0, l\<lparr>raw_lock := 1\<rparr>)"
  by (simp add: pisces_xchg8_def)

lemma xchg8_held: "raw_lock l = 1 \<Longrightarrow> pisces_xchg8 l 1 = (1, l)"
  by (simp add: pisces_xchg8_def)

lemma spin_lock_free [simp]:
  "raw_lock l = 0 \<Longrightarrow> pisces_spin_lock l = Some (l\<lparr>raw_lock := 1\<rparr>)"
  by (simp add: pisces_spin_lock.simps xchg8_free)

lemma spin_unlock_lock [simp]:
  "raw_lock l = 0 \<Longrightarrow> pisces_spin_unlock (l\<lparr>raw_lock := x\<rparr>) = l"
  by (simp add: pisces_spin_unlock_def)

lemma raw_lock_unlock [simp]: "raw_lock (pisces_spin_unlock l) = 0"
  by (simp add: pisces_spin_unlock_def)

section \<open>Any number of threads\<close>

datatype lock_pc = LkOut | LkTry | LkSpin | LkCritical

record lock_sys =
  ls_lock :: pisces_spinlock
  ls_pc :: "nat \<Rightarrow> lock_pc"

definition lock_sys_init :: "pisces_spinlock \<Rightarrow> lock_sys" where
  "lock_sys_init l = \<lparr>ls_lock = pisces_lock_init l, ls_pc = (\<lambda>_. LkOut)\<rparr>"

text \<open>
  One access per step: the exchange (which succeeds or not), the read that ends the inner
  spin, the store that unlocks.
\<close>

inductive lock_step :: "lock_sys \<Rightarrow> lock_sys \<Rightarrow> bool" where
  lk_call: "ls_pc s i = LkOut \<Longrightarrow> lock_step s (s\<lparr>ls_pc := (ls_pc s)(i := LkTry)\<rparr>)"
| lk_got: "ls_pc s i = LkTry \<Longrightarrow> pisces_xchg8 (ls_lock s) 1 = (0, l') \<Longrightarrow>
     lock_step s (s\<lparr>ls_lock := l', ls_pc := (ls_pc s)(i := LkCritical)\<rparr>)"
| lk_busy: "ls_pc s i = LkTry \<Longrightarrow> pisces_xchg8 (ls_lock s) 1 = (old, l') \<Longrightarrow> old \<noteq> 0 \<Longrightarrow>
     lock_step s (s\<lparr>ls_lock := l', ls_pc := (ls_pc s)(i := LkSpin)\<rparr>)"
| lk_seen_free: "ls_pc s i = LkSpin \<Longrightarrow> raw_lock (ls_lock s) = 0 \<Longrightarrow>
     lock_step s (s\<lparr>ls_pc := (ls_pc s)(i := LkTry)\<rparr>)"
| lk_unlock: "ls_pc s i = LkCritical \<Longrightarrow>
     lock_step s (s\<lparr>ls_lock := pisces_spin_unlock (ls_lock s), ls_pc := (ls_pc s)(i := LkOut)\<rparr>)"

inductive lock_reach :: "pisces_spinlock \<Rightarrow> lock_sys \<Rightarrow> bool" for l where
  lr_init: "lock_reach l (lock_sys_init l)"
| lr_step: "lock_reach l s \<Longrightarrow> lock_step s t \<Longrightarrow> lock_reach l t"

text \<open>
  The word is 0 or 1, it is 1 exactly when a thread is inside, and then only one is.
\<close>

definition lock_inv :: "lock_sys \<Rightarrow> bool" where
  "lock_inv s \<longleftrightarrow>
     (raw_lock (ls_lock s) = 0 \<and> (\<forall>i. ls_pc s i \<noteq> LkCritical)) \<or>
     (raw_lock (ls_lock s) = 1 \<and> (\<exists>!i. ls_pc s i = LkCritical))"

lemma lock_inv_init: "lock_inv (lock_sys_init l)"
  by (simp add: lock_inv_def lock_sys_init_def pisces_lock_init_def)

lemma lock_inv_step: "lock_step s t \<Longrightarrow> lock_inv s \<Longrightarrow> lock_inv t"
proof (induction rule: lock_step.induct)
  case (lk_got s i l')
  then have "raw_lock (ls_lock s) = 0" and "\<forall>j. ls_pc s j \<noteq> LkCritical"
    by (auto simp: lock_inv_def xchg8_held)
  with lk_got show ?case by (auto simp: lock_inv_def xchg8_free)
next
  case (lk_busy s i old l')
  then have "raw_lock (ls_lock s) = 1"
    by (auto simp: lock_inv_def xchg8_free)
  with lk_busy have "l' = ls_lock s" and "\<exists>!j. ls_pc s j = LkCritical"
    by (auto simp: lock_inv_def xchg8_held)
  moreover have "((ls_pc s)(i := LkSpin)) j = LkCritical \<longleftrightarrow> ls_pc s j = LkCritical" for j
    using lk_busy by auto
  ultimately show ?case using lk_busy by (simp add: lock_inv_def)
next
  case (lk_unlock s i)
  then show ?case by (auto simp: lock_inv_def)
next
  case (lk_call s i)
  moreover have "((ls_pc s)(i := LkTry)) j = LkCritical \<longleftrightarrow> ls_pc s j = LkCritical" for j
    using lk_call by auto
  ultimately show ?case by (simp add: lock_inv_def)
next
  case (lk_seen_free s i)
  then show ?case by (auto simp: lock_inv_def)
qed

lemma lock_reach_inv: "lock_reach l s \<Longrightarrow> lock_inv s"
  by (induction rule: lock_reach.induct) (auto intro: lock_inv_init lock_inv_step)

text \<open>
  C27: the spinlock shared by the two operating systems gives mutual exclusion: in every
  state reachable by any interleaving of the threads' exchanges, spins and unlocks, at most
  one thread is between \<open>pisces_spin_lock\<close> and \<open>pisces_spin_unlock\<close>.
\<close>

theorem spin_lock_mutex:
  assumes "lock_reach l s" and "ls_pc s i = LkCritical" and "ls_pc s j = LkCritical"
  shows "i = j"
  using lock_reach_inv [OF assms(1)] assms(2,3) by (auto simp: lock_inv_def)

theorem spin_lock_mutex_witness:
  "\<exists>s. lock_reach \<lparr>raw_lock = 7\<rparr> s \<and> ls_pc s 3 = LkCritical \<and>
       (\<forall>j. ls_pc s j = LkCritical \<longrightarrow> j = 3)"
proof -
  let ?l = "\<lparr>raw_lock = 7\<rparr>"
  let ?s0 = "lock_sys_init ?l"
  let ?s1 = "?s0\<lparr>ls_pc := (ls_pc ?s0)(3 := LkTry)\<rparr>"
  let ?s2 = "?s1\<lparr>ls_lock := \<lparr>raw_lock = 1\<rparr>, ls_pc := (ls_pc ?s1)(3 := LkCritical)\<rparr>"
  have "lock_step ?s0 ?s1"
    by (rule lk_call) (simp add: lock_sys_init_def)
  moreover have "lock_step ?s1 ?s2"
    by (rule lk_got) (simp_all add: lock_sys_init_def pisces_lock_init_def pisces_xchg8_def)
  ultimately have r: "lock_reach ?l ?s2"
    by (blast intro: lock_reach.intros)
  moreover have c: "ls_pc ?s2 3 = LkCritical" by simp
  ultimately show ?thesis
    using spin_lock_mutex [OF r c] by blast
qed

text \<open>
  the lock is never lost: as long as some thread waits for it (it is about to exchange
  or it spins), some thread that is in or waiting for the lock can take a step, and a
  waiting thread can enter as soon as no thread is inside.
\<close>

theorem spin_lock_progress:
  assumes "lock_reach l s" and "ls_pc s i = LkTry \<or> ls_pc s i = LkSpin"
  shows "(\<exists>j. ls_pc s j = LkCritical) \<or>
         (\<exists>t u. (lock_step s t \<or> t = s) \<and> lock_step t u \<and> ls_pc u i = LkCritical)"
proof (cases "raw_lock (ls_lock s) = 0")
  case free: True
  let ?t = "s\<lparr>ls_pc := (ls_pc s)(i := LkTry)\<rparr>"
  have "lock_step s ?t \<or> ?t = s"
  proof (cases "ls_pc s i = LkTry")
    case True
    then have "(ls_pc s)(i := LkTry) = ls_pc s" by (simp add: fun_upd_idem)
    then show ?thesis by simp
  next
    case False
    with assms(2) free show ?thesis by (auto intro: lk_seen_free)
  qed
  moreover have "lock_step ?t (?t\<lparr>ls_lock := (ls_lock s)\<lparr>raw_lock := 1\<rparr>,
      ls_pc := (ls_pc ?t)(i := LkCritical)\<rparr>)"
    by (rule lk_got) (simp_all add: xchg8_free free)
  ultimately show ?thesis by fastforce
next
  case False
  then show ?thesis using lock_reach_inv [OF assms(1)] by (auto simp: lock_inv_def)
qed

theorem spin_lock_progress_witness:
  "\<exists>s. lock_reach \<lparr>raw_lock = 7\<rparr> s \<and> ls_pc s 3 = LkTry \<and>
     ((\<exists>j. ls_pc s j = LkCritical) \<or>
      (\<exists>t u. (lock_step s t \<or> t = s) \<and> lock_step t u \<and> ls_pc u 3 = LkCritical))"
proof -
  let ?l = "\<lparr>raw_lock = 7\<rparr>"
  let ?s0 = "lock_sys_init ?l"
  let ?s1 = "?s0\<lparr>ls_pc := (ls_pc ?s0)(3 := LkTry)\<rparr>"
  have "lock_step ?s0 ?s1"
    by (rule lk_call) (simp add: lock_sys_init_def)
  then have r: "lock_reach ?l ?s1"
    by (blast intro: lock_reach.intros)
  moreover have c: "ls_pc ?s1 3 = LkTry \<or> ls_pc ?s1 3 = LkSpin" by simp
  ultimately show ?thesis
    using spin_lock_progress [OF r c] by (intro exI [of _ ?s1]) simp
qed

end
