(* ===== verification/Ringbuf.thy ===== *)
theory Ringbuf
  imports PiscesLock
begin

text \<open>
  The early ring buffer of \<open>src/src/pisces_ringbuf.c\<close>: a fixed array of bytes with a read
  index, a write index and a fill count, guarded by the cross-OS spinlock. The theory
  translates every routine with its C integer conversions, states what a byte FIFO promises
  as the locale \<open>byte_fifo\<close>, and proves that the ring implements it.
\<close>

section \<open>A byte FIFO\<close>

text \<open>
  \<open>put\<close> either takes the whole message or refuses it and changes nothing; \<open>get\<close> either
  delivers exactly the oldest \<open>n\<close> elements or refuses and changes nothing.
\<close>

locale byte_fifo =
  fixes inv :: "'s \<Rightarrow> bool"
    and contents :: "'s \<Rightarrow> 'a list"
    and capacity :: nat
    and put :: "'s \<Rightarrow> 'a list \<Rightarrow> (int \<times> 's) option"
    and get :: "'s \<Rightarrow> nat \<Rightarrow> (int \<times> 'a list \<times> 's) option"
  assumes bounded: "inv s \<Longrightarrow> length (contents s) \<le> capacity"
    and put_fits: "inv s \<Longrightarrow> length (contents s) + length xs \<le> capacity \<Longrightarrow>
      \<exists>s'. put s xs = Some (0, s') \<and> inv s' \<and> contents s' = contents s @ xs"
    and put_full: "inv s \<Longrightarrow> capacity < length (contents s) + length xs \<Longrightarrow>
      length xs < 2 ^ 64 \<Longrightarrow> put s xs = Some (-1, s)"
    and get_avail: "inv s \<Longrightarrow> n \<le> length (contents s) \<Longrightarrow>
      \<exists>s'. get s n = Some (0, take n (contents s), s') \<and> inv s' \<and>
           contents s' = drop n (contents s)"
    and get_short: "inv s \<Longrightarrow> length (contents s) < n \<Longrightarrow> n < 2 ^ 64 \<Longrightarrow>
      get s n = Some (-1, [], s)"
begin

text \<open>
  A run of writes and reads: the bytes accepted so far and the bytes delivered so far are
  collected beside the state.
\<close>

fun fifo_run :: "'s \<Rightarrow> 'a list \<Rightarrow> 'a list \<Rightarrow> ('a list + nat) list \<Rightarrow>
    ('a list \<times> 'a list \<times> 's) option" where
  "fifo_run s acc del [] = Some (acc, del, s)"
| "fifo_run s acc del (Inl xs # ops) =
     (case put s xs of None \<Rightarrow> None
      | Some (ret, s') \<Rightarrow> fifo_run s' (if ret = 0 then acc @ xs else acc) del ops)"
| "fifo_run s acc del (Inr n # ops) =
     (case get s n of None \<Rightarrow> None
      | Some (ret, ys, s') \<Rightarrow> fifo_run s' acc (if ret = 0 then del @ ys else del) ops)"

definition op_ok :: "'a list + nat \<Rightarrow> bool" where
  "op_ok p = (case p of Inl xs \<Rightarrow> length xs < 2 ^ 64 | Inr n \<Rightarrow> n < 2 ^ 64)"

lemma fifo_run_order:
  "inv s \<Longrightarrow> acc = del @ contents s \<Longrightarrow> list_all op_ok ops \<Longrightarrow>
     \<exists>acc' del' s'. fifo_run s acc del ops = Some (acc', del', s') \<and> inv s' \<and>
       acc' = del' @ contents s'"
proof (induction ops arbitrary: s acc del)
  case (Cons p ops)
  show ?case
  proof (cases p)
    case (Inl xs)
    show ?thesis
    proof (cases "length (contents s) + length xs \<le> capacity")
      case True
      then obtain s' where s': "put s xs = Some (0, s')" "inv s'" "contents s' = contents s @ xs"
        using put_fits Cons.prems(1) by blast
      with Cons.prems Cons.IH [OF s'(2), of "acc @ xs" del] Inl show ?thesis by simp
    next
      case False
      then have "put s xs = Some (-1, s)"
        using Cons.prems Inl by (intro put_full) (auto simp: op_ok_def)
      with Cons.prems Cons.IH [of s acc del] Inl show ?thesis by simp
    qed
  next
    case (Inr n)
    show ?thesis
    proof (cases "n \<le> length (contents s)")
      case True
      then obtain s' where s': "get s n = Some (0, take n (contents s), s')" "inv s'"
          "contents s' = drop n (contents s)"
        using get_avail Cons.prems(1) by blast
      with Cons.prems Cons.IH [OF s'(2), of acc "del @ take n (contents s)"] Inr
      show ?thesis by simp
    next
      case False
      then have "get s n = Some (-1, [], s)"
        using Cons.prems Inr by (intro get_short) (auto simp: op_ok_def)
      with Cons.prems Cons.IH [of s acc del] Inr show ?thesis by simp
    qed
  qed
qed simp

lemma put_then_get:
  assumes "inv s" and "length (contents s) + length xs \<le> capacity"
  shows "\<exists>s' s''. put s xs = Some (0, s') \<and>
           get s' (length (contents s) + length xs) = Some (0, contents s @ xs, s'')"
proof -
  obtain s' where s': "put s xs = Some (0, s')" "inv s'" "contents s' = contents s @ xs"
    using put_fits assms by blast
  moreover obtain s'' where
    "get s' (length (contents s')) = Some (0, take (length (contents s')) (contents s'), s'')"
    using get_avail [OF s'(2) order_refl] by blast
  ultimately show ?thesis by simp
qed

end

section \<open>The ring\<close>

definition EARLY_RINGBUF_SIZE :: nat where
  "EARLY_RINGBUF_SIZE = 1024 * 8"

record pisces_early_ringbuf =
  rb_read_idx :: u64
  rb_write_idx :: u64
  rb_size :: u64
  rb_cur_len :: u64
  rb_lock :: pisces_spinlock
  rb_buf :: bytes

text \<open>
  \<open>int x = e\<close> for a 64-bit \<open>e\<close> keeps 32 bits and reads them back with their sign;
  an argument of type \<open>unsigned int\<close> keeps 32 bits and reads them back unsigned.
\<close>

definition via_int :: "u64 \<Rightarrow> u64" where
  "via_int x = scast (ucast x :: u32)"

definition get_read_ptr :: "pisces_early_ringbuf \<Rightarrow> nat" where
  "get_read_ptr ring = unat (rb_read_idx ring)"

definition get_write_ptr :: "pisces_early_ringbuf \<Rightarrow> nat" where
  "get_write_ptr ring = unat (rb_write_idx ring)"

definition is_read_loop :: "pisces_early_ringbuf \<Rightarrow> u32 \<Rightarrow> bool" where
  "is_read_loop ring len \<longleftrightarrow>
     rb_write_idx ring \<le> rb_read_idx ring \<and> 0 < rb_cur_len ring \<and>
     rb_size ring - rb_read_idx ring < ucast len"

definition is_write_loop :: "pisces_early_ringbuf \<Rightarrow> u32 \<Rightarrow> bool" where
  "is_write_loop ring len \<longleftrightarrow>
     rb_read_idx ring \<le> rb_write_idx ring \<and> rb_cur_len ring < rb_size ring \<and>
     rb_size ring - rb_write_idx ring < ucast len"

definition pisces_early_ringbuf_init :: "pisces_early_ringbuf \<Rightarrow> int \<times> pisces_early_ringbuf" where
  "pisces_early_ringbuf_init ring =
     (0, \<lparr>rb_read_idx = 0, rb_write_idx = 0, rb_size = of_nat EARLY_RINGBUF_SIZE, rb_cur_len = 0,
          rb_lock = pisces_lock_init \<lparr>raw_lock = 0\<rparr>, rb_buf = replicate EARLY_RINGBUF_SIZE 0\<rparr>)"

definition pisces_early_ringbuf_write ::
    "pisces_early_ringbuf \<Rightarrow> bytes \<Rightarrow> u64 \<Rightarrow> (int \<times> pisces_early_ringbuf) option" where
  "pisces_early_ringbuf_write ring data write_len = do {
     l \<leftarrow> pisces_spin_lock (rb_lock ring);
     let ring = ring\<lparr>rb_lock := l\<rparr>;
     let avail_space = via_int (rb_size ring - rb_cur_len ring);
     (ret, ring) \<leftarrow>
       (if avail_space < write_len then Some (-1, ring)
        else do {
          ring \<leftarrow>
            (if is_write_loop ring (ucast write_len) then do {
               let section_len = via_int (rb_size ring - rb_write_idx ring);
               b1 \<leftarrow> memcpy (rb_buf ring) (get_write_ptr ring) data 0 (unat section_len);
               let ring = ring\<lparr>rb_buf := b1, rb_write_idx := 0\<rparr>;
               b2 \<leftarrow> memcpy (rb_buf ring) (get_write_ptr ring) data (unat section_len)
                      (unat (write_len - section_len));
               Some (ring\<lparr>rb_buf := b2,
                          rb_write_idx := rb_write_idx ring + (write_len - section_len)\<rparr>)
             } else do {
               b1 \<leftarrow> memcpy (rb_buf ring) (get_write_ptr ring) data 0 (unat write_len);
               Some (ring\<lparr>rb_buf := b1, rb_write_idx := rb_write_idx ring + write_len\<rparr>)
             });
          Some (0, ring\<lparr>rb_cur_len := rb_cur_len ring + write_len\<rparr>)
        });
     Some (ret, ring\<lparr>rb_lock := pisces_spin_unlock (rb_lock ring)\<rparr>)
   }"

text \<open>
  The reader's \<open>data\<close> argument is an array of the caller that receives the bytes; the model
  takes it and returns it updated.
\<close>

definition pisces_early_ringbuf_read ::
    "pisces_early_ringbuf \<Rightarrow> bytes \<Rightarrow> u64 \<Rightarrow> (int \<times> bytes \<times> pisces_early_ringbuf) option" where
  "pisces_early_ringbuf_read ring data read_len = do {
     l \<leftarrow> pisces_spin_lock (rb_lock ring);
     let ring = ring\<lparr>rb_lock := l\<rparr>;
     (ret, data, ring) \<leftarrow>
       (if rb_cur_len ring < read_len then Some (-1, data, ring)
        else do {
          (data, ring) \<leftarrow>
            (if is_read_loop ring (ucast read_len) then do {
               let section_len = via_int (rb_size ring - rb_read_idx ring);
               d1 \<leftarrow> memcpy data 0 (rb_buf ring) (get_read_ptr ring) (unat section_len);
               let ring = ring\<lparr>rb_read_idx := 0\<rparr>;
               d2 \<leftarrow> memcpy d1 (unat section_len) (rb_buf ring) (get_read_ptr ring)
                      (unat (read_len - section_len));
               Some (d2, ring\<lparr>rb_read_idx := rb_read_idx ring + (read_len - section_len)\<rparr>)
             } else do {
               d1 \<leftarrow> memcpy data 0 (rb_buf ring) (get_read_ptr ring) (unat read_len);
               Some (d1, ring\<lparr>rb_read_idx := rb_read_idx ring + read_len\<rparr>)
             });
          Some (0, data, ring\<lparr>rb_cur_len := rb_cur_len ring - read_len\<rparr>)
        });
     Some (ret, data, ring\<lparr>rb_lock := pisces_spin_unlock (rb_lock ring)\<rparr>)
   }"

definition pisces_early_ringbuf_is_full :: "pisces_early_ringbuf \<Rightarrow> int" where
  "pisces_early_ringbuf_is_full ring = (if rb_cur_len ring \<noteq> 0 then 1 else 0)"

definition pisces_early_ringbuf_is_empty :: "pisces_early_ringbuf \<Rightarrow> int" where
  "pisces_early_ringbuf_is_empty ring = (if rb_cur_len ring = 0 then 1 else 0)"

section \<open>The invariant and the abstraction\<close>

text \<open>
  Both indices may rest at the very end of the array (they are wrapped by the next
  operation, not by the one that reaches the end), and the write index is where the fill
  count says it is.
\<close>

definition ring_inv :: "pisces_early_ringbuf \<Rightarrow> bool" where
  "ring_inv ring \<longleftrightarrow>
     rb_size ring = of_nat EARLY_RINGBUF_SIZE \<and> length (rb_buf ring) = EARLY_RINGBUF_SIZE \<and>
     unat (rb_read_idx ring) \<le> EARLY_RINGBUF_SIZE \<and>
     unat (rb_write_idx ring) \<le> EARLY_RINGBUF_SIZE \<and>
     unat (rb_cur_len ring) \<le> EARLY_RINGBUF_SIZE \<and>
     (unat (rb_read_idx ring) + unat (rb_cur_len ring)) mod EARLY_RINGBUF_SIZE =
       unat (rb_write_idx ring) mod EARLY_RINGBUF_SIZE \<and>
     raw_lock (rb_lock ring) = 0"

definition ring_contents :: "pisces_early_ringbuf \<Rightarrow> bytes" where
  "ring_contents ring = cyc (rb_buf ring) (unat (rb_read_idx ring)) (unat (rb_cur_len ring))"

lemma length_ring_contents [simp]: "length (ring_contents ring) = unat (rb_cur_len ring)"
  by (simp add: ring_contents_def)

lemma sint_low_half: "unat x < 2147483648 \<Longrightarrow> sint (ucast (x :: u64) :: u32) = uint x"
proof -
  assume x: "unat x < 2147483648"
  have "sint (ucast x :: u32) = signed_take_bit 31 (uint x)"
    by transfer simp
  moreover have "uint x < 2147483648"
    using x uint_nat [of x] by linarith
  moreover have "- (2 ^ 31) \<le> uint x"
    by (rule order_trans [OF _ uint_ge_0]) simp
  ultimately show ?thesis
    by (simp add: signed_take_bit_int_eq_self)
qed

lemma via_int_small: "unat x < 2147483648 \<Longrightarrow> via_int x = x"
proof -
  assume x: "unat x < 2147483648"
  have "via_int x = word_of_int (sint (ucast x :: u32))"
    unfolding via_int_def by transfer simp
  with sint_low_half [OF x] show ?thesis by simp
qed

lemma via_uint_small: "unat x < 4294967296 \<Longrightarrow> (ucast (ucast (x :: u64) :: u32) :: u64) = x"
  by (simp add: word_unat_eq_iff unsigned_ucast_eq unsigned_take_bit_eq take_bit_nat_eq_self)

section \<open>Index arithmetic\<close>

lemma mod_neq_within:
  fixes a b n :: nat
  assumes "a < b" and "b < a + n"
  shows "a mod n \<noteq> b mod n"
proof
  assume "a mod n = b mod n"
  then have "n dvd b - a"
    using assms(1) mod_eq_dvd_iff_nat [of a b n] by simp
  with assms show False by (auto dest: dvd_imp_le)
qed

text \<open>If the run of the writer does not wrap, the space it needs ends before the array does.\<close>

lemma ring_gap:
  fixes r w c n :: nat
  assumes "(r + c) mod n = w mod n" and "w < r" and "r \<le> n"
  shows "n \<le> c + (r - w)"
proof -
  have "w mod n = (r + c) mod n" using assms(1) by simp
  then have "n dvd (r + c) - w"
    using mod_eq_dvd_iff_nat [of w "r + c" n] assms(2) by simp
  moreover have "0 < (r + c) - w" using assms(2) by simp
  ultimately have "n \<le> (r + c) - w" by (rule dvd_imp_le)
  with assms(2) show ?thesis by simp
qed

text \<open>
  Writing \<open>xs\<close> cyclically from the write index appends it to the run that starts at the
  read index, whatever routine did the writing.
\<close>

lemma cyc_append_write:
  assumes len: "length buf' = length buf" and fit: "c + length xs \<le> length buf"
    and at: "(r + c) mod length buf = w mod length buf"
    and new: "\<And>i. i < length xs \<Longrightarrow> buf' ! ((w + i) mod length buf) = xs ! i"
    and old: "\<And>j. j < length buf \<Longrightarrow> (\<And>i. i < length xs \<Longrightarrow> j \<noteq> (w + i) mod length buf) \<Longrightarrow>
                buf' ! j = buf ! j"
  shows "cyc buf' r (c + length xs) = cyc buf r c @ xs"
proof (rule nth_equalityI)
  fix i assume i: "i < length (cyc buf' r (c + length xs))"
  then have i': "i < c + length xs" by simp
  have pos: "0 < length buf" using i' fit by linarith
  show "cyc buf' r (c + length xs) ! i = (cyc buf r c @ xs) ! i"
  proof (cases "i < c")
    case True
    have "(r + i) mod length buf \<noteq> (w + k) mod length buf" if "k < length xs" for k
    proof -
      have "(w + k) mod length buf = (r + c + k) mod length buf"
        using at by (metis mod_add_left_eq)
      moreover have "(r + i) mod length buf \<noteq> (r + c + k) mod length buf"
        using True that fit by (intro mod_neq_within) auto
      ultimately show ?thesis by simp
    qed
    then have "buf' ! ((r + i) mod length buf) = buf ! ((r + i) mod length buf)"
      using pos by (intro old) auto
    with True i' len show ?thesis by (simp add: nth_append)
  next
    case False
    have "(r + i) mod length buf = (w + (i - c)) mod length buf"
      using False at by (metis add.assoc le_add_diff_inverse linorder_not_less mod_add_left_eq)
    with False i' len new [of "i - c"] show ?thesis by (simp add: nth_append)
  qed
qed simp

lemma cyc_write_linear:
  assumes "w + length xs \<le> length buf" and "c + length xs \<le> length buf"
    and "(r + c) mod length buf = w mod length buf"
  shows "cyc (take w buf @ xs @ drop (w + length xs) buf) r (c + length xs) = cyc buf r c @ xs"
proof (rule cyc_append_write)
  show "length (take w buf @ xs @ drop (w + length xs) buf) = length buf"
    using assms(1) by simp
  fix i assume "i < length xs"
  with assms(1) show "(take w buf @ xs @ drop (w + length xs) buf) ! ((w + i) mod length buf) = xs ! i"
    by (simp add: nth_append)
next
  fix j assume j: "j < length buf" and no: "\<And>i. i < length xs \<Longrightarrow> j \<noteq> (w + i) mod length buf"
  have "j < w \<or> w + length xs \<le> j"
    using no [of "j - w"] assms(1) j by force
  with j assms(1) show "(take w buf @ xs @ drop (w + length xs) buf) ! j = buf ! j"
    by (auto simp: nth_append)
qed (use assms in auto)

lemma cyc_write_wrap:
  assumes "w \<le> length buf" and "length buf < w + length xs" and "c + length xs \<le> length buf"
    and "(r + c) mod length buf = w mod length buf"
  defines "k \<equiv> length buf - w"
  shows "cyc (drop k xs @ drop (length xs - k) (take w buf @ take k xs)) r (c + length xs) =
           cyc buf r c @ xs"
    (is "cyc ?buf' _ _ = _")
proof (rule cyc_append_write)
  have k: "k \<le> length xs" "w + k = length buf"
    using assms(1,2) by (auto simp: k_def)
  show len: "length ?buf' = length buf"
    using k assms(3) by auto
  fix i assume i: "i < length xs"
  show "?buf' ! ((w + i) mod length buf) = xs ! i"
  proof (cases "i < k")
    case True
    then have "(w + i) mod length buf = w + i" using k by simp
    moreover have m: "length xs - k \<le> w" using k assms(3) by linarith
    then have "?buf' ! (w + i) = (take w buf @ take k xs) ! (w + i)"
      using k assms(1) True by (simp add: nth_append del: drop_append take_append)
    moreover have "(take w buf @ take k xs) ! (w + i) = xs ! i"
      using True assms(1) by (simp add: nth_append)
    ultimately show ?thesis by simp
  next
    case False
    then have "(w + i) mod length buf = (i - k) mod length buf"
      using k by (metis add.assoc le_add_diff_inverse linorder_not_less mod_add_self1)
    moreover have "i - k < length buf" "i - k < length xs - k" using i False assms(3) by auto
    ultimately show ?thesis using False i k by (simp add: nth_append)
  qed
next
  fix j assume j: "j < length buf" and no: "\<And>i. i < length xs \<Longrightarrow> j \<noteq> (w + i) mod length buf"
  have k: "k \<le> length xs" "w + k = length buf"
    using assms(1,2) by (auto simp: k_def)
  have "j < w"
  proof (rule ccontr)
    assume "\<not> j < w"
    then have "j = (w + (j - w)) mod length buf" using j by simp
    moreover have "j - w < length xs" using \<open>\<not> j < w\<close> j k by linarith
    ultimately show False using no by blast
  qed
  moreover have "length xs - k \<le> j"
  proof (rule ccontr)
    assume "\<not> length xs - k \<le> j"
    then have "j + k < length xs" by simp
    moreover have "(w + (j + k)) mod length buf = j"
      using j k by (metis add.commute add.left_commute mod_add_self1 mod_less)
    ultimately show False using no by metis
  qed
  ultimately show "?buf' ! j = buf ! j"
    using k by (auto simp: nth_append)
qed (use assms in auto)

section \<open>The operations under the invariant\<close>

lemma unat_size [simp]: "unat (of_nat EARLY_RINGBUF_SIZE :: u64) = 8192"
  by (simp add: EARLY_RINGBUF_SIZE_def)

lemma ring_invD:
  assumes "ring_inv ring"
  shows "rb_size ring = of_nat EARLY_RINGBUF_SIZE" "length (rb_buf ring) = 8192"
    "unat (rb_read_idx ring) \<le> 8192" "unat (rb_write_idx ring) \<le> 8192"
    "unat (rb_cur_len ring) \<le> 8192" "raw_lock (rb_lock ring) = 0"
    "(unat (rb_read_idx ring) + unat (rb_cur_len ring)) mod 8192 = unat (rb_write_idx ring) mod 8192"
  using assms by (auto simp: ring_inv_def EARLY_RINGBUF_SIZE_def)

lemma ring_free:
  assumes "ring_inv ring"
  shows "unat (via_int (rb_size ring - rb_cur_len ring)) = 8192 - unat (rb_cur_len ring)"
    and "unat (via_int (rb_size ring - rb_write_idx ring)) = 8192 - unat (rb_write_idx ring)"
    and "unat (via_int (rb_size ring - rb_read_idx ring)) = 8192 - unat (rb_read_idx ring)"
    and "unat (rb_size ring - rb_write_idx ring) = 8192 - unat (rb_write_idx ring)"
    and "unat (rb_size ring - rb_read_idx ring) = 8192 - unat (rb_read_idx ring)"
  using ring_invD [OF assms] by (simp_all add: via_int_small unat_diff_le)

lemma is_write_loop_iff:
  fixes n :: u64
  assumes "ring_inv ring" and "unat n \<le> 8192"
  shows "is_write_loop ring (ucast n) \<longleftrightarrow>
    unat (rb_read_idx ring) \<le> unat (rb_write_idx ring) \<and> unat (rb_cur_len ring) < 8192 \<and>
    8192 - unat (rb_write_idx ring) < unat n"
  using assms(2) ring_invD(1-6) [OF assms(1)] ring_free [OF assms(1)] via_uint_small [of n]
  by (simp add: is_write_loop_def word_less_nat_alt word_le_nat_alt)

lemma is_read_loop_iff:
  fixes n :: u64
  assumes "ring_inv ring" and "unat n \<le> 8192"
  shows "is_read_loop ring (ucast n) \<longleftrightarrow>
    unat (rb_write_idx ring) \<le> unat (rb_read_idx ring) \<and> 0 < unat (rb_cur_len ring) \<and>
    8192 - unat (rb_read_idx ring) < unat n"
  using assms(2) ring_invD(1-6) [OF assms(1)] ring_free [OF assms(1)] via_uint_small [of n]
  by (simp add: is_read_loop_def word_less_nat_alt word_le_nat_alt)

lemma is_write_loop_lock [simp]: "is_write_loop (ring\<lparr>rb_lock := l\<rparr>) n = is_write_loop ring n"
  by (simp add: is_write_loop_def)

lemma is_read_loop_lock [simp]: "is_read_loop (ring\<lparr>rb_lock := l\<rparr>) n = is_read_loop ring n"
  by (simp add: is_read_loop_def)

lemma write_refused:
  assumes "ring_inv ring" and "8192 < unat (rb_cur_len ring) + unat n"
  shows "pisces_early_ringbuf_write ring data n = Some (-1, ring)"
proof -
  have "via_int (rb_size ring - rb_cur_len ring) < n"
    using assms ring_free [OF assms(1)] ring_invD [OF assms(1)] by (simp add: word_less_nat_alt)
  with ring_invD [OF assms(1)] show ?thesis
    by (simp add: pisces_early_ringbuf_write_def)
qed

lemma write_wraps:
  assumes inv: "ring_inv ring" and fit: "unat (rb_cur_len ring) + unat n \<le> 8192"
    and len: "length data = unat n" and loop: "is_write_loop ring (ucast n)"
  shows "\<exists>ring'. pisces_early_ringbuf_write ring data n = Some (0, ring') \<and> ring_inv ring' \<and>
           ring_contents ring' = ring_contents ring @ data"
proof -
  let ?R = "unat (rb_read_idx ring)" and ?W = "unat (rb_write_idx ring)"
  let ?C = "unat (rb_cur_len ring)" and ?B = "rb_buf ring"
  let ?k = "via_int (rb_size ring - rb_write_idx ring)"
  let ?B' = "drop (8192 - ?W) data @ drop (unat n - (8192 - ?W)) (take ?W ?B @ take (8192 - ?W) data)"
  let ?ring' = "ring\<lparr>rb_buf := ?B', rb_write_idx := n - ?k, rb_cur_len := rb_cur_len ring + n\<rparr>"
  note D = ring_invD [OF inv] and F = ring_free [OF inv]
  have n: "unat n \<le> 8192" using fit by simp
  have wrap: "8192 < ?W + unat n" using is_write_loop_iff [OF inv n] loop by linarith
  have sub: "unat (n - ?k) = unat n - (8192 - ?W)"
    using wrap D(4) F(2) by (subst unat_diff_le) auto
  have cur: "unat (rb_cur_len ring + n) = ?C + unat n"
    using fit by (intro unat_add_small) simp
  have avail: "\<not> via_int (rb_size ring - rb_cur_len ring) < n"
    using fit F(1) D(5) by (simp add: word_less_nat_alt)
  have "memcpy ?B ?W data 0 (unat ?k) = Some (take ?W ?B @ take (8192 - ?W) data)"
    using D(2,4) F(2) wrap len by (simp add: memcpy_Some)
  moreover have "memcpy (take ?W ?B @ take (8192 - ?W) data) 0 data (unat ?k) (unat (n - ?k)) = Some ?B'"
    using D(2,4) F(2) sub wrap len n fit by (simp add: memcpy_def)
  ultimately have "pisces_early_ringbuf_write ring data n = Some (0, ?ring')"
    using avail loop D(6)
    by (simp add: pisces_early_ringbuf_write_def get_write_ptr_def del: take_append drop_append)
  moreover have "(?R + (?C + unat n)) mod 8192 = (unat n - (8192 - ?W)) mod 8192"
  proof -
    have "(?R + (?C + unat n)) mod 8192 = (?W + unat n) mod 8192"
      using mod_shift [OF D(7), of "unat n"] by (simp only: add.assoc)
    also have "?W + unat n = 8192 + (unat n - (8192 - ?W))" using wrap D(4) by simp
    finally show ?thesis by (simp only: mod_add_self1)
  qed
  then have "ring_inv ?ring'"
    using D(1-6) cur sub wrap fit len n
    by (simp add: ring_inv_def EARLY_RINGBUF_SIZE_def)
  moreover have "ring_contents ?ring' = ring_contents ring @ data"
    using cyc_write_wrap [of ?W ?B data ?C ?R] D wrap fit len cur
    by (simp add: ring_contents_def)
  ultimately show ?thesis by blast
qed

lemma write_linear_room:
  fixes n :: u64
  assumes inv: "ring_inv ring" and fit: "unat (rb_cur_len ring) + unat n \<le> 8192"
    and no: "\<not> is_write_loop ring (ucast n)"
  shows "unat (rb_write_idx ring) + unat n \<le> 8192"
proof (cases "unat (rb_read_idx ring) \<le> unat (rb_write_idx ring)")
  case True
  have n: "unat n \<le> 8192" using fit by simp
  show ?thesis
    using True no fit ring_invD(4) [OF inv] by (auto simp: is_write_loop_iff [OF inv n])
next
  case False
  with ring_gap [OF ring_invD(7) [OF inv]] ring_invD(3) [OF inv] fit show ?thesis by simp
qed

lemma write_linear:
  assumes inv: "ring_inv ring" and fit: "unat (rb_cur_len ring) + unat n \<le> 8192"
    and len: "length data = unat n" and no: "\<not> is_write_loop ring (ucast n)"
  shows "\<exists>ring'. pisces_early_ringbuf_write ring data n = Some (0, ring') \<and> ring_inv ring' \<and>
           ring_contents ring' = ring_contents ring @ data"
proof -
  let ?R = "unat (rb_read_idx ring)" and ?W = "unat (rb_write_idx ring)"
  let ?C = "unat (rb_cur_len ring)" and ?B = "rb_buf ring"
  let ?ring' = "ring\<lparr>rb_buf := take ?W ?B @ data @ drop (?W + unat n) ?B,
      rb_write_idx := rb_write_idx ring + n, rb_cur_len := rb_cur_len ring + n\<rparr>"
  note D = ring_invD [OF inv] and F = ring_free [OF inv]
  have lin: "?W + unat n \<le> 8192" by (rule write_linear_room [OF inv fit no])
  have cur: "unat (rb_cur_len ring + n) = ?C + unat n"
    using fit by (intro unat_add_small) simp
  have add: "unat (rb_write_idx ring + n) = ?W + unat n"
    using lin by (intro unat_add_small) simp
  have "\<not> via_int (rb_size ring - rb_cur_len ring) < n"
    using fit F(1) D(5) by (simp add: word_less_nat_alt)
  moreover have "memcpy ?B ?W data 0 (unat n) = Some (take ?W ?B @ data @ drop (?W + unat n) ?B)"
    using D(2) lin len by (simp add: memcpy_def)
  ultimately have "pisces_early_ringbuf_write ring data n = Some (0, ?ring')"
    using no D(6) by (simp add: pisces_early_ringbuf_write_def get_write_ptr_def)
  moreover have "(?R + (?C + unat n)) mod 8192 = (?W + unat n) mod 8192"
    using mod_shift [OF D(7), of "unat n"] by (simp only: add.assoc)
  then have "ring_inv ?ring'"
    using D(1-6) cur add lin fit len by (simp add: ring_inv_def EARLY_RINGBUF_SIZE_def)
  moreover have "ring_contents ?ring' = ring_contents ring @ data"
    using cyc_write_linear [of ?W data ?B ?C ?R] D lin fit len cur
    by (simp add: ring_contents_def)
  ultimately show ?thesis by blast
qed

lemma read_refused:
  assumes "ring_inv ring" and "unat (rb_cur_len ring) < unat n"
  shows "pisces_early_ringbuf_read ring data n = Some (-1, data, ring)"
  using assms(2) ring_invD(6) [OF assms(1)]
  by (simp add: pisces_early_ringbuf_read_def word_less_nat_alt)

lemma read_wraps:
  assumes inv: "ring_inv ring" and avail: "unat n \<le> unat (rb_cur_len ring)"
    and len: "length data = unat n" and loop: "is_read_loop ring (ucast n)"
  shows "\<exists>ring'. pisces_early_ringbuf_read ring data n =
             Some (0, take (unat n) (ring_contents ring), ring') \<and> ring_inv ring' \<and>
           ring_contents ring' = drop (unat n) (ring_contents ring)"
proof -
  let ?R = "unat (rb_read_idx ring)" and ?C = "unat (rb_cur_len ring)" and ?B = "rb_buf ring"
  let ?k = "via_int (rb_size ring - rb_read_idx ring)"
  let ?ring' = "ring\<lparr>rb_read_idx := n - ?k, rb_cur_len := rb_cur_len ring - n\<rparr>"
  note D = ring_invD [OF inv] and F = ring_free [OF inv]
  have n: "unat n \<le> 8192" using avail D(5) by simp
  have wrap: "8192 < ?R + unat n" using is_read_loop_iff [OF inv n] loop by linarith
  have sub: "unat (n - ?k) = unat n - (8192 - ?R)"
    using wrap D(3) F(3) by (subst unat_diff_le) auto
  have cur: "unat (rb_cur_len ring - n) = ?C - unat n"
    using avail by (rule unat_diff_le)
  have m: "(?R + unat n) mod 8192 = (unat n - (8192 - ?R)) mod 8192"
  proof -
    have "?R + unat n = 8192 + (unat n - (8192 - ?R))" using wrap D(3) by simp
    then show ?thesis by (simp only: mod_add_self1)
  qed
  have "memcpy data 0 ?B ?R (unat ?k) = Some (drop ?R ?B @ drop (8192 - ?R) data)"
    using D(2,3) F(3) wrap len by (simp add: memcpy_def)
  moreover have "memcpy (drop ?R ?B @ drop (8192 - ?R) data) (unat ?k) ?B 0 (unat (n - ?k)) =
      Some (cyc ?B ?R (unat n))"
    using D(2,3) F(3) sub wrap len n cyc_wrap [of ?R ?B "unat n"] by (simp add: memcpy_def)
  ultimately have rd: "pisces_early_ringbuf_read ring data n =
      Some (0, cyc ?B ?R (unat n), ?ring')"
    using avail loop D(6)
    by (simp add: pisces_early_ringbuf_read_def get_read_ptr_def word_less_nat_alt)
  have tk: "cyc ?B ?R (unat n) = take (unat n) (ring_contents ring)"
    using avail by (simp add: ring_contents_def cyc_take)
  have "(unat n - (8192 - ?R) + (?C - unat n)) mod 8192 = unat (rb_write_idx ring) mod 8192"
  proof -
    have "(unat n - (8192 - ?R) + (?C - unat n)) mod 8192 = (?R + unat n + (?C - unat n)) mod 8192"
      using mod_shift [OF m, of "?C - unat n"] by (simp only:)
    also have "?R + unat n + (?C - unat n) = ?R + ?C" using avail by simp
    finally show ?thesis using D(7) by simp
  qed
  moreover have "unat n - (8192 - ?R) \<le> 8192" "?C - unat n \<le> 8192"
    using n D(5) by linarith+
  ultimately have "ring_inv ?ring'"
    using D(1-6) cur sub by (simp add: ring_inv_def EARLY_RINGBUF_SIZE_def)
  moreover have "ring_contents ?ring' = drop (unat n) (ring_contents ring)"
    using avail m D(2) cur sub cyc_mod [of ?B "?R + unat n" "?C - unat n"]
      cyc_mod [of ?B "unat n - (8192 - ?R)" "?C - unat n"]
    by (simp add: ring_contents_def cyc_drop)
  ultimately show ?thesis using rd tk by metis
qed

lemma read_linear_room:
  fixes n :: u64
  assumes inv: "ring_inv ring" and avail: "unat n \<le> unat (rb_cur_len ring)"
    and no: "\<not> is_read_loop ring (ucast n)"
  shows "unat (rb_read_idx ring) + unat n \<le> 8192"
proof (cases "unat (rb_write_idx ring) \<le> unat (rb_read_idx ring)")
  case True
  have n: "unat n \<le> 8192" using avail ring_invD(5) [OF inv] by simp
  show ?thesis
    using True no avail ring_invD(3) [OF inv] by (auto simp: is_read_loop_iff [OF inv n])
next
  case False
  let ?R = "unat (rb_read_idx ring)" and ?W = "unat (rb_write_idx ring)"
  let ?C = "unat (rb_cur_len ring)"
  note D = ring_invD [OF inv]
  have "8192 dvd ?R + ?C - ?W" if "?W \<le> ?R + ?C"
    using that D(7) mod_eq_dvd_iff_nat [of ?W "?R + ?C" 8192] by simp
  moreover have "?R + ?C - ?W < 8192" using False D(5) by linarith
  ultimately have "?R + ?C \<le> ?W" by (metis dvd_imp_le le_cases linorder_not_less zero_less_diff)
  with avail D(4) show ?thesis by linarith
qed

lemma read_linear:
  assumes inv: "ring_inv ring" and avail: "unat n \<le> unat (rb_cur_len ring)"
    and len: "length data = unat n" and no: "\<not> is_read_loop ring (ucast n)"
  shows "\<exists>ring'. pisces_early_ringbuf_read ring data n =
             Some (0, take (unat n) (ring_contents ring), ring') \<and> ring_inv ring' \<and>
           ring_contents ring' = drop (unat n) (ring_contents ring)"
proof -
  let ?R = "unat (rb_read_idx ring)" and ?C = "unat (rb_cur_len ring)" and ?B = "rb_buf ring"
  let ?ring' = "ring\<lparr>rb_read_idx := rb_read_idx ring + n, rb_cur_len := rb_cur_len ring - n\<rparr>"
  note D = ring_invD [OF inv]
  have lin: "?R + unat n \<le> 8192" by (rule read_linear_room [OF inv avail no])
  have cur: "unat (rb_cur_len ring - n) = ?C - unat n"
    using avail by (rule unat_diff_le)
  have add: "unat (rb_read_idx ring + n) = ?R + unat n"
    using lin by (intro unat_add_small) simp
  have "pisces_early_ringbuf_read ring data n =
      Some (0, take (unat n) (ring_contents ring), ?ring')"
    using avail no D(2,6) lin len
    by (simp add: pisces_early_ringbuf_read_def get_read_ptr_def memcpy_Some word_less_nat_alt
        ring_contents_def cyc_take cyc_linear)
  moreover have "ring_inv ?ring'"
    using D cur add lin avail by (simp add: ring_inv_def EARLY_RINGBUF_SIZE_def)
  moreover have "ring_contents ?ring' = drop (unat n) (ring_contents ring)"
    using avail add cur by (simp add: ring_contents_def cyc_drop)
  ultimately show ?thesis by blast
qed

lemma write_accepted:
  assumes "ring_inv ring" and "unat (rb_cur_len ring) + unat n \<le> 8192" and "length data = unat n"
  shows "\<exists>ring'. pisces_early_ringbuf_write ring data n = Some (0, ring') \<and> ring_inv ring' \<and>
           ring_contents ring' = ring_contents ring @ data"
  using write_wraps [OF assms] write_linear [OF assms] by blast

lemma read_delivered:
  assumes "ring_inv ring" and "unat n \<le> unat (rb_cur_len ring)" and "length data = unat n"
  shows "\<exists>ring'. pisces_early_ringbuf_read ring data n =
             Some (0, take (unat n) (ring_contents ring), ring') \<and> ring_inv ring' \<and>
           ring_contents ring' = drop (unat n) (ring_contents ring)"
  using read_wraps [OF assms] read_linear [OF assms] by blast

lemma ring_init:
  "ring_inv (snd (pisces_early_ringbuf_init ring))"
  "ring_contents (snd (pisces_early_ringbuf_init ring)) = []"
  by (simp_all add: pisces_early_ringbuf_init_def ring_inv_def ring_contents_def
      pisces_lock_init_def EARLY_RINGBUF_SIZE_def)

section \<open>The ring is a byte FIFO\<close>

text \<open>
  A caller writes a whole message and reads into an array of its own of the requested
  length; a refused read leaves that array alone, so nothing is delivered.
\<close>

definition ring_put :: "pisces_early_ringbuf \<Rightarrow> bytes \<Rightarrow> (int \<times> pisces_early_ringbuf) option" where
  "ring_put ring xs = pisces_early_ringbuf_write ring xs (of_nat (length xs))"

definition ring_get ::
    "pisces_early_ringbuf \<Rightarrow> nat \<Rightarrow> (int \<times> bytes \<times> pisces_early_ringbuf) option" where
  "ring_get ring n =
     (case pisces_early_ringbuf_read ring (replicate n 0) (of_nat n) of
        None \<Rightarrow> None
      | Some (ret, d, ring') \<Rightarrow> Some (ret, if ret = 0 then d else [], ring'))"

lemma ring_bounded: "ring_inv ring \<Longrightarrow> length (ring_contents ring) \<le> EARLY_RINGBUF_SIZE"
  by (simp add: ring_invD(5) EARLY_RINGBUF_SIZE_def)

interpretation early_ring: byte_fifo ring_inv ring_contents EARLY_RINGBUF_SIZE ring_put ring_get
proof unfold_locales
  fix s :: pisces_early_ringbuf and xs :: bytes and n :: nat
  assume inv: "ring_inv s"
  show "length (ring_contents s) \<le> EARLY_RINGBUF_SIZE"
    by (rule ring_bounded [OF inv])
  show "\<exists>s'. ring_put s xs = Some (0, s') \<and> ring_inv s' \<and> ring_contents s' = ring_contents s @ xs"
    if "length (ring_contents s) + length xs \<le> EARLY_RINGBUF_SIZE"
  proof -
    have "unat (of_nat (length xs) :: u64) = length xs"
      using that by (intro unat_of_nat_u64) (simp add: EARLY_RINGBUF_SIZE_def)
    with that write_accepted [OF inv, of "of_nat (length xs)" xs] show ?thesis
      by (simp add: ring_put_def EARLY_RINGBUF_SIZE_def)
  qed
  show "ring_put s xs = Some (-1, s)"
    if "EARLY_RINGBUF_SIZE < length (ring_contents s) + length xs" "length xs < 2 ^ 64"
    using that write_refused [OF inv, of "of_nat (length xs)"]
    by (simp add: ring_put_def EARLY_RINGBUF_SIZE_def unat_of_nat_u64)
  show "\<exists>s'. ring_get s n = Some (0, take n (ring_contents s), s') \<and> ring_inv s' \<and>
          ring_contents s' = drop n (ring_contents s)" if "n \<le> length (ring_contents s)"
  proof -
    have "unat (of_nat n :: u64) = n"
      using that ring_bounded [OF inv] by (intro unat_of_nat_u64) (simp add: EARLY_RINGBUF_SIZE_def)
    with that read_delivered [OF inv, of "of_nat n" "replicate n 0"] show ?thesis
      by (auto simp: ring_get_def)
  qed
  show "ring_get s n = Some (-1, [], s)" if "length (ring_contents s) < n" "n < 2 ^ 64"
    using that read_refused [OF inv, of "of_nat n"] by (simp add: ring_get_def unat_of_nat_u64)
qed

section \<open>Properties\<close>

text \<open>
  a write of \<open>n\<close> bytes into the ring either fits, and then it returns 0, keeps the
  invariant and appends exactly those bytes, or it does not fit, and then it returns -1 and
  leaves the ring untouched. In both cases it comes back: it neither leaves the arrays nor
  keeps the lock.
\<close>

theorem ringbuf_write_correct:
  assumes "ring_inv ring" and "length data = unat n"
  shows "if unat (rb_cur_len ring) + unat n \<le> EARLY_RINGBUF_SIZE
         then \<exists>ring'. pisces_early_ringbuf_write ring data n = Some (0, ring') \<and>
                ring_inv ring' \<and> ring_contents ring' = ring_contents ring @ data
         else pisces_early_ringbuf_write ring data n = Some (-1, ring)"
  using write_accepted [OF assms(1) _ assms(2)] write_refused [OF assms(1), of n data]
  by (simp add: EARLY_RINGBUF_SIZE_def)

theorem ringbuf_write_correct_witness:
  "\<exists>ring'. pisces_early_ringbuf_write (snd (pisces_early_ringbuf_init undefined)) [1, 2, 3] 3 =
       Some (0, ring') \<and> ring_contents ring' = [1, 2, 3]"
proof -
  let ?r = "snd (pisces_early_ringbuf_init undefined)"
  have "unat (rb_cur_len ?r) = 0" by (simp add: pisces_early_ringbuf_init_def)
  with ringbuf_write_correct [of ?r "[1, 2, 3]" 3] ring_init [of undefined] show ?thesis
    by (auto simp: EARLY_RINGBUF_SIZE_def)
qed

text \<open>
  a read of \<open>n\<close> bytes delivers exactly the \<open>n\<close> oldest bytes into the caller's array,
  in order, also when they wrap around the end of the ring, and removes them; with fewer
  bytes in the ring it returns -1 and changes neither the ring nor the array.
\<close>

theorem ringbuf_read_correct:
  assumes "ring_inv ring" and "length data = unat n"
  shows "if unat n \<le> unat (rb_cur_len ring)
         then \<exists>ring'. pisces_early_ringbuf_read ring data n =
                  Some (0, take (unat n) (ring_contents ring), ring') \<and>
                ring_inv ring' \<and> ring_contents ring' = drop (unat n) (ring_contents ring)
         else pisces_early_ringbuf_read ring data n = Some (-1, data, ring)"
  using read_delivered [OF assms(1) _ assms(2)] read_refused [OF assms(1), of n data] by simp

theorem ringbuf_read_correct_witness:
  "pisces_early_ringbuf_read (snd (pisces_early_ringbuf_init undefined)) [9, 9] 2 =
     Some (-1, [9, 9], snd (pisces_early_ringbuf_init undefined))"
proof -
  let ?r = "snd (pisces_early_ringbuf_init undefined)"
  have "unat (rb_cur_len ?r) = 0" by (simp add: pisces_early_ringbuf_init_def)
  with ringbuf_read_correct [of ?r "[9, 9]" 2] ring_init [of undefined] show ?thesis
    by (auto simp: EARLY_RINGBUF_SIZE_def)
qed

text \<open>
  C26: any sequence of writes and reads on a freshly initialised ring returns, and what has
  been delivered is a prefix of what has been accepted, the rest being exactly the
  contents: no byte is lost, duplicated or reordered, whatever the sizes.
\<close>

theorem ringbuf_fifo_order:
  assumes "list_all byte_fifo.op_ok ops"
  shows "\<exists>acc del ring'. byte_fifo.fifo_run ring_put ring_get
             (snd (pisces_early_ringbuf_init ring)) [] [] ops = Some (acc, del, ring') \<and>
           ring_inv ring' \<and> acc = del @ ring_contents ring'"
  using early_ring.fifo_run_order [OF ring_init(1) [of ring], of "[]" "[]" ops] assms ring_init(2)
  by simp

theorem ringbuf_fifo_order_witness:
  "\<exists>acc del ring'. byte_fifo.fifo_run ring_put ring_get (snd (pisces_early_ringbuf_init undefined))
       [] [] [Inl [1, 2, 3], Inr 2, Inl [4], Inr 9] = Some (acc, del, ring') \<and>
     ring_inv ring' \<and> acc = del @ ring_contents ring'"
proof -
  have "list_all byte_fifo.op_ok [Inl ([1, 2, 3] :: bytes), Inr 2, Inl [4], Inr 9]"
    by (simp add: early_ring.op_ok_def)
  from ringbuf_fifo_order [OF this] show ?thesis .
qed

text \<open>
  \<open>pisces_early_ringbuf_is_full\<close> answers whether the ring holds any byte at all, not
  whether it is full: it is the negation of \<open>pisces_early_ringbuf_is_empty\<close>, so after a
  one-byte write into a fresh ring it already reports a full ring that still takes 8191
  bytes.
\<close>

theorem ringbuf_is_full_means_nonempty:
  "pisces_early_ringbuf_is_full ring = 1 - pisces_early_ringbuf_is_empty ring \<and>
   (\<exists>r1 r2. pisces_early_ringbuf_write (snd (pisces_early_ringbuf_init ring)) [b] 1 = Some (0, r1) \<and>
      pisces_early_ringbuf_is_full r1 = 1 \<and>
      pisces_early_ringbuf_write r1 (replicate 8191 c) 8191 = Some (0, r2))"
proof -
  let ?r = "snd (pisces_early_ringbuf_init ring)"
  obtain r1 where r1: "pisces_early_ringbuf_write ?r [b] 1 = Some (0, r1)" "ring_inv r1"
      "ring_contents r1 = [b]"
    using write_accepted [OF ring_init(1) [of ring], of 1 "[b]"] ring_init(2) [of ring]
    by (auto simp: pisces_early_ringbuf_init_def)
  then have "unat (rb_cur_len r1) = 1"
    using length_ring_contents [of r1] by simp
  moreover from this have "rb_cur_len r1 \<noteq> 0" by auto
  moreover obtain r2 where "pisces_early_ringbuf_write r1 (replicate 8191 c) 8191 = Some (0, r2)"
    using write_accepted [OF r1(2), of 8191 "replicate 8191 c"] calculation by auto
  ultimately show ?thesis
    using r1(1) by (auto simp: pisces_early_ringbuf_is_full_def pisces_early_ringbuf_is_empty_def)
qed

end
