(* ===== verification/Xbuf.thy ===== *)
theory Xbuf
  imports PiscesLock
begin

text \<open>
  The message channel between the host and an enclave (\<open>pisces_xbuf.c\<close>). A message of any
  length is moved in chunks through one shared buffer, handed back and forth with the
  \<open>STAGED\<close> flag; the \<open>PENDING\<close>, \<open>ACTIVE\<close> and \<open>COMPLETE\<close> flags carry a request through its
  life. The theory has the shared structure and its flag operations, the two transfer loops
  as step functions at the granularity of their accesses to the shared structure, the
  client call \<open>pisces_xbuf_sync_send\<close> and the server side (\<open>irq_handler\<close>, a handler that
  calls \<open>pisces_xbuf_recv\<close> and \<open>pisces_xbuf_complete\<close>) as program counters over those
  loops, and the system of any number of concurrent clients, one server and a host that may
  disable the channel at any moment.

  Local tests (a loop condition on a local counter) belong to the step before them; a
  \<open>memcpy\<close> of one chunk is one step. A step function yields \<open>None\<close> for a finished thread or
  for a copy that leaves its array.
\<close>

section \<open>The shared structure and its flags\<close>

abbreviation XBUF_READY :: u64 where "XBUF_READY \<equiv> 0x01"
abbreviation XBUF_PENDING :: u64 where "XBUF_PENDING \<equiv> 0x02"
abbreviation XBUF_STAGED :: u64 where "XBUF_STAGED \<equiv> 0x04"
abbreviation XBUF_ACTIVE :: u64 where "XBUF_ACTIVE \<equiv> 0x08"
abbreviation XBUF_COMPLETE :: u64 where "XBUF_COMPLETE \<equiv> 0x10"

record pisces_xbuf =
  xb_flags :: u64
  xb_host_apic :: u32
  xb_host_vector :: u32
  xb_enclave_cpu :: u32
  xb_enclave_vector :: u32
  xb_total_size :: u32
  xb_data_len :: u32
  xb_data :: bytes

text \<open>The bit fields of the union with \<open>flags\<close>.\<close>

definition xb_ready :: "pisces_xbuf \<Rightarrow> bool" where "xb_ready x = bit (xb_flags x) 0"
definition xb_pending :: "pisces_xbuf \<Rightarrow> bool" where "xb_pending x = bit (xb_flags x) 1"
definition xb_staged :: "pisces_xbuf \<Rightarrow> bool" where "xb_staged x = bit (xb_flags x) 2"
definition xb_active :: "pisces_xbuf \<Rightarrow> bool" where "xb_active x = bit (xb_flags x) 3"
definition xb_complete :: "pisces_xbuf \<Rightarrow> bool" where "xb_complete x = bit (xb_flags x) 4"

definition reset_flags :: "pisces_xbuf \<Rightarrow> pisces_xbuf" where
  "reset_flags x = x\<lparr>xb_flags := xb_flags x AND XBUF_READY\<rparr>"

definition set_flags :: "pisces_xbuf \<Rightarrow> u64 \<Rightarrow> pisces_xbuf" where
  "set_flags x new_flags = x\<lparr>xb_flags := new_flags\<rparr>"

definition raise_flag :: "pisces_xbuf \<Rightarrow> u64 \<Rightarrow> pisces_xbuf" where
  "raise_flag x flags = x\<lparr>xb_flags := xb_flags x OR flags\<rparr>"

definition lower_flag :: "pisces_xbuf \<Rightarrow> u64 \<Rightarrow> pisces_xbuf" where
  "lower_flag x flags = x\<lparr>xb_flags := xb_flags x AND NOT flags\<rparr>"

definition pisces_xbuf_pending :: "pisces_xbuf \<Rightarrow> int" where
  "pisces_xbuf_pending x = of_bool (xb_pending x)"

definition pisces_xbuf_disable :: "pisces_xbuf \<Rightarrow> int \<times> pisces_xbuf" where
  "pisces_xbuf_disable x =
     (if \<not> xb_ready x then (-1, x) else (0, lower_flag x XBUF_READY))"

definition pisces_xbuf_enable :: "pisces_xbuf \<Rightarrow> int \<times> pisces_xbuf" where
  "pisces_xbuf_enable x =
     (if xb_ready x then (-1, x) else (0, set_flags x XBUF_READY))"

lemmas xb_bits = xb_ready_def xb_pending_def xb_staged_def xb_active_def xb_complete_def
lemmas xb_flag_ops = reset_flags_def set_flags_def raise_flag_def lower_flag_def

named_theorems xb_simps \<open>the flags and fields of the shared structure after an operation\<close>

lemma bit_masks:
  "bit (1 :: u64) n = (n = 0)" "n < 64 \<Longrightarrow> bit (2 :: u64) n = (n = 1)"
  "n < 64 \<Longrightarrow> bit (4 :: u64) n = (n = 2)" "n < 64 \<Longrightarrow> bit (8 :: u64) n = (n = 3)"
  "n < 64 \<Longrightarrow> bit (16 :: u64) n = (n = 4)"
proof -
  show "bit (1 :: u64) n = (n = 0)" by (simp add: bit_1_iff)
  have p: "bit ((2 :: u64) ^ m) n = (n = m)" if "n < 64" for m
    using that by (auto simp: bit_simps)
  show "n < 64 \<Longrightarrow> bit (2 :: u64) n = (n = 1)" using p [of 1] by simp
  show "n < 64 \<Longrightarrow> bit (4 :: u64) n = (n = 2)" using p [of 2] by simp
  show "n < 64 \<Longrightarrow> bit (8 :: u64) n = (n = 3)" using p [of 3] by simp
  show "n < 64 \<Longrightarrow> bit (16 :: u64) n = (n = 4)" using p [of 4] by simp
qed

lemma reset_flags_bits [xb_simps]:
  "xb_ready (reset_flags x) = xb_ready x" "\<not> xb_pending (reset_flags x)"
  "\<not> xb_staged (reset_flags x)" "\<not> xb_active (reset_flags x)" "\<not> xb_complete (reset_flags x)"
  by (simp_all add: xb_bits reset_flags_def bit_simps bit_masks)

lemma raise_staged_bits [xb_simps]:
  "xb_ready (raise_flag x XBUF_STAGED) = xb_ready x"
  "xb_pending (raise_flag x XBUF_STAGED) = xb_pending x" "xb_staged (raise_flag x XBUF_STAGED)"
  "xb_active (raise_flag x XBUF_STAGED) = xb_active x"
  "xb_complete (raise_flag x XBUF_STAGED) = xb_complete x"
  by (simp_all add: xb_bits raise_flag_def bit_simps bit_masks)

lemma raise_pending_bits [xb_simps]:
  "xb_ready (raise_flag x XBUF_PENDING) = xb_ready x" "xb_pending (raise_flag x XBUF_PENDING)"
  "xb_staged (raise_flag x XBUF_PENDING) = xb_staged x"
  "xb_active (raise_flag x XBUF_PENDING) = xb_active x"
  "xb_complete (raise_flag x XBUF_PENDING) = xb_complete x"
  by (simp_all add: xb_bits raise_flag_def bit_simps bit_masks)

lemma raise_active_bits [xb_simps]:
  "xb_ready (raise_flag x XBUF_ACTIVE) = xb_ready x"
  "xb_pending (raise_flag x XBUF_ACTIVE) = xb_pending x"
  "xb_staged (raise_flag x XBUF_ACTIVE) = xb_staged x" "xb_active (raise_flag x XBUF_ACTIVE)"
  "xb_complete (raise_flag x XBUF_ACTIVE) = xb_complete x"
  by (simp_all add: xb_bits raise_flag_def bit_simps bit_masks)

lemma raise_complete_bits [xb_simps]:
  "xb_ready (raise_flag x XBUF_COMPLETE) = xb_ready x"
  "xb_pending (raise_flag x XBUF_COMPLETE) = xb_pending x"
  "xb_staged (raise_flag x XBUF_COMPLETE) = xb_staged x"
  "xb_active (raise_flag x XBUF_COMPLETE) = xb_active x" "xb_complete (raise_flag x XBUF_COMPLETE)"
  by (simp_all add: xb_bits raise_flag_def bit_simps bit_masks)

lemma lower_staged_bits [xb_simps]:
  "xb_ready (lower_flag x XBUF_STAGED) = xb_ready x"
  "xb_pending (lower_flag x XBUF_STAGED) = xb_pending x" "\<not> xb_staged (lower_flag x XBUF_STAGED)"
  "xb_active (lower_flag x XBUF_STAGED) = xb_active x"
  "xb_complete (lower_flag x XBUF_STAGED) = xb_complete x"
  by (simp_all add: xb_bits lower_flag_def bit_simps bit_masks)

lemma lower_ready_bits [xb_simps]:
  "\<not> xb_ready (lower_flag x XBUF_READY)"
  "xb_pending (lower_flag x XBUF_READY) = xb_pending x"
  "xb_staged (lower_flag x XBUF_READY) = xb_staged x"
  "xb_active (lower_flag x XBUF_READY) = xb_active x"
  "xb_complete (lower_flag x XBUF_READY) = xb_complete x"
  by (simp_all add: xb_bits lower_flag_def bit_simps bit_masks)

lemma flag_op_fields [xb_simps]:
  "xb_data (reset_flags x) = xb_data x" "xb_data (raise_flag x f) = xb_data x"
  "xb_data (lower_flag x f) = xb_data x" "xb_data_len (reset_flags x) = xb_data_len x"
  "xb_data_len (raise_flag x f) = xb_data_len x" "xb_data_len (lower_flag x f) = xb_data_len x"
  "xb_total_size (reset_flags x) = xb_total_size x"
  "xb_total_size (raise_flag x f) = xb_total_size x"
  "xb_total_size (lower_flag x f) = xb_total_size x"
  by (simp_all add: xb_flag_ops)

lemma field_update_bits [xb_simps]:
  "xb_ready (x\<lparr>xb_data := d\<rparr>) = xb_ready x" "xb_pending (x\<lparr>xb_data := d\<rparr>) = xb_pending x"
  "xb_staged (x\<lparr>xb_data := d\<rparr>) = xb_staged x" "xb_active (x\<lparr>xb_data := d\<rparr>) = xb_active x"
  "xb_complete (x\<lparr>xb_data := d\<rparr>) = xb_complete x"
  "xb_ready (x\<lparr>xb_data_len := n\<rparr>) = xb_ready x" "xb_pending (x\<lparr>xb_data_len := n\<rparr>) = xb_pending x"
  "xb_staged (x\<lparr>xb_data_len := n\<rparr>) = xb_staged x" "xb_active (x\<lparr>xb_data_len := n\<rparr>) = xb_active x"
  "xb_complete (x\<lparr>xb_data_len := n\<rparr>) = xb_complete x"
  by (simp_all add: xb_bits)

section \<open>The transfer loops\<close>

text \<open>
  \<open>stage_len\<close> is the length of the next chunk. \<open>init_stage_data\<close> is the whole first
  staging of a message; the client and the server below run it as its three accesses.
\<close>

definition stage_len :: "u32 \<Rightarrow> u32 \<Rightarrow> u32" where
  "stage_len left xbuf_size = (if left > xbuf_size then xbuf_size else left)"

definition init_stage_data :: "pisces_xbuf \<Rightarrow> bytes \<Rightarrow> u32 \<Rightarrow> (u32 \<times> pisces_xbuf) option" where
  "init_stage_data x data data_len =
     (let staged_len = stage_len data_len (xb_total_size x);
          x1 = x\<lparr>xb_data_len := data_len\<rparr>
      in do {
        buf \<leftarrow> memcpy (xb_data x1) 0 data 0 (unat staged_len);
        Some (staged_len, raise_flag (x1\<lparr>xb_data := buf\<rparr>) XBUF_STAGED)
      })"

text \<open>
  The locals of \<open>send_data\<close> and its program counter: the test of \<open>ready\<close> at the head of an
  iteration, the test of \<open>staged\<close>, the test of \<open>ready\<close> inside the wait, the copy, the raise
  of \<open>STAGED\<close>, and the return.
\<close>

datatype snd_pc = SReady | SStaged | SSpin | SCopy | SRaise | SRet u32

record sender =
  sn_pc :: snd_pc
  sn_data :: bytes
  sn_size :: u32
  sn_sent :: u32
  sn_left :: u32

definition send_loop :: "sender \<Rightarrow> sender" where
  "send_loop s = s\<lparr>sn_pc := if sn_left s > 0 then SReady else SRet (sn_sent s)\<rparr>"

definition send_init :: "pisces_xbuf \<Rightarrow> bytes \<Rightarrow> u32 \<Rightarrow> sender" where
  "send_init x data data_len =
     send_loop \<lparr>sn_pc = SReady, sn_data = data, sn_size = xb_total_size x, sn_sent = 0,
                sn_left = data_len\<rparr>"

definition send_data_step :: "pisces_xbuf \<Rightarrow> sender \<Rightarrow> (pisces_xbuf \<times> sender) option" where
  "send_data_step x s =
     (let staged_len = stage_len (sn_left s) (sn_size s) in
      case sn_pc s of
        SReady \<Rightarrow> Some (x, s\<lparr>sn_pc := if xb_ready x then SStaged else SRet 0\<rparr>)
      | SStaged \<Rightarrow> Some (x, s\<lparr>sn_pc := if xb_staged x then SSpin else SCopy\<rparr>)
      | SSpin \<Rightarrow> Some (x, s\<lparr>sn_pc := if xb_ready x then SStaged else SRet 0\<rparr>)
      | SCopy \<Rightarrow> do {
          buf \<leftarrow> memcpy (xb_data x) 0 (sn_data s) (unat (sn_sent s)) (unat staged_len);
          Some (x\<lparr>xb_data := buf\<rparr>, s\<lparr>sn_pc := SRaise\<rparr>)
        }
      | SRaise \<Rightarrow> Some (raise_flag x XBUF_STAGED,
          send_loop (s\<lparr>sn_sent := sn_sent s + staged_len, sn_left := sn_left s - staged_len\<rparr>))
      | SRet _ \<Rightarrow> None)"

text \<open>
  The locals of \<open>recv_data\<close>. The buffer allocated for the message has unspecified contents
  at first (zeros here). The counter of spins only decides when to print and to yield.
\<close>

datatype rcv_pc = RReady | RStaged | RSpin | RCopy | RLower | RRet u32

record receiver =
  rc_pc :: rcv_pc
  rc_buf :: bytes
  rc_size :: u32
  rc_read :: u32
  rc_left :: u32

definition recv_loop :: "receiver \<Rightarrow> receiver" where
  "recv_loop r = r\<lparr>rc_pc := if rc_left r > 0 then RReady else RRet (rc_read r)\<rparr>"

definition recv_init :: "pisces_xbuf \<Rightarrow> receiver" where
  "recv_init x =
     recv_loop \<lparr>rc_pc = RReady, rc_buf = replicate (unat (xb_data_len x)) 0,
                rc_size = xb_total_size x, rc_read = 0, rc_left = xb_data_len x\<rparr>"

definition recv_data_step :: "pisces_xbuf \<Rightarrow> receiver \<Rightarrow> (pisces_xbuf \<times> receiver) option" where
  "recv_data_step x r =
     (let staged_len = stage_len (rc_left r) (rc_size r) in
      case rc_pc r of
        RReady \<Rightarrow> Some (x, r\<lparr>rc_pc := if xb_ready x then RStaged else RRet 0\<rparr>)
      | RStaged \<Rightarrow> Some (x, r\<lparr>rc_pc := if xb_staged x then RCopy else RSpin\<rparr>)
      | RSpin \<Rightarrow> Some (x, r\<lparr>rc_pc := if xb_ready x then RStaged else RRet 0\<rparr>)
      | RCopy \<Rightarrow> do {
          buf \<leftarrow> memcpy (rc_buf r) (unat (rc_read r)) (xb_data x) 0 (unat staged_len);
          Some (x, r\<lparr>rc_buf := buf, rc_pc := RLower\<rparr>)
        }
      | RLower \<Rightarrow> Some (lower_flag x XBUF_STAGED,
          recv_loop (r\<lparr>rc_read := rc_read r + staged_len, rc_left := rc_left r - staged_len\<rparr>))
      | RRet _ \<Rightarrow> None)"

subsection \<open>Memory safety of the loops\<close>

text \<open>What each loop keeps about its own locals, whatever the other side does.\<close>

definition xbuf_ok :: "u32 \<Rightarrow> pisces_xbuf \<Rightarrow> bool" where
  "xbuf_ok X x \<longleftrightarrow> 0 < X \<and> xb_total_size x = X \<and> length (xb_data x) = unat X"

definition sender_ok :: "u32 \<Rightarrow> sender \<Rightarrow> bool" where
  "sender_ok X s \<longleftrightarrow> sn_size s = X \<and> unat (sn_sent s) + unat (sn_left s) = length (sn_data s) \<and>
     length (sn_data s) < 2 ^ 32 \<and> ((\<forall>n. sn_pc s \<noteq> SRet n) \<longrightarrow> 0 < sn_left s)"

definition receiver_ok :: "u32 \<Rightarrow> receiver \<Rightarrow> bool" where
  "receiver_ok X r \<longleftrightarrow> rc_size r = X \<and> unat (rc_read r) + unat (rc_left r) = length (rc_buf r) \<and>
     length (rc_buf r) < 2 ^ 32 \<and> ((\<forall>n. rc_pc r \<noteq> RRet n) \<longrightarrow> 0 < rc_left r)"

lemma unat_stage_len: "unat (stage_len l X) = min (unat l) (unat X)"
  by (auto simp: stage_len_def word_less_nat_alt min_def)

lemma stage_len_le: "stage_len l X \<le> l"
  by (simp add: stage_len_def word_less_nat_alt word_le_nat_alt)

lemma xbuf_ok_frame [xb_simps]:
  "xbuf_ok X (raise_flag x f) = xbuf_ok X x" "xbuf_ok X (lower_flag x f) = xbuf_ok X x"
  "xbuf_ok X (reset_flags x) = xbuf_ok X x" "xbuf_ok X (x\<lparr>xb_data_len := n\<rparr>) = xbuf_ok X x"
  by (simp_all add: xbuf_ok_def xb_simps)

lemma xbuf_ok_memcpy:
  "xbuf_ok X x \<Longrightarrow> memcpy (xb_data x) d src s n = Some buf \<Longrightarrow> xbuf_ok X (x\<lparr>xb_data := buf\<rparr>)"
  by (simp add: xbuf_ok_def memcpy_length)

lemma chunk_counts:
  assumes "unat a + unat l = n" and "n < 2 ^ 32"
  shows "unat (a + stage_len l X) = unat a + min (unat l) (unat X)"
    and "unat (l - stage_len l X) = unat l - min (unat l) (unat X)"
proof -
  have "unat a + unat (stage_len l X) < 2 ^ LENGTH(32)"
    using assms by (simp add: unat_stage_len)
  then show "unat (a + stage_len l X) = unat a + min (unat l) (unat X)"
    by (simp add: unat_add_small unat_stage_len)
  show "unat (l - stage_len l X) = unat l - min (unat l) (unat X)"
    using unat_diff_le [of "stage_len l X" l] by (simp add: unat_stage_len)
qed

lemma send_loop_ok:
  "sn_size s = X \<Longrightarrow> unat (sn_sent s) + unat (sn_left s) = length (sn_data s) \<Longrightarrow>
   length (sn_data s) < 2 ^ 32 \<Longrightarrow> sender_ok X (send_loop s)"
  by (auto simp: sender_ok_def send_loop_def word_neq_0_conv)

lemma recv_loop_ok:
  "rc_size r = X \<Longrightarrow> unat (rc_read r) + unat (rc_left r) = length (rc_buf r) \<Longrightarrow>
   length (rc_buf r) < 2 ^ 32 \<Longrightarrow> receiver_ok X (recv_loop r)"
  by (auto simp: receiver_ok_def recv_loop_def word_neq_0_conv)

lemma send_init_ok:
  "xbuf_ok X x \<Longrightarrow> length data = unat n \<Longrightarrow> sender_ok X (send_init x data n)"
  unfolding send_init_def by (rule send_loop_ok) (simp_all add: xbuf_ok_def)

lemma recv_init_ok: "xbuf_ok X x \<Longrightarrow> receiver_ok X (recv_init x)"
  unfolding recv_init_def by (rule recv_loop_ok) (simp_all add: xbuf_ok_def)

lemma send_data_step_ok:
  assumes "xbuf_ok X x" and "sender_ok X s" and "send_data_step x s = Some (x', s')"
  shows "xbuf_ok X x'" and "sender_ok X s'"
proof -
  have l: "0 < sn_left s" "sn_size s = X" "unat (sn_sent s) + unat (sn_left s) = length (sn_data s)"
    using assms(2,3) by (auto simp: sender_ok_def send_data_step_def split: snd_pc.splits)
  have n: "length (sn_data s) < 2 ^ 32" using assms(2) by (simp add: sender_ok_def)
  show "xbuf_ok X x'"
    using assms by (auto simp: send_data_step_def xb_simps Let_def xbuf_ok_memcpy
        split: snd_pc.splits bind_splits)
  show "sender_ok X s'"
  proof (cases "sn_pc s = SRaise")
    case True
    then have "s' = send_loop (s\<lparr>sn_sent := sn_sent s + stage_len (sn_left s) X,
        sn_left := sn_left s - stage_len (sn_left s) X\<rparr>)"
      using assms(3) l(2) by (simp add: send_data_step_def Let_def)
    then show ?thesis
      using l n by (auto intro!: send_loop_ok simp: chunk_counts [OF l(3) n])
  next
    case False
    then show ?thesis
      using assms(2,3) l by (auto simp: send_data_step_def sender_ok_def Let_def
          split: snd_pc.splits bind_splits)
  qed
qed

lemma recv_data_step_ok:
  assumes "xbuf_ok X x" and "receiver_ok X r" and "recv_data_step x r = Some (x', r')"
  shows "xbuf_ok X x'" and "receiver_ok X r'"
proof -
  have l: "0 < rc_left r" "rc_size r = X" "unat (rc_read r) + unat (rc_left r) = length (rc_buf r)"
    using assms(2,3) by (auto simp: receiver_ok_def recv_data_step_def split: rcv_pc.splits)
  have n: "length (rc_buf r) < 2 ^ 32" using assms(2) by (simp add: receiver_ok_def)
  show "xbuf_ok X x'"
    using assms by (auto simp: recv_data_step_def xb_simps Let_def split: rcv_pc.splits bind_splits)
  show "receiver_ok X r'"
  proof (cases "rc_pc r = RLower")
    case True
    then have "r' = recv_loop (r\<lparr>rc_read := rc_read r + stage_len (rc_left r) X,
        rc_left := rc_left r - stage_len (rc_left r) X\<rparr>)"
      using assms(3) l(2) by (simp add: recv_data_step_def Let_def)
    then show ?thesis
      using l n by (auto intro!: recv_loop_ok simp: chunk_counts [OF l(3) n])
  next
    case False
    then show ?thesis
      using assms(2,3) l
      by (auto simp: recv_data_step_def receiver_ok_def Let_def dest: memcpy_length
          split: rcv_pc.splits bind_splits)
  qed
qed

lemma send_data_step_safe:
  assumes "xbuf_ok X x" and "sender_ok X s" and "\<And>n. sn_pc s \<noteq> SRet n"
  shows "send_data_step x s \<noteq> None"
  using assms by (cases "sn_pc s")
    (auto simp: send_data_step_def sender_ok_def xbuf_ok_def memcpy_def unat_stage_len Let_def)

lemma recv_data_step_safe:
  assumes "xbuf_ok X x" and "receiver_ok X r" and "\<And>n. rc_pc r \<noteq> RRet n"
  shows "recv_data_step x r \<noteq> None"
  using assms by (cases "rc_pc r")
    (auto simp: recv_data_step_def receiver_ok_def xbuf_ok_def memcpy_def unat_stage_len Let_def)

subsection \<open>One message through the buffer\<close>

text \<open>
  The view a side has of the buffer: it may not touch it, it has seen that the buffer is
  its own, or it has copied a chunk and not yet handed the buffer over.
\<close>

datatype view = VwNone | VwOwn | VwCopied

definition snd_view :: "sender \<Rightarrow> view" where
  "snd_view s = (case sn_pc s of SCopy \<Rightarrow> VwOwn | SRaise \<Rightarrow> VwCopied | _ \<Rightarrow> VwNone)"

definition rcv_view :: "receiver \<Rightarrow> view" where
  "rcv_view r = (case rc_pc r of RCopy \<Rightarrow> VwOwn | RLower \<Rightarrow> VwCopied | _ \<Rightarrow> VwNone)"

text \<open>
  \<open>chan d x k sv r rv\<close>: of the message \<open>d\<close>, \<open>k\<close> bytes have been staged and \<open>r\<close> taken out.
\<close>

definition chan :: "bytes \<Rightarrow> pisces_xbuf \<Rightarrow> nat \<Rightarrow> view \<Rightarrow> nat \<Rightarrow> view \<Rightarrow> bool" where
  "chan d x k sv r rv \<longleftrightarrow>
     (let c = min (length d - r) (unat (xb_total_size x)) in
      if xb_staged x
      then sv = VwNone \<and> r < length d \<and> k = r + c \<and> take c (xb_data x) = take c (drop r d)
      else rv = VwNone \<and> k = r \<and> r \<le> length d \<and> (sv \<noteq> VwNone \<longrightarrow> r < length d) \<and>
           (sv = VwCopied \<longrightarrow> take c (xb_data x) = take c (drop r d)))"

definition sender_at :: "bytes \<Rightarrow> nat \<Rightarrow> sender \<Rightarrow> bool" where
  "sender_at d off s \<longleftrightarrow> sn_data s = drop off d \<and> off \<le> length d"

definition receiver_at :: "bytes \<Rightarrow> receiver \<Rightarrow> bool" where
  "receiver_at d r \<longleftrightarrow> length (rc_buf r) = length d \<and>
     take (unat (rc_read r)) (rc_buf r) = take (unat (rc_read r)) d \<and>
     (rc_pc r = RLower \<longrightarrow>
        (let m = unat (rc_read r) + min (unat (rc_left r)) (unat (rc_size r))
         in take m (rc_buf r) = take m d))"

text \<open>The other flags and fields, which no transfer touches.\<close>

definition same_call :: "pisces_xbuf \<Rightarrow> pisces_xbuf \<Rightarrow> bool" where
  "same_call x x' \<longleftrightarrow> xb_ready x' = xb_ready x \<and> xb_pending x' = xb_pending x \<and>
     xb_active x' = xb_active x \<and> xb_complete x' = xb_complete x \<and>
     xb_data_len x' = xb_data_len x \<and> xb_total_size x' = xb_total_size x"

lemma send_step_same_call: "send_data_step x s = Some (x', s') \<Longrightarrow> same_call x x'"
  by (auto simp: send_data_step_def same_call_def xb_simps Let_def
      split: snd_pc.splits bind_splits)

lemma recv_step_same_call: "recv_data_step x r = Some (x', r') \<Longrightarrow> same_call x x'"
  by (auto simp: recv_data_step_def same_call_def xb_simps Let_def
      split: rcv_pc.splits bind_splits)

lemma send_step_at: "sender_at d off s \<Longrightarrow> send_data_step x s = Some (x', s') \<Longrightarrow> sender_at d off s'"
  by (auto simp: send_data_step_def sender_at_def send_loop_def Let_def
      split: snd_pc.splits bind_splits)

text \<open>A step of the sender, while the channel is not disabled.\<close>

lemma send_step_chan:
  assumes ok: "xbuf_ok X x" "sender_ok X s" and at: "sender_at d off s" and "xb_ready x"
    and ch: "chan d x (off + unat (sn_sent s)) (snd_view s) r rv"
    and st: "send_data_step x s = Some (x', s')"
  shows "chan d x' (off + unat (sn_sent s')) (snd_view s') r rv"
    and "sn_pc s' = SRet n \<Longrightarrow> off + unat (sn_sent s') = length d"
proof -
  let ?l = "sn_left s" and ?k = "off + unat (sn_sent s)"
  have l: "0 < ?l" "sn_size s = X" "unat (sn_sent s) + unat ?l = length d - off"
      "length d - off < 2 ^ 32"
    using ok st at by (auto simp: sender_ok_def send_data_step_def sender_at_def split: snd_pc.splits)
  have X: "xb_total_size x = X" "length (xb_data x) = unat X" using ok(1) by (simp_all add: xbuf_ok_def)
  have k: "?k < length d" "length d - ?k = unat ?l"
    using l at by (auto simp: sender_at_def word_less_nat_alt)
  note cc = chunk_counts [OF l(3,4)]
  have "chan d x' (off + unat (sn_sent s')) (snd_view s') r rv \<and>
      (sn_pc s' = SRet n \<longrightarrow> off + unat (sn_sent s') = length d)"
  proof (cases "sn_pc s")
    case SCopy
    have "k = r" if "chan d x k VwOwn r rv" for k using that by (auto simp: chan_def Let_def split: if_splits)
    with ch SCopy have r: "r = ?k" by (auto simp: snd_view_def)
    show ?thesis
      using SCopy st ch at X l k r
      by (auto simp: send_data_step_def chan_def Let_def snd_view_def xb_simps memcpy_def
          unat_stage_len sender_at_def min_def add.commute split: if_splits bind_splits)
  next
    case SRaise
    have "chan d x' (?k + min (unat ?l) (unat X)) VwNone r rv"
      using SRaise st ch X l(1,2) k
      by (auto simp: send_data_step_def chan_def Let_def snd_view_def xb_simps split: if_splits)
    moreover have "?k + min (unat ?l) (unat X) = length d" if "unat ?l - min (unat ?l) (unat X) = 0"
      using that k by (auto simp: min_def split: if_splits)
    ultimately show ?thesis
      using SRaise st l cc
      by (auto simp: send_data_step_def send_loop_def snd_view_def Let_def add.assoc
          word_less_nat_alt split: if_splits)
  qed (use st ch \<open>xb_ready x\<close> k in
      \<open>auto simp: send_data_step_def chan_def Let_def snd_view_def split: if_splits\<close>)
  then show "chan d x' (off + unat (sn_sent s')) (snd_view s') r rv"
    and "sn_pc s' = SRet n \<Longrightarrow> off + unat (sn_sent s') = length d" by blast+
qed

text \<open>A step of the receiver, while the channel is not disabled.\<close>

lemma take_splice:
  assumes "length buf = length d" and "take a buf = take a d" and "a + c \<le> length d"
    and "take c src = take c (drop a d)" and "c \<le> length src"
  shows "take (a + c) (take a buf @ take c src @ drop (a + c) buf) = take (a + c) d"
  using assms by (simp add: take_add)

lemma recv_step_chan:
  assumes ok: "xbuf_ok X x" "receiver_ok X r" and at: "receiver_at d r" and "xb_ready x"
    and ch: "chan d x k sv (unat (rc_read r)) (rcv_view r)"
    and st: "recv_data_step x r = Some (x', r')"
  shows "chan d x' k sv (unat (rc_read r')) (rcv_view r')" and "receiver_at d r'"
    and "rc_pc r' = RRet n \<Longrightarrow> rc_buf r' = d \<and> unat (rc_read r') = length d \<and> n = rc_read r'"
proof -
  let ?l = "rc_left r" and ?r = "unat (rc_read r)" and ?c = "min (unat (rc_left r)) (unat X)"
  have l: "0 < ?l" "rc_size r = X" "?r + unat ?l = length d" "length d < 2 ^ 32"
    using ok st at
    by (auto simp: receiver_ok_def recv_data_step_def receiver_at_def split: rcv_pc.splits)
  have X: "xb_total_size x = X" "length (xb_data x) = unat X" using ok(1) by (simp_all add: xbuf_ok_def)
  have k: "?r < length d" "length d - ?r = unat ?l" using l by (auto simp: word_less_nat_alt)
  note cc = chunk_counts [OF l(3,4)]
  have "chan d x' k sv (unat (rc_read r')) (rcv_view r') \<and> receiver_at d r' \<and>
      (rc_pc r' = RRet n \<longrightarrow> rc_buf r' = d \<and> unat (rc_read r') = length d \<and> n = rc_read r')"
  proof (cases "rc_pc r")
    case RCopy
    then have "take ?c (xb_data x) = take ?c (drop ?r d)" "xb_staged x"
      using ch X k by (auto simp: chan_def Let_def rcv_view_def split: if_splits)
    moreover have "take (?r + ?c) (take ?r (rc_buf r) @ take ?c (xb_data x) @ drop (?r + ?c) (rc_buf r))
        = take (?r + ?c) d"
      using at l k X calculation(1) by (intro take_splice) (auto simp: receiver_at_def)
    ultimately show ?thesis
      using RCopy st ch at X l k
      by (auto simp: recv_data_step_def chan_def Let_def rcv_view_def memcpy_def
          unat_stage_len receiver_at_def split: if_splits bind_splits)
  next
    case RLower
    then have "xb_staged x" "k = ?r + ?c" "sv = VwNone"
      using ch X k by (auto simp: chan_def Let_def rcv_view_def split: if_splits)
    moreover have "take (?r + ?c) (rc_buf r) = take (?r + ?c) d"
      using RLower at l(2) by (simp add: receiver_at_def Let_def)
    moreover have "?r + ?c \<le> length d" using l by simp
    moreover have "rc_buf r = d" if "?r + ?c = length d"
      using that calculation(4) at by (simp add: receiver_at_def)
    moreover have "?r + ?c = length d" if "unat ?l - ?c = 0"
      using that k by (auto simp: min_def split: if_splits)
    ultimately show ?thesis
      using RLower st l(2) at cc
      by (auto simp: recv_data_step_def recv_loop_def rcv_view_def Let_def receiver_at_def
          chan_def xb_simps word_less_nat_alt split: if_splits)
  qed (use st ch at \<open>xb_ready x\<close> k in
      \<open>auto simp: recv_data_step_def chan_def Let_def rcv_view_def receiver_at_def split: if_splits\<close>)
  then show "chan d x' k sv (unat (rc_read r')) (rcv_view r')" and "receiver_at d r'"
    and "rc_pc r' = RRet n \<Longrightarrow> rc_buf r' = d \<and> unat (rc_read r') = length d \<and> n = rc_read r'" by blast+
qed

end
