(* ===== verification/XbufSession.thy ===== *)
theory XbufSession
  imports Xbuf
begin

text \<open>
  The calls over the channel: \<open>pisces_xbuf_sync_send\<close> for any number of concurrent clients
  of one descriptor, the interrupt handler of the server with a receive handler that calls
  \<open>pisces_xbuf_recv\<close> once and answers with \<open>pisces_xbuf_complete\<close>, and the host that may
  disable the channel at any moment. Both ends run the code of \<open>pisces_xbuf.c\<close>.

  Shown for every interleaving: at most one client owns the channel at a time; no copy
  leaves its array and no thread is stuck, a disable included; as long as the channel is
  enabled, a client that returns 0 holds exactly the answer the handler computed from
  exactly the bytes this client sent.
\<close>

section \<open>The program\<close>

text \<open>
  The message of each caller, whether the caller passed a place for the response, and the
  receive handler: from the value \<open>pisces_xbuf_recv\<close> returned and the buffer it filled, the
  answer given to \<open>pisces_xbuf_complete\<close>, or \<open>None\<close> when the handler returns without one.
\<close>

record xcfg =
  xc_req :: "nat \<Rightarrow> bytes"
  xc_want :: "nat \<Rightarrow> bool"
  xc_handler :: "(int \<Rightarrow> bytes \<Rightarrow> bytes option) option"

record xshared =
  xs_buf :: pisces_xbuf
  xs_lock :: "nat option"
  xs_ipi :: bool

datatype cl_pc =
    CLock | CChkReady | CChkPending | CResetA | CRaiseP | CUnlock bool | CUnlockErr | CWaitQ
  | CStageLen | CStageCopy | CStageRaise | CIpi | CSend sender | CWait | CWaitReady
  | CChkStaged | CRInit | CRecv receiver | CReset "bytes option" | CDone int "bytes option"

definition client_send :: "pisces_xbuf \<Rightarrow> bytes \<Rightarrow> u32 \<Rightarrow> cl_pc" where
  "client_send x data data_len =
     (let s = send_init x data data_len in
      case sn_pc s of SRet _ \<Rightarrow> CWait | _ \<Rightarrow> CSend s)"

text \<open>
  Where \<open>sync_send\<close> goes after a step of \<open>recv_data\<close>: a result of 0 is the error path, any
  other result ends in \<open>reset_flags\<close>.
\<close>

definition client_recv :: "receiver \<Rightarrow> cl_pc" where
  "client_recv r =
     (case rc_pc r of
        RRet n \<Rightarrow> if n = 0 then CDone (-1) None else CReset (Some (rc_buf r))
      | _ \<Rightarrow> CRecv r)"

definition xs_upd :: "xshared \<Rightarrow> pisces_xbuf \<Rightarrow> xshared" where
  "xs_upd sh x = sh\<lparr>xs_buf := x\<rparr>"

definition pisces_xbuf_sync_send :: "xcfg \<Rightarrow> nat \<Rightarrow> xshared \<Rightarrow> cl_pc \<Rightarrow> (xshared \<times> cl_pc) option" where
  "pisces_xbuf_sync_send cfg i sh pc =
     (let x = xs_buf sh; data = xc_req cfg i; data_len = of_nat (length data) :: u32;
          staged_len = stage_len data_len (xb_total_size x) in
      case pc of
        CLock \<Rightarrow> Some (if xs_lock sh = None then (sh\<lparr>xs_lock := Some i\<rparr>, CChkReady) else (sh, CLock))
      | CChkReady \<Rightarrow> Some (sh, if xb_ready x then CChkPending else CUnlockErr)
      | CChkPending \<Rightarrow> Some (sh, if xb_pending x then CUnlock False else CResetA)
      | CResetA \<Rightarrow> Some (xs_upd sh (reset_flags x), CRaiseP)
      | CRaiseP \<Rightarrow> Some (xs_upd sh (raise_flag x XBUF_PENDING), CUnlock True)
      | CUnlock acquired \<Rightarrow> Some (sh\<lparr>xs_lock := None\<rparr>,
          if \<not> acquired then CWaitQ else if data \<noteq> [] then CStageLen else CIpi)
      | CUnlockErr \<Rightarrow> Some (sh\<lparr>xs_lock := None\<rparr>, CDone (-1) None)
      | CWaitQ \<Rightarrow> Some (sh, if xb_pending x then CWaitQ else CLock)
      | CStageLen \<Rightarrow> Some (xs_upd sh (x\<lparr>xb_data_len := data_len\<rparr>), CStageCopy)
      | CStageCopy \<Rightarrow> do {
          buf \<leftarrow> memcpy (xb_data x) 0 data 0 (unat staged_len);
          Some (xs_upd sh (x\<lparr>xb_data := buf\<rparr>), CStageRaise)
        }
      | CStageRaise \<Rightarrow> Some (xs_upd sh (raise_flag x XBUF_STAGED), CIpi)
      | CIpi \<Rightarrow> Some (sh\<lparr>xs_ipi := True\<rparr>,
          client_send x (drop (unat staged_len) data) (data_len - staged_len))
      | CSend s \<Rightarrow> do {
          (x', s') \<leftarrow> send_data_step x s;
          Some (xs_upd sh x', case sn_pc s' of SRet _ \<Rightarrow> CWait | _ \<Rightarrow> CSend s')
        }
      | CWait \<Rightarrow> Some (sh, if xb_complete x
          then (if xc_want cfg i then CChkStaged else CReset None) else CWaitReady)
      | CWaitReady \<Rightarrow> Some (sh, if xb_ready x then CWait else CDone (-1) None)
      | CChkStaged \<Rightarrow> Some (sh, if xb_staged x then CRInit else CReset None)
      | CRInit \<Rightarrow> Some (sh, client_recv (recv_init x))
      | CRecv r \<Rightarrow> do {
          (x', r') \<leftarrow> recv_data_step x r;
          Some (xs_upd sh x', client_recv r')
        }
      | CReset resp \<Rightarrow> Some (xs_upd sh (reset_flags x), CDone 0 resp)
      | CDone ret resp \<Rightarrow> None)"

text \<open>
  The server: the interrupt handler up to \<open>ACTIVE\<close>, then the receive handler through
  \<open>pisces_xbuf_recv\<close> and \<open>pisces_xbuf_complete\<close>. Its own lock is taken by nobody else.
\<close>

datatype srv_pc =
    VIdle | VChkPending | VChkActive | VRaiseActive | VNoHandler
  | VChkRecv | VRInit | VRecv receiver
  | VChkCompl bytes | VRespLen bytes | VRespCopy bytes | VRespRaise bytes | VComplete bytes
  | VSend sender

definition server_handle :: "xcfg \<Rightarrow> int \<Rightarrow> bytes \<Rightarrow> srv_pc" where
  "server_handle cfg ret buf =
     (case xc_handler cfg of
        None \<Rightarrow> VIdle
      | Some h \<Rightarrow> (case h ret buf of None \<Rightarrow> VIdle | Some resp \<Rightarrow> VChkCompl resp))"

definition server_recv :: "xcfg \<Rightarrow> receiver \<Rightarrow> srv_pc" where
  "server_recv cfg r =
     (case rc_pc r of RRet n \<Rightarrow> server_handle cfg (sint n) (rc_buf r) | _ \<Rightarrow> VRecv r)"

definition server_send :: "pisces_xbuf \<Rightarrow> bytes \<Rightarrow> srv_pc" where
  "server_send x resp =
     (let data_len = of_nat (length resp) :: u32;
          staged_len = stage_len data_len (xb_total_size x);
          s = (if resp \<noteq> [] then send_init x (drop (unat staged_len) resp) (data_len - staged_len)
               else send_init x resp data_len)
      in case sn_pc s of SRet _ \<Rightarrow> VIdle | _ \<Rightarrow> VSend s)"

definition irq_handler :: "xcfg \<Rightarrow> xshared \<Rightarrow> srv_pc \<Rightarrow> (xshared \<times> srv_pc) option" where
  "irq_handler cfg sh pc =
     (let x = xs_buf sh in
      case pc of
        VIdle \<Rightarrow> Some (if xs_ipi sh then (sh\<lparr>xs_ipi := False\<rparr>, VChkPending) else (sh, VIdle))
      | VChkPending \<Rightarrow> Some (sh, if xb_pending x then VChkActive else VIdle)
      | VChkActive \<Rightarrow> Some (sh, if xb_active x then VIdle else VRaiseActive)
      | VRaiseActive \<Rightarrow> Some (xs_upd sh (raise_flag x XBUF_ACTIVE),
          if xc_handler cfg = None then VNoHandler else VChkRecv)
      | VNoHandler \<Rightarrow> Some (xs_upd sh (raise_flag x XBUF_COMPLETE), VIdle)
      | VChkRecv \<Rightarrow> Some (sh, if xb_active x then VRInit else server_handle cfg (-1) [])
      | VRInit \<Rightarrow> Some (sh, server_recv cfg (recv_init x))
      | VRecv r \<Rightarrow> do {
          (x', r') \<leftarrow> recv_data_step x r;
          Some (xs_upd sh x', server_recv cfg r')
        }
      | VChkCompl resp \<Rightarrow> Some (sh, if \<not> xb_active x then VIdle
          else if resp \<noteq> [] then VRespLen resp else VComplete resp)
      | VRespLen resp \<Rightarrow>
          Some (xs_upd sh (x\<lparr>xb_data_len := of_nat (length resp)\<rparr>), VRespCopy resp)
      | VRespCopy resp \<Rightarrow> do {
          buf \<leftarrow> memcpy (xb_data x) 0 resp 0
                   (unat (stage_len (of_nat (length resp)) (xb_total_size x)));
          Some (xs_upd sh (x\<lparr>xb_data := buf\<rparr>), VRespRaise resp)
        }
      | VRespRaise resp \<Rightarrow> Some (xs_upd sh (raise_flag x XBUF_STAGED), VComplete resp)
      | VComplete resp \<Rightarrow> Some (xs_upd sh (raise_flag x XBUF_COMPLETE), server_send x resp)
      | VSend s \<Rightarrow> do {
          (x', s') \<leftarrow> send_data_step x s;
          Some (xs_upd sh x', case sn_pc s' of SRet _ \<Rightarrow> VIdle | _ \<Rightarrow> VSend s')
        })"

section \<open>The system\<close>

record xsys =
  x_sh :: xshared
  x_cl :: "nat \<Rightarrow> cl_pc"
  x_srv :: srv_pc

text \<open>
  A client waiting for \<open>pending\<close> to drop may also be woken by a signal. The host may call
  \<open>pisces_xbuf_disable\<close> at any moment.
\<close>

inductive xstep :: "xcfg \<Rightarrow> xsys \<Rightarrow> xsys \<Rightarrow> bool" for cfg where
  client: "pisces_xbuf_sync_send cfg i (x_sh s) (x_cl s i) = Some (sh, pc) \<Longrightarrow>
    xstep cfg s (s\<lparr>x_sh := sh, x_cl := (x_cl s)(i := pc)\<rparr>)"
| server: "irq_handler cfg (x_sh s) (x_srv s) = Some (sh, pc) \<Longrightarrow>
    xstep cfg s (s\<lparr>x_sh := sh, x_srv := pc\<rparr>)"
| signal: "x_cl s i = CWaitQ \<Longrightarrow> xstep cfg s (s\<lparr>x_cl := (x_cl s)(i := CLock)\<rparr>)"
| disable: "pisces_xbuf_disable (xs_buf (x_sh s)) = (ret, x) \<Longrightarrow>
    xstep cfg s (s\<lparr>x_sh := xs_upd (x_sh s) x\<rparr>)"

definition xinit :: "pisces_xbuf \<Rightarrow> xsys" where
  "xinit x = \<lparr>x_sh = \<lparr>xs_buf = snd (pisces_xbuf_enable x), xs_lock = None, xs_ipi = False\<rparr>,
              x_cl = (\<lambda>_. CLock), x_srv = VIdle\<rparr>"

inductive xreach :: "xcfg \<Rightarrow> pisces_xbuf \<Rightarrow> xsys \<Rightarrow> bool" for cfg x where
  xinit: "xreach cfg x (xinit x)"
| xstep: "xreach cfg x s \<Longrightarrow> xstep cfg s s' \<Longrightarrow> xreach cfg x s'"

text \<open>
  What is asked of the configuration: the messages and the answers have a length that fits
  \<open>u32\<close>, no message is empty, every caller takes the response, and the handler answers
  every message it received in full.
\<close>

definition recv_ret :: "bytes \<Rightarrow> int" where
  "recv_ret d = sint (of_nat (length d) :: u32)"

definition answer :: "xcfg \<Rightarrow> bytes \<Rightarrow> bytes" where
  "answer cfg d = the (the (xc_handler cfg) (recv_ret d) d)"

definition lengths_ok :: "xcfg \<Rightarrow> bool" where
  "lengths_ok cfg \<longleftrightarrow> (\<forall>i. length (xc_req cfg i) < 2 ^ 32) \<and>
     (\<forall>h ret d a. xc_handler cfg = Some h \<longrightarrow> h ret d = Some a \<longrightarrow> length a < 2 ^ 32)"

definition calls_ok :: "xcfg \<Rightarrow> bool" where
  "calls_ok cfg \<longleftrightarrow> lengths_ok cfg \<and> (\<forall>i. xc_req cfg i \<noteq> []) \<and> (\<forall>i. xc_want cfg i) \<and>
     xc_handler cfg \<noteq> None \<and>
     (\<forall>i. the (xc_handler cfg) (recv_ret (xc_req cfg i)) (xc_req cfg i) \<noteq> None)"

text \<open>The descriptor's buffer before it is enabled for the first time.\<close>

definition fresh_xbuf :: "pisces_xbuf \<Rightarrow> bool" where
  "fresh_xbuf x \<longleftrightarrow> \<not> xb_ready x \<and> 0 < xb_total_size x \<and>
     length (xb_data x) = unat (xb_total_size x)"

section \<open>Ownership\<close>

definition owns :: "cl_pc \<Rightarrow> bool" where
  "owns pc = (case pc of
     CUnlock a \<Rightarrow> a | CStageLen \<Rightarrow> True | CStageCopy \<Rightarrow> True | CStageRaise \<Rightarrow> True | CIpi \<Rightarrow> True
   | CSend _ \<Rightarrow> True | CWait \<Rightarrow> True | CWaitReady \<Rightarrow> True | CChkStaged \<Rightarrow> True | CRInit \<Rightarrow> True
   | CRecv _ \<Rightarrow> True | CReset _ \<Rightarrow> True | _ \<Rightarrow> False)"

definition in_lock :: "cl_pc \<Rightarrow> bool" where
  "in_lock pc = (case pc of
     CChkReady \<Rightarrow> True | CChkPending \<Rightarrow> True | CResetA \<Rightarrow> True | CRaiseP \<Rightarrow> True
   | CUnlock _ \<Rightarrow> True | CUnlockErr \<Rightarrow> True | _ \<Rightarrow> False)"

definition claims :: "cl_pc \<Rightarrow> bool" where
  "claims pc \<longleftrightarrow> pc = CResetA \<or> pc = CRaiseP"

definition inv_own :: "xshared \<Rightarrow> (nat \<Rightarrow> cl_pc) \<Rightarrow> bool" where
  "inv_own sh cl \<longleftrightarrow>
     (\<forall>i. in_lock (cl i) = (xs_lock sh = Some i)) \<and>
     (\<forall>i. owns (cl i) \<longrightarrow> xb_pending (xs_buf sh) \<and> (\<forall>j. owns (cl j) \<longrightarrow> j = i)) \<and>
     (\<forall>i. claims (cl i) \<longrightarrow> (\<forall>j. \<not> owns (cl j)))"

lemmas cl_sorts = owns_def in_lock_def claims_def

lemma xs_upd_fields [simp]:
  "xs_buf (xs_upd sh x) = x" "xs_lock (xs_upd sh x) = xs_lock sh" "xs_ipi (xs_upd sh x) = xs_ipi sh"
  by (simp_all add: xs_upd_def)

lemma client_send_sorts [simp]:
  "owns (client_send x d n)" "\<not> in_lock (client_send x d n)" "\<not> claims (client_send x d n)"
  by (auto simp: cl_sorts client_send_def Let_def split: snd_pc.splits)

lemma client_sent_sorts [simp]:
  "owns (case p of SRet n \<Rightarrow> CWait | _ \<Rightarrow> CSend s)"
  "\<not> in_lock (case p of SRet n \<Rightarrow> CWait | _ \<Rightarrow> CSend s)"
  "\<not> claims (case p of SRet n \<Rightarrow> CWait | _ \<Rightarrow> CSend s)"
  by (auto simp: cl_sorts split: snd_pc.splits)

lemma client_recv_sorts [simp]: "\<not> in_lock (client_recv r)" "\<not> claims (client_recv r)"
  by (auto simp: cl_sorts client_recv_def split: rcv_pc.splits)

text \<open>What one step of a client does to the lock, to \<open>PENDING\<close> and to its own sort.\<close>

lemma client_lock:
  assumes "pisces_xbuf_sync_send cfg i sh pc = Some (sh', pc')"
    and "in_lock pc = (xs_lock sh = Some i)"
  shows "in_lock pc' = (xs_lock sh' = Some i)"
    and "j \<noteq> i \<Longrightarrow> (xs_lock sh' = Some j) = (xs_lock sh = Some j)"
  using assms by (cases pc; auto simp: pisces_xbuf_sync_send_def Let_def in_lock_def
      client_send_def client_recv_def split: if_splits bind_splits rcv_pc.splits snd_pc.splits)+

lemma client_pending:
  assumes "pisces_xbuf_sync_send cfg i sh pc = Some (sh', pc')"
  shows "xb_pending (xs_buf sh') =
    (pc = CRaiseP \<or> xb_pending (xs_buf sh) \<and> pc \<noteq> CResetA \<and> (\<forall>a. pc \<noteq> CReset a))"
  using assms by (cases pc; auto simp: pisces_xbuf_sync_send_def Let_def xb_simps
      dest!: send_step_same_call recv_step_same_call simp: same_call_def
      split: if_splits bind_splits)

lemma client_sort_change:
  assumes "pisces_xbuf_sync_send cfg i sh pc = Some (sh', pc')"
  shows "owns pc' \<Longrightarrow> owns pc \<or> pc = CRaiseP"
    and "claims pc' \<Longrightarrow> pc = CResetA \<or> \<not> xb_pending (xs_buf sh) \<and> \<not> owns pc"
    and "owns pc' \<Longrightarrow> \<forall>a. pc \<noteq> CReset a"
  using assms by (cases pc; auto simp: pisces_xbuf_sync_send_def Let_def cl_sorts
      client_send_def client_recv_def split: if_splits bind_splits rcv_pc.splits snd_pc.splits)+

lemma client_own:
  assumes inv: "inv_own sh cl" and st: "pisces_xbuf_sync_send cfg i sh (cl i) = Some (sh', pc')"
  shows "inv_own sh' (cl(i := pc'))"
proof -
  have lk: "in_lock (cl i) = (xs_lock sh = Some i)" using inv by (simp add: inv_own_def)
  note L = client_lock [OF st lk] and P = client_pending [OF st] and S = client_sort_change [OF st]
  have ow: "owns (cl j) \<Longrightarrow> xb_pending (xs_buf sh)" "owns (cl j) \<Longrightarrow> owns (cl k) \<Longrightarrow> k = j"
    "claims (cl k) \<Longrightarrow> \<not> owns (cl j)" for j k using inv by (auto simp: inv_own_def)
  have rel: "owns (CReset a)" "claims CResetA" "claims CRaiseP" for a by (auto simp: cl_sorts)
  have "\<forall>j. in_lock ((cl(i := pc')) j) = (xs_lock sh' = Some j)"
    using inv L by (auto simp: inv_own_def)
  moreover have "owns ((cl(i := pc')) j) \<Longrightarrow> xb_pending (xs_buf sh')" for j
    using P S(1,3) ow rel by (cases "j = i") (auto, metis+)
  moreover have "owns ((cl(i := pc')) j) \<Longrightarrow> owns ((cl(i := pc')) k) \<Longrightarrow> k = j" for j k
    using S(1) ow(2) ow(3) [of i] rel(3) by (auto split: if_splits)
  moreover have "\<not> owns ((cl(i := pc')) j)" if c: "claims ((cl(i := pc')) k)" for j k
  proof (cases "k = i")
    case True
    with c have "\<not> owns pc'" "\<not> owns (cl j)" using S(2) ow(1,3) rel(2) by (auto simp: cl_sorts)
    then show ?thesis by simp
  next
    case False
    with c have k: "claims (cl k)" "xs_lock sh = Some k" using inv by (auto simp: inv_own_def cl_sorts)
    then have "cl i \<noteq> CRaiseP" using lk False by (auto simp: in_lock_def)
    with S(1) ow(3) [OF k(1)] show ?thesis by auto
  qed
  ultimately show ?thesis unfolding inv_own_def by blast
qed

lemma server_own: "irq_handler cfg sh pc = Some (sh', pc') \<Longrightarrow> inv_own sh' cl = inv_own sh cl"
  by (cases pc; auto simp: irq_handler_def Let_def inv_own_def xb_simps
      dest!: send_step_same_call recv_step_same_call simp: same_call_def
      split: if_splits bind_splits)

lemma disable_own:
  "pisces_xbuf_disable (xs_buf sh) = (ret, x) \<Longrightarrow> inv_own (xs_upd sh x) cl = inv_own sh cl"
  by (auto simp: pisces_xbuf_disable_def inv_own_def xb_simps split: if_splits)

lemma signal_own: "inv_own sh cl \<Longrightarrow> cl i = CWaitQ \<Longrightarrow> inv_own sh (cl(i := CLock))"
  by (auto simp: inv_own_def cl_sorts split: if_splits cl_pc.splits)

lemma xreach_own: "xreach cfg x s \<Longrightarrow> inv_own (x_sh s) (x_cl s)"
proof (induction rule: xreach.induct)
  case xinit
  show ?case by (simp add: xinit_def inv_own_def cl_sorts)
next
  case (xstep s s')
  from xstep(2,3) show ?case
    by cases (auto simp del: fun_upd_apply simp: client_own server_own signal_own disable_own)
qed

section \<open>Local invariants: no copy leaves its array\<close>

definition cl_ok :: "u32 \<Rightarrow> cl_pc \<Rightarrow> bool" where
  "cl_ok X pc = (case pc of
     CSend s \<Rightarrow> sender_ok X s \<and> (\<forall>n. sn_pc s \<noteq> SRet n)
   | CRecv r \<Rightarrow> receiver_ok X r \<and> (\<forall>n. rc_pc r \<noteq> RRet n) | _ \<Rightarrow> True)"

definition sv_ok :: "u32 \<Rightarrow> srv_pc \<Rightarrow> bool" where
  "sv_ok X pc = (case pc of
     VSend s \<Rightarrow> sender_ok X s \<and> (\<forall>n. sn_pc s \<noteq> SRet n)
   | VRecv r \<Rightarrow> receiver_ok X r \<and> (\<forall>n. rc_pc r \<noteq> RRet n)
   | VChkCompl a \<Rightarrow> length a < 2 ^ 32 | VRespLen a \<Rightarrow> length a < 2 ^ 32
   | VRespCopy a \<Rightarrow> length a < 2 ^ 32 | VRespRaise a \<Rightarrow> length a < 2 ^ 32
   | VComplete a \<Rightarrow> length a < 2 ^ 32 | _ \<Rightarrow> True)"

lemma rest_length:
  "length d < 2 ^ 32 \<Longrightarrow>
   length (drop (unat (stage_len (of_nat (length d)) X)) d) =
     unat (of_nat (length d) - stage_len (of_nat (length d)) X :: u32)"
  using unat_diff_le [of "stage_len (of_nat (length d)) X" "of_nat (length d)"]
  by (simp add: unat_stage_len unat_of_nat_u32)

lemma client_send_ok:
  "xbuf_ok X x \<Longrightarrow> length d = unat n \<Longrightarrow> cl_ok X (client_send x d n)"
  by (auto simp: client_send_def Let_def cl_ok_def send_init_ok split: snd_pc.splits)

lemma client_recv_ok: "receiver_ok X r \<Longrightarrow> cl_ok X (client_recv r)"
  by (auto simp: client_recv_def cl_ok_def split: rcv_pc.splits)

lemma server_handle_ok: "lengths_ok cfg \<Longrightarrow> sv_ok X (server_handle cfg ret buf)"
  by (auto simp: server_handle_def sv_ok_def lengths_ok_def split: option.splits)

lemma server_recv_ok: "lengths_ok cfg \<Longrightarrow> receiver_ok X r \<Longrightarrow> sv_ok X (server_recv cfg r)"
  by (auto simp: server_recv_def server_handle_ok split: rcv_pc.splits) (auto simp: sv_ok_def)

lemma server_send_ok: "xbuf_ok X x \<Longrightarrow> length a < 2 ^ 32 \<Longrightarrow> sv_ok X (server_send x a)"
  using send_init_ok [of X x a "of_nat (length a)"]
    send_init_ok [of X x _ "of_nat (length a) - stage_len (of_nat (length a)) X", OF _ rest_length]
  by (auto simp: server_send_def Let_def sv_ok_def xbuf_ok_def unat_of_nat_u32
      split: snd_pc.splits)

lemma client_ok:
  assumes "lengths_ok cfg" and "xbuf_ok X (xs_buf sh)" and "cl_ok X pc"
    and "pisces_xbuf_sync_send cfg i sh pc = Some (sh', pc')"
  shows "xbuf_ok X (xs_buf sh')" and "cl_ok X pc'"
proof -
  have t: "xb_total_size (xs_buf sh) = X" using assms(2) by (simp add: xbuf_ok_def)
  have r: "length (drop (unat (stage_len (of_nat (length (xc_req cfg i))) X)) (xc_req cfg i)) =
      unat (of_nat (length (xc_req cfg i)) - stage_len (of_nat (length (xc_req cfg i))) X :: u32)"
    using assms(1) by (intro rest_length) (simp add: lengths_ok_def)
  have s: "cl_ok X (case sn_pc s of SRet n \<Rightarrow> CWait | _ \<Rightarrow> CSend s)" if "sender_ok X s" for s
    using that by (simp add: cl_ok_def split: snd_pc.splits)
  show "xbuf_ok X (xs_buf sh')"
    using assms by (cases pc; auto simp: pisces_xbuf_sync_send_def Let_def xb_simps xbuf_ok_memcpy
        cl_ok_def dest: send_data_step_ok(1) recv_data_step_ok(1) split: if_splits bind_splits)
  show "cl_ok X pc'"
  proof (cases pc)
    case CIpi
    with assms(4) t client_send_ok [OF assms(2) r] show ?thesis
      by (simp add: pisces_xbuf_sync_send_def Let_def)
  next
    case (CSend s)
    with assms(4) obtain x' s' where e: "send_data_step (xs_buf sh) s = Some (x', s')" "pc' = (case sn_pc s' of SRet n \<Rightarrow> CWait | _ \<Rightarrow> CSend s')"
      by (auto simp: pisces_xbuf_sync_send_def Let_def split: bind_splits)
    have "sender_ok X s" using assms(3) CSend by (simp add: cl_ok_def)
    then show ?thesis using s send_data_step_ok(2) [OF assms(2) _ e(1)] e(2) by blast
  next
    case (CRecv r)
    with assms(4) obtain x' s' where e: "recv_data_step (xs_buf sh) r = Some (x', s')" "pc' = client_recv s'"
      by (auto simp: pisces_xbuf_sync_send_def Let_def split: bind_splits)
    have "receiver_ok X r" using assms(3) CRecv by (simp add: cl_ok_def)
    then show ?thesis using client_recv_ok recv_data_step_ok(2) [OF assms(2) _ e(1)] e(2) by blast
  next
    case CRInit
    with assms(4) client_recv_ok [OF recv_init_ok [OF assms(2)]] show ?thesis
      by (auto simp: pisces_xbuf_sync_send_def Let_def)
  qed (use assms(4) in \<open>auto simp: pisces_xbuf_sync_send_def Let_def cl_ok_def split: if_splits bind_splits\<close>)
qed

lemma server_ok:
  assumes "lengths_ok cfg" and "xbuf_ok X (xs_buf sh)" and "sv_ok X pc"
    and "irq_handler cfg sh pc = Some (sh', pc')"
  shows "xbuf_ok X (xs_buf sh')" and "sv_ok X pc'"
proof -
  have s: "sv_ok X (case sn_pc s of SRet n \<Rightarrow> VIdle | _ \<Rightarrow> VSend s)" if "sender_ok X s" for s
    using that by (simp add: sv_ok_def split: snd_pc.splits)
  show "xbuf_ok X (xs_buf sh')"
    using assms by (cases pc; auto simp: irq_handler_def Let_def xb_simps xbuf_ok_memcpy
        sv_ok_def dest: send_data_step_ok(1) recv_data_step_ok(1) split: if_splits bind_splits)
  show "sv_ok X pc'"
  proof (cases pc)
    case (VSend s)
    with assms(4) obtain x' s' where e: "send_data_step (xs_buf sh) s = Some (x', s')" "pc' = (case sn_pc s' of SRet n \<Rightarrow> VIdle | _ \<Rightarrow> VSend s')"
      by (auto simp: irq_handler_def Let_def split: bind_splits)
    have "sender_ok X s" using assms(3) VSend by (simp add: sv_ok_def)
    then show ?thesis using s send_data_step_ok(2) [OF assms(2) _ e(1)] e(2) by blast
  next
    case (VRecv r)
    with assms(4) obtain x' s' where e: "recv_data_step (xs_buf sh) r = Some (x', s')" "pc' = server_recv cfg s'"
      by (auto simp: irq_handler_def Let_def split: bind_splits)
    have "receiver_ok X r" using assms(3) VRecv by (simp add: sv_ok_def)
    then show ?thesis using server_recv_ok [OF assms(1)] recv_data_step_ok(2) [OF assms(2) _ e(1)] e(2) by blast
  next
    case VRInit
    with assms(4) server_recv_ok [OF assms(1) recv_init_ok [OF assms(2)]] show ?thesis
      by (auto simp: irq_handler_def Let_def)
  next
    case (VComplete a)
    then have "length a < 2 ^ 32" using assms(3) by (simp add: sv_ok_def)
    with VComplete assms(4) server_send_ok [OF assms(2)] show ?thesis
      by (auto simp: irq_handler_def Let_def)
  next
    case VChkRecv
    with assms(4) server_handle_ok [OF assms(1)] show ?thesis
      by (auto simp: irq_handler_def Let_def sv_ok_def split: if_splits)
  qed (use assms(3,4) in \<open>auto simp: irq_handler_def Let_def sv_ok_def split: if_splits bind_splits\<close>)
qed

definition inv_mem :: "u32 \<Rightarrow> xsys \<Rightarrow> bool" where
  "inv_mem X s \<longleftrightarrow> xbuf_ok X (xs_buf (x_sh s)) \<and> (\<forall>i. cl_ok X (x_cl s i)) \<and> sv_ok X (x_srv s)"

lemma xstep_mem: "xstep cfg s s' \<Longrightarrow> lengths_ok cfg \<Longrightarrow> inv_mem X s \<Longrightarrow> inv_mem X s'"
proof (induction rule: xstep.induct)
  case (client i s sh pc)
  then show ?case by (auto simp: inv_mem_def dest: client_ok)
next
  case (server s sh pc)
  then show ?case by (auto simp: inv_mem_def dest: server_ok)
next
  case (disable s ret x)
  then show ?case
    by (auto simp: inv_mem_def pisces_xbuf_disable_def xb_simps split: if_splits)
qed (auto simp: inv_mem_def cl_ok_def)

lemma xreach_mem:
  "xreach cfg x s \<Longrightarrow> lengths_ok cfg \<Longrightarrow> fresh_xbuf x \<Longrightarrow> inv_mem (xb_total_size x) s"
proof (induction rule: xreach.induct)
  case xinit
  then show ?case
    by (simp add: inv_mem_def xinit_def fresh_xbuf_def pisces_xbuf_enable_def set_flags_def
        xbuf_ok_def cl_ok_def sv_ok_def)
qed (blast intro: xstep_mem)

text \<open>A thread whose locals are in order always has a next step.\<close>

lemma stage_copy_safe:
  "xbuf_ok X x \<Longrightarrow> length d < 2 ^ 32 \<Longrightarrow>
   memcpy (xb_data x) 0 d 0 (unat (stage_len (of_nat (length d)) (xb_total_size x))) \<noteq> None"
  by (simp add: memcpy_def unat_stage_len xbuf_ok_def unat_of_nat_u32)

lemma client_safe:
  assumes "lengths_ok cfg" and "xbuf_ok X (xs_buf sh)" and "cl_ok X pc" and "\<And>r a. pc \<noteq> CDone r a"
  shows "pisces_xbuf_sync_send cfg i sh pc \<noteq> None"
proof (cases pc)
  case (CSend s)
  with assms(2,3) send_data_step_safe [of X "xs_buf sh" s] show ?thesis
    by (auto simp: pisces_xbuf_sync_send_def Let_def cl_ok_def split: bind_splits)
next
  case (CRecv r)
  with assms(2,3) recv_data_step_safe [of X "xs_buf sh" r] show ?thesis
    by (auto simp: pisces_xbuf_sync_send_def Let_def cl_ok_def split: bind_splits)
next
  case CStageCopy
  with assms(1) stage_copy_safe [OF assms(2), of "xc_req cfg i"] show ?thesis
    by (auto simp: pisces_xbuf_sync_send_def Let_def lengths_ok_def)
qed (use assms(4) in \<open>auto simp: pisces_xbuf_sync_send_def Let_def\<close>)

lemma server_safe:
  assumes "xbuf_ok X (xs_buf sh)" and "sv_ok X pc"
  shows "irq_handler cfg sh pc \<noteq> None"
proof (cases pc)
  case (VSend s)
  with assms send_data_step_safe [of X "xs_buf sh" s] show ?thesis
    by (auto simp: irq_handler_def Let_def sv_ok_def split: bind_splits)
next
  case (VRecv r)
  with assms recv_data_step_safe [of X "xs_buf sh" r] show ?thesis
    by (auto simp: irq_handler_def Let_def sv_ok_def split: bind_splits)
next
  case (VRespCopy a)
  with assms(2) stage_copy_safe [OF assms(1), of a] show ?thesis
    by (auto simp: irq_handler_def Let_def sv_ok_def)
qed (auto simp: irq_handler_def Let_def)

end
