(* ===== verification/XbufCall.thy ===== *)
theory XbufCall
  imports XbufSession
begin

text \<open>
  The life of one call over the channel, as five phases (staging the first chunk, moving the
  request, serving it, moving the response, the end), and the proof that every step of
  either end, of another client and of the host keeps the state in one of them as long as the
  channel is enabled. The theorems about the channel follow.
\<close>

section \<open>A call from acquisition to return\<close>

text \<open>Where the two ends stand in the transfer of the request and of the response.\<close>

definition first_len :: "bytes \<Rightarrow> pisces_xbuf \<Rightarrow> nat" where
  "first_len d x = min (length d) (unat (xb_total_size x))"

definition cl_sends :: "bytes \<Rightarrow> pisces_xbuf \<Rightarrow> cl_pc \<Rightarrow> nat \<Rightarrow> view \<Rightarrow> bool" where
  "cl_sends d x C k sv = (case C of
     CIpi \<Rightarrow> k = first_len d x \<and> sv = VwNone
   | CSend s \<Rightarrow> sender_at d (first_len d x) s \<and> k = first_len d x + unat (sn_sent s) \<and>
       k < length d \<and> sv = snd_view s
   | CWait \<Rightarrow> k = length d \<and> sv = VwNone | CWaitReady \<Rightarrow> k = length d \<and> sv = VwNone
   | _ \<Rightarrow> False)"

definition sv_receives :: "bytes \<Rightarrow> srv_pc \<Rightarrow> nat \<Rightarrow> view \<Rightarrow> bool" where
  "sv_receives d V r rv = (case V of
     VRecv rc \<Rightarrow> receiver_at d rc \<and> r = unat (rc_read rc) \<and> rv = rcv_view rc
   | _ \<Rightarrow> V \<in> {VIdle, VChkPending, VChkActive, VRaiseActive, VChkRecv, VRInit} \<and> r = 0 \<and> rv = VwNone)"

definition sv_sends :: "bytes \<Rightarrow> pisces_xbuf \<Rightarrow> srv_pc \<Rightarrow> nat \<Rightarrow> view \<Rightarrow> bool" where
  "sv_sends a x V k sv = (case V of
     VSend s \<Rightarrow> sender_at a (first_len a x) s \<and> k = first_len a x + unat (sn_sent s) \<and>
       k < length a \<and> sv = snd_view s
   | _ \<Rightarrow> V = VIdle \<and> k = length a \<and> sv = VwNone)"

definition cl_receives :: "bytes \<Rightarrow> cl_pc \<Rightarrow> nat \<Rightarrow> view \<Rightarrow> bool" where
  "cl_receives a C r rv = (case C of
     CRecv rc \<Rightarrow> receiver_at a rc \<and> r = unat (rc_read rc) \<and> rv = rcv_view rc
   | _ \<Rightarrow> C \<in> {CWait, CWaitReady, CChkStaged, CRInit} \<and> r = 0 \<and> rv = VwNone)"

text \<open>The five phases of a call with message \<open>d\<close> and answer \<open>a\<close>.\<close>

definition ph_stage :: "bytes \<Rightarrow> pisces_xbuf \<Rightarrow> bool \<Rightarrow> cl_pc \<Rightarrow> srv_pc \<Rightarrow> bool" where
  "ph_stage d x ipi C V \<longleftrightarrow>
     C \<in> {CUnlock True, CStageLen, CStageCopy, CStageRaise} \<and> V = VIdle \<and> \<not> ipi \<and>
     \<not> xb_active x \<and> \<not> xb_complete x \<and> \<not> xb_staged x \<and>
     (C \<in> {CStageCopy, CStageRaise} \<longrightarrow> xb_data_len x = of_nat (length d)) \<and>
     (C = CStageRaise \<longrightarrow> take (first_len d x) (xb_data x) = take (first_len d x) d)"

definition ph_req :: "bytes \<Rightarrow> pisces_xbuf \<Rightarrow> bool \<Rightarrow> cl_pc \<Rightarrow> srv_pc \<Rightarrow> bool" where
  "ph_req d x ipi C V \<longleftrightarrow>
     \<not> xb_complete x \<and> xb_pending x \<and> xb_data_len x = of_nat (length d) \<and>
     (\<exists>k sv r rv. cl_sends d x C k sv \<and> sv_receives d V r rv \<and> chan d x k sv r rv) \<and>
     (xb_active x \<longleftrightarrow> V \<notin> {VIdle, VChkPending, VChkActive, VRaiseActive}) \<and>
     (ipi \<longleftrightarrow> V = VIdle \<and> C \<noteq> CIpi) \<and> (C = CIpi \<longrightarrow> V = VIdle)"

definition ph_serve :: "bytes \<Rightarrow> pisces_xbuf \<Rightarrow> bool \<Rightarrow> cl_pc \<Rightarrow> srv_pc \<Rightarrow> bool" where
  "ph_serve a x ipi C V \<longleftrightarrow>
     C \<in> {CWait, CWaitReady} \<and> \<not> ipi \<and> \<not> xb_complete x \<and> xb_active x \<and>
     (V \<in> {VChkCompl a, VRespLen a, VRespCopy a, VRespRaise a} \<and> \<not> xb_staged x \<and>
        (V \<noteq> VChkCompl a \<longrightarrow> a \<noteq> []) \<and>
        (V \<in> {VRespCopy a, VRespRaise a} \<longrightarrow> xb_data_len x = of_nat (length a)) \<and>
        (V = VRespRaise a \<longrightarrow> take (first_len a x) (xb_data x) = take (first_len a x) a) \<or>
      V = VComplete a \<and>
        (if a = [] then \<not> xb_staged x
         else xb_data_len x = of_nat (length a) \<and> chan a x (first_len a x) VwNone 0 VwNone))"

definition ph_resp :: "bytes \<Rightarrow> pisces_xbuf \<Rightarrow> bool \<Rightarrow> cl_pc \<Rightarrow> srv_pc \<Rightarrow> bool" where
  "ph_resp a x ipi C V \<longleftrightarrow>
     \<not> ipi \<and> xb_complete x \<and>
     (if a = [] then \<not> xb_staged x \<and> V = VIdle \<and> C \<in> {CWait, CWaitReady, CChkStaged}
      else xb_data_len x = of_nat (length a) \<and>
        (\<exists>k sv r rv. sv_sends a x V k sv \<and> cl_receives a C r rv \<and> chan a x k sv r rv))"

definition response :: "bytes \<Rightarrow> bytes option" where
  "response a = (if a = [] then None else Some a)"

definition ph_end :: "bytes \<Rightarrow> bool \<Rightarrow> cl_pc \<Rightarrow> srv_pc \<Rightarrow> bool" where
  "ph_end a ipi C V \<longleftrightarrow> C = CReset (response a) \<and> V = VIdle \<and> \<not> ipi"

definition in_call :: "bytes \<Rightarrow> bytes \<Rightarrow> pisces_xbuf \<Rightarrow> bool \<Rightarrow> cl_pc \<Rightarrow> srv_pc \<Rightarrow> bool" where
  "in_call d a x ipi C V \<longleftrightarrow>
     ph_stage d x ipi C V \<or> ph_req d x ipi C V \<or> ph_serve a x ipi C V \<or> ph_resp a x ipi C V \<or>
     ph_end a ipi C V"

definition free_xbuf :: "pisces_xbuf \<Rightarrow> bool \<Rightarrow> srv_pc \<Rightarrow> bool" where
  "free_xbuf x ipi V \<longleftrightarrow> V = VIdle \<and> \<not> ipi \<and> \<not> xb_pending x \<and> \<not> xb_staged x \<and> \<not> xb_active x \<and>
     \<not> xb_complete x"

lemma first_len_frame [xb_simps]:
  "first_len d (raise_flag x f) = first_len d x" "first_len d (lower_flag x f) = first_len d x"
  "first_len d (x\<lparr>xb_data := b\<rparr>) = first_len d x" "first_len d (x\<lparr>xb_data_len := n\<rparr>) = first_len d x"
  by (simp_all add: first_len_def xb_simps)

lemma first_len_same: "same_call x x' \<Longrightarrow> first_len d x' = first_len d x"
  by (simp add: first_len_def same_call_def)

lemma sv_sends_same: "same_call x x' \<Longrightarrow> sv_sends a x' V k sv = sv_sends a x V k sv"
  by (simp add: sv_sends_def first_len_same split: srv_pc.split)

lemma cl_sends_same: "same_call x x' \<Longrightarrow> cl_sends a x' C k sv = cl_sends a x C k sv"
  by (simp add: cl_sends_def first_len_same split: cl_pc.split)

lemma call_frame:
  "cl_sends d (raise_flag x f) = cl_sends d x" "sv_sends d (raise_flag x f) = sv_sends d x"
  "chan d (raise_flag x XBUF_ACTIVE) = chan d x" "chan d (raise_flag x XBUF_COMPLETE) = chan d x"
  by (intro ext, simp add: cl_sends_def sv_sends_def chan_def xb_simps
      split: cl_pc.split srv_pc.split)+

lemma first_len_stage:
  "length d < 2 ^ 32 \<Longrightarrow> unat (stage_len (of_nat (length d)) (xb_total_size x)) = first_len d x"
  by (simp add: unat_stage_len first_len_def unat_of_nat_u32)

lemma staged_prefix:
  "length d < 2 ^ 32 \<Longrightarrow> xbuf_ok X x \<Longrightarrow>
   memcpy (xb_data x) 0 d 0 (unat (stage_len (of_nat (length d)) (xb_total_size x))) = Some buf \<Longrightarrow>
   take (first_len d x) buf = take (first_len d x) d"
  by (auto simp: memcpy_def first_len_stage first_len_def split: if_splits)

lemma chan_first:
  "d \<noteq> [] \<Longrightarrow> xb_staged x \<Longrightarrow> take (first_len d x) (xb_data x) = take (first_len d x) d \<Longrightarrow>
   chan d x (first_len d x) VwNone 0 VwNone"
  by (simp add: chan_def first_len_def)

text \<open>Starting the loop over what is left after the first chunk.\<close>

lemma send_init_rest:
  assumes "length d < 2 ^ 32" and "xbuf_ok X x"
  defines "s \<equiv> send_init x (drop (first_len d x) d)
    (of_nat (length d) - stage_len (of_nat (length d)) (xb_total_size x))"
  shows "sender_at d (first_len d x) s" and "sn_sent s = 0" and "snd_view s = VwNone"
    and "(\<exists>n. sn_pc s = SRet n) = (first_len d x = length d)"
proof -
  show "sender_at d (first_len d x) s" "sn_sent s = 0" "snd_view s = VwNone"
    by (auto simp: s_def send_init_def send_loop_def sender_at_def first_len_def snd_view_def)
  have "unat (sn_left s) = length d - first_len d x"
    using rest_length [OF assms(1), of "xb_total_size x"] first_len_stage [OF assms(1), of x]
    by (simp add: s_def send_init_def send_loop_def)
  then show "(\<exists>n. sn_pc s = SRet n) = (first_len d x = length d)"
    by (auto simp: s_def send_init_def send_loop_def word_less_nat_alt first_len_def split: if_splits)
qed

text \<open>The position of a sender after a step that meets no disabled channel.\<close>

lemma send_step_pos:
  assumes ok: "xbuf_ok X x" "sender_ok X s" and at: "sender_at d off s" and "xb_ready x"
    and ch: "chan d x (off + unat (sn_sent s)) (snd_view s) r rv"
    and st: "send_data_step x s = Some (x', s')"
  shows "\<exists>k sv. chan d x' k sv r rv \<and>
    (case sn_pc s' of SRet _ \<Rightarrow> k = length d \<and> sv = VwNone
     | _ \<Rightarrow> k = off + unat (sn_sent s') \<and> k < length d \<and> sv = snd_view s')"
proof (cases "\<exists>n. sn_pc s' = SRet n")
  case True
  then show ?thesis using send_step_chan [OF assms] by (auto simp: snd_view_def)
next
  case False
  then have "0 < sn_left s'" "unat (sn_sent s') + unat (sn_left s') = length d - off"
    using send_data_step_ok(2) [OF ok st] send_step_at [OF at st]
    by (auto simp: sender_ok_def sender_at_def)
  then have "off + unat (sn_sent s') < length d" by (simp add: word_less_nat_alt)
  with False send_step_chan(1) [OF assms] show ?thesis by (auto split: snd_pc.splits)
qed

subsection \<open>Steps of the owner\<close>

lemmas cl_step = pisces_xbuf_sync_send_def Let_def
lemmas sv_step = irq_handler_def Let_def

lemma client_stage:
  assumes d: "length (xc_req cfg i) < 2 ^ 32" "xc_req cfg i \<noteq> []" and ok: "xbuf_ok X (xs_buf sh)"
    and pend: "xb_pending (xs_buf sh)" and ph: "ph_stage (xc_req cfg i) (xs_buf sh) (xs_ipi sh) C V"
    and st: "pisces_xbuf_sync_send cfg i sh C = Some (sh', C')"
  shows "if C = CStageRaise then ph_req (xc_req cfg i) (xs_buf sh') (xs_ipi sh') C' V
    else ph_stage (xc_req cfg i) (xs_buf sh') (xs_ipi sh') C' V"
proof (cases "C = CStageRaise")
  case True
  then show ?thesis
    using ph st pend chan_first [OF d(2), of "xs_buf sh'"]
    by (auto simp: ph_stage_def ph_req_def cl_step xb_simps cl_sends_def sv_receives_def)
next
  case False
  then show ?thesis
    using ph st d staged_prefix [OF d(1) ok]
    by (auto simp: ph_stage_def cl_step xb_simps split: bind_splits)
qed

lemma client_req:
  assumes d: "length d < 2 ^ 32" "xc_req cfg i = d" and ok: "xbuf_ok X (xs_buf sh)" "cl_ok X C"
    and rdy: "xb_ready (xs_buf sh)" and ph: "ph_req d (xs_buf sh) (xs_ipi sh) C V"
    and st: "pisces_xbuf_sync_send cfg i sh C = Some (sh', C')"
  shows "ph_req d (xs_buf sh') (xs_ipi sh') C' V"
proof -
  obtain k sv r rv where c: "cl_sends d (xs_buf sh) C k sv" "sv_receives d V r rv"
      "chan d (xs_buf sh) k sv r rv" using ph by (auto simp: ph_req_def)
  show ?thesis
  proof (cases C)
    case CIpi
    note I = send_init_rest [OF d(1) ok(1)]
    have C': "C' = client_send (xs_buf sh) (drop (first_len d (xs_buf sh)) d)
        (of_nat (length d) - stage_len (of_nat (length d)) (xb_total_size (xs_buf sh)))"
      and sh': "xs_buf sh' = xs_buf sh" "xs_ipi sh'"
      using st CIpi d(2) by (auto simp: cl_step first_len_stage [OF d(1)])
    have "cl_sends d (xs_buf sh) C' k sv" "C' \<noteq> CIpi"
      using c(1) CIpi I by (auto simp: C' client_send_def cl_sends_def first_len_def
          Let_def split: snd_pc.splits)
    then show ?thesis using ph c sh' CIpi by (auto simp: ph_req_def)
  next
    case (CSend s)
    then obtain x' s' where e: "send_data_step (xs_buf sh) s = Some (x', s')"
        "sh' = xs_upd sh x'" "C' = (case sn_pc s' of SRet n \<Rightarrow> CWait | _ \<Rightarrow> CSend s')"
      using st by (auto simp: cl_step split: bind_splits)
    have s: "sender_ok X s" "sender_at d (first_len d (xs_buf sh)) s" "sv = snd_view s"
        "k = first_len d (xs_buf sh) + unat (sn_sent s)"
      using ok(2) c(1) CSend by (auto simp: cl_ok_def cl_sends_def)
    note same = send_step_same_call [OF e(1)] and at = send_step_at [OF s(2) e(1)]
    have "\<exists>k sv. cl_sends d x' C' k sv \<and> chan d x' k sv r rv"
      using send_step_pos [OF ok(1) s(1,2) rdy _ e(1), of r rv] c(3) s(3,4) e(3) at
      by (auto simp: cl_sends_def first_len_same [OF same] split: snd_pc.splits)
    then show ?thesis
      using ph c same CSend e by (auto simp: ph_req_def same_call_def split: snd_pc.splits)
  next
    case CWait
    then have "C' = CWaitReady \<and> sh' = sh" using st ph by (auto simp: cl_step ph_req_def)
    moreover have "cl_sends d (xs_buf sh) CWaitReady k sv" using c(1) CWait by (simp add: cl_sends_def)
    ultimately show ?thesis using ph c(2,3) CWait unfolding ph_req_def by blast
  next
    case CWaitReady
    then have "C' = CWait \<and> sh' = sh" using st rdy by (auto simp: cl_step)
    moreover have "cl_sends d (xs_buf sh) CWait k sv" using c(1) CWaitReady by (simp add: cl_sends_def)
    ultimately show ?thesis using ph c(2,3) CWaitReady unfolding ph_req_def by blast
  qed (use c(1) in \<open>auto simp: cl_sends_def\<close>)
qed

lemma client_serve:
  assumes "ph_serve a (xs_buf sh) (xs_ipi sh) C V" and "xb_ready (xs_buf sh)"
    and "pisces_xbuf_sync_send cfg i sh C = Some (sh', C')"
  shows "ph_serve a (xs_buf sh') (xs_ipi sh') C' V"
proof -
  have "C = CWait \<and> \<not> xb_complete (xs_buf sh) \<or> C = CWaitReady"
    using assms(1) by (auto simp: ph_serve_def)
  then have "sh' = sh" "C' = CWait \<or> C' = CWaitReady"
    using assms(2,3) by (auto simp: cl_step)
  with assms(1) show ?thesis unfolding ph_serve_def by blast
qed

text \<open>A receiver that starts on a staged message.\<close>

lemma recv_init_at:
  assumes "xb_data_len x = of_nat (length d)" and "length d < 2 ^ 32" and "d \<noteq> []"
  shows "receiver_at d (recv_init x)" and "rc_read (recv_init x) = 0"
    and "rc_pc (recv_init x) = RReady"
  using assms by (auto simp: recv_init_def recv_loop_def receiver_at_def unat_of_nat_u32
      word_less_nat_alt)

lemma sv_sends_pos: "a \<noteq> [] \<Longrightarrow> xbuf_ok X x \<Longrightarrow> sv_sends a x V k sv \<Longrightarrow> 0 < k"
  by (cases V) (auto simp: sv_sends_def first_len_def xbuf_ok_def word_less_nat_alt)

lemma client_resp_recv:
  assumes a: "length a < 2 ^ 32" "a \<noteq> []" and ok: "xbuf_ok X (xs_buf sh)" "cl_ok X (CRecv rc)"
    and rdy: "xb_ready (xs_buf sh)" and ph: "ph_resp a (xs_buf sh) (xs_ipi sh) (CRecv rc) V"
    and st: "pisces_xbuf_sync_send cfg i sh (CRecv rc) = Some (sh', C')"
  shows "ph_resp a (xs_buf sh') (xs_ipi sh') C' V \<or> ph_end a (xs_ipi sh') C' V"
proof -
  obtain x' r' where e: "recv_data_step (xs_buf sh) rc = Some (x', r')"
      "sh' = xs_upd sh x'" "C' = client_recv r'"
    using st by (auto simp: cl_step split: bind_splits)
  obtain k sv where c: "sv_sends a (xs_buf sh) V k sv" "receiver_at a rc"
      "chan a (xs_buf sh) k sv (unat (rc_read rc)) (rcv_view rc)"
    using ph a(2) by (auto simp: ph_resp_def cl_receives_def)
  have "receiver_ok X rc" using ok(2) by (simp add: cl_ok_def)
  note S = recv_step_chan [OF ok(1) this c(2) rdy c(3) e(1)]
  note same = recv_step_same_call [OF e(1)]
  have s': "sv_sends a x' V k sv" using c(1) by (simp add: sv_sends_same [OF same])
  show ?thesis
  proof (cases "\<exists>n. rc_pc r' = RRet n")
    case True
    then obtain n where n: "rc_pc r' = RRet n" by blast
    note R = S(3) [OF n]
    then have "n \<noteq> 0" using a(2) by auto
    moreover have "\<not> xb_staged x'" using S(1) R by (auto simp: chan_def Let_def)
    then have "V = VIdle" using S(1) R s' by (auto simp: chan_def Let_def sv_sends_def split: srv_pc.splits)
    ultimately show ?thesis
      using ph e n R a(2) by (auto simp: ph_end_def ph_resp_def client_recv_def response_def)
  next
    case False
    then have "C' = CRecv r'" using e(3) by (auto simp: client_recv_def split: rcv_pc.splits)
    then show ?thesis
      using ph a(2) e(2) same s' S(1,2) by (auto simp: ph_resp_def cl_receives_def same_call_def)
  qed
qed

lemma client_resp:
  assumes a: "length a < 2 ^ 32" and ok: "xbuf_ok X (xs_buf sh)" "cl_ok X C" and w: "xc_want cfg i"
    and rdy: "xb_ready (xs_buf sh)" and ph: "ph_resp a (xs_buf sh) (xs_ipi sh) C V"
    and st: "pisces_xbuf_sync_send cfg i sh C = Some (sh', C')"
  shows "ph_resp a (xs_buf sh') (xs_ipi sh') C' V \<or> ph_end a (xs_ipi sh') C' V"
proof (cases "a = []")
  case True
  then show ?thesis using ph st w rdy by (auto simp: ph_resp_def ph_end_def response_def cl_step)
next
  case False
  then obtain k sv r rv where c: "sv_sends a (xs_buf sh) V k sv" "cl_receives a C r rv"
      "chan a (xs_buf sh) k sv r rv" and dl: "xb_data_len (xs_buf sh) = of_nat (length a)"
    using ph by (auto simp: ph_resp_def)
  show ?thesis
  proof (cases C)
    case (CRecv rc)
    with client_resp_recv [OF a False ok(1)] ok(2) rdy ph st show ?thesis by blast
  next
    case CRInit
    with recv_init_at [OF dl a False] st ph False show ?thesis
      by (auto simp: cl_step ph_resp_def cl_receives_def client_recv_def rcv_view_def; blast)
  next
    case CChkStaged
    with c sv_sends_pos [OF False ok(1) c(1)] have "xb_staged (xs_buf sh)"
      by (auto simp: chan_def cl_receives_def Let_def split: if_splits)
    with CChkStaged st c ph False show ?thesis
      by (auto simp: cl_step ph_resp_def cl_receives_def)
  next
    case CWait
    then have "C' = CChkStaged" "sh' = sh" using st ph w by (auto simp: cl_step ph_resp_def)
    moreover have "cl_receives a CChkStaged r rv" using c(2) CWait by (simp add: cl_receives_def)
    ultimately show ?thesis using ph c(1,3) False unfolding ph_resp_def by auto
  next
    case CWaitReady
    then have "C' = CWait" "sh' = sh" using st rdy by (auto simp: cl_step)
    moreover have "cl_receives a CWait r rv" using c(2) CWaitReady by (simp add: cl_receives_def)
    ultimately show ?thesis using ph c(1,3) False unfolding ph_resp_def by auto
  qed (use c(2) in \<open>auto simp: cl_receives_def\<close>)
qed

lemma client_end:
  assumes "ph_end a (xs_ipi sh) C V" and "pisces_xbuf_sync_send cfg i sh C = Some (sh', C')"
  shows "C' = CDone 0 (response a) \<and> free_xbuf (xs_buf sh') (xs_ipi sh') V"
  using assms by (auto simp: ph_end_def free_xbuf_def cl_step xb_simps)

subsection \<open>Steps of the server\<close>

lemma server_req_recv:
  assumes d: "length d < 2 ^ 32" and h: "xc_handler cfg = Some h" "h (recv_ret d) d = Some a"
    and ok: "xbuf_ok X (xs_buf sh)" "sv_ok X (VRecv rc)" and rdy: "xb_ready (xs_buf sh)"
    and ph: "ph_req d (xs_buf sh) (xs_ipi sh) C (VRecv rc)"
    and st: "irq_handler cfg sh (VRecv rc) = Some (sh', V')"
  shows "ph_req d (xs_buf sh') (xs_ipi sh') C V' \<or> ph_serve a (xs_buf sh') (xs_ipi sh') C V'"
proof -
  obtain x' r' where e: "recv_data_step (xs_buf sh) rc = Some (x', r')"
      "sh' = xs_upd sh x'" "V' = server_recv cfg r'"
    using st by (auto simp: sv_step split: bind_splits)
  obtain k sv where c: "cl_sends d (xs_buf sh) C k sv" "receiver_at d rc"
      "chan d (xs_buf sh) k sv (unat (rc_read rc)) (rcv_view rc)"
    using ph by (auto simp: ph_req_def sv_receives_def)
  have "receiver_ok X rc" using ok(2) by (simp add: sv_ok_def)
  note S = recv_step_chan [OF ok(1) this c(2) rdy c(3) e(1)]
  note same = recv_step_same_call [OF e(1)]
  have s': "cl_sends d x' C k sv" using c(1) by (simp add: cl_sends_same [OF same])
  show ?thesis
  proof (cases "\<exists>n. rc_pc r' = RRet n")
    case True
    then obtain n where n: "rc_pc r' = RRet n" by blast
    note R = S(3) [OF n]
    then have "n = of_nat (length d)" using d by (simp add: unat_inj_iff unat_of_nat_u32)
    then have V': "V' = VChkCompl a"
      using e(3) n R h by (simp add: server_recv_def server_handle_def recv_ret_def)
    have "\<not> xb_staged x'" using S(1) R by (auto simp: chan_def Let_def)
    moreover from this have "C = CWait \<or> C = CWaitReady"
      using S(1) R s' ph by (auto simp: chan_def Let_def cl_sends_def ph_req_def split: cl_pc.splits)
    ultimately show ?thesis
      using ph same V' e(2) by (auto simp: ph_serve_def ph_req_def same_call_def)
  next
    case False
    then have "V' = VRecv r'" using e(3) by (auto simp: server_recv_def split: rcv_pc.splits)
    moreover have "sv_receives d (VRecv r') (unat (rc_read r')) (rcv_view r')"
      using S(2) by (simp add: sv_receives_def)
    ultimately have "ph_req d x' (xs_ipi sh') C V'"
      using ph e(2) same s' S(1) unfolding ph_req_def by (auto simp: same_call_def)
    then show ?thesis using e(2) by simp
  qed
qed

lemma sv_receives_cases:
  "sv_receives d V r rv \<Longrightarrow> (\<exists>rc. V = VRecv rc) \<or>
     V \<in> {VIdle, VChkPending, VChkActive, VRaiseActive, VChkRecv, VRInit} \<and> r = 0 \<and> rv = VwNone"
  by (cases V) (simp_all add: sv_receives_def)

lemma server_req:
  assumes d: "length d < 2 ^ 32" "d \<noteq> []" and h: "xc_handler cfg = Some h" "h (recv_ret d) d = Some a"
    and ok: "xbuf_ok X (xs_buf sh)" "sv_ok X V" and rdy: "xb_ready (xs_buf sh)"
    and ph: "ph_req d (xs_buf sh) (xs_ipi sh) C V"
    and st: "irq_handler cfg sh V = Some (sh', V')"
  shows "ph_req d (xs_buf sh') (xs_ipi sh') C V' \<or> ph_serve a (xs_buf sh') (xs_ipi sh') C V'"
proof (cases "\<exists>rc. V = VRecv rc")
  case True
  with server_req_recv [OF d(1) h ok(1)] ok(2) rdy ph st show ?thesis by blast
next
  case False
  then obtain k sv where c: "cl_sends d (xs_buf sh) C k sv" "chan d (xs_buf sh) k sv 0 VwNone"
      and V: "V \<in> {VIdle, VChkPending, VChkActive, VRaiseActive, VChkRecv, VRInit}"
    using ph unfolding ph_req_def by (blast dest: sv_receives_cases)
  have dl: "xb_data_len (xs_buf sh) = of_nat (length d)" using ph by (simp add: ph_req_def)
  have act: "xb_active (xs_buf sh) \<longleftrightarrow> V \<notin> {VIdle, VChkPending, VChkActive, VRaiseActive}"
    and ipi: "xs_ipi sh \<longleftrightarrow> V = VIdle \<and> C \<noteq> CIpi" "C = CIpi \<longrightarrow> V = VIdle"
    and pend: "xb_pending (xs_buf sh)" using ph by (simp_all add: ph_req_def)
  have trans: "V = VIdle \<and> xs_ipi sh \<and> V' = VChkPending \<and> sh' = sh\<lparr>xs_ipi := False\<rparr> \<or>
      V = VIdle \<and> \<not> xs_ipi sh \<and> V' = VIdle \<and> sh' = sh \<or>
      V = VChkPending \<and> V' = VChkActive \<and> sh' = sh \<or> V = VChkActive \<and> V' = VRaiseActive \<and> sh' = sh \<or>
      V = VRaiseActive \<and> V' = VChkRecv \<and> sh' = xs_upd sh (raise_flag (xs_buf sh) XBUF_ACTIVE) \<or>
      V = VChkRecv \<and> V' = VRInit \<and> sh' = sh \<or>
      V = VRInit \<and> V' = VRecv (recv_init (xs_buf sh)) \<and> sh' = sh"
    using V st act pend h(1) recv_init_at(3) [OF dl d]
    by (cases V; cases "xs_ipi sh"; auto simp: sv_step server_recv_def)
  then have "cl_sends d (xs_buf sh') C k sv" "chan d (xs_buf sh') k sv 0 VwNone"
    using c by (auto simp: call_frame)
  moreover have "sv_receives d V' 0 VwNone"
    using trans recv_init_at [OF dl d] by (auto simp: sv_receives_def rcv_view_def)
  ultimately have "\<exists>k sv r rv. cl_sends d (xs_buf sh') C k sv \<and> sv_receives d V' r rv \<and>
      chan d (xs_buf sh') k sv r rv" by blast
  moreover have "xb_active (xs_buf sh') \<longleftrightarrow> V' \<notin> {VIdle, VChkPending, VChkActive, VRaiseActive}"
    using trans act by (auto simp: xb_simps)
  moreover have "(xs_ipi sh' \<longleftrightarrow> V' = VIdle \<and> C \<noteq> CIpi) \<and> (C = CIpi \<longrightarrow> V' = VIdle)"
    using trans ipi by auto
  moreover have "\<not> xb_complete (xs_buf sh') \<and> xb_pending (xs_buf sh') \<and>
      xb_data_len (xs_buf sh') = of_nat (length d)"
    using trans ph by (auto simp: ph_req_def xb_simps)
  ultimately show ?thesis unfolding ph_req_def by blast
qed

lemma server_send_at:
  assumes "length a < 2 ^ 32" and "a \<noteq> []" and "xbuf_ok X x"
  shows "\<exists>k. sv_sends a x (server_send x a) k VwNone \<and> k = first_len a x"
proof -
  let ?s = "send_init x (drop (first_len a x) a)
    (of_nat (length a) - stage_len (of_nat (length a)) (xb_total_size x))"
  note I = send_init_rest [OF assms(1,3)]
  have "server_send x a = (case sn_pc ?s of SRet _ \<Rightarrow> VIdle | _ \<Rightarrow> VSend ?s)"
    unfolding server_send_def Let_def first_len_stage [OF assms(1)] using assms(2) by simp
  moreover have "first_len a x < length a" if "first_len a x \<noteq> length a"
    using that by (auto simp: first_len_def)
  ultimately show ?thesis using I by (auto simp: sv_sends_def split: snd_pc.splits)
qed

lemma server_complete:
  assumes a: "length a < 2 ^ 32" and ok: "xbuf_ok X (xs_buf sh)"
    and ph: "ph_serve a (xs_buf sh) (xs_ipi sh) C (VComplete a)"
    and st: "irq_handler cfg sh (VComplete a) = Some (sh', V')"
  shows "ph_resp a (xs_buf sh') (xs_ipi sh') C V'"
proof -
  let ?x = "xs_buf sh"
  have e: "sh' = xs_upd sh (raise_flag ?x XBUF_COMPLETE)" "V' = server_send ?x a"
    using st by (auto simp: sv_step)
  have C: "C \<in> {CWait, CWaitReady}" "\<not> xs_ipi sh"
    and s: "if a = [] then \<not> xb_staged ?x
      else xb_data_len ?x = of_nat (length a) \<and> chan a ?x (first_len a ?x) VwNone 0 VwNone"
    using ph by (auto simp: ph_serve_def)
  show ?thesis
  proof (cases "a = []")
    case True
    then show ?thesis
      using e C s by (auto simp: ph_resp_def xb_simps server_send_def send_init_def send_loop_def)
  next
    case False
    then have "sv_sends a (xs_buf sh') V' (first_len a ?x) VwNone"
      using server_send_at [OF a False ok] e by (simp add: call_frame)
    moreover have "cl_receives a C 0 VwNone" using C by (auto simp: cl_receives_def)
    moreover have "chan a (xs_buf sh') (first_len a ?x) VwNone 0 VwNone"
      using s False e by (simp add: call_frame)
    ultimately show ?thesis using False e C s unfolding ph_resp_def by (auto simp: xb_simps)
  qed
qed

lemma ph_serve_cases:
  "ph_serve a x ipi C V \<Longrightarrow> V \<in> {VChkCompl a, VRespLen a, VRespCopy a, VRespRaise a, VComplete a}"
  by (auto simp: ph_serve_def)

lemma server_serve:
  assumes a: "length a < 2 ^ 32" and ok: "xbuf_ok X (xs_buf sh)"
    and ph: "ph_serve a (xs_buf sh) (xs_ipi sh) C V"
    and st: "irq_handler cfg sh V = Some (sh', V')"
  shows "ph_serve a (xs_buf sh') (xs_ipi sh') C V' \<or> ph_resp a (xs_buf sh') (xs_ipi sh') C V'"
proof -
  consider "V = VChkCompl a" | "V = VRespLen a" | "V = VRespCopy a" | "V = VRespRaise a"
    | "V = VComplete a" using ph_serve_cases [OF ph] by blast
  then show ?thesis
  proof cases
    case 3
    then show ?thesis using ph st staged_prefix [OF a ok]
      by (auto simp: sv_step ph_serve_def xb_simps split: bind_splits)
  next
    case 4
    then have e: "V' = VComplete a" "sh' = xs_upd sh (raise_flag (xs_buf sh) XBUF_STAGED)" "a \<noteq> []"
      using ph st by (auto simp: sv_step ph_serve_def)
    then have "chan a (xs_buf sh') (first_len a (xs_buf sh')) VwNone 0 VwNone"
      using 4 ph by (intro chan_first) (auto simp: ph_serve_def xb_simps)
    then show ?thesis using 4 ph e by (auto simp: ph_serve_def xb_simps)
  next
    case 5
    with server_complete [OF a ok] ph st show ?thesis by blast
  qed (use ph st in \<open>auto simp: sv_step ph_serve_def xb_simps split: if_splits\<close>)
qed

lemma sv_sends_cases:
  "sv_sends a x V k sv \<Longrightarrow> V = VIdle \<or>
     (\<exists>s. V = VSend s \<and> sender_at a (first_len a x) s \<and> k = first_len a x + unat (sn_sent s) \<and>
        sv = snd_view s)"
  by (cases V) (simp_all add: sv_sends_def)

lemma server_resp:
  assumes ok: "xbuf_ok X (xs_buf sh)" "sv_ok X V" and rdy: "xb_ready (xs_buf sh)"
    and ph: "ph_resp a (xs_buf sh) (xs_ipi sh) C V"
    and st: "irq_handler cfg sh V = Some (sh', V')"
  shows "ph_resp a (xs_buf sh') (xs_ipi sh') C V'"
proof (cases "V = VIdle")
  case True
  then have "sh' = sh \<and> V' = V" using ph st by (auto simp: ph_resp_def sv_step)
  then show ?thesis using ph by simp
next
  case False
  then obtain s k r rv where c: "V = VSend s" "sender_at a (first_len a (xs_buf sh)) s"
      "k = first_len a (xs_buf sh) + unat (sn_sent s)" "cl_receives a C r rv"
      "chan a (xs_buf sh) k (snd_view s) r rv" and a: "a \<noteq> []"
    using ph unfolding ph_resp_def by (auto split: if_splits dest!: sv_sends_cases)
  obtain x' s' where e: "send_data_step (xs_buf sh) s = Some (x', s')"
      "sh' = xs_upd sh x'" "V' = (case sn_pc s' of SRet n \<Rightarrow> VIdle | _ \<Rightarrow> VSend s')"
    using st c(1) by (auto simp: sv_step split: bind_splits)
  have s: "sender_ok X s" using ok(2) c(1) by (simp add: sv_ok_def)
  note same = send_step_same_call [OF e(1)] and at = send_step_at [OF c(2) e(1)]
  have "\<exists>k sv. sv_sends a x' V' k sv \<and> chan a x' k sv r rv"
    using send_step_pos [OF ok(1) s c(2) rdy _ e(1), of r rv] c(3,5) e(3) at
    by (auto simp: sv_sends_def first_len_same [OF same] split: snd_pc.splits)
  then show ?thesis using ph a same c(4) e(2) unfolding ph_resp_def by (auto simp: same_call_def)
qed

lemma server_idle: "irq_handler cfg sh VIdle = Some (sh', V') \<Longrightarrow> \<not> xs_ipi sh \<Longrightarrow> sh' = sh \<and> V' = VIdle"
  by (auto simp: sv_step)

subsection \<open>The whole system\<close>

definition inv_call :: "xcfg \<Rightarrow> xsys \<Rightarrow> bool" where
  "inv_call cfg s \<longleftrightarrow>
     (let x = xs_buf (x_sh s); ipi = xs_ipi (x_sh s); V = x_srv s;
          d = xc_req cfg; a = \<lambda>i. answer cfg (xc_req cfg i) in
      xb_ready x \<longrightarrow>
        ((\<exists>i. owns (x_cl s i) \<and> in_call (d i) (a i) x ipi (x_cl s i) V) \<or>
         (\<forall>i. \<not> owns (x_cl s i)) \<and> free_xbuf x ipi V) \<and>
        (\<forall>i resp. x_cl s i = CDone 0 resp \<longrightarrow> resp = response (a i)))"

lemma in_call_idle: "in_call d a x ipi C V \<Longrightarrow> owns C"
  unfolding in_call_def ph_stage_def ph_serve_def ph_end_def ph_req_def ph_resp_def
  by (cases C) (auto simp: owns_def cl_sends_def cl_receives_def split: if_splits)

lemma calls_okD:
  assumes "calls_ok cfg"
  shows "lengths_ok cfg" "length (xc_req cfg i) < 2 ^ 32" "xc_req cfg i \<noteq> []" "xc_want cfg i"
    "length (answer cfg (xc_req cfg i)) < 2 ^ 32"
    "\<exists>h. xc_handler cfg = Some h \<and> h (recv_ret (xc_req cfg i)) (xc_req cfg i) =
       Some (answer cfg (xc_req cfg i))"
  using assms by (auto simp: calls_ok_def lengths_ok_def answer_def)

lemma client_owner:
  assumes cfg: "calls_ok cfg" and ok: "xbuf_ok X (xs_buf sh)" "cl_ok X C"
    and rdy: "xb_ready (xs_buf sh)" "xb_pending (xs_buf sh)"
    and ph: "in_call (xc_req cfg i) (answer cfg (xc_req cfg i)) (xs_buf sh) (xs_ipi sh) C V"
    and st: "pisces_xbuf_sync_send cfg i sh C = Some (sh', C')"
  shows "in_call (xc_req cfg i) (answer cfg (xc_req cfg i)) (xs_buf sh') (xs_ipi sh') C' V \<or>
    C' = CDone 0 (response (answer cfg (xc_req cfg i))) \<and> free_xbuf (xs_buf sh') (xs_ipi sh') V"
  using ph unfolding in_call_def [of _ _ "xs_buf sh"]
proof (elim disjE)
  note D = calls_okD [OF cfg]
  show ?thesis if "ph_stage (xc_req cfg i) (xs_buf sh) (xs_ipi sh) C V"
    using client_stage [OF D(2,3) ok(1) rdy(2) that st] by (auto simp: in_call_def split: if_splits)
  show ?thesis if "ph_req (xc_req cfg i) (xs_buf sh) (xs_ipi sh) C V"
    using client_req [OF D(2) refl ok rdy(1) that st] by (auto simp: in_call_def)
  show ?thesis if "ph_serve (answer cfg (xc_req cfg i)) (xs_buf sh) (xs_ipi sh) C V"
    using client_serve [OF that rdy(1) st] by (auto simp: in_call_def)
  show ?thesis if "ph_resp (answer cfg (xc_req cfg i)) (xs_buf sh) (xs_ipi sh) C V"
    using client_resp [OF D(5) ok D(4) rdy(1) that st] by (auto simp: in_call_def)
  show ?thesis if "ph_end (answer cfg (xc_req cfg i)) (xs_ipi sh) C V"
    using client_end [OF that st] by blast
qed

lemma server_owner:
  assumes cfg: "calls_ok cfg" and ok: "xbuf_ok X (xs_buf sh)" "sv_ok X V"
    and rdy: "xb_ready (xs_buf sh)"
    and ph: "in_call (xc_req cfg i) (answer cfg (xc_req cfg i)) (xs_buf sh) (xs_ipi sh) C V"
    and st: "irq_handler cfg sh V = Some (sh', V')"
  shows "in_call (xc_req cfg i) (answer cfg (xc_req cfg i)) (xs_buf sh') (xs_ipi sh') C V'"
  using ph unfolding in_call_def [of _ _ "xs_buf sh"]
proof (elim disjE)
  note D = calls_okD [OF cfg]
  obtain h where h: "xc_handler cfg = Some h"
    "h (recv_ret (xc_req cfg i)) (xc_req cfg i) = Some (answer cfg (xc_req cfg i))" using D(6) [of i] by blast
  show ?thesis if "ph_stage (xc_req cfg i) (xs_buf sh) (xs_ipi sh) C V"
    using server_idle [of cfg sh sh' V'] that st ph by (auto simp: ph_stage_def)
  show ?thesis if "ph_req (xc_req cfg i) (xs_buf sh) (xs_ipi sh) C V"
    using server_req [OF D(2,3) h ok rdy that st] by (auto simp: in_call_def)
  show ?thesis if "ph_serve (answer cfg (xc_req cfg i)) (xs_buf sh) (xs_ipi sh) C V"
    using server_serve [OF D(5) ok(1) that st] by (auto simp: in_call_def)
  show ?thesis if "ph_resp (answer cfg (xc_req cfg i)) (xs_buf sh) (xs_ipi sh) C V"
    using server_resp [OF ok rdy that st] by (auto simp: in_call_def)
  show ?thesis if "ph_end (answer cfg (xc_req cfg i)) (xs_ipi sh) C V"
    using server_idle [of cfg sh sh' V'] that st ph by (auto simp: ph_end_def)
qed

lemma client_other:
  assumes "\<not> owns C" and "\<not> claims C" and "pisces_xbuf_sync_send cfg i sh C = Some (sh', C')"
  shows "xs_buf sh' = xs_buf sh" "xs_ipi sh' = xs_ipi sh" "\<not> owns C'" "C' \<noteq> CDone 0 resp"
  using assms by (cases C; auto simp: cl_step cl_sorts split: if_splits)+

lemma client_free:
  assumes "free_xbuf (xs_buf sh) (xs_ipi sh) V" and "\<not> owns C"
    and "pisces_xbuf_sync_send cfg i sh C = Some (sh', C')"
  shows "owns C' \<and> ph_stage (xc_req cfg i) (xs_buf sh') (xs_ipi sh') C' V \<or>
    \<not> owns C' \<and> free_xbuf (xs_buf sh') (xs_ipi sh') V" and "C' \<noteq> CDone 0 resp"
proof -
  have "C = CResetA \<and> C' = CRaiseP \<and> sh' = xs_upd sh (reset_flags (xs_buf sh)) \<or>
    C = CRaiseP \<and> C' = CUnlock True \<and> sh' = xs_upd sh (raise_flag (xs_buf sh) XBUF_PENDING)"
    if "claims C" using that assms(3) by (auto simp: claims_def cl_step)
  then show "owns C' \<and> ph_stage (xc_req cfg i) (xs_buf sh') (xs_ipi sh') C' V \<or>
      \<not> owns C' \<and> free_xbuf (xs_buf sh') (xs_ipi sh') V" "C' \<noteq> CDone 0 resp"
    using client_other [OF assms(2) _ assms(3)] assms(1)
    by (cases "claims C"; auto simp: ph_stage_def free_xbuf_def owns_def xb_simps)+
qed

lemma client_ready:
  "pisces_xbuf_sync_send cfg i sh C = Some (sh', C') \<Longrightarrow> xb_ready (xs_buf sh') = xb_ready (xs_buf sh)"
  by (cases C; auto simp: cl_step xb_simps dest!: send_step_same_call recv_step_same_call
      simp: same_call_def split: bind_splits if_splits)

lemma server_ready:
  "irq_handler cfg sh V = Some (sh', V') \<Longrightarrow> xb_ready (xs_buf sh') = xb_ready (xs_buf sh)"
  by (cases V; auto simp: sv_step xb_simps dest!: send_step_same_call recv_step_same_call
      simp: same_call_def split: bind_splits if_splits)

text \<open>A client that is not the owner moves without touching the shared structure.\<close>

lemma inv_call_other:
  assumes inv: "inv_call cfg s" and o: "\<not> owns (x_cl s i)" "\<not> owns C'" "\<And>resp. C' \<noteq> CDone 0 resp"
    and sh: "xs_buf sh' = xs_buf (x_sh s)" "xs_ipi sh' = xs_ipi (x_sh s)"
  shows "inv_call cfg (s\<lparr>x_sh := sh', x_cl := (x_cl s)(i := C')\<rparr>)"
proof -
  let ?cl = "(x_cl s)(i := C')"
  let ?in = "\<lambda>C j. in_call (xc_req cfg j) (answer cfg (xc_req cfg j)) (xs_buf (x_sh s)) (xs_ipi (x_sh s)) C (x_srv s)"
  have ex: "\<exists>j. owns (?cl j) \<and> ?in (?cl j) j" if "owns (x_cl s j)" "?in (x_cl s j) j" for j
    using that o(1) by (intro exI [of _ j]) auto
  have no: "\<forall>j. \<not> owns (?cl j)" if "\<forall>j. \<not> owns (x_cl s j)" using that o(2) by simp
  have fin: "x_cl s j = CDone 0 resp" if "?cl j = CDone 0 resp" for j resp
    using that o(3) by (auto split: if_splits)
  have upd: "x_sh (s\<lparr>x_sh := sh', x_cl := ?cl\<rparr>) = sh'" "x_cl (s\<lparr>x_sh := sh', x_cl := ?cl\<rparr>) = ?cl"
    "x_srv (s\<lparr>x_sh := sh', x_cl := ?cl\<rparr>) = x_srv s" by simp_all
  show ?thesis using inv ex no fin unfolding inv_call_def Let_def upd sh by blast
qed

lemma client_call:
  assumes cfg: "calls_ok cfg" and mem: "inv_mem X s" and own: "inv_own (x_sh s) (x_cl s)"
    and inv: "inv_call cfg s" and st: "pisces_xbuf_sync_send cfg i (x_sh s) (x_cl s i) = Some (sh', C')"
  shows "inv_call cfg (s\<lparr>x_sh := sh', x_cl := (x_cl s)(i := C')\<rparr>)"
proof (cases "xb_ready (xs_buf (x_sh s))")
  case False
  then show ?thesis using client_ready [OF st] by (simp add: inv_call_def)
next
  case True
  let ?sh = "x_sh s" and ?a = "\<lambda>i. answer cfg (xc_req cfg i)"
  have ok: "xbuf_ok X (xs_buf ?sh)" "cl_ok X (x_cl s i)" using mem by (auto simp: inv_mem_def)
  have ow: "owns (x_cl s j) \<Longrightarrow> xb_pending (xs_buf ?sh)" "owns (x_cl s j) \<Longrightarrow> owns (x_cl s k) \<Longrightarrow> k = j"
    "claims (x_cl s k) \<Longrightarrow> \<not> owns (x_cl s j)" for j k using own by (auto simp: inv_own_def)
  have fin: "x_cl s j = CDone 0 resp \<Longrightarrow> resp = response (?a j)" for j resp
    using inv True by (auto simp: inv_call_def Let_def)
  consider (owner) j where "owns (x_cl s j)"
      "in_call (xc_req cfg j) (?a j) (xs_buf ?sh) (xs_ipi ?sh) (x_cl s j) (x_srv s)"
    | (free) "\<forall>j. \<not> owns (x_cl s j)" "free_xbuf (xs_buf ?sh) (xs_ipi ?sh) (x_srv s)"
    using inv True by (auto simp: inv_call_def Let_def)
  then show ?thesis
  proof cases
    case owner
    show ?thesis
    proof (cases "i = j")
      case True
      note O = client_owner [OF cfg ok \<open>xb_ready _\<close> ow(1) [OF owner(1)] owner(2) [folded True] st]
      have others: "\<not> owns (x_cl s k)" if "k \<noteq> i" for k using ow(2) [OF owner(1)] that True by blast
      from O show ?thesis using fin others
        by (auto simp: inv_call_def Let_def dest: in_call_idle simp: owns_def)
    next
      case False
      then have "\<not> owns (x_cl s i)" "\<not> claims (x_cl s i)" using ow owner(1) by blast+
      then show ?thesis using inv_call_other [OF inv] client_other [OF _ _ st] by blast
    qed
  next
    case free
    then have "\<not> owns (x_cl s i)" by simp
    note F = client_free [OF free(2) this st]
    show ?thesis using F free(1) fin by (auto simp: inv_call_def Let_def in_call_def)
  qed
qed

lemma server_call:
  assumes cfg: "calls_ok cfg" and mem: "inv_mem X s" and inv: "inv_call cfg s"
    and st: "irq_handler cfg (x_sh s) (x_srv s) = Some (sh', V')"
  shows "inv_call cfg (s\<lparr>x_sh := sh', x_srv := V'\<rparr>)"
proof -
  have ok: "xbuf_ok X (xs_buf (x_sh s))" "sv_ok X (x_srv s)" using mem by (auto simp: inv_mem_def)
  have "sh' = x_sh s \<and> V' = x_srv s" if "free_xbuf (xs_buf (x_sh s)) (xs_ipi (x_sh s)) (x_srv s)"
    using that server_idle [of cfg "x_sh s" sh' V'] st by (auto simp: free_xbuf_def)
  then show ?thesis
    using server_owner [OF cfg ok _ _ st] server_ready [OF st] inv
    by (auto simp: inv_call_def Let_def)
qed

lemma xreach_call:
  "xreach cfg x s \<Longrightarrow> calls_ok cfg \<Longrightarrow> fresh_xbuf x \<Longrightarrow> inv_call cfg s"
proof (induction rule: xreach.induct)
  case xinit
  then show ?case
    by (auto simp: inv_call_def xinit_def fresh_xbuf_def pisces_xbuf_enable_def set_flags_def
        free_xbuf_def owns_def xb_bits bit_masks)
next
  case (xstep s s')
  note I = xreach_mem [OF xstep(1) calls_okD(1) [OF xstep(4)] xstep(5)] xreach_own [OF xstep(1)]
  from xstep(2) show ?case
  proof cases
    case (client i sh pc)
    then show ?thesis using client_call [OF xstep(4) I xstep(3)] xstep(4,5) by auto
  next
    case (server sh pc)
    then show ?thesis using server_call [OF xstep(4) I(1) xstep(3)] xstep(4,5) by auto
  next
    case (signal i)
    have "inv_call cfg (s\<lparr>x_sh := x_sh s, x_cl := (x_cl s)(i := CLock)\<rparr>)"
      using xstep(3-5) signal by (intro inv_call_other) (auto simp: owns_def)
    then show ?thesis using signal by simp
  next
    case (disable ret x)
    then show ?thesis using xstep(3-5)
      by (auto simp: inv_call_def pisces_xbuf_disable_def xb_simps xs_upd_def split: if_splits)
  qed
qed

lemma call_answered:
  assumes "calls_ok cfg" and "fresh_xbuf x" and "xreach cfg x s" and "xb_ready (xs_buf (x_sh s))"
    and "x_cl s i = CDone 0 resp"
  shows "resp = response (answer cfg (xc_req cfg i))"
  using xreach_call [OF assms(3,1,2)] assms(4,5) by (auto simp: inv_call_def Let_def)

section \<open>A run\<close>

text \<open>
  The steps of a schedule: \<open>Some i\<close> is a step of client \<open>i\<close>, \<open>None\<close> one of the server.
\<close>

fun run_sched :: "xcfg \<Rightarrow> nat option list \<Rightarrow> xsys \<Rightarrow> xsys option" where
  "run_sched cfg [] s = Some s"
| "run_sched cfg (Some i # ts) s =
     (case pisces_xbuf_sync_send cfg i (x_sh s) (x_cl s i) of
        None \<Rightarrow> None
      | Some (sh, pc) \<Rightarrow> run_sched cfg ts (s\<lparr>x_sh := sh, x_cl := (x_cl s)(i := pc)\<rparr>))"
| "run_sched cfg (None # ts) s =
     (case irq_handler cfg (x_sh s) (x_srv s) of
        None \<Rightarrow> None
      | Some (sh, pc) \<Rightarrow> run_sched cfg ts (s\<lparr>x_sh := sh, x_srv := pc\<rparr>))"

lemma run_sched_reach: "run_sched cfg ts s = Some s' \<Longrightarrow> xreach cfg x s \<Longrightarrow> xreach cfg x s'"
proof (induction ts arbitrary: s)
  case (Cons t ts)
  show ?case
  proof (cases t)
    case None
    with Cons.prems(1) obtain sh pc where "irq_handler cfg (x_sh s) (x_srv s) = Some (sh, pc)"
      and r: "run_sched cfg ts (s\<lparr>x_sh := sh, x_srv := pc\<rparr>) = Some s'"
      by (auto split: option.splits)
    then show ?thesis using Cons.IH [OF r] Cons.prems(2) xreach.xstep xstep.server by blast
  next
    case (Some i)
    with Cons.prems(1) obtain sh pc where
      "pisces_xbuf_sync_send cfg i (x_sh s) (x_cl s i) = Some (sh, pc)"
      and r: "run_sched cfg ts (s\<lparr>x_sh := sh, x_cl := (x_cl s)(i := pc)\<rparr>) = Some s'"
      by (auto split: option.splits)
    then show ?thesis using Cons.IH [OF r] Cons.prems(2) xreach.xstep xstep.client by blast
  qed
qed simp

definition demo_cfg :: xcfg where
  "demo_cfg = \<lparr>xc_req = (\<lambda>i. [1, 2, 3]), xc_want = (\<lambda>i. True),
     xc_handler = Some (\<lambda>ret d. Some (if length d \<le> 3 then rev d else []))\<rparr>"

definition demo_xbuf :: pisces_xbuf where
  "demo_xbuf = \<lparr>xb_flags = 0, xb_host_apic = 0, xb_host_vector = 0, xb_enclave_cpu = 0,
     xb_enclave_vector = 0, xb_total_size = 2, xb_data_len = 0, xb_data = [0, 0]\<rparr>"

definition demo_sched :: "nat option list" where
  "demo_sched = replicate 12 (Some 0) @ replicate 10 None @ replicate 6 (Some 0) @
     replicate 16 None @ replicate 9 (Some 0) @ replicate 6 None @ replicate 5 (Some 0)"

lemma demo_ok: "calls_ok demo_cfg" "lengths_ok demo_cfg" "fresh_xbuf demo_xbuf"
  by (simp_all add: calls_ok_def lengths_ok_def demo_cfg_def fresh_xbuf_def demo_xbuf_def xb_bits)

lemma demo_run:
  obtains s where "xreach demo_cfg demo_xbuf s" "x_cl s 0 = CDone 0 (Some [3, 2, 1])"
    "xb_ready (xs_buf (x_sh s))"
proof -
  have "case run_sched demo_cfg demo_sched (xinit demo_xbuf) of None \<Rightarrow> False
    | Some s \<Rightarrow> x_cl s 0 = CDone 0 (Some [3, 2, 1]) \<and> xb_ready (xs_buf (x_sh s))"
    by code_simp
  then show ?thesis
    by (auto split: option.splits intro: that run_sched_reach [OF _ xreach.xinit])
qed

lemma demo_owner:
  obtains s where "xreach demo_cfg demo_xbuf s" "owns (x_cl s 0)" "xb_ready (xs_buf (x_sh s))" "x_cl s 1 = CLock"
proof -
  have "case run_sched demo_cfg (replicate 9 (Some 0)) (xinit demo_xbuf) of None \<Rightarrow> False
    | Some s \<Rightarrow> owns (x_cl s 0) \<and> xb_ready (xs_buf (x_sh s)) \<and> x_cl s 1 = CLock"
    by code_simp
  then show ?thesis
    by (auto split: option.splits intro: that run_sched_reach [OF _ xreach.xinit])
qed

section \<open>What the channel promises\<close>

text \<open>
  C2: At every moment of every run, a disable at any point included, at most one of the
  callers of \<open>pisces_xbuf_sync_send\<close> is between the raise of \<open>PENDING\<close> and its return, and
  \<open>PENDING\<close> is up for as long as one is.
\<close>

theorem xbuf_one_owner:
  assumes "xreach cfg x s" and "owns (x_cl s i)"
  shows "xb_pending (xs_buf (x_sh s)) \<and> (owns (x_cl s j) \<longrightarrow> j = i)"
  using xreach_own [OF assms(1)] assms(2) by (simp add: inv_own_def)

theorem xbuf_one_owner_witness:
  "\<exists>s :: xsys. owns (x_cl s 0) \<and> xb_pending (xs_buf (x_sh s)) \<and> (owns (x_cl s 1) \<longrightarrow> (1 :: nat) = 0)"
proof -
  obtain s where s: "xreach demo_cfg demo_xbuf s" "owns (x_cl s 0)" by (rule demo_owner)
  show ?thesis using xbuf_one_owner [OF s, of 1] s(2) by blast
qed

text \<open>
  C3: No copy of either transfer loop leaves its array, in any interleaving and under a
  disable at any point: every caller that has not returned and the server always have a
  next step.
\<close>

theorem xbuf_never_faults:
  assumes "lengths_ok cfg" and "fresh_xbuf x" and "xreach cfg x s"
  shows "((\<exists>ret resp. x_cl s i = CDone ret resp) \<or>
            pisces_xbuf_sync_send cfg i (x_sh s) (x_cl s i) \<noteq> None) \<and>
         irq_handler cfg (x_sh s) (x_srv s) \<noteq> None"
  using xreach_mem [OF assms(3,1,2)] client_safe [OF assms(1)] server_safe
  unfolding inv_mem_def by blast

theorem xbuf_never_faults_witness:
  "\<exists>s. xreach demo_cfg demo_xbuf s \<and> owns (x_cl s 0) \<and>
     ((\<exists>ret resp. x_cl s 0 = CDone ret resp) \<or>
        pisces_xbuf_sync_send demo_cfg 0 (x_sh s) (x_cl s 0) \<noteq> None) \<and>
     irq_handler demo_cfg (x_sh s) (x_srv s) \<noteq> None"
proof -
  obtain s where s: "xreach demo_cfg demo_xbuf s" "owns (x_cl s 0)" by (rule demo_owner)
  show ?thesis using xbuf_never_faults [OF demo_ok(2,3) s(1), of 0] s by blast
qed

text \<open>
  C1: While the channel is enabled, a caller of \<open>pisces_xbuf_sync_send\<close> that has returned 0
  holds the answer the handler gave to exactly this caller's message, received in full; no
  response when the answer is empty.
\<close>

theorem xbuf_call_correct:
  assumes "calls_ok cfg" and "fresh_xbuf x" and "xreach cfg x s" and "xb_ready (xs_buf (x_sh s))"
    and "x_cl s i = CDone 0 resp"
  shows "resp = (if answer cfg (xc_req cfg i) = [] then None else Some (answer cfg (xc_req cfg i)))"
  using call_answered [OF assms] by (simp add: response_def)

theorem xbuf_call_correct_witness:
  "\<exists>s resp. xreach demo_cfg demo_xbuf s \<and> x_cl s 0 = CDone 0 resp \<and> resp = Some [3, 2, 1] \<and>
     resp = (if answer demo_cfg (xc_req demo_cfg 0) = [] then None
             else Some (answer demo_cfg (xc_req demo_cfg 0)))"
proof -
  obtain s where s: "xreach demo_cfg demo_xbuf s" "x_cl s 0 = CDone 0 (Some [3, 2, 1])"
    "xb_ready (xs_buf (x_sh s))" by (rule demo_run)
  show ?thesis using xbuf_call_correct [OF demo_ok(1,3) s(1,3,2)] s by blast
qed

end
