(* ===== verification/XbufLive.thy ===== *)
theory XbufLive
  imports XbufCall
begin

text \<open>
  Progress of the calls over the channel. \<open>XbufCall\<close> shows that a call that has returned 0 holds
  the right answer; here every call can return: from every state that is reachable while the channel
  is enabled, the threads can be scheduled so that a given caller returns 0. Nothing the other callers
  have done so far can block it.

  Each phase of a call has a measure that a step of one of the two ends lowers: the bytes the receiver
  still lacks, and for the side whose turn it is the number of its steps up to the hand-over.
\<close>

section \<open>Ranks\<close>

definition snd_rank :: "sender \<Rightarrow> nat" where
  "snd_rank s = (case sn_pc s of SReady \<Rightarrow> 4 | SSpin \<Rightarrow> 4 | SStaged \<Rightarrow> 3 | SCopy \<Rightarrow> 2 | SRaise \<Rightarrow> 1 | SRet _ \<Rightarrow> 0)"

definition rcv_rank :: "receiver \<Rightarrow> nat" where
  "rcv_rank r = (case rc_pc r of RReady \<Rightarrow> 4 | RSpin \<Rightarrow> 4 | RStaged \<Rightarrow> 3 | RCopy \<Rightarrow> 2 | RLower \<Rightarrow> 1 | RRet _ \<Rightarrow> 0)"

lemma rank_le: "snd_rank s \<le> 4" "rcv_rank r \<le> 4"
  by (simp_all add: snd_rank_def rcv_rank_def split: snd_pc.splits rcv_pc.splits)

text \<open>The side whose turn it is comes closer to handing the buffer over, or does so.\<close>

lemma recv_step_rank:
  assumes "xbuf_ok X x" and "receiver_ok X r" and "xb_ready x" and "xb_staged x"
    and "recv_data_step x r = Some (x', r')"
  shows "xb_staged x' \<and> rc_read r' = rc_read r \<and> rcv_rank r' < rcv_rank r \<or>
    \<not> xb_staged x' \<and> unat (rc_read r) < unat (rc_read r')"
proof (cases "rc_pc r = RLower")
  case True
  have l: "0 < rc_left r" "rc_size r = X" "unat (rc_read r) + unat (rc_left r) = length (rc_buf r)"
    "length (rc_buf r) < 2 ^ 32" using assms(2) True by (auto simp: receiver_ok_def)
  have "x' = lower_flag x XBUF_STAGED" "rc_read r' = rc_read r + stage_len (rc_left r) X"
    using True assms(5) l(2) by (auto simp: recv_data_step_def recv_loop_def Let_def)
  then show ?thesis
    using chunk_counts(1) [OF l(3,4), of X] l(1) assms(1) by (simp add: xb_simps xbuf_ok_def word_less_nat_alt)
next
  case False
  then show ?thesis using assms(3-5)
    by (auto simp: recv_data_step_def rcv_rank_def Let_def split: rcv_pc.splits bind_splits)
qed

lemma send_step_rank:
  assumes "xb_ready x" and "\<not> xb_staged x" and "send_data_step x s = Some (x', s')"
  shows "xb_staged x' \<or> \<not> xb_staged x' \<and> snd_rank s' < snd_rank s \<and> (\<forall>n. sn_pc s' \<noteq> SRet n)"
  using assms by (auto simp: send_data_step_def snd_rank_def Let_def xb_simps split: snd_pc.splits bind_splits)

text \<open>
  The measure of a transfer: \<open>n\<close> bytes are missing, and the receiver or the sender has its turn.
\<close>

definition tr_meas :: "nat \<Rightarrow> bool \<Rightarrow> nat \<Rightarrow> nat \<Rightarrow> nat" where
  "tr_meas n staged rr sr = 64 * n + (if staged then rr else 32 + sr)"

section \<open>Scheduling\<close>

lemma leads_to:
  assumes step: "\<And>s. P s \<Longrightarrow> \<exists>s'. R s s' \<and> (Q s' \<or> P s' \<and> m s' < (m s :: nat))" and "P s"
  shows "\<exists>s'. R\<^sup>*\<^sup>* s s' \<and> Q s'"
  using assms(2)
proof (induction "m s" arbitrary: s rule: less_induct)
  case less
  from step [OF less.prems] obtain s' where s': "R s s'" "Q s' \<or> P s' \<and> m s' < m s" by blast
  then show ?case using less.hyps [of s'] by (meson converse_rtranclp_into_rtranclp rtranclp.rtrancl_refl)
qed

text \<open>
  A state reached while the channel is enabled, in which the callers other than \<open>i\<close> stand where \<open>f\<close>
  says, and a caller in a given phase.
\<close>

definition live :: "xcfg \<Rightarrow> pisces_xbuf \<Rightarrow> nat \<Rightarrow> (nat \<Rightarrow> cl_pc) \<Rightarrow> xsys \<Rightarrow> bool" where
  "live cfg x i f s \<longleftrightarrow> calls_ok cfg \<and> fresh_xbuf x \<and> xreach cfg x s \<and> xb_ready (xs_buf (x_sh s)) \<and>
     (\<forall>j. j \<noteq> i \<longrightarrow> x_cl s j = f j)"

abbreviation in_phase :: "(pisces_xbuf \<Rightarrow> bool \<Rightarrow> cl_pc \<Rightarrow> srv_pc \<Rightarrow> bool) \<Rightarrow> nat \<Rightarrow> xsys \<Rightarrow> bool" where
  "in_phase ph i s \<equiv> ph (xs_buf (x_sh s)) (xs_ipi (x_sh s)) (x_cl s i) (x_srv s)"

definition moved :: "nat \<Rightarrow> xshared \<Rightarrow> cl_pc \<Rightarrow> xsys \<Rightarrow> xsys" where
  "moved i sh C s = s\<lparr>x_sh := sh, x_cl := (x_cl s)(i := C)\<rparr>"

lemma moved_fields [simp]:
  "x_sh (moved i sh C s) = sh" "x_srv (moved i sh C s) = x_srv s" "x_cl (moved i sh C s) i = C"
  "j \<noteq> i \<Longrightarrow> x_cl (moved i sh C s) j = x_cl s j"
  by (simp_all add: moved_def)

lemma live_ok:
  assumes "live cfg x i f s"
  shows "xbuf_ok (xb_total_size x) (xs_buf (x_sh s))" "cl_ok (xb_total_size x) (x_cl s j)"
    "sv_ok (xb_total_size x) (x_srv s)" "xb_ready (xs_buf (x_sh s))" "lengths_ok cfg"
  using assms xreach_mem [of cfg x s] calls_okD(1) [of cfg] by (auto simp: live_def inv_mem_def)

lemma client_moves:
  assumes "live cfg x i f s" and "\<And>r a. x_cl s i \<noteq> CDone r a"
  obtains sh C where "pisces_xbuf_sync_send cfg i (x_sh s) (x_cl s i) = Some (sh, C)"
    "xstep cfg s (moved i sh C s)" "live cfg x i f (moved i sh C s)"
proof -
  note O = live_ok [OF assms(1)]
  obtain sh C where st: "pisces_xbuf_sync_send cfg i (x_sh s) (x_cl s i) = Some (sh, C)"
    using client_safe [OF O(5,1,2) assms(2), of i] by auto
  then have "xstep cfg s (moved i sh C s)" unfolding moved_def by (rule xstep.client)
  moreover from this have "live cfg x i f (moved i sh C s)"
    using assms(1) client_ready [OF st] xreach.xstep by (auto simp: live_def)
  ultimately show thesis using st that by blast
qed

lemma server_moves:
  assumes "live cfg x i f s"
  obtains sh V where "irq_handler cfg (x_sh s) (x_srv s) = Some (sh, V)"
    "xstep cfg s (s\<lparr>x_sh := sh, x_srv := V\<rparr>)" "live cfg x i f (s\<lparr>x_sh := sh, x_srv := V\<rparr>)"
proof -
  obtain sh V where st: "irq_handler cfg (x_sh s) (x_srv s) = Some (sh, V)"
    using server_safe [OF live_ok(1,3) [OF assms]] by fast
  then have "xstep cfg s (s\<lparr>x_sh := sh, x_srv := V\<rparr>)" by (rule xstep.server)
  moreover from this have "live cfg x i f (s\<lparr>x_sh := sh, x_srv := V\<rparr>)"
    using assms server_ready [OF st] xreach.xstep by (auto simp: live_def)
  ultimately show thesis using st that by blast
qed

section \<open>The phases of a call\<close>

text \<open>The caller stages the first chunk.\<close>

definition stage_rank :: "cl_pc \<Rightarrow> nat" where
  "stage_rank C = (case C of CUnlock _ \<Rightarrow> 3 | CStageLen \<Rightarrow> 2 | CStageCopy \<Rightarrow> 1 | _ \<Rightarrow> 0)"

lemma stage_leads:
  assumes "live cfg x i f s" and "in_phase (ph_stage (xc_req cfg i)) i s"
  shows "\<exists>s'. (xstep cfg)\<^sup>*\<^sup>* s s' \<and> live cfg x i f s' \<and> in_phase (ph_req (xc_req cfg i)) i s'"
proof (rule leads_to [where m = "\<lambda>s. stage_rank (x_cl s i)"])
  show "live cfg x i f s \<and> in_phase (ph_stage (xc_req cfg i)) i s" using assms by blast
  fix s assume P: "live cfg x i f s \<and> in_phase (ph_stage (xc_req cfg i)) i s"
  then have "x_cl s i \<in> {CUnlock True, CStageLen, CStageCopy, CStageRaise}" by (auto simp: ph_stage_def)
  then have C: "x_cl s i \<noteq> CDone r a" "owns (x_cl s i)" for r a by (auto simp: owns_def)
  have "inv_own (x_sh s) (x_cl s)" using P xreach_own [of cfg x s] by (simp add: live_def)
  then have pend: "xb_pending (xs_buf (x_sh s))" using C(2) unfolding inv_own_def by blast
  have cfg: "calls_ok cfg" using P by (simp add: live_def)
  obtain sh C' where st: "pisces_xbuf_sync_send cfg i (x_sh s) (x_cl s i) = Some (sh, C')"
    "xstep cfg s (moved i sh C' s)" "live cfg x i f (moved i sh C' s)" by (rule client_moves [OF conjunct1 [OF P] C(1)])
  have S: "if x_cl s i = CStageRaise then ph_req (xc_req cfg i) (xs_buf sh) (xs_ipi sh) C' (x_srv s)
    else ph_stage (xc_req cfg i) (xs_buf sh) (xs_ipi sh) C' (x_srv s)"
    using P live_ok(1) by (intro client_stage [OF calls_okD(2,3) [OF cfg] _ pend _ st(1)]) blast+
  moreover have "stage_rank C' < stage_rank (x_cl s i)" if "x_cl s i \<noteq> CStageRaise"
    using that P st(1) calls_okD(3) [OF cfg, of i]
    by (auto simp: ph_stage_def cl_step stage_rank_def split: bind_splits)
  ultimately show "\<exists>s'. xstep cfg s s' \<and> ((live cfg x i f s' \<and> in_phase (ph_req (xc_req cfg i)) i s') \<or>
      (live cfg x i f s' \<and> in_phase (ph_stage (xc_req cfg i)) i s') \<and> stage_rank (x_cl s' i) < stage_rank (x_cl s i))"
    using st by (intro exI [of _ "moved i sh C' s"]) (auto split: if_splits)
qed

text \<open>The request goes over: the server catches up, or the caller stages the next chunk.\<close>

definition sv_rest :: "bytes \<Rightarrow> srv_pc \<Rightarrow> nat" where
  "sv_rest d V = length d - (case V of VRecv rc \<Rightarrow> unat (rc_read rc) | _ \<Rightarrow> 0)"

definition sv_rank :: "srv_pc \<Rightarrow> nat" where
  "sv_rank V = (case V of VRecv rc \<Rightarrow> rcv_rank rc | VRInit \<Rightarrow> 5 | VChkRecv \<Rightarrow> 6 | VRaiseActive \<Rightarrow> 7
     | VChkActive \<Rightarrow> 8 | VChkPending \<Rightarrow> 9 | _ \<Rightarrow> 10)"

definition cl_rank :: "cl_pc \<Rightarrow> nat" where
  "cl_rank C = (case C of CSend s \<Rightarrow> snd_rank s | _ \<Rightarrow> 0)"

definition req_meas :: "bytes \<Rightarrow> pisces_xbuf \<Rightarrow> cl_pc \<Rightarrow> srv_pc \<Rightarrow> nat" where
  "req_meas d x C V = tr_meas (sv_rest d V) (xb_staged x) (sv_rank V) (cl_rank C) + (if C = CIpi then 1 else 0)"

lemma sv_rank_le: "sv_rank V \<le> 10" and cl_rank_le: "cl_rank C \<le> 4"
  using rank_le by (auto simp: sv_rank_def cl_rank_def le_trans [OF rank_le(2)] split: srv_pc.splits cl_pc.splits)

lemma req_server_lowers:
  assumes d: "length d < 2 ^ 32" "d \<noteq> []" and h: "xc_handler cfg = Some h"
    and ok: "xbuf_ok X (xs_buf sh)" "sv_ok X V" and rdy: "xb_ready (xs_buf sh)" and stg: "xb_staged (xs_buf sh)"
    and ph: "ph_req d (xs_buf sh) (xs_ipi sh) C V" and C: "C \<noteq> CIpi"
    and st: "irq_handler cfg sh V = Some (sh', V')" and ph': "ph_req d (xs_buf sh') (xs_ipi sh') C V'"
  shows "req_meas d (xs_buf sh') C V' < req_meas d (xs_buf sh) C V"
proof (cases "\<exists>rc. V = VRecv rc")
  case True
  then obtain rc where V: "V = VRecv rc" by blast
  obtain x' r' where e: "recv_data_step (xs_buf sh) rc = Some (x', r')" "sh' = xs_upd sh x'" "V' = server_recv cfg r'"
    using st V by (auto simp: sv_step split: bind_splits)
  have r: "receiver_ok X rc" "\<forall>n. rc_pc rc \<noteq> RRet n" using ok(2) V by (auto simp: sv_ok_def)
  have at: "receiver_at d rc" using ph V by (auto simp: ph_req_def sv_receives_def)
  have "xb_active (xs_buf sh')" using ph V e(2) recv_step_same_call [OF e(1)] by (auto simp: ph_req_def same_call_def)
  then have "V' = VRecv r'"
    using ph' e(3) h by (auto simp: ph_req_def sv_receives_def server_recv_def server_handle_def
        split: rcv_pc.splits srv_pc.splits option.splits)
  moreover have "unat (rc_read rc) < length d"
    using r at by (auto simp: receiver_ok_def receiver_at_def word_less_nat_alt)
  ultimately show ?thesis
    using recv_step_rank [OF ok(1) r(1) rdy stg e(1)] V C e(2) rank_le(2) cl_rank_le [of C] stg
    by (auto simp: req_meas_def tr_meas_def sv_rest_def sv_rank_def)
next
  case False
  then have V: "V \<in> {VIdle, VChkPending, VChkActive, VRaiseActive, VChkRecv, VRInit}"
    using ph unfolding ph_req_def by (blast dest: sv_receives_cases)
  have dl: "xb_data_len (xs_buf sh) = of_nat (length d)" using ph by (simp add: ph_req_def)
  show ?thesis
    using V st ph h C stg recv_init_at [OF dl d]
    by (auto simp: sv_step ph_req_def server_recv_def req_meas_def tr_meas_def sv_rest_def sv_rank_def rcv_rank_def xb_simps)
qed

lemma req_client_lowers:
  assumes d: "length d < 2 ^ 32" "d \<noteq> []" "xc_req cfg i = d" and ok: "xbuf_ok X (xs_buf sh)" "sv_ok X V"
    and rdy: "xb_ready (xs_buf sh)" and turn: "\<not> xb_staged (xs_buf sh) \<or> C = CIpi"
    and ph: "ph_req d (xs_buf sh) (xs_ipi sh) C V" and st: "pisces_xbuf_sync_send cfg i sh C = Some (sh', C')"
  shows "req_meas d (xs_buf sh') C' V < req_meas d (xs_buf sh) C V"
proof -
  obtain k sv r rv where c: "cl_sends d (xs_buf sh) C k sv" "sv_receives d V r rv"
      "chan d (xs_buf sh) k sv r rv" using ph by (auto simp: ph_req_def)
  show ?thesis
  proof (cases "C = CIpi")
    case True
    then have "xb_staged (xs_buf sh)"
      using c d(2) ok(1) sv_receives_cases [OF c(2)] ph
      by (auto simp: ph_req_def cl_sends_def chan_def Let_def first_len_def xbuf_ok_def word_less_nat_alt
          min_def split: if_splits)
    moreover have "xs_buf sh' = xs_buf sh" "C' \<noteq> CIpi"
      using st True by (auto simp: cl_step client_send_def split: snd_pc.splits)
    ultimately show ?thesis using True by (simp add: req_meas_def tr_meas_def)
  next
    case False
    then have stg: "\<not> xb_staged (xs_buf sh)" using turn by simp
    have "r < length d"
      using ok(2) c(2) d(2) by (auto simp: sv_receives_def sv_ok_def receiver_ok_def receiver_at_def word_less_nat_alt
          split: srv_pc.splits)
    then obtain s where s: "C = CSend s"
      using c(1,3) stg False by (auto simp: cl_sends_def chan_def split: cl_pc.splits)
    then obtain x' s' where e: "send_data_step (xs_buf sh) s = Some (x', s')"
        "sh' = xs_upd sh x'" "C' = (case sn_pc s' of SRet n \<Rightarrow> CWait | _ \<Rightarrow> CSend s')"
      using st by (auto simp: cl_step split: bind_splits)
    then show ?thesis using send_step_rank [OF rdy stg e(1)] s stg sv_rank_le [of V]
      by (auto simp: req_meas_def tr_meas_def cl_rank_def split: snd_pc.splits)
  qed
qed

lemma req_leads:
  assumes "live cfg x i f s" and "in_phase (ph_req (xc_req cfg i)) i s"
  shows "\<exists>s'. (xstep cfg)\<^sup>*\<^sup>* s s' \<and> live cfg x i f s' \<and> in_phase (ph_serve (answer cfg (xc_req cfg i))) i s'"
proof (rule leads_to [where m = "\<lambda>s. req_meas (xc_req cfg i) (xs_buf (x_sh s)) (x_cl s i) (x_srv s)"])
  let ?d = "xc_req cfg i" and ?a = "answer cfg (xc_req cfg i)"
  show "live cfg x i f s \<and> in_phase (ph_req ?d) i s" using assms by blast
  fix s assume P: "live cfg x i f s \<and> in_phase (ph_req ?d) i s"
  then have cfg: "calls_ok cfg" by (simp add: live_def)
  note D = calls_okD [OF cfg] and L = live_ok [OF conjunct1 [OF P]]
  obtain h where h: "xc_handler cfg = Some h" "h (recv_ret ?d) ?d = Some ?a" using D(6) [of i] by blast
  show "\<exists>s'. xstep cfg s s' \<and> ((live cfg x i f s' \<and> in_phase (ph_serve ?a) i s') \<or>
      (live cfg x i f s' \<and> in_phase (ph_req ?d) i s') \<and>
      req_meas ?d (xs_buf (x_sh s')) (x_cl s' i) (x_srv s') < req_meas ?d (xs_buf (x_sh s)) (x_cl s i) (x_srv s))"
  proof (cases "xb_staged (xs_buf (x_sh s)) \<and> x_cl s i \<noteq> CIpi")
    case True
    obtain sh V where st: "irq_handler cfg (x_sh s) (x_srv s) = Some (sh, V)"
      "xstep cfg s (s\<lparr>x_sh := sh, x_srv := V\<rparr>)" "live cfg x i f (s\<lparr>x_sh := sh, x_srv := V\<rparr>)" by (rule server_moves [OF conjunct1 [OF P]])
    have "ph_req ?d (xs_buf sh) (xs_ipi sh) (x_cl s i) V \<or> ph_serve ?a (xs_buf sh) (xs_ipi sh) (x_cl s i) V"
      using P by (intro server_req [OF D(2,3) h L(1,3,4) _ st(1)]) blast
    then show ?thesis using st True P req_server_lowers [OF D(2,3) h(1) L(1,3,4) _ _ _ st(1)]
      by (intro exI [of _ "s\<lparr>x_sh := sh, x_srv := V\<rparr>"]) auto
  next
    case False
    have nd: "x_cl s i \<noteq> CDone r a" for r a using P by (auto simp: ph_req_def cl_sends_def)
    obtain sh C where st: "pisces_xbuf_sync_send cfg i (x_sh s) (x_cl s i) = Some (sh, C)"
      "xstep cfg s (moved i sh C s)" "live cfg x i f (moved i sh C s)" by (rule client_moves [OF conjunct1 [OF P] nd])
    have "ph_req ?d (xs_buf sh) (xs_ipi sh) C (x_srv s)"
      using P by (intro client_req [OF D(2) refl L(1,2,4) _ st(1)]) blast
    then show ?thesis using st False P req_client_lowers [OF D(2,3) refl L(1,3,4) _ _ st(1)]
      by (intro exI [of _ "moved i sh C s"]) auto
  qed
qed

text \<open>The server stages the answer.\<close>

definition serve_rank :: "srv_pc \<Rightarrow> nat" where
  "serve_rank V = (case V of VChkCompl _ \<Rightarrow> 4 | VRespLen _ \<Rightarrow> 3 | VRespCopy _ \<Rightarrow> 2 | VRespRaise _ \<Rightarrow> 1 | _ \<Rightarrow> 0)"

lemma serve_lowers:
  assumes "ph_serve a (xs_buf sh) (xs_ipi sh) C V" and "irq_handler cfg sh V = Some (sh', V')"
    and "ph_serve a (xs_buf sh') (xs_ipi sh') C V'"
  shows "serve_rank V' < serve_rank V"
proof -
  have "xb_complete (xs_buf sh')" if "V = VComplete a" using that assms(2) by (auto simp: sv_step xb_simps)
  then have "V \<in> {VChkCompl a, VRespLen a, VRespCopy a, VRespRaise a}"
    using ph_serve_cases [OF assms(1)] assms(3) by (auto simp: ph_serve_def)
  then show ?thesis using assms(1,2)
    by (auto simp: sv_step serve_rank_def ph_serve_def split: bind_splits if_splits)
qed

lemma serve_leads:
  assumes "live cfg x i f s" and "in_phase (ph_serve (answer cfg (xc_req cfg i))) i s"
  shows "\<exists>s'. (xstep cfg)\<^sup>*\<^sup>* s s' \<and> live cfg x i f s' \<and> in_phase (ph_resp (answer cfg (xc_req cfg i))) i s'"
proof (rule leads_to [where m = "\<lambda>s. serve_rank (x_srv s)"])
  let ?a = "answer cfg (xc_req cfg i)"
  show "live cfg x i f s \<and> in_phase (ph_serve ?a) i s" using assms by blast
  fix s assume P: "live cfg x i f s \<and> in_phase (ph_serve ?a) i s"
  then have cfg: "calls_ok cfg" by (simp add: live_def)
  obtain sh V where st: "irq_handler cfg (x_sh s) (x_srv s) = Some (sh, V)"
    "xstep cfg s (s\<lparr>x_sh := sh, x_srv := V\<rparr>)" "live cfg x i f (s\<lparr>x_sh := sh, x_srv := V\<rparr>)" by (rule server_moves [OF conjunct1 [OF P]])
  have "ph_serve ?a (xs_buf sh) (xs_ipi sh) (x_cl s i) V \<or> ph_resp ?a (xs_buf sh) (xs_ipi sh) (x_cl s i) V"
    using P live_ok(1) by (intro server_serve [OF calls_okD(5) [OF cfg] _ _ st(1)]) blast+
  then show "\<exists>s'. xstep cfg s s' \<and> ((live cfg x i f s' \<and> in_phase (ph_resp ?a) i s') \<or>
      (live cfg x i f s' \<and> in_phase (ph_serve ?a) i s') \<and> serve_rank (x_srv s') < serve_rank (x_srv s))"
    using st P serve_lowers [OF _ st(1)] by (intro exI [of _ "s\<lparr>x_sh := sh, x_srv := V\<rparr>"]) auto
qed

text \<open>The answer comes back: the caller catches up, or the server stages the next chunk.\<close>

definition cl_rest :: "bytes \<Rightarrow> cl_pc \<Rightarrow> nat" where
  "cl_rest a C = length a - (case C of CRecv rc \<Rightarrow> unat (rc_read rc) | _ \<Rightarrow> 0)"

definition cl_recv_rank :: "cl_pc \<Rightarrow> nat" where
  "cl_recv_rank C = (case C of CRecv rc \<Rightarrow> rcv_rank rc | CRInit \<Rightarrow> 5 | CChkStaged \<Rightarrow> 6 | CWait \<Rightarrow> 7 | _ \<Rightarrow> 8)"

definition sv_send_rank :: "srv_pc \<Rightarrow> nat" where
  "sv_send_rank V = (case V of VSend s \<Rightarrow> snd_rank s | _ \<Rightarrow> 0)"

definition resp_meas :: "bytes \<Rightarrow> pisces_xbuf \<Rightarrow> cl_pc \<Rightarrow> srv_pc \<Rightarrow> nat" where
  "resp_meas a x C V = tr_meas (cl_rest a C) (xb_staged x \<or> a = []) (cl_recv_rank C) (sv_send_rank V)"

lemma cl_recv_rank_le: "cl_recv_rank C \<le> 8" and sv_send_rank_le: "sv_send_rank V \<le> 4"
  using rank_le by (auto simp: cl_recv_rank_def sv_send_rank_def le_trans [OF rank_le(2)] split: srv_pc.splits cl_pc.splits)

lemma resp_client_lowers:
  assumes a: "length a < 2 ^ 32" and ok: "xbuf_ok X (xs_buf sh)" "cl_ok X C" and w: "xc_want cfg i"
    and rdy: "xb_ready (xs_buf sh)" and turn: "xb_staged (xs_buf sh) \<or> a = []"
    and ph: "ph_resp a (xs_buf sh) (xs_ipi sh) C V" and st: "pisces_xbuf_sync_send cfg i sh C = Some (sh', C')"
    and ph': "ph_resp a (xs_buf sh') (xs_ipi sh') C' V"
  shows "resp_meas a (xs_buf sh') C' V < resp_meas a (xs_buf sh) C V"
proof (cases "\<exists>rc. C = CRecv rc")
  case True
  then obtain rc where C: "C = CRecv rc" by blast
  then have ne: "a \<noteq> []" and at: "receiver_at a rc" using ph by (auto simp: ph_resp_def cl_receives_def split: if_splits)
  obtain x' r' where e: "recv_data_step (xs_buf sh) rc = Some (x', r')" "sh' = xs_upd sh x'" "C' = client_recv r'"
    using st C by (auto simp: cl_step split: bind_splits)
  have r: "receiver_ok X rc" "\<forall>n. rc_pc rc \<noteq> RRet n" using ok(2) C by (auto simp: cl_ok_def)
  have "C' = CRecv r'"
    using ph' e(3) ne by (auto simp: ph_resp_def cl_receives_def client_recv_def split: rcv_pc.splits if_splits)
  moreover have "unat (rc_read rc) < length a"
    using r at by (auto simp: receiver_ok_def receiver_at_def word_less_nat_alt)
  moreover have stg: "xb_staged (xs_buf sh)" using turn ne by simp
  ultimately show ?thesis
    using recv_step_rank [OF ok(1) r(1) rdy stg e(1)] C e(2) ne rank_le(2) sv_send_rank_le [of V]
    by (auto simp: resp_meas_def tr_meas_def cl_rest_def cl_recv_rank_def)
next
  case False
  then have C: "C \<in> {CWait, CWaitReady, CChkStaged, CRInit}" "C = CRInit \<Longrightarrow> a \<noteq> []"
    using ph by (cases C; auto simp: ph_resp_def cl_receives_def split: if_splits)+
  have "rc_read (recv_init (xs_buf sh)) = 0 \<and> rc_pc (recv_init (xs_buf sh)) = RReady" if "a \<noteq> []"
    using ph that recv_init_at [OF _ a that] by (simp add: ph_resp_def)
  then show ?thesis
    using C st ph w rdy turn ph'
    by (auto simp: cl_step ph_resp_def client_recv_def resp_meas_def tr_meas_def cl_rest_def cl_recv_rank_def rcv_rank_def
        cl_receives_def split: if_splits)
qed

lemma resp_server_lowers:
  assumes a: "a \<noteq> []" and ok: "xbuf_ok X (xs_buf sh)" "cl_ok X C" and rdy: "xb_ready (xs_buf sh)"
    and turn: "\<not> xb_staged (xs_buf sh)" and ph: "ph_resp a (xs_buf sh) (xs_ipi sh) C V"
    and st: "irq_handler cfg sh V = Some (sh', V')"
  shows "resp_meas a (xs_buf sh') C V' < resp_meas a (xs_buf sh) C V"
proof -
  obtain k sv r rv where c: "sv_sends a (xs_buf sh) V k sv" "cl_receives a C r rv" "chan a (xs_buf sh) k sv r rv"
    using ph a by (auto simp: ph_resp_def)
  have "r < length a"
    using ok(2) c(2) a by (auto simp: cl_receives_def cl_ok_def receiver_ok_def receiver_at_def word_less_nat_alt
        split: cl_pc.splits)
  then obtain s where s: "V = VSend s" using c(1,3) turn sv_sends_cases [OF c(1)] by (auto simp: sv_sends_def chan_def)
  obtain x' s' where e: "send_data_step (xs_buf sh) s = Some (x', s')"
      "sh' = xs_upd sh x'" "V' = (case sn_pc s' of SRet n \<Rightarrow> VIdle | _ \<Rightarrow> VSend s')"
    using st s by (auto simp: sv_step split: bind_splits)
  then show ?thesis using send_step_rank [OF rdy turn e(1)] s turn a cl_recv_rank_le [of C]
    by (auto simp: resp_meas_def tr_meas_def sv_send_rank_def split: snd_pc.splits)
qed

lemma resp_leads:
  assumes "live cfg x i f s" and "in_phase (ph_resp (answer cfg (xc_req cfg i))) i s"
  shows "\<exists>s'. (xstep cfg)\<^sup>*\<^sup>* s s' \<and> live cfg x i f s' \<and> in_phase (\<lambda>x. ph_end (answer cfg (xc_req cfg i))) i s'"
proof (rule leads_to [where m = "\<lambda>s. resp_meas (answer cfg (xc_req cfg i)) (xs_buf (x_sh s)) (x_cl s i) (x_srv s)"])
  let ?a = "answer cfg (xc_req cfg i)"
  show "live cfg x i f s \<and> in_phase (ph_resp ?a) i s" using assms by blast
  fix s assume P: "live cfg x i f s \<and> in_phase (ph_resp ?a) i s"
  then have cfg: "calls_ok cfg" by (simp add: live_def)
  note D = calls_okD [OF cfg] and L = live_ok [OF conjunct1 [OF P]]
  show "\<exists>s'. xstep cfg s s' \<and> ((live cfg x i f s' \<and> in_phase (\<lambda>x. ph_end ?a) i s') \<or>
      (live cfg x i f s' \<and> in_phase (ph_resp ?a) i s') \<and>
      resp_meas ?a (xs_buf (x_sh s')) (x_cl s' i) (x_srv s') < resp_meas ?a (xs_buf (x_sh s)) (x_cl s i) (x_srv s))"
  proof (cases "xb_staged (xs_buf (x_sh s)) \<or> ?a = []")
    case True
    have nd: "x_cl s i \<noteq> CDone r b" for r b using P by (auto simp: ph_resp_def cl_receives_def split: if_splits)
    obtain sh C where st: "pisces_xbuf_sync_send cfg i (x_sh s) (x_cl s i) = Some (sh, C)"
      "xstep cfg s (moved i sh C s)" "live cfg x i f (moved i sh C s)" by (rule client_moves [OF conjunct1 [OF P] nd])
    have "ph_resp ?a (xs_buf sh) (xs_ipi sh) C (x_srv s) \<or> ph_end ?a (xs_ipi sh) C (x_srv s)"
      using P by (intro client_resp [OF D(5) L(1,2) D(4) L(4) _ st(1)]) blast
    then show ?thesis using st True P resp_client_lowers [OF D(5) L(1,2) D(4) L(4) True _ st(1)]
      by (intro exI [of _ "moved i sh C s"]) auto
  next
    case False
    obtain sh V where st: "irq_handler cfg (x_sh s) (x_srv s) = Some (sh, V)"
      "xstep cfg s (s\<lparr>x_sh := sh, x_srv := V\<rparr>)" "live cfg x i f (s\<lparr>x_sh := sh, x_srv := V\<rparr>)" by (rule server_moves [OF conjunct1 [OF P]])
    have "ph_resp ?a (xs_buf sh) (xs_ipi sh) (x_cl s i) V"
      using P by (intro server_resp [OF L(1,3,4) _ st(1)]) blast
    then show ?thesis using st False P resp_server_lowers [OF _ L(1,2,4) _ _ st(1)]
      by (intro exI [of _ "s\<lparr>x_sh := sh, x_srv := V\<rparr>"]) auto
  qed
qed

lemma end_leads:
  assumes "live cfg x i f s" and "in_phase (\<lambda>x. ph_end (answer cfg (xc_req cfg i))) i s"
  shows "\<exists>s'. xstep cfg s s' \<and> live cfg x i f s' \<and> x_cl s' i = CDone 0 (response (answer cfg (xc_req cfg i)))"
proof -
  have nd: "x_cl s i \<noteq> CDone r a" for r a using assms(2) by (auto simp: ph_end_def)
  obtain sh C where st: "pisces_xbuf_sync_send cfg i (x_sh s) (x_cl s i) = Some (sh, C)"
    "xstep cfg s (moved i sh C s)" "live cfg x i f (moved i sh C s)" by (rule client_moves [OF assms(1) nd])
  then show ?thesis using client_end [OF assms(2) st(1)] by (intro exI [of _ "moved i sh C s"]) simp
qed

lemma owner_completes:
  assumes "live cfg x i f s" and "owns (x_cl s i)"
  shows "\<exists>s'. (xstep cfg)\<^sup>*\<^sup>* s s' \<and> live cfg x i f s' \<and> x_cl s' i = CDone 0 (response (answer cfg (xc_req cfg i)))"
proof -
  let ?d = "xc_req cfg i" and ?a = "answer cfg (xc_req cfg i)"
  let ?to = "\<lambda>s Q. \<exists>s'. (xstep cfg)\<^sup>*\<^sup>* s s' \<and> live cfg x i f s' \<and> Q s'"
  let ?fin = "\<lambda>s. x_cl s i = CDone 0 (response ?a)"
  have trans: "?to s Q" if "?to s P" "\<And>s. live cfg x i f s \<Longrightarrow> P s \<Longrightarrow> ?to s Q" for P Q s
    using that by (meson rtranclp_trans)
  have E: "?to s ?fin" if "live cfg x i f s" "in_phase (\<lambda>x. ph_end ?a) i s" for s using end_leads [OF that] by blast
  have R: "?to s ?fin" if "live cfg x i f s" "in_phase (ph_resp ?a) i s" for s using trans [OF resp_leads [OF that] E] .
  have V: "?to s ?fin" if "live cfg x i f s" "in_phase (ph_serve ?a) i s" for s using trans [OF serve_leads [OF that] R] .
  have Q: "?to s ?fin" if "live cfg x i f s" "in_phase (ph_req ?d) i s" for s using trans [OF req_leads [OF that] V] .
  have S: "?to s ?fin" if "live cfg x i f s" "in_phase (ph_stage ?d) i s" for s using trans [OF stage_leads [OF that] Q] .
  have "inv_call cfg s" "inv_own (x_sh s) (x_cl s)" using assms(1) xreach_call xreach_own by (auto simp: live_def)
  then have "in_phase (in_call ?d ?a) i s"
    using assms unfolding inv_call_def inv_own_def Let_def live_def by metis
  then show ?thesis unfolding in_call_def using S Q V R E assms(1) by blast
qed

section \<open>A caller that waits\<close>

lemma no_error_path:
  "xreach cfg x s \<Longrightarrow> xb_ready (xs_buf (x_sh s)) \<Longrightarrow> x_cl s i \<noteq> CUnlockErr"
proof (induction rule: xreach.induct)
  case xinit
  then show ?case by (simp add: xinit_def)
next
  case (xstep s s')
  from xstep(2) show ?case
  proof cases
    case (client j sh pc)
    have "pc \<noteq> CUnlockErr" if "xb_ready (xs_buf (x_sh s))"
      using client(2) that by (cases "x_cl s j"; auto simp: cl_step client_send_def client_recv_def
          split: if_splits bind_splits snd_pc.splits rcv_pc.splits)
    then show ?thesis using client xstep(3,4) client_ready [OF client(2)] by auto
  next
    case (server sh pc)
    then show ?thesis using xstep(3,4) server_ready [OF server(2)] by auto
  qed (use xstep(3,4) in \<open>auto simp: pisces_xbuf_disable_def xb_simps split: if_splits\<close>)
qed

definition wait_rank :: "cl_pc \<Rightarrow> nat" where
  "wait_rank C = (case C of CUnlock _ \<Rightarrow> 6 | CWaitQ \<Rightarrow> 5 | CLock \<Rightarrow> 4 | CChkReady \<Rightarrow> 3 | CChkPending \<Rightarrow> 2 | CResetA \<Rightarrow> 1 | _ \<Rightarrow> 0)"

definition unowned :: "nat \<Rightarrow> xsys \<Rightarrow> bool" where
  "unowned i s \<longleftrightarrow> (\<forall>j. \<not> owns (x_cl s j)) \<and> xs_lock (x_sh s) \<in> {None, Some i} \<and> (\<forall>r a. x_cl s i \<noteq> CDone r a)"

lemma acquire_leads:
  assumes "live cfg x i f s" and "unowned i s"
  shows "\<exists>s'. (xstep cfg)\<^sup>*\<^sup>* s s' \<and> live cfg x i f s' \<and> owns (x_cl s' i)"
proof (rule leads_to [where m = "\<lambda>s. wait_rank (x_cl s i)"])
  show "live cfg x i f s \<and> unowned i s" using assms by blast
  fix s assume P: "live cfg x i f s \<and> unowned i s"
  then have "inv_call cfg s" and own: "inv_own (x_sh s) (x_cl s)" and err: "x_cl s i \<noteq> CUnlockErr"
    using xreach_call xreach_own no_error_path by (auto simp: live_def)
  then have np: "\<not> xb_pending (xs_buf (x_sh s))" using P by (auto simp: inv_call_def Let_def live_def unowned_def free_xbuf_def)
  have nd: "x_cl s i \<noteq> CDone r a" for r a using P by (simp add: unowned_def)
  obtain sh C where st: "pisces_xbuf_sync_send cfg i (x_sh s) (x_cl s i) = Some (sh, C)"
    "xstep cfg s (moved i sh C s)" "live cfg x i f (moved i sh C s)" by (rule client_moves [OF conjunct1 [OF P] nd])
  have lk: "in_lock (x_cl s i) = (xs_lock (x_sh s) = Some i)" using own by (simp add: inv_own_def)
  have no: "\<not> owns (x_cl s i)" and rdy: "xb_ready (xs_buf (x_sh s))" and free: "xs_lock (x_sh s) \<in> {None, Some i}"
    using P by (auto simp: unowned_def live_def)
  have "owns C \<or> \<not> owns C \<and> (\<forall>r a. C \<noteq> CDone r a) \<and> wait_rank C < wait_rank (x_cl s i)"
    using st(1) np err lk no rdy free
    by (cases "x_cl s i") (auto simp: cl_step wait_rank_def owns_def in_lock_def split: if_splits)
  moreover have "xs_lock sh \<in> {None, Some i}"
    using client_lock(2) [OF st(1) lk] free by (metis insertCI not_None_eq singletonD insertE)
  moreover have "\<not> owns (x_cl s j)" for j using P by (simp add: unowned_def)
  ultimately show "\<exists>s'. xstep cfg s s' \<and> ((live cfg x i f s' \<and> owns (x_cl s' i)) \<or>
      (live cfg x i f s' \<and> unowned i s') \<and> wait_rank (x_cl s' i) < wait_rank (x_cl s i))"
    using st(2,3) by (intro exI [of _ "moved i sh C s"]) (auto simp: unowned_def moved_def)
qed

lemma unowned_completes:
  assumes "live cfg x i f s" and "unowned i s"
  shows "\<exists>s'. (xstep cfg)\<^sup>*\<^sup>* s s' \<and> live cfg x i f s' \<and> x_cl s' i = CDone 0 (response (answer cfg (xc_req cfg i)))"
  using acquire_leads [OF assms] owner_completes by (meson rtranclp_trans)

text \<open>Nobody owns the channel: a caller that holds the lock goes first.\<close>

lemma free_completes:
  assumes L: "live cfg x i f s" and no: "\<forall>k. \<not> owns (x_cl s k)" and i: "\<forall>r a. x_cl s i \<noteq> CDone r a"
  shows "\<exists>s'. (xstep cfg)\<^sup>*\<^sup>* s s' \<and> live cfg x i (x_cl s') s' \<and> x_cl s' i = CDone 0 (response (answer cfg (xc_req cfg i)))"
proof (cases "unowned i s")
  case True
  then show ?thesis using unowned_completes [OF L] by (auto simp: live_def)
next
  case False
  then obtain j where j: "j \<noteq> i" "xs_lock (x_sh s) = Some j" using no i by (auto simp: unowned_def)
  have own: "inv_own (x_sh s) (x_cl s)" using L xreach_own by (auto simp: live_def)
  then have "in_lock (x_cl s j)" using j(2) by (simp add: inv_own_def)
  then have "unowned j s" using no j(2) by (auto simp: unowned_def in_lock_def)
  moreover have "live cfg x j (x_cl s) s" using L by (simp add: live_def)
  ultimately obtain s1 where s1: "(xstep cfg)\<^sup>*\<^sup>* s s1" "live cfg x j (x_cl s) s1"
    "x_cl s1 j = CDone 0 (response (answer cfg (xc_req cfg j)))" using unowned_completes by blast
  have same: "x_cl s1 k = x_cl s k" if "k \<noteq> j" for k using s1(2) that by (simp add: live_def)
  have quiet: "\<not> owns (x_cl s1 k) \<and> \<not> in_lock (x_cl s1 k)" for k
    using no own j(2) s1(3) same [of k] by (cases "k = j") (auto simp: inv_own_def owns_def in_lock_def)
  have "inv_own (x_sh s1) (x_cl s1)" using s1(2) xreach_own by (auto simp: live_def)
  then have "xs_lock (x_sh s1) = None" using quiet unfolding inv_own_def by (metis not_None_eq)
  then have "unowned i s1" using quiet i same [of i] j(1) by (simp add: unowned_def)
  moreover have "live cfg x i (x_cl s1) s1" using s1(2) by (simp add: live_def)
  ultimately obtain s2 where s2: "(xstep cfg)\<^sup>*\<^sup>* s1 s2" "live cfg x i (x_cl s1) s2"
    "x_cl s2 i = CDone 0 (response (answer cfg (xc_req cfg i)))" using unowned_completes by blast
  have "live cfg x i (x_cl s2) s2" using s2(2) by (simp add: live_def)
  then show ?thesis using rtranclp_trans [OF s1(1) s2(1)] s2(3) by blast
qed

lemma caller_completes:
  assumes L: "live cfg x i f s" and i: "\<forall>r a. x_cl s i \<noteq> CDone r a"
  shows "\<exists>s'. (xstep cfg)\<^sup>*\<^sup>* s s' \<and> live cfg x i (x_cl s') s' \<and> x_cl s' i = CDone 0 (response (answer cfg (xc_req cfg i)))"
proof (cases "\<exists>j. j \<noteq> i \<and> owns (x_cl s j)")
  case False
  then show ?thesis
    using owner_completes [OF L] free_completes [OF L _ i] by (cases "owns (x_cl s i)") (auto simp: live_def, metis)
next
  case True
  then obtain j where j: "j \<noteq> i" "owns (x_cl s j)" by blast
  have "live cfg x j (x_cl s) s" using L by (simp add: live_def)
  from owner_completes [OF this j(2)] obtain s1 where s1: "(xstep cfg)\<^sup>*\<^sup>* s s1" "live cfg x j (x_cl s) s1"
    "x_cl s1 j = CDone 0 (response (answer cfg (xc_req cfg j)))" by blast
  have same: "x_cl s1 k = x_cl s k" if "k \<noteq> j" for k using s1(2) that by (simp add: live_def)
  have "inv_own (x_sh s) (x_cl s)" using L xreach_own by (auto simp: live_def)
  then have "\<not> owns (x_cl s k)" if "k \<noteq> j" for k using j(2) that unfolding inv_own_def by blast
  then have "\<not> owns (x_cl s1 k)" for k using s1(3) same [of k] by (cases "k = j") (simp_all add: owns_def)
  moreover have "live cfg x i (x_cl s1) s1" using s1(2) by (simp add: live_def)
  ultimately obtain s2 where "(xstep cfg)\<^sup>*\<^sup>* s1 s2" "live cfg x i (x_cl s2) s2"
    "x_cl s2 i = CDone 0 (response (answer cfg (xc_req cfg i)))"
    using free_completes [of cfg x i "x_cl s1" s1] i same [of i] j(1) by auto
  then show ?thesis using rtranclp_trans [OF s1(1)] by blast
qed

section \<open>Every call returns\<close>

text \<open>
  C4: In every state reached while the channel is enabled, and whatever the other callers, the server
  and signals have done so far, every caller that has not returned can still return 0 with the
  answer to its message: no interleaving blocks the channel.
\<close>

theorem xbuf_call_completes:
  assumes "calls_ok cfg" and "fresh_xbuf x" and "xreach cfg x s" and "xb_ready (xs_buf (x_sh s))"
    and "\<forall>ret resp. x_cl s i \<noteq> CDone ret resp"
  shows "\<exists>s' resp. (xstep cfg)\<^sup>*\<^sup>* s s' \<and> x_cl s' i = CDone 0 resp \<and>
    resp = (if answer cfg (xc_req cfg i) = [] then None else Some (answer cfg (xc_req cfg i)))"
proof -
  have "live cfg x i (x_cl s) s" using assms(1-4) by (simp add: live_def)
  from caller_completes [OF this assms(5)] show ?thesis by (auto simp: response_def)
qed

theorem xbuf_call_completes_witness:
  "\<exists>s s'. owns (x_cl s 0) \<and> (xstep demo_cfg)\<^sup>*\<^sup>* s s' \<and> x_cl s' 1 = CDone 0 (Some [3, 2, 1])"
proof -
  obtain s where s: "xreach demo_cfg demo_xbuf s" "owns (x_cl s 0)" "xb_ready (xs_buf (x_sh s))" "x_cl s 1 = CLock"
    by (rule demo_owner)
  then have "\<exists>s' resp. (xstep demo_cfg)\<^sup>*\<^sup>* s s' \<and> x_cl s' 1 = CDone 0 resp \<and>
    resp = (if answer demo_cfg (xc_req demo_cfg 1) = [] then None else Some (answer demo_cfg (xc_req demo_cfg 1)))"
    by (intro xbuf_call_completes [OF demo_ok(1,3)]) simp_all
  moreover have "answer demo_cfg (xc_req demo_cfg 1) = [3, 2, 1]" by (simp add: answer_def demo_cfg_def)
  ultimately show ?thesis using s(2) by auto
qed

end
