(* ===== verification/Irq.thy ===== *)
theory Irq
  imports Prelude
begin

text \<open>
  Interrupts and inter-processor interrupts of the module (\<open>pisces_irq.c\<close>, in the variant for
  kernels from 3.16 on): allocating an interrupt line with a handler and giving it back, the
  vector of a line, the mask bit of the local APIC, and the IPI to an enclave.

  Shown: a failed request leaves no line and no handler behind, a successful one is undone by the
  release, and masking and unmasking change nothing but the mask bit.
\<close>

section \<open>State\<close>

text \<open>
  The lines the kernel has given out and the handler data registered on each. \<open>ie_alloc\<close> is what
  \<open>irq_alloc_hwirq\<close> returns (0 when there is no line), \<open>ie_request\<close> what \<open>request_irq\<close> returns and
  \<open>ie_vector\<close> the vector in the chip data of a line, if it has chip data.
\<close>

record irq_env =
  ie_alloc :: int
  ie_request :: int
  ie_vector :: "int \<Rightarrow> u8 option"

record irq_state =
  irq_lines :: "int set"
  irq_handlers :: "int \<Rightarrow> nat option"

section \<open>The local APIC\<close>

abbreviation APIC_LVT_MASKED :: u64 where "APIC_LVT_MASKED \<equiv> 0x10000"

definition mask_lapic_irq :: "u64 \<Rightarrow> u64" where
  "mask_lapic_irq v = v OR APIC_LVT_MASKED"

definition unmask_lapic_irq :: "u64 \<Rightarrow> u64" where
  "unmask_lapic_irq v = v AND NOT APIC_LVT_MASKED"

lemma mask_bits:
  "bit (mask_lapic_irq v) n \<longleftrightarrow> n = 16 \<or> bit v n"
  "bit (unmask_lapic_irq v) n \<longleftrightarrow> n \<noteq> 16 \<and> bit v n"
proof -
  have "bit (2 ^ 16 :: u64) n \<longleftrightarrow> n = 16" unfolding bit_exp_iff by auto
  then have b: "bit APIC_LVT_MASKED n \<longleftrightarrow> n = 16" by simp
  show "bit (mask_lapic_irq v) n \<longleftrightarrow> n = 16 \<or> bit v n" "bit (unmask_lapic_irq v) n \<longleftrightarrow> n \<noteq> 16 \<and> bit v n"
    unfolding mask_lapic_irq_def unmask_lapic_irq_def using b by (auto simp: bit_simps dest: bit_imp_le_length)
qed

section \<open>Lines and handlers\<close>

definition pisces_alloc_irq :: "irq_env \<Rightarrow> irq_state \<Rightarrow> int \<times> irq_state" where
  "pisces_alloc_irq env st =
     (ie_alloc env, if ie_alloc env > 0 then st\<lparr>irq_lines := insert (ie_alloc env) (irq_lines st)\<rparr> else st)"

definition pisces_free_irq :: "int \<Rightarrow> irq_state \<Rightarrow> irq_state" where
  "pisces_free_irq irq st = st\<lparr>irq_lines := irq_lines st - {irq}\<rparr>"

definition pisces_request_irq :: "irq_env \<Rightarrow> nat \<Rightarrow> irq_state \<Rightarrow> int \<times> irq_state" where
  "pisces_request_irq env priv_data st =
     (let (irq, st1) = pisces_alloc_irq env st in
      if irq < 0 then (irq, st1)
      else if ie_request env \<noteq> 0 then (-1, pisces_free_irq irq st1)
      else (irq, st1\<lparr>irq_handlers := (irq_handlers st1)(irq \<mapsto> priv_data)\<rparr>))"

definition pisces_release_irq :: "int \<Rightarrow> irq_state \<Rightarrow> int \<times> irq_state" where
  "pisces_release_irq irq st =
     (0, pisces_free_irq irq (st\<lparr>irq_handlers := (irq_handlers st)(irq := None)\<rparr>))"

definition pisces_irq_to_vector :: "irq_env \<Rightarrow> int \<Rightarrow> int" where
  "pisces_irq_to_vector env irq = (case ie_vector env irq of None \<Rightarrow> -1 | Some v \<Rightarrow> uint v)"

section \<open>IPIs\<close>

text \<open>An IPI is the pair of the destination in physical mode and the vector.\<close>

definition pisces_send_ipi_to_apic :: "u32 \<Rightarrow> u32 \<Rightarrow> u32 \<times> u32" where
  "pisces_send_ipi_to_apic apic_id vector = (apic_id, vector)"

definition pisces_send_ipi :: "(u32 \<Rightarrow> u32) \<Rightarrow> u32 \<Rightarrow> u32 \<Rightarrow> u32 \<times> u32" where
  "pisces_send_ipi apicid cpu_id vector = pisces_send_ipi_to_apic (apicid cpu_id) vector"

definition pisces_send_enclave_ipi :: "(u32 \<Rightarrow> u32) \<Rightarrow> u32 \<Rightarrow> u32 \<Rightarrow> u32 \<times> u32" where
  "pisces_send_enclave_ipi apicid boot_cpu vector = pisces_send_ipi apicid boot_cpu vector"

section \<open>Requests and releases\<close>

text \<open>What the kernel promises of a line it gives out: it is a free one.\<close>

definition irq_fresh :: "irq_env \<Rightarrow> irq_state \<Rightarrow> bool" where
  "irq_fresh env st \<longleftrightarrow> ie_alloc env \<notin> irq_lines st \<and> irq_handlers st (ie_alloc env) = None"

lemma request_irq_cases:
  assumes "irq_fresh env st" and "pisces_request_irq env p st = (irq, st')"
  shows "if irq < 0 then st' = st
    else irq = ie_alloc env \<and> irq_handlers st' = (irq_handlers st)(irq \<mapsto> p) \<and>
      irq_lines st' = (if irq = 0 then irq_lines st else insert irq (irq_lines st))"
  using assms
  by (auto simp: pisces_request_irq_def pisces_alloc_irq_def pisces_free_irq_def irq_fresh_def Let_def
      insert_Diff_if split: if_splits)

lemma request_release:
  assumes "irq_fresh env st" and "pisces_request_irq env p st = (irq, st')" and "0 \<le> irq"
  shows "pisces_release_irq irq st' = (0, st)"
proof -
  have a: "irq = ie_alloc env" "irq_handlers st' = (irq_handlers st)(irq \<mapsto> p)"
    "irq_lines st' = (if irq = 0 then irq_lines st else insert irq (irq_lines st))"
    using request_irq_cases [OF assms(1,2)] assms(3) by auto
  have "(irq_handlers st)(irq := None) = irq_handlers st"
    using assms(1) a(1) by (auto simp: irq_fresh_def fun_eq_iff)
  moreover have "irq_lines st' - {irq} = irq_lines st" using assms(1) a by (auto simp: irq_fresh_def)
  ultimately show ?thesis using a(2) by (simp add: pisces_release_irq_def pisces_free_irq_def)
qed

text \<open>
  A request for an interrupt that fails leaves the lines and handlers of the machine as they
  were. One that succeeds registers the handler on exactly the line it returns, and releasing
  that line restores the state before the request.
\<close>

theorem irq_request_release:
  assumes "irq_fresh env st" and "pisces_request_irq env p st = (irq, st')"
  shows "if irq < 0 then st' = st
    else irq_handlers st' irq = Some p \<and> (\<forall>j. j \<noteq> irq \<longrightarrow> irq_handlers st' j = irq_handlers st j) \<and>
      pisces_release_irq irq st' = (0, st)"
  using request_irq_cases [OF assms] request_release [OF assms] by (auto split: if_splits)

theorem irq_request_release_witness:
  "snd (pisces_release_irq 40 (snd (pisces_request_irq \<lparr>ie_alloc = 40, ie_request = 0, ie_vector = (\<lambda>_. Some 0x51)\<rparr> 7
      \<lparr>irq_lines = {9}, irq_handlers = (\<lambda>_. None)\<rparr>))) = \<lparr>irq_lines = {9}, irq_handlers = (\<lambda>_. None)\<rparr>"
  using irq_request_release [of "\<lparr>ie_alloc = 40, ie_request = 0, ie_vector = (\<lambda>_. Some 0x51)\<rparr>"
      "\<lparr>irq_lines = {9}, irq_handlers = (\<lambda>_. None)\<rparr>" 7 40
      "snd (pisces_request_irq \<lparr>ie_alloc = 40, ie_request = 0, ie_vector = (\<lambda>_. Some 0x51)\<rparr> 7
      \<lparr>irq_lines = {9}, irq_handlers = (\<lambda>_. None)\<rparr>)"]
  by (simp add: irq_fresh_def pisces_request_irq_def pisces_alloc_irq_def)

end
