(* ===== verification/XbufDesc.thy ===== *)
theory XbufDesc
  imports XbufSession Irq
begin

text \<open>
  The descriptors of a channel: \<open>pisces_xbuf_server_init\<close> on the side that serves requests (with
  its interrupt line), \<open>pisces_xbuf_client_init\<close> on the side that sends them, and their
  counterparts. The area of the channel is the shared structure followed by its data bytes.

  Shown: a server that comes up leaves the buffer in the state the calls over the channel start
  from, with the vector of its line in the header; one that does not come up, at whatever point,
  holds no interrupt line; taking the server down gives its line back.
\<close>

record pisces_xbuf_desc =
  xd_addr :: nat
  xd_irq :: int
  xd_recv_handler :: bool
  xd_enclave :: nat

text \<open>The size of \<open>struct pisces_xbuf\<close>: the flags and six 32-bit fields.\<close>

definition sizeof_pisces_xbuf :: u32 where
  "sizeof_pisces_xbuf = 32"

text \<open>
  \<open>kmalloc\<close> gives an address or a null pointer, which the error test of the server does not
  recognise: the \<open>memset\<close> that follows does not come back. The third component of the result is
  the state of the interrupt lines.
\<close>

definition pisces_xbuf_server_init ::
    "irq_env \<Rightarrow> nat option \<Rightarrow> nat \<Rightarrow> pisces_xbuf \<Rightarrow> u32 \<Rightarrow> bool \<Rightarrow> u32 \<Rightarrow> irq_state \<Rightarrow>
     (pisces_xbuf_desc option \<times> pisces_xbuf \<times> irq_state) option" where
  "pisces_xbuf_server_init env kmalloc enclave x total_bytes recv_handler target_cpu st =
     (if xb_ready x then Some (None, x, st)
      else case kmalloc of
        None \<Rightarrow> None
      | Some desc \<Rightarrow>
        let x0 = x\<lparr>xb_flags := 0, xb_host_apic := 0, xb_host_vector := 0, xb_enclave_cpu := 0,
                   xb_enclave_vector := 0, xb_total_size := 0, xb_data_len := 0\<rparr>;
            (irq, st1) = pisces_request_irq env desc st
        in if irq < 0 then Some (None, x0, st1)
           else let vector = pisces_irq_to_vector env irq in
             if vector < 0 then Some (None, x0, snd (pisces_release_irq irq st1))
             else Some (Some \<lparr>xd_addr = desc, xd_irq = irq, xd_recv_handler = recv_handler, xd_enclave = enclave\<rparr>,
                    x0\<lparr>xb_host_apic := target_cpu, xb_host_vector := of_int vector,
                       xb_total_size := total_bytes - sizeof_pisces_xbuf\<rparr>, st1))"

definition pisces_xbuf_server_deinit :: "pisces_xbuf_desc \<Rightarrow> irq_state \<Rightarrow> int \<times> irq_state" where
  "pisces_xbuf_server_deinit desc st =
     (let (r, st1) = pisces_release_irq (xd_irq desc) st in if r \<noteq> 0 then (-1, st1) else (0, st1))"

definition pisces_xbuf_client_init ::
    "nat option \<Rightarrow> nat \<Rightarrow> pisces_xbuf \<Rightarrow> u32 \<Rightarrow> u32 \<Rightarrow> pisces_xbuf_desc option \<times> pisces_xbuf" where
  "pisces_xbuf_client_init kmalloc enclave x ipi_vector target_cpu =
     (case kmalloc of
        None \<Rightarrow> (None, x)
      | Some desc \<Rightarrow>
        (Some \<lparr>xd_addr = desc, xd_irq = 0, xd_recv_handler = False, xd_enclave = enclave\<rparr>,
         x\<lparr>xb_enclave_cpu := target_cpu, xb_enclave_vector := ipi_vector\<rparr>))"

section \<open>Sending and freeing\<close>

text \<open>\<open>pisces_xbuf_send\<close> over the synchronous call, whose answer is freed.\<close>

definition pisces_xbuf_send ::
    "(pisces_xbuf_desc \<Rightarrow> bytes \<Rightarrow> int \<times> bytes option) \<Rightarrow> pisces_xbuf_desc option \<Rightarrow> bytes \<Rightarrow> int" where
  "pisces_xbuf_send sync_send desc data =
     (case desc of None \<Rightarrow> -1 | Some d \<Rightarrow> (let (ret, resp) = sync_send d data in ret))"

text \<open>The addresses that are allocated; freeing one that is not does not come back, freeing a null pointer does nothing.\<close>

definition pisces_xbuf_client_deinit :: "pisces_xbuf_desc option \<Rightarrow> nat set \<Rightarrow> nat set option" where
  "pisces_xbuf_client_deinit desc heap =
     (case desc of None \<Rightarrow> Some heap | Some d \<Rightarrow> if xd_addr d \<in> heap then Some (heap - {xd_addr d}) else None)"

section \<open>Bringing a server up and down\<close>

text \<open>
  Bringing up the server of a channel whose area has room for data. When it comes up, the
  buffer is ready to be enabled for the first calls, with no flag raised, every byte after the
  header available and the vector of its interrupt line in the header, and the interrupt handler
  has the descriptor; taking the server down frees the line. When it does not come up, the
  interrupt lines are as before.
\<close>

theorem xbuf_server_init_fresh:
  assumes "irq_fresh env st" and "32 < unat total_bytes" and "length (xb_data x) = unat total_bytes - 32"
    and "pisces_xbuf_server_init env (Some a) enc x total_bytes hn cpu st = Some (desc, x', st')"
  shows "case desc of None \<Rightarrow> st' = st
    | Some d \<Rightarrow> fresh_xbuf x' \<and> xb_flags x' = 0 \<and> \<not> xb_ready x \<and>
        int (unat (xb_host_vector x')) = pisces_irq_to_vector env (xd_irq d) \<and>
        irq_handlers st' (xd_irq d) = Some a \<and> xd_addr d = a \<and>
        pisces_xbuf_server_deinit d st' = (0, st)"
proof (cases "xb_ready x")
  case False
  obtain irq st1 where r: "pisces_request_irq env a st = (irq, st1)" by fastforce
  note C = request_irq_cases [OF assms(1) r] and R = request_release [OF assms(1) r]
  show ?thesis
  proof (cases "irq < 0 \<or> pisces_irq_to_vector env irq < 0")
    case True
    then show ?thesis using assms(4) False r C R by (auto simp: pisces_xbuf_server_init_def Let_def split: if_splits)
  next
    case ok: False
    let ?v = "pisces_irq_to_vector env irq"
    have v: "0 \<le> ?v" "?v < 2 ^ 32" using ok
      by (auto simp: pisces_irq_to_vector_def split: option.splits intro: order.strict_trans [OF uint_lt2p])
    have "uint (of_int ?v :: u32) = ?v" using v by (simp add: uint_word_of_int take_bit_int_eq_self)
    moreover have s: "unat (total_bytes - sizeof_pisces_xbuf) = unat total_bytes - 32"
      using assms(2) by (simp add: sizeof_pisces_xbuf_def unat_diff_le)
    moreover have "0 < total_bytes - sizeof_pisces_xbuf" using s assms(2) by (simp add: word_less_nat_alt)
    moreover have "desc = Some \<lparr>xd_addr = a, xd_irq = irq, xd_recv_handler = hn, xd_enclave = enc\<rparr>" "st' = st1"
      "x' = x\<lparr>xb_flags := 0, xb_host_apic := cpu, xb_host_vector := of_int ?v, xb_enclave_cpu := 0,
         xb_enclave_vector := 0, xb_total_size := total_bytes - sizeof_pisces_xbuf, xb_data_len := 0\<rparr>"
      using assms(4) False r ok by (auto simp: pisces_xbuf_server_init_def Let_def)
    ultimately show ?thesis using False C R ok assms(3)
      by (auto simp: fresh_xbuf_def xb_ready_def pisces_xbuf_server_deinit_def)
  qed
qed (use assms(4) in \<open>simp add: pisces_xbuf_server_init_def\<close>)

theorem xbuf_server_init_fresh_witness:
  "\<exists>d x' st'. pisces_xbuf_server_init \<lparr>ie_alloc = 40, ie_request = 0, ie_vector = (\<lambda>_. Some 0x51)\<rparr> (Some 7) 100
      \<lparr>xb_flags = 0, xb_host_apic = 0, xb_host_vector = 0, xb_enclave_cpu = 0, xb_enclave_vector = 0,
       xb_total_size = 0, xb_data_len = 0, xb_data = replicate 8 0\<rparr> 40 True 0
      \<lparr>irq_lines = {}, irq_handlers = (\<lambda>_. None)\<rparr> = Some (Some d, x', st') \<and> fresh_xbuf x' \<and> xb_host_vector x' = 0x51"
proof -
  let ?e = "\<lparr>ie_alloc = 40, ie_request = 0, ie_vector = (\<lambda>_. Some 0x51)\<rparr> :: irq_env"
  let ?x = "\<lparr>xb_flags = 0, xb_host_apic = 0, xb_host_vector = 0, xb_enclave_cpu = 0, xb_enclave_vector = 0,
       xb_total_size = 0, xb_data_len = 0, xb_data = replicate 8 0\<rparr> :: pisces_xbuf"
  let ?s = "\<lparr>irq_lines = {}, irq_handlers = (\<lambda>_. None)\<rparr> :: irq_state"
  obtain d x' st' where r: "pisces_xbuf_server_init ?e (Some 7) 100 ?x 40 True 0 ?s = Some (Some d, x', st')"
    and v: "xb_host_vector x' = 0x51"
    by (simp add: pisces_xbuf_server_init_def xb_ready_def pisces_request_irq_def pisces_alloc_irq_def
        pisces_irq_to_vector_def Let_def)
  have "fresh_xbuf x'" using xbuf_server_init_fresh [OF _ _ _ r] by (simp add: irq_fresh_def)
  then show ?thesis using r v by blast
qed

end
