(* ===== verification/Hashtable.thy ===== *)
theory Hashtable
  imports Prelude "HOL-Library.Multiset"
begin

text \<open>
  The chained hash table of \<open>util-hashtable.c\<close>. A bucket is the list of the entries on its
  \<open>next\<close> chain. Allocation results are arguments: whether \<open>kmalloc\<close> of the new table, of the
  reallocated table and of the new entry gave memory. Objects handed to \<open>kfree\<close> are recorded
  in the order of the calls.

  Shown: the table refines a finite map (insert, change, search, remove, the counting
  operations, growth and failed growth included), the entry count is the number of entries,
  a lookup stays within the table, and freeing the table frees every entry once.
\<close>

section \<open>Data\<close>

record hash_entry =
  he_key :: u64
  he_value :: u64
  he_hash :: u32

record hashtable =
  ht_table_length :: u32
  ht_table :: "hash_entry list list"
  ht_entry_count :: u32
  ht_load_limit :: u32
  ht_prime_index :: nat
  ht_hash_fn :: "u64 \<Rightarrow> u32"
  ht_eq_fn :: "u64 \<Rightarrow> u64 \<Rightarrow> bool"

datatype freed = FreeKey u64 | FreeValue u64 | FreeEntry hash_entry | FreeTable | FreeHtable

section \<open>Hash functions\<close>

definition do_hash :: "hashtable \<Rightarrow> u64 \<Rightarrow> u32" where
  "do_hash htable key =
     (let i = ht_hash_fn htable key;
          i = i + NOT (push_bit 9 i);
          i = i XOR (drop_bit 14 i OR push_bit 18 i);
          i = i + push_bit 4 i;
          i = i XOR (drop_bit 10 i OR push_bit 22 i)
      in i)"

text \<open>\<open>__64BIT__\<close> is not defined by any compiler of the build: the multiplication is compiled.\<close>

definition hash_long :: "u64 \<Rightarrow> u32" where
  "hash_long val = ucast (val * 0x9e370001)"

fun hash_buffer_loop :: "bytes \<Rightarrow> u32 \<Rightarrow> u32 \<Rightarrow> u32" where
  "hash_buffer_loop [] i hash = hash"
| "hash_buffer_loop (c # msg) i hash =
     (let hash = push_bit 4 hash + ucast c + i;
          temp = hash AND 0xF0000000;
          hash = (if temp \<noteq> 0 then hash XOR drop_bit 24 temp else hash)
      in hash_buffer_loop msg (i + 1) (hash AND NOT temp))"

definition hash_buffer :: "bytes \<Rightarrow> u32" where
  "hash_buffer msg = hash_buffer_loop msg 0 0"

definition indexFor :: "u32 \<Rightarrow> u32 \<Rightarrow> u32" where
  "indexFor table_length hash_value = hash_value mod table_length"

section \<open>Creation\<close>

definition primes :: "u32 list" where
  "primes = [53, 97, 193, 389, 769, 1543, 3079, 6151, 12289, 24593, 49157, 98317, 196613, 393241,
     786433, 1572869, 3145739, 6291469, 12582917, 25165843, 50331653, 100663319, 201326611,
     402653189, 805306457, 1610612741]"

definition load_factors :: "u32 list" where
  "load_factors = [35, 64, 126, 253, 500, 1003, 2002, 3999, 7988, 15986, 31953, 63907, 127799,
     255607, 511182, 1022365, 2044731, 4089455, 8178897, 16357798, 32715575, 65431158, 130862298,
     261724573, 523449198, 1046898282]"

definition prime_table_len :: nat where
  "prime_table_len = length primes"

text \<open>The loop over the primes: the index of the first one above \<open>min_size\<close>.\<close>

fun prime_loop :: "u32 list \<Rightarrow> u32 \<Rightarrow> nat \<Rightarrow> nat" where
  "prime_loop [] min_size i = i"
| "prime_loop (p # ps) min_size i = (if p > min_size then i else prime_loop ps min_size (i + 1))"

definition create_htable ::
    "u32 \<Rightarrow> (u64 \<Rightarrow> u32) \<Rightarrow> (u64 \<Rightarrow> u64 \<Rightarrow> bool) \<Rightarrow> bool \<Rightarrow> bool \<Rightarrow> hashtable option option" where
  "create_htable min_size hash_fn eq_fn got_htable got_table =
     (if min_size > 2 ^ 30 then Some None
      else let prime_index = prime_loop primes min_size 0;
               sz = (if prime_index < prime_table_len then primes ! prime_index else primes ! 0) in
        if \<not> got_htable then Some None
        else if \<not> got_table then Some None
        else if prime_index < length load_factors
        then Some (Some \<lparr>ht_table_length = sz, ht_table = replicate (unat sz) [],
               ht_entry_count = 0, ht_load_limit = load_factors ! prime_index,
               ht_prime_index = prime_index, ht_hash_fn = hash_fn, ht_eq_fn = eq_fn\<rparr>)
        else None)"

section \<open>Growth\<close>

text \<open>Moving one bucket: each entry goes to the front of its chain in the new table.\<close>

fun move_bucket :: "u32 \<Rightarrow> hash_entry list \<Rightarrow> hash_entry list list \<Rightarrow> hash_entry list list" where
  "move_bucket new_size [] new_table = new_table"
| "move_bucket new_size (e # es) new_table =
     (let index = unat (indexFor new_size (he_hash e))
      in move_bucket new_size es (new_table[index := e # new_table ! index]))"

definition move_all :: "u32 \<Rightarrow> hash_entry list list \<Rightarrow> hash_entry list list" where
  "move_all new_size table = fold (move_bucket new_size) table (replicate (unat new_size) [])"

text \<open>
  When the new table cannot be allocated but the reallocation succeeds, \<open>tmp_realloc\<close> has
  copied as many bytes as the old table has buckets, an eighth of it, and the \<open>memset\<close> that
  follows writes through \<open>new_table[table_length]\<close>, which nothing has initialised: the
  outcome of that branch is undefined.
\<close>

definition hashtable_expand :: "hashtable \<Rightarrow> bool \<Rightarrow> bool \<Rightarrow> (int \<times> hashtable) option" where
  "hashtable_expand htable got_new got_realloc =
     (if ht_prime_index htable = prime_table_len - 1 then Some (0, htable)
      else let idx = ht_prime_index htable + 1; new_size = primes ! idx in
        if got_new then
          Some (-1, htable\<lparr>ht_prime_index := idx, ht_table := move_all new_size (ht_table htable),
                           ht_table_length := new_size, ht_load_limit := load_factors ! idx\<rparr>)
        else if \<not> got_realloc then Some (0, htable)
        else None)"

section \<open>Operations\<close>

definition htable_count :: "hashtable \<Rightarrow> u32" where
  "htable_count htable = ht_entry_count htable"

definition entry_matches :: "hashtable \<Rightarrow> u64 \<Rightarrow> hash_entry \<Rightarrow> bool" where
  "entry_matches htable key e \<longleftrightarrow> do_hash htable key = he_hash e \<and> ht_eq_fn htable key (he_key e)"

definition bucket_index :: "hashtable \<Rightarrow> u64 \<Rightarrow> nat" where
  "bucket_index htable key = unat (indexFor (ht_table_length htable) (do_hash htable key))"

definition htable_insert ::
    "hashtable \<Rightarrow> u64 \<Rightarrow> u64 \<Rightarrow> bool \<Rightarrow> bool \<Rightarrow> bool \<Rightarrow> (int \<times> hashtable) option" where
  "htable_insert htable key val got_new got_realloc got_entry =
     (let h1 = htable\<lparr>ht_entry_count := ht_entry_count htable + 1\<rparr> in do {
        h2 \<leftarrow> (if ht_entry_count h1 > ht_load_limit h1
               then map_option snd (hashtable_expand h1 got_new got_realloc) else Some h1);
        if \<not> got_entry then Some (0, h2\<lparr>ht_entry_count := ht_entry_count h2 - 1\<rparr>)
        else let e = \<lparr>he_key = key, he_value = val, he_hash = do_hash h2 key\<rparr>;
                 index = bucket_index h2 key
             in Some (-1, h2\<lparr>ht_table := (ht_table h2)[index := e # ht_table h2 ! index]\<rparr>)
      })"

text \<open>The walk that rewrites the first matching entry of a chain.\<close>

fun chain_update :: "(hash_entry \<Rightarrow> bool) \<Rightarrow> (u64 \<Rightarrow> u64) \<Rightarrow> hash_entry list \<Rightarrow> hash_entry list option" where
  "chain_update P f [] = None"
| "chain_update P f (e # es) =
     (if P e then Some (e\<lparr>he_value := f (he_value e)\<rparr> # es)
      else map_option ((#) e) (chain_update P f es))"

definition htable_update :: "hashtable \<Rightarrow> u64 \<Rightarrow> (u64 \<Rightarrow> u64) \<Rightarrow> int \<times> hashtable" where
  "htable_update htable key f =
     (let index = bucket_index htable key in
      case chain_update (entry_matches htable key) f (ht_table htable ! index) of
        None \<Rightarrow> (0, htable)
      | Some b \<Rightarrow> (-1, htable\<lparr>ht_table := (ht_table htable)[index := b]\<rparr>))"

definition htable_search :: "hashtable \<Rightarrow> u64 \<Rightarrow> u64" where
  "htable_search htable key =
     (case find (entry_matches htable key) (ht_table htable ! bucket_index htable key) of
        None \<Rightarrow> 0
      | Some cursor \<Rightarrow> he_value cursor)"

definition htable_change :: "hashtable \<Rightarrow> u64 \<Rightarrow> u64 \<Rightarrow> bool \<Rightarrow> int \<times> freed list \<times> hashtable" where
  "htable_change htable key val free_value =
     (let (ret, htable') = htable_update htable key (\<lambda>_. val) in
      (ret, if ret \<noteq> 0 \<and> free_value then [FreeValue (htable_search htable key)] else [], htable'))"

definition htable_inc :: "hashtable \<Rightarrow> u64 \<Rightarrow> u64 \<Rightarrow> int \<times> hashtable" where
  "htable_inc htable key val = htable_update htable key (\<lambda>v. v + val)"

definition htable_dec :: "hashtable \<Rightarrow> u64 \<Rightarrow> u64 \<Rightarrow> int \<times> hashtable" where
  "htable_dec htable key val = htable_update htable key (\<lambda>v. v - val)"

definition htable_remove :: "hashtable \<Rightarrow> u64 \<Rightarrow> bool \<Rightarrow> u64 \<times> freed list \<times> hashtable" where
  "htable_remove htable key free_key =
     (let index = bucket_index htable key; chain = ht_table htable ! index in
      case find (entry_matches htable key) chain of
        None \<Rightarrow> (0, [], htable)
      | Some cursor \<Rightarrow>
          (he_value cursor,
           (if free_key then [FreeKey (he_key cursor)] else []) @ [FreeEntry cursor],
           htable\<lparr>ht_table := (ht_table htable)[index := list_del_first (entry_matches htable key) chain],
                   ht_entry_count := ht_entry_count htable - 1\<rparr>))"

definition free_entry :: "bool \<Rightarrow> bool \<Rightarrow> hash_entry \<Rightarrow> freed list" where
  "free_entry free_values free_keys e =
     (if free_keys then [FreeKey (he_key e)] else []) @
     (if free_values then [FreeValue (he_value e)] else []) @ [FreeEntry e]"

definition free_htable :: "hashtable \<Rightarrow> bool \<Rightarrow> bool \<Rightarrow> freed list" where
  "free_htable htable free_values free_keys =
     concat (map (\<lambda>chain. concat (map (free_entry free_values free_keys) chain)) (ht_table htable))
     @ [FreeTable, FreeHtable]"

section \<open>The dictionary interface\<close>

text \<open>
  What the users of the table (the file table of \<open>enclave_fs.c\<close>) rely on: a lookup gives 0
  for an absent key, an insert of a new key and a removal act on the abstract map, and each
  keeps the invariant. An insert may fail for lack of memory and then changes nothing.
\<close>

locale dictionary =
  fixes inv :: "'t \<Rightarrow> bool" and dict :: "'t \<Rightarrow> u64 \<Rightarrow> u64 option" and room :: "'t \<Rightarrow> bool"
    and ins :: "'t \<Rightarrow> u64 \<Rightarrow> u64 \<Rightarrow> bool \<Rightarrow> (int \<times> 't) option"
    and look :: "'t \<Rightarrow> u64 \<Rightarrow> u64" and del :: "'t \<Rightarrow> u64 \<Rightarrow> u64 \<times> 't"
  assumes look_dict: "inv t \<Longrightarrow> look t k = (case dict t k of None \<Rightarrow> 0 | Some v \<Rightarrow> v)"
    and ins_ok: "inv t \<Longrightarrow> room t \<Longrightarrow> dict t k = None \<Longrightarrow>
      \<exists>t'. ins t k v True = Some (-1, t') \<and> inv t' \<and> dict t' = (dict t)(k \<mapsto> v)"
    and ins_fail: "inv t \<Longrightarrow> room t \<Longrightarrow>
      \<exists>t'. ins t k v False = Some (0, t') \<and> inv t' \<and> dict t' = dict t"
    and del_dict: "inv t \<Longrightarrow> del t k = (r, t') \<Longrightarrow>
      r = look t k \<and> inv t' \<and> dict t' = (dict t)(k := None)"
begin

lemma look_after_ins:
  assumes "inv t" and "room t" and "dict t k = None"
  obtains t' where "ins t k v True = Some (-1, t')" "inv t'" "look t' k = v"
    "\<And>k'. k' \<noteq> k \<Longrightarrow> look t' k' = look t k'"
proof -
  obtain t' where t': "ins t k v True = Some (-1, t')" "inv t'" "dict t' = (dict t)(k \<mapsto> v)"
    using ins_ok [OF assms] by blast
  with look_dict assms(1) show ?thesis by (intro that [of t']) auto
qed

lemma look_after_del:
  assumes "inv t" and "del t k = (r, t')"
  shows "look t' k = 0" and "k' \<noteq> k \<Longrightarrow> look t' k' = look t k'"
  using del_dict [OF assms] look_dict assms(1) by auto

lemma del_undoes_ins:
  assumes "inv t" and "room t" and "dict t k = None" and "ins t k v True = Some (r, t1)"
    and "del t1 k = (r', t2)"
  shows "r' = v \<and> inv t2 \<and> dict t2 = dict t"
proof -
  obtain t' where t': "ins t k v True = Some (-1, t')" "inv t'" "dict t' = (dict t)(k \<mapsto> v)"
    using ins_ok [OF assms(1-3)] by blast
  then have "t1 = t'" using assms(4) by simp
  with t' del_dict [OF t'(2)] assms(3,5) look_dict [OF t'(2), of k] show ?thesis by auto
qed

end

section \<open>The table as a map\<close>

definition entries :: "hashtable \<Rightarrow> hash_entry list" where
  "entries h = concat (ht_table h)"

definition ht_map :: "hashtable \<Rightarrow> u64 \<Rightarrow> u64 option" where
  "ht_map h = map_of (map (\<lambda>e. (he_key e, he_value e)) (entries h))"

definition placed :: "hashtable \<Rightarrow> nat \<Rightarrow> hash_entry \<Rightarrow> bool" where
  "placed h i e \<longleftrightarrow> he_hash e = do_hash h (he_key e) \<and>
     unat (indexFor (ht_table_length h) (he_hash e)) = i"

definition ht_inv :: "hashtable \<Rightarrow> bool" where
  "ht_inv h \<longleftrightarrow>
     ht_prime_index h < prime_table_len \<and> ht_table_length h = primes ! ht_prime_index h \<and>
     ht_load_limit h = load_factors ! ht_prime_index h \<and>
     length (ht_table h) = unat (ht_table_length h) \<and>
     unat (ht_entry_count h) = length (entries h) \<and>
     (\<forall>i < length (ht_table h). \<forall>e \<in> set (ht_table h ! i). placed h i e) \<and>
     distinct (map he_key (entries h)) \<and> (\<forall>a b. ht_eq_fn h a b = (a = b))"

lemma primes_pos: "i < prime_table_len \<Longrightarrow> 0 < unat (primes ! i)"
proof -
  have "list_all (\<lambda>p. 0 < unat p) primes" by (simp add: primes_def)
  then show "i < prime_table_len \<Longrightarrow> 0 < unat (primes ! i)"
    by (simp add: prime_table_len_def list_all_length)
qed

lemma indexFor_less: "0 < unat n \<Longrightarrow> unat (indexFor n h) < unat n"
  by (simp add: indexFor_def unat_mod)

lemma mset_concat_update:
  assumes "i < length xs"
  shows "mset (concat (xs[i := y])) + mset (xs ! i) = mset (concat xs) + mset y"
  using arg_cong [OF id_take_nth_drop [OF assms], of "\<lambda>l. mset (concat l)"]
    arg_cong [OF upd_conv_take_nth_drop [OF assms, of y], of "\<lambda>l. mset (concat l)"]
  by simp

lemma map_of_mset:
  assumes "mset xs = mset ys" and "distinct (map fst xs)"
  shows "map_of xs = map_of ys"
proof -
  have "distinct (map fst ys)"
    using assms mset_eq_imp_distinct_iff [of "map fst xs" "map fst ys"] by simp
  moreover have "set xs = set ys" using assms(1) by (rule mset_eq_setD)
  ultimately show ?thesis using assms(2) by (auto intro!: map_of_eqI simp: map_of_eq_Some_iff)
qed

lemma ht_map_Some:
  assumes "ht_inv h"
  shows "ht_map h k = Some v \<longleftrightarrow> (\<exists>e \<in> set (entries h). he_key e = k \<and> he_value e = v)"
proof -
  have "distinct (map fst (map (\<lambda>e. (he_key e, he_value e)) (entries h)))"
    using assms by (simp add: ht_inv_def comp_def)
  then show ?thesis by (auto simp: ht_map_def map_of_eq_Some_iff)
qed

lemma ht_map_None: "ht_map h k = None \<longleftrightarrow> k \<notin> he_key ` set (entries h)"
  by (auto simp: ht_map_def map_of_eq_None_iff image_iff)

lemma ht_map_entries:
  assumes "mset (entries h') = mset (entries h)" and "distinct (map he_key (entries h))"
  shows "ht_map h' = ht_map h"
  using assms unfolding ht_map_def
  by (intro map_of_mset [symmetric]) (simp_all add: comp_def)

lemma ht_invD:
  assumes "ht_inv h"
  shows "0 < unat (ht_table_length h)" "length (ht_table h) = unat (ht_table_length h)"
    "unat (ht_entry_count h) = length (entries h)" "distinct (map he_key (entries h))"
    "ht_eq_fn h a b = (a = b)"
    "i < length (ht_table h) \<Longrightarrow> e \<in> set (ht_table h ! i) \<Longrightarrow> placed h i e"
  using assms primes_pos by (auto simp: ht_inv_def)

lemma bucket_index_less: "ht_inv h \<Longrightarrow> bucket_index h k < length (ht_table h)"
  using ht_invD(1,2) indexFor_less by (simp add: bucket_index_def)

lemma entries_iff: "e \<in> set (entries h) \<longleftrightarrow> (\<exists>i < length (ht_table h). e \<in> set (ht_table h ! i))"
  by (simp add: entries_def) (metis in_set_conv_nth)

lemma entry_in_bucket:
  assumes "ht_inv h" and "e \<in> set (entries h)"
  shows "e \<in> set (ht_table h ! bucket_index h (he_key e))" and "he_hash e = do_hash h (he_key e)"
proof -
  obtain i where i: "i < length (ht_table h)" "e \<in> set (ht_table h ! i)"
    using assms(2) by (auto simp: entries_iff)
  with ht_invD(6) [OF assms(1) i]
  show "e \<in> set (ht_table h ! bucket_index h (he_key e))" "he_hash e = do_hash h (he_key e)"
    by (auto simp: bucket_index_def placed_def)
qed

lemma bucket_sub: "ht_inv h \<Longrightarrow> e \<in> set (ht_table h ! bucket_index h k) \<Longrightarrow> e \<in> set (entries h)"
  using bucket_index_less entries_iff by blast

lemma matches_iff:
  assumes "ht_inv h" and "e \<in> set (ht_table h ! bucket_index h k)"
  shows "entry_matches h k e \<longleftrightarrow> he_key e = k"
  using entry_in_bucket(2) [OF assms(1) bucket_sub [OF assms]] ht_invD(5) [OF assms(1)]
  by (auto simp: entry_matches_def)

lemma find_entry:
  assumes "ht_inv h"
  shows "case find (entry_matches h k) (ht_table h ! bucket_index h k) of
      None \<Rightarrow> ht_map h k = None
    | Some e \<Rightarrow> he_key e = k \<and> e \<in> set (ht_table h ! bucket_index h k) \<and> ht_map h k = Some (he_value e)"
proof (cases "find (entry_matches h k) (ht_table h ! bucket_index h k)")
  case None
  have "ht_map h k = None"
  proof (rule ccontr)
    assume "ht_map h k \<noteq> None"
    then obtain e where e: "e \<in> set (entries h)" "he_key e = k" by (auto simp: ht_map_None)
    then have "e \<in> set (ht_table h ! bucket_index h k)" using entry_in_bucket(1) [OF assms] by blast
    with e(2) None matches_iff [OF assms this] show False by (simp add: find_None_iff)
  qed
  with None show ?thesis by simp
next
  case (Some e)
  then have "e \<in> set (ht_table h ! bucket_index h k)" "entry_matches h k e"
    by (auto simp: find_Some_iff in_set_conv_nth)
  moreover from this have "he_key e = k" using matches_iff [OF assms] by blast
  moreover from calculation(1,3) have "ht_map h k = Some (he_value e)"
    using bucket_sub [OF assms] ht_map_Some [OF assms] by blast
  ultimately show ?thesis using Some by simp
qed

lemma htable_search_map:
  "ht_inv h \<Longrightarrow> htable_search h k = (case ht_map h k of None \<Rightarrow> 0 | Some v \<Rightarrow> v)"
  using find_entry [of h k] by (auto simp: htable_search_def split: option.splits)

subsection \<open>One bucket changed\<close>

text \<open>
  An update of one bucket that only holds entries of that bucket keeps the invariant, given
  the count and the distinctness of the keys.
\<close>

lemma ht_inv_bucket:
  assumes inv: "ht_inv h" and i: "i < length (ht_table h)"
    and b: "\<And>e. e \<in> set b \<Longrightarrow> placed h i e"
    and n: "unat n = length (concat ((ht_table h)[i := b]))"
    and d: "distinct (map he_key (concat ((ht_table h)[i := b])))"
  shows "ht_inv (h\<lparr>ht_table := (ht_table h)[i := b], ht_entry_count := n\<rparr>)"
proof -
  let ?h = "h\<lparr>ht_table := (ht_table h)[i := b], ht_entry_count := n\<rparr>"
  have p: "placed ?h = placed h" by (simp add: placed_def do_hash_def fun_eq_iff)
  have "\<forall>j < length (ht_table h). \<forall>e \<in> set ((ht_table h)[i := b] ! j). placed h j e"
    using b ht_invD(6) [OF inv] i by (auto simp: nth_list_update)
  then show ?thesis
    using inv n d by (simp add: ht_inv_def entries_def p)
qed

lemma map_of_cons_mset:
  assumes "mset (entries h') = mset (e # entries h)" and "distinct (map he_key (e # entries h))"
  shows "ht_map h' = (ht_map h)(he_key e \<mapsto> he_value e)"
proof -
  let ?p = "\<lambda>e. (he_key e, he_value e)"
  have "ht_map h' = map_of (map ?p (e # entries h))"
    unfolding ht_map_def using assms
    by (intro map_of_mset [symmetric]) (simp_all add: comp_def)
  then show ?thesis by (simp add: ht_map_def)
qed

lemma put_entry:
  fixes v :: u64 and n :: u32
  assumes inv: "ht_inv h" and k: "ht_map h k = None" and room: "unat (ht_entry_count h) + 1 < 2 ^ 32"
  defines "i \<equiv> bucket_index h k"
  defines "e \<equiv> \<lparr>he_key = k, he_value = v, he_hash = do_hash h k\<rparr>"
  shows "ht_inv (h\<lparr>ht_table := (ht_table h)[i := e # ht_table h ! i], ht_entry_count := ht_entry_count h + 1\<rparr>)"
    and "ht_map (h\<lparr>ht_table := (ht_table h)[i := e # ht_table h ! i], ht_entry_count := n\<rparr>) = (ht_map h)(k \<mapsto> v)"
proof -
  have i: "i < length (ht_table h)" using bucket_index_less [OF inv] by (simp add: i_def)
  have m: "mset (concat ((ht_table h)[i := e # ht_table h ! i])) = mset (e # entries h)"
    using mset_concat_update [OF i, of "e # ht_table h ! i"] by (simp add: entries_def)
  have d: "distinct (map he_key (e # entries h))"
    using inv k by (simp add: ht_inv_def ht_map_None e_def)
  have d': "distinct (map he_key (concat ((ht_table h)[i := e # ht_table h ! i])))"
    using d m mset_eq_imp_distinct_iff by (metis mset_map)
  have l: "length (concat ((ht_table h)[i := e # ht_table h ! i])) = Suc (length (entries h))"
    using arg_cong [OF m, of size] by simp
  have n: "unat (ht_entry_count h + 1) = Suc (length (entries h))"
    using inv unat_add_small [of "ht_entry_count h" 1] room by (simp add: ht_inv_def)
  show "ht_inv (h\<lparr>ht_table := (ht_table h)[i := e # ht_table h ! i], ht_entry_count := ht_entry_count h + 1\<rparr>)"
  proof (rule ht_inv_bucket [OF inv i _ _ d'])
    show "placed h i e'" if "e' \<in> set (e # ht_table h ! i)" for e'
      using that ht_invD(6) [OF inv i] by (auto simp: e_def i_def placed_def bucket_index_def)
  qed (simp add: l n)
  show "ht_map (h\<lparr>ht_table := (ht_table h)[i := e # ht_table h ! i], ht_entry_count := n\<rparr>) = (ht_map h)(k \<mapsto> v)"
    using map_of_cons_mset [OF _ d] m by (simp add: entries_def e_def)
qed

subsection \<open>Growth\<close>

definition fits :: "u32 \<Rightarrow> hash_entry list list \<Rightarrow> bool" where
  "fits m nt \<longleftrightarrow> length nt = unat m \<and>
     (\<forall>i < unat m. \<forall>e \<in> set (nt ! i). unat (indexFor m (he_hash e)) = i)"

lemma move_bucket_props:
  assumes "0 < unat m" and "fits m nt"
  shows "fits m (move_bucket m b nt) \<and>
    mset (concat (move_bucket m b nt)) = mset b + mset (concat nt)"
  using assms(2)
proof (induction b arbitrary: nt)
  case (Cons x es)
  let ?k = "unat (indexFor m (he_hash x))"
  let ?nt = "nt[?k := x # nt ! ?k]"
  have k: "?k < length nt" using Cons.prems indexFor_less [OF assms(1)] by (simp add: fits_def)
  have "fits m ?nt" using Cons.prems k by (auto simp: fits_def nth_list_update split: if_splits)
  moreover have "mset (concat ?nt) = add_mset x (mset (concat nt))"
    using mset_concat_update [OF k, of "x # nt ! ?k"] by simp
  ultimately show ?case using Cons.IH [of ?nt] by (simp add: Let_def)
qed simp

lemma move_fold_props:
  assumes "0 < unat m" and "fits m nt"
  shows "fits m (fold (move_bucket m) t nt) \<and>
    mset (concat (fold (move_bucket m) t nt)) = mset (concat t) + mset (concat nt)"
  using assms(2)
proof (induction t arbitrary: nt)
  case (Cons b t)
  then show ?case
    using Cons.IH [of "move_bucket m b nt"] move_bucket_props [OF assms(1) Cons.prems]
    by (simp add: ac_simps)
qed simp

lemma move_all_props:
  assumes "0 < unat m"
  shows "fits m (move_all m t)" and "mset (concat (move_all m t)) = mset (concat t)"
  using move_fold_props [OF assms, of "replicate (unat m) []" t] by (auto simp: move_all_def fits_def)

text \<open>Growth keeps the invariant (of a table whose count is one ahead) and the map.\<close>

definition ht_inv_ahead :: "hashtable \<Rightarrow> bool" where
  "ht_inv_ahead h \<longleftrightarrow> ht_inv (h\<lparr>ht_entry_count := ht_entry_count h - 1\<rparr>)"

lemma do_hash_frame [simp]:
  "do_hash (h\<lparr>ht_entry_count := n\<rparr>) = do_hash h" "do_hash (h\<lparr>ht_table := t\<rparr>) = do_hash h"
  "do_hash (h\<lparr>ht_prime_index := p\<rparr>) = do_hash h" "do_hash (h\<lparr>ht_table_length := m\<rparr>) = do_hash h"
  "do_hash (h\<lparr>ht_load_limit := l\<rparr>) = do_hash h"
  by (simp_all add: do_hash_def fun_eq_iff)

lemma expand_ok:
  assumes inv: "ht_inv_ahead h" and plan: "got_new \<or> \<not> got_realloc"
  shows "\<exists>r h'. hashtable_expand h got_new got_realloc = Some (r, h') \<and> ht_inv_ahead h' \<and>
    ht_map h' = ht_map h \<and> ht_entry_count h' = ht_entry_count h \<and> ht_hash_fn h' = ht_hash_fn h"
proof (cases "ht_prime_index h = prime_table_len - 1 \<or> \<not> got_new")
  case True
  then show ?thesis using inv plan by (auto simp: hashtable_expand_def Let_def)
next
  case False
  let ?i = "ht_prime_index h + 1"
  let ?m = "primes ! ?i"
  let ?h = "h\<lparr>ht_prime_index := ?i, ht_table := move_all ?m (ht_table h), ht_table_length := ?m,
              ht_load_limit := load_factors ! ?i\<rparr>"
  have i: "?i < prime_table_len" using False inv by (auto simp: ht_inv_ahead_def ht_inv_def)
  note M = move_all_props [OF primes_pos [OF i]]
  have e: "mset (entries ?h) = mset (entries h)" using M(2) by (simp add: entries_def)
  have inv': "ht_inv (h\<lparr>ht_entry_count := ht_entry_count h - 1\<rparr>)" using inv by (simp add: ht_inv_ahead_def)
  have I: "distinct (map he_key (entries h))" "unat (ht_entry_count h - 1) = length (entries h)"
    using ht_invD(3,4) [OF inv'] by (simp_all add: entries_def)
  have hash: "he_hash e = do_hash h (he_key e)" if "e \<in> set (entries h)" for e
    using entry_in_bucket(2) [OF inv', of e] that by (simp add: entries_def)
  have "placed (?h\<lparr>ht_entry_count := ht_entry_count h - 1\<rparr>) i e"
    if "i < unat ?m" "e \<in> set (move_all ?m (ht_table h) ! i)" for i e
  proof -
    have "e \<in> set (entries ?h)" using that M(1) by (auto simp: entries_iff fits_def)
    then have "he_hash e = do_hash h (he_key e)" using hash mset_eq_setD [OF e] by blast
    moreover have "unat (indexFor ?m (he_hash e)) = i" using that M(1) by (simp add: fits_def)
    ultimately show ?thesis by (simp add: placed_def)
  qed
  moreover have "length (concat (move_all ?m (ht_table h))) = length (entries h)"
    using arg_cong [OF M(2), of size] by (simp add: entries_def)
  moreover have "distinct (map he_key (concat (move_all ?m (ht_table h))))"
    using I(1) M(2) mset_eq_imp_distinct_iff by (metis entries_def mset_map)
  ultimately have "ht_inv_ahead ?h"
    using i M(1) I inv' by (simp add: ht_inv_ahead_def ht_inv_def entries_def fits_def)
  moreover have "ht_map ?h = ht_map h" using e I(1) by (rule ht_map_entries)
  ultimately show ?thesis using False by (auto simp: hashtable_expand_def Let_def)
qed

lemma htable_insert_cases:
  assumes inv: "ht_inv h" and room: "unat (ht_entry_count h) + 1 < 2 ^ 32"
    and plan: "got_new \<or> \<not> got_realloc"
  obtains h2 where "ht_inv_ahead h2" "ht_map h2 = ht_map h" "ht_entry_count h2 = ht_entry_count h + 1"
    "htable_insert h k v got_new got_realloc got_entry =
      (if \<not> got_entry then Some (0, h2\<lparr>ht_entry_count := ht_entry_count h2 - 1\<rparr>)
       else Some (-1, h2\<lparr>ht_table := (ht_table h2)[bucket_index h2 k :=
         \<lparr>he_key = k, he_value = v, he_hash = do_hash h2 k\<rparr> # ht_table h2 ! bucket_index h2 k]\<rparr>))"
proof -
  let ?h1 = "h\<lparr>ht_entry_count := ht_entry_count h + 1\<rparr>"
  have 1: "ht_inv_ahead ?h1" "ht_map ?h1 = ht_map h"
    using inv by (simp_all add: ht_inv_ahead_def ht_map_def entries_def)
  show thesis
  proof (cases "ht_entry_count ?h1 > ht_load_limit ?h1")
    case True
    then obtain r h2 where "hashtable_expand ?h1 got_new got_realloc = Some (r, h2)" "ht_inv_ahead h2"
      "ht_map h2 = ht_map h" "ht_entry_count h2 = ht_entry_count h + 1"
      using expand_ok [OF 1(1) plan] 1(2) by auto
    then show thesis using True by (intro that) (auto simp: htable_insert_def Let_def)
  next
    case False
    then show thesis using 1 by (intro that [of ?h1]) (auto simp: htable_insert_def Let_def)
  qed
qed

lemma same_count: "h\<lparr>ht_table := t, ht_entry_count := ht_entry_count h\<rparr> = h\<lparr>ht_table := t\<rparr>"
  by simp

lemma htable_insert_ok:
  assumes inv: "ht_inv h" and room: "unat (ht_entry_count h) + 1 < 2 ^ 32"
    and plan: "got_new \<or> \<not> got_realloc" and k: "ht_map h k = None"
  shows "\<exists>h'. htable_insert h k v got_new got_realloc True = Some (-1, h') \<and> ht_inv h' \<and>
    ht_map h' = (ht_map h)(k \<mapsto> v) \<and> ht_entry_count h' = ht_entry_count h + 1"
proof -
  obtain h2 where h2: "ht_inv_ahead h2" "ht_map h2 = ht_map h" "ht_entry_count h2 = ht_entry_count h + 1"
    and e: "htable_insert h k v got_new got_realloc True =
      Some (-1, h2\<lparr>ht_table := (ht_table h2)[bucket_index h2 k :=
         \<lparr>he_key = k, he_value = v, he_hash = do_hash h2 k\<rparr> # ht_table h2 ! bucket_index h2 k]\<rparr>)"
    by (rule htable_insert_cases [OF inv room plan, of k v True]) auto
  let ?h = "h2\<lparr>ht_entry_count := ht_entry_count h2 - 1\<rparr>"
  have "ht_inv ?h" "ht_map ?h k = None" "unat (ht_entry_count ?h) + 1 < 2 ^ 32" "ht_map ?h = ht_map h"
    using h2 k room by (simp_all add: ht_inv_ahead_def ht_map_def entries_def)
  note P = put_entry [OF this(1-3), where v = v]
  let ?t = "(ht_table h2)[bucket_index h2 k :=
    \<lparr>he_key = k, he_value = v, he_hash = do_hash h2 k\<rparr> # ht_table h2 ! bucket_index h2 k]"
  have b: "bucket_index ?h = bucket_index h2" by (simp add: bucket_index_def fun_eq_iff)
  have "ht_inv (h2\<lparr>ht_table := ?t, ht_entry_count := ht_entry_count h2\<rparr>)"
    "ht_map (h2\<lparr>ht_table := ?t, ht_entry_count := ht_entry_count h2\<rparr>) = (ht_map h)(k \<mapsto> v)"
    using P(1) P(2) [of "ht_entry_count h2"] \<open>ht_map ?h = ht_map h\<close> by (simp_all add: b)
  then show ?thesis unfolding same_count using e h2(3) by simp
qed

lemma htable_insert_nomem:
  assumes inv: "ht_inv h" and room: "unat (ht_entry_count h) + 1 < 2 ^ 32"
    and plan: "got_new \<or> \<not> got_realloc"
  shows "\<exists>h'. htable_insert h k v got_new got_realloc False = Some (0, h') \<and> ht_inv h' \<and>
    ht_map h' = ht_map h \<and> ht_entry_count h' = ht_entry_count h"
proof -
  obtain h2 where "ht_inv_ahead h2" "ht_map h2 = ht_map h" "ht_entry_count h2 = ht_entry_count h + 1"
    "htable_insert h k v got_new got_realloc False =
      Some (0, h2\<lparr>ht_entry_count := ht_entry_count h2 - 1\<rparr>)"
    by (rule htable_insert_cases [OF inv room plan, of k v False]) auto
  then show ?thesis by (auto simp: ht_inv_ahead_def ht_map_def entries_def)
qed

subsection \<open>Changing a value, removing an entry\<close>

lemma chain_update_Some:
  "chain_update P f b = Some b' \<Longrightarrow> find P b = Some e \<Longrightarrow>
   map he_key b' = map he_key b \<and> map he_hash b' = map he_hash b \<and>
   mset b' + {#e#} = mset b + {#e\<lparr>he_value := f (he_value e)\<rparr>#}"
  by (induction b arbitrary: b') (auto split: if_splits)

lemma chain_update_None: "chain_update P f b = None \<longleftrightarrow> find P b = None"
  by (induction b) auto

lemma mset_list_del_first: "find P b = Some e \<Longrightarrow> mset b = add_mset e (mset (list_del_first P b))"
  by (induction b) (auto split: if_splits)

lemma swap_entry_map:
  assumes "mset (entries h') + {#e#} = mset (entries h) + {#e'#}" and "e \<in> set (entries h)"
    and "he_key e' = he_key e" and "distinct (map he_key (entries h))"
  shows "distinct (map he_key (entries h'))" and "length (entries h') = length (entries h)"
    and "ht_map h' = (ht_map h)(he_key e \<mapsto> he_value e')"
proof -
  obtain R where R: "mset (entries h) = mset (e # R)"
    using assms(2) by (metis mset.simps(2) mset_add ex_mset set_mset_mset)
  then have R': "mset (entries h') = mset (e' # R)" using assms(1) by (simp add: add_mset_commute)
  have d: "distinct (map he_key (e # R))"
    using assms(4) R mset_eq_imp_distinct_iff by (metis mset_map)
  then have d': "distinct (map he_key (e' # R))" using assms(3) by simp
  then show "distinct (map he_key (entries h'))"
    using R' mset_eq_imp_distinct_iff by (metis mset_map)
  show "length (entries h') = length (entries h)"
    using arg_cong [OF R, of size] arg_cong [OF R', of size] by simp
  let ?p = "\<lambda>e. (he_key e, he_value e)"
  have "ht_map h' = map_of (map ?p (e' # R))" "ht_map h = map_of (map ?p (e # R))"
    unfolding ht_map_def using R R' d d'
    by (intro map_of_mset [symmetric]; simp add: comp_def)+
  then show "ht_map h' = (ht_map h)(he_key e \<mapsto> he_value e')" using assms(3) by simp
qed

lemma mset_swap:
  assumes "M' + B = M + B'" and "B' + E = B + E'"
  shows "M' + E = M + (E' :: 'a multiset)"
proof -
  have "(M' + E) + B = (M' + B) + E" by (simp only: ac_simps)
  also have "\<dots> = (M + B') + E" by (simp only: assms(1))
  also have "\<dots> = M + (B' + E)" by (simp only: ac_simps)
  also have "\<dots> = M + (B + E')" by (simp only: assms(2))
  also have "\<dots> = (M + E') + B" by (simp only: ac_simps)
  finally show ?thesis by (rule add_right_imp_eq)
qed

lemma htable_update_ok:
  assumes inv: "ht_inv h" and u: "htable_update h k f = (r, h')"
  shows "ht_inv h' \<and> ht_entry_count h' = ht_entry_count h \<and>
    (case ht_map h k of None \<Rightarrow> r = 0 \<and> h' = h
     | Some v \<Rightarrow> r = -1 \<and> ht_map h' = (ht_map h)(k \<mapsto> f v))"
proof -
  let ?i = "bucket_index h k"
  let ?b = "ht_table h ! ?i"
  have i: "?i < length (ht_table h)" by (rule bucket_index_less [OF inv])
  note F = find_entry [OF inv, of k]
  show ?thesis
  proof (cases "find (entry_matches h k) ?b")
    case None
    then show ?thesis
      using F inv u chain_update_None [of "entry_matches h k" f ?b] by (simp add: htable_update_def Let_def)
  next
    case (Some e)
    then obtain b' where b': "chain_update (entry_matches h k) f ?b = Some b'"
      using chain_update_None [of "entry_matches h k" f ?b] by auto
    note C = chain_update_Some [OF b' Some]
    have h': "h' = h\<lparr>ht_table := (ht_table h)[?i := b']\<rparr>" "r = -1"
      using u b' by (auto simp: htable_update_def Let_def)
    have e: "e \<in> set (entries h)" "he_key e = k" "ht_map h k = Some (he_value e)"
      using F Some bucket_sub [OF inv] by auto
    have "mset (entries h') + mset ?b = mset (entries h) + mset b'"
      using mset_concat_update [OF i, of b'] h'(1) by (simp add: entries_def)
    then have m: "mset (entries h') + {#e#} = mset (entries h) + {#e\<lparr>he_value := f (he_value e)\<rparr>#}"
      by (rule mset_swap) (use C in blast)
    note S = swap_entry_map [OF m e(1) _ ht_invD(4) [OF inv]]
    have "placed h ?i e'" if e': "e' \<in> set b'" for e'
    proof -
      obtain j where j: "j < length b'" "b' ! j = e'" using e' by (auto simp: in_set_conv_nth)
      have l: "length b' = length ?b" using C map_eq_imp_length_eq by blast
      have "map he_key b' ! j = map he_key ?b ! j" "map he_hash b' ! j = map he_hash ?b ! j"
        using C by simp_all
      then have "he_key e' = he_key (?b ! j)" "he_hash e' = he_hash (?b ! j)" "?b ! j \<in> set ?b"
        using j l by simp_all
      moreover from this(3) have "placed h ?i (?b ! j)" by (rule ht_invD(6) [OF inv i])
      ultimately show ?thesis unfolding placed_def by metis
    qed
    then have "ht_inv (h\<lparr>ht_table := (ht_table h)[?i := b'], ht_entry_count := ht_entry_count h\<rparr>)"
      using S(1,2) h'(1) ht_invD(3) [OF inv] by (intro ht_inv_bucket [OF inv i]) (auto simp: entries_def)
    then show ?thesis unfolding same_count using S(3) e h' by simp
  qed
qed

lemma htable_remove_ok:
  assumes inv: "ht_inv h" and u: "htable_remove h k free_key = (r, fs, h')"
  shows "ht_inv h' \<and> r = htable_search h k \<and> ht_map h' = (ht_map h)(k := None) \<and>
    (case ht_map h k of None \<Rightarrow> h' = h \<and> fs = []
     | Some v \<Rightarrow> unat (ht_entry_count h') + 1 = unat (ht_entry_count h) \<and>
         (\<exists>e \<in> set (entries h). he_key e = k \<and> fs = (if free_key then [FreeKey k] else []) @ [FreeEntry e]))"
proof -
  let ?i = "bucket_index h k"
  let ?b = "ht_table h ! ?i"
  have i: "?i < length (ht_table h)" by (rule bucket_index_less [OF inv])
  note F = find_entry [OF inv, of k]
  show ?thesis
  proof (cases "find (entry_matches h k) ?b")
    case None
    then show ?thesis
      using F inv u htable_search_map [OF inv] by (auto simp: htable_remove_def Let_def)
  next
    case (Some e)
    let ?b' = "list_del_first (entry_matches h k) ?b"
    have h': "h' = h\<lparr>ht_table := (ht_table h)[?i := ?b'], ht_entry_count := ht_entry_count h - 1\<rparr>"
      "r = he_value e" "fs = (if free_key then [FreeKey (he_key e)] else []) @ [FreeEntry e]"
      using u Some by (auto simp: htable_remove_def Let_def)
    have e: "e \<in> set (entries h)" "he_key e = k" "ht_map h k = Some (he_value e)"
      using F Some bucket_sub [OF inv] by auto
    have "mset (entries h') + mset ?b = mset (entries h) + mset ?b'"
      using mset_concat_update [OF i, of ?b'] h'(1) by (simp add: entries_def)
    then have m: "mset (entries h) = mset (e # entries h')"
      using mset_list_del_first [OF Some] by simp
    then have d: "distinct (map he_key (e # entries h'))"
      using ht_invD(4) [OF inv] mset_eq_imp_distinct_iff by (metis mset_map)
    have l: "length (entries h) = Suc (length (entries h'))" using arg_cong [OF m, of size] by simp
    then have n: "unat (ht_entry_count h - 1) = length (entries h')"
      using ht_invD(3) [OF inv] by (simp add: unat_diff_le)
    have "ht_inv h'"
      unfolding h'(1)
      using ht_invD(6) [OF inv i] set_list_del_first [of "entry_matches h k" ?b] n d h'(1)
      by (intro ht_inv_bucket [OF inv i]) (auto simp: entries_def)
    moreover have "ht_map h = (ht_map h')(k \<mapsto> he_value e)" using map_of_cons_mset [OF m d] e(2) by simp
    moreover have "ht_map h' k = None" using d e(2) by (auto simp: ht_map_None)
    ultimately show ?thesis
      using h' e l n ht_invD(3) [OF inv] htable_search_map [OF inv, of k] by (auto simp: fun_eq_iff)
  qed
qed

subsection \<open>Creation\<close>

lemma prime_loop_le: "i \<le> prime_loop ps m i \<and> prime_loop ps m i \<le> i + length ps"
  by (induction ps m i rule: prime_loop.induct) auto

lemma prime_loop_find:
  "p \<in> set ps \<Longrightarrow> m < p \<Longrightarrow> prime_loop ps m i < i + length ps \<and> m < ps ! (prime_loop ps m i - i)"
proof (induction ps m i rule: prime_loop.induct)
  case (2 q ps m i)
  then show ?case using prime_loop_le [of "i + 1" ps m] by (auto simp: nth_Cons' Suc_diff_le)
qed simp

lemma prime_index_ok:
  assumes "min_size \<le> 2 ^ 30"
  shows "prime_loop primes min_size 0 < prime_table_len \<and> min_size < primes ! prime_loop primes min_size 0"
proof -
  have "min_size < 1610612741" using assms by (rule le_less_trans) simp
  moreover have "1610612741 \<in> set primes" by (simp add: primes_def)
  ultimately show ?thesis
    using prime_loop_find [of 1610612741 primes min_size 0] by (simp add: prime_table_len_def)
qed

lemma lengths_tables: "length load_factors = prime_table_len"
  by (simp add: load_factors_def prime_table_len_def primes_def)

lemma create_ok:
  assumes "min_size \<le> 2 ^ 30" and "\<And>a b. eq_fn a b = (a = b)"
  shows "\<exists>h. create_htable min_size hash_fn eq_fn True True = Some (Some h) \<and> ht_inv h \<and>
    ht_map h = Map.empty \<and> ht_entry_count h = 0 \<and> min_size < ht_table_length h \<and> ht_hash_fn h = hash_fn"
proof -
  note P = prime_index_ok [OF assms(1)]
  have "concat (replicate n []) = []" for n :: nat by (induction n) auto
  then show ?thesis
    using P assms by (auto simp: create_htable_def Let_def lengths_tables ht_inv_def entries_def
        ht_map_def not_less [symmetric])
qed

subsection \<open>The interface holds\<close>

definition ht_room :: "hashtable \<Rightarrow> bool" where
  "ht_room h \<longleftrightarrow> unat (ht_entry_count h) + 1 < 2 ^ 32"

definition ht_put :: "hashtable \<Rightarrow> u64 \<Rightarrow> u64 \<Rightarrow> bool \<Rightarrow> (int \<times> hashtable) option" where
  "ht_put h k v got_entry = htable_insert h k v True False got_entry"

definition ht_del :: "hashtable \<Rightarrow> u64 \<Rightarrow> u64 \<times> hashtable" where
  "ht_del h k = (let (r, fs, h') = htable_remove h k False in (r, h'))"

interpretation htable: dictionary ht_inv ht_map ht_room ht_put htable_search ht_del
proof
  fix h k v and r :: u64 and h'
  assume inv: "ht_inv h"
  show "htable_search h k = (case ht_map h k of None \<Rightarrow> 0 | Some v \<Rightarrow> v)"
    by (rule htable_search_map [OF inv])
  show "\<exists>h'. ht_put h k v True = Some (-1, h') \<and> ht_inv h' \<and> ht_map h' = (ht_map h)(k \<mapsto> v)"
    if "ht_room h" "ht_map h k = None"
    using htable_insert_ok [OF inv _ _ that(2)] that(1) unfolding ht_put_def ht_room_def by blast
  show "\<exists>h'. ht_put h k v False = Some (0, h') \<and> ht_inv h' \<and> ht_map h' = ht_map h" if "ht_room h"
    using htable_insert_nomem [OF inv] that unfolding ht_put_def ht_room_def by blast
  show "r = htable_search h k \<and> ht_inv h' \<and> ht_map h' = (ht_map h)(k := None)"
    if "ht_del h k = (r, h')"
    using that htable_remove_ok [OF inv, of k False]
    by (auto simp: ht_del_def Let_def split: prod.splits)
qed

section \<open>What the table promises\<close>

text \<open>
  C16: An insert of a new key into a table with room succeeds whether or not the table has to
  grow and whether or not growing finds memory, as long as the reallocation fallback is not
  the one that succeeds: the new key maps to its value, every other key to what it mapped to,
  the count goes up by one, and the invariant holds.
\<close>

theorem htable_insert_correct:
  assumes "ht_inv h" and "unat (ht_entry_count h) + 1 < 2 ^ 32" and "ht_map h k = None"
    and "got_new \<or> \<not> got_realloc"
  shows "\<exists>h'. htable_insert h k v got_new got_realloc True = Some (-1, h') \<and> ht_inv h' \<and>
    htable_search h' k = v \<and> (\<forall>k'. k' \<noteq> k \<longrightarrow> htable_search h' k' = htable_search h k') \<and>
    ht_map h' = (ht_map h)(k \<mapsto> v) \<and> htable_count h' = htable_count h + 1"
proof -
  obtain h' where h': "htable_insert h k v got_new got_realloc True = Some (-1, h')" "ht_inv h'"
    "ht_map h' = (ht_map h)(k \<mapsto> v)" "ht_entry_count h' = ht_entry_count h + 1"
    using htable_insert_ok [OF assms(1,2,4,3)] by blast
  then show ?thesis using htable_search_map [OF assms(1)] htable_search_map [OF h'(2)]
    by (auto simp: htable_count_def)
qed

definition demo_ht :: hashtable where
  "demo_ht = the (the (create_htable 16 hash_long (=) True True))"

lemma demo_ht_ok: "ht_inv demo_ht" "ht_map demo_ht = Map.empty" "ht_entry_count demo_ht = 0"
  using create_ok [of 16 "(=)" hash_long] by (auto simp: demo_ht_def word_le_nat_alt)

theorem htable_insert_correct_witness:
  "\<exists>h'. htable_insert demo_ht 7 9 False False True = Some (-1, h') \<and> htable_search h' 7 = 9 \<and>
     htable_search h' 8 = htable_search demo_ht 8"
  using htable_insert_correct [of demo_ht 7 False False 9] demo_ht_ok by auto

text \<open>
  A failed allocation of the entry leaves the map and the count as they were, even when
  the table has grown on the way.
\<close>

theorem htable_insert_no_memory:
  assumes "ht_inv h" and "unat (ht_entry_count h) + 1 < 2 ^ 32" and "got_new \<or> \<not> got_realloc"
  shows "\<exists>h'. htable_insert h k v got_new got_realloc False = Some (0, h') \<and> ht_inv h' \<and>
    ht_map h' = ht_map h \<and> htable_count h' = htable_count h"
  using htable_insert_nomem [OF assms(1,2,3)] by (simp add: htable_count_def)

theorem htable_insert_no_memory_witness:
  "\<exists>h'. htable_insert demo_ht 7 9 True False False = Some (0, h') \<and> ht_map h' = Map.empty"
  using htable_insert_no_memory [of demo_ht True False 7 9] demo_ht_ok by auto

text \<open>
  C17: A removal returns what a search would, takes the key out of the map and nothing else,
  lowers the count exactly when the key was there, and frees the entry it unlinked (and the
  key when asked).
\<close>

theorem htable_remove_correct:
  assumes "ht_inv h" and "htable_remove h k free_key = (r, fs, h')"
  shows "ht_inv h' \<and> r = htable_search h k \<and> ht_map h' = (ht_map h)(k := None) \<and>
    (case ht_map h k of None \<Rightarrow> h' = h \<and> fs = []
     | Some v \<Rightarrow> unat (htable_count h') + 1 = unat (htable_count h) \<and>
         (\<exists>e \<in> set (entries h). he_key e = k \<and>
            fs = (if free_key then [FreeKey k] else []) @ [FreeEntry e]))"
  unfolding htable_count_def by (rule htable_remove_ok [OF assms])

theorem htable_remove_correct_witness:
  "\<exists>h1 h' fs. htable_insert demo_ht 7 9 True False True = Some (-1, h1) \<and>
     htable_remove h1 7 True = (9, fs, h') \<and> ht_map h' = Map.empty"
proof -
  obtain h1 where h1: "htable_insert demo_ht 7 9 True False True = Some (-1, h1)" "ht_inv h1"
    "ht_map h1 = [7 \<mapsto> 9]"
    using htable_insert_ok [of demo_ht True False 7 9] demo_ht_ok by auto
  obtain r fs h' where r: "htable_remove h1 7 True = (r, fs, h')" by (metis prod_cases3)
  have "r = 9" "ht_map h' = Map.empty"
    using htable_remove_correct [OF h1(2) r] h1(3) htable_search_map [OF h1(2), of 7]
    by (auto simp: fun_eq_iff)
  with h1(1) r show ?thesis by blast
qed

text \<open>
  Inserting a key that was absent and removing it again gives back its value and the map
  before the insert.
\<close>

theorem htable_insert_remove_roundtrip:
  assumes "ht_inv h" and "ht_room h" and "ht_map h k = None" and "ht_put h k v True = Some (r, h1)"
    and "ht_del h1 k = (r', h2)"
  shows "r' = v \<and> ht_inv h2 \<and> ht_map h2 = ht_map h"
  by (rule htable.del_undoes_ins [OF assms])

theorem htable_insert_remove_roundtrip_witness:
  "\<exists>h1 h2. ht_put demo_ht 5 6 True = Some (-1, h1) \<and> ht_del h1 5 = (6, h2) \<and> ht_map h2 = Map.empty"
proof -
  obtain h1 where h1: "ht_put demo_ht 5 6 True = Some (-1, h1)"
    using htable_insert_ok [of demo_ht True False 5 6] demo_ht_ok by (auto simp: ht_put_def)
  obtain r' h2 where "ht_del h1 5 = (r', h2)" by fastforce
  with h1 htable_insert_remove_roundtrip [of demo_ht 5 6 "-1" h1 r' h2] demo_ht_ok show ?thesis
    by (auto simp: ht_room_def)
qed

text \<open>
  \<open>htable_change\<close>, \<open>htable_inc\<close> and \<open>htable_dec\<close> report whether the key is there, and when
  it is they replace its value, add to it or subtract from it modulo \<open>2 ^ 64\<close>, leaving every
  other key and the count alone.
\<close>

theorem htable_value_ops:
  assumes "ht_inv h" and "op \<in> {(htable_inc h k n, \<lambda>v. v + n), (htable_dec h k n, \<lambda>v. v - n),
      (case htable_change h k n free of (r, fs, h') \<Rightarrow> (r, h'), \<lambda>_. n)}"
  shows "case op of ((r, h'), f) \<Rightarrow> ht_inv h' \<and> htable_count h' = htable_count h \<and>
    (case ht_map h k of None \<Rightarrow> r = 0 \<and> h' = h
     | Some v \<Rightarrow> r = -1 \<and> ht_map h' = (ht_map h)(k \<mapsto> f v))"
proof -
  obtain f where "op = (htable_update h k f, f)"
    using assms(2) by (auto simp: htable_inc_def htable_dec_def htable_change_def Let_def split: prod.splits)
  then show ?thesis
    using htable_update_ok [OF assms(1), of k f] unfolding htable_count_def
    by (cases "htable_update h k f") auto
qed

theorem htable_value_ops_witness:
  "case (htable_inc demo_ht 3 1, \<lambda>v :: u64. v + 1) of ((r, h'), f) \<Rightarrow> r = 0 \<and> h' = demo_ht"
  using htable_value_ops [of demo_ht "(htable_inc demo_ht 3 1, \<lambda>v. v + 1)" 3 1 False] demo_ht_ok
  by (auto split: prod.splits)

text \<open>
  A request for at least \<open>min_size\<close> slots, up to \<open>2 ^ 30\<close>, gets an empty table whose
  length is a prime of the list above \<open>min_size\<close>; the index into the load factors stays
  inside their table.
\<close>

theorem create_htable_correct:
  assumes "min_size \<le> 2 ^ 30" and "\<And>a b. eq_fn a b = (a = b)"
  shows "\<exists>h. create_htable min_size hash_fn eq_fn True True = Some (Some h) \<and> ht_inv h \<and>
    ht_map h = Map.empty \<and> htable_count h = 0 \<and> min_size < ht_table_length h \<and>
    ht_table_length h \<in> set primes"
proof -
  obtain h where h: "create_htable min_size hash_fn eq_fn True True = Some (Some h)" "ht_inv h"
    "ht_map h = Map.empty" "ht_entry_count h = 0" "min_size < ht_table_length h"
    using create_ok [OF assms] by blast
  moreover have "ht_table_length h \<in> set primes"
    using h(2) by (auto simp: ht_inv_def prime_table_len_def)
  ultimately show ?thesis by (simp add: htable_count_def)
qed

theorem create_htable_correct_witness:
  "\<exists>h. create_htable 0 hash_long (=) True True = Some (Some h) \<and> ht_inv h \<and> ht_map h = Map.empty"
  using create_htable_correct [of 0 "(=)" hash_long] by auto

text \<open>
  \<open>free_htable\<close> frees every entry of the table once, in order, and then the bucket array
  and the table itself; keys and values are freed along with each entry exactly when asked.
\<close>

theorem free_htable_frees_all:
  "filter (\<lambda>f. case f of FreeEntry e \<Rightarrow> True | _ \<Rightarrow> False) (free_htable h fv fk) = map FreeEntry (entries h) \<and>
   length (free_htable h fv fk) =
     length (entries h) * (1 + of_bool fv + of_bool fk) + 2 \<and>
   drop (length (free_htable h fv fk) - 2) (free_htable h fv fk) = [FreeTable, FreeHtable]"
proof -
  let ?F = "\<lambda>es. concat (map (free_entry fv fk) es)"
  have "concat (map ?F t) = ?F (concat t)" for t by (induction t) auto
  then have e: "free_htable h fv fk = ?F (entries h) @ [FreeTable, FreeHtable]"
    by (simp add: free_htable_def entries_def)
  have "filter (\<lambda>f. case f of FreeEntry e \<Rightarrow> True | _ \<Rightarrow> False) (?F es) = map FreeEntry es" for es
    by (induction es) (auto simp: free_entry_def)
  moreover have "length (?F es) = length es * (1 + of_bool fv + of_bool fk)" for es
    by (induction es) (auto simp: free_entry_def)
  ultimately show ?thesis by (simp add: e)
qed

lemma hash_step_bound:
  fixes h :: u32
  assumes "t = h AND 0xF0000000"
  shows "unat ((if t \<noteq> 0 then h XOR drop_bit 24 t else h) AND NOT t) < 2 ^ 28"
proof (rule unat_bound_bits)
  fix n :: nat
  assume n: "28 \<le> n"
  have m: "(0xF0000000 :: u32) = push_bit 28 (mask 4)" by (simp add: mask_eq_exp_minus_1)
  have "bit t n = bit h n" using n by (auto simp: assms m bit_simps not_le dest: bit_imp_le_length)
  moreover have "\<not> bit (drop_bit 24 t) n" using n by (auto simp: bit_simps dest: bit_imp_le_length)
  ultimately show "\<not> bit ((if t \<noteq> 0 then h XOR drop_bit 24 t else h) AND NOT t) n"
    by (auto simp: bit_and_iff bit_not_iff bit_xor_iff)
qed

lemma hash_loop_bound: "unat h < 2 ^ 28 \<Longrightarrow> unat (hash_buffer_loop msg i h) < 2 ^ 28"
proof (induction msg i h rule: hash_buffer_loop.induct)
  case (2 c msg i hash)
  show ?case unfolding hash_buffer_loop.simps Let_def
    by (rule "2.IH" [OF refl refl refl hash_step_bound [OF refl]])
qed simp

text \<open>
  The hash of a buffer of any length fits 28 bits: the carry into the top nibble is
  folded back at every byte.
\<close>

theorem hash_buffer_bound: "unat (hash_buffer msg) < 2 ^ 28"
  unfolding hash_buffer_def by (rule hash_loop_bound) simp

end
