(* ===== verification/CText.thy ===== *)
theory CText
  imports Prelude
begin

text \<open>
  Text as the user-space tools and the information files of the module handle it: the decimal and
  hexadecimal conversions of \<open>printf\<close>, \<open>atoi\<close>, \<open>strtol\<close> and \<open>sscanf\<close>, lines read with \<open>fgets\<close>, lists
  split with \<open>strsep\<close>, and strings stored in character arrays of a structure.

  Shown: what was printed is read back, whatever follows in the text.
\<close>

section \<open>Digits\<close>

definition digit_char :: "nat \<Rightarrow> char" where
  "digit_char d = ''0123456789abcdef'' ! d"

definition dec_val :: "char \<Rightarrow> nat option" where
  "dec_val c = (let n = of_char c :: nat in if 48 \<le> n \<and> n \<le> 57 then Some (n - 48) else None)"

definition hex_val :: "char \<Rightarrow> nat option" where
  "hex_val c = (let n = of_char c :: nat in
     if 48 \<le> n \<and> n \<le> 57 then Some (n - 48)
     else if 97 \<le> n \<and> n \<le> 102 then Some (n - 87)
     else if 65 \<le> n \<and> n \<le> 70 then Some (n - 55) else None)"

definition is_digit :: "char \<Rightarrow> bool" where
  "is_digit c \<longleftrightarrow> dec_val c \<noteq> None"

definition is_xdigit :: "char \<Rightarrow> bool" where
  "is_xdigit c \<longleftrightarrow> hex_val c \<noteq> None"

definition is_space :: "char \<Rightarrow> bool" where
  "is_space c \<longleftrightarrow> c = CHR '' '' \<or> 9 \<le> (of_char c :: nat) \<and> (of_char c :: nat) \<le> 13"

lemma all_less_code: "list_all P [0..<n] \<Longrightarrow> d < n \<Longrightarrow> P d"
  by (simp add: list_all_iff)

lemma dec_val_digit [simp]: "d < 10 \<Longrightarrow> dec_val (digit_char d) = Some d"
  by (rule all_less_code [of "\<lambda>d. dec_val (digit_char d) = Some d" 10]) (code_simp, assumption)

lemma hex_val_digit [simp]: "d < 16 \<Longrightarrow> hex_val (digit_char d) = Some d"
  by (rule all_less_code [of "\<lambda>d. hex_val (digit_char d) = Some d" 16]) (code_simp, assumption)

lemma digit_char_kind [simp]:
  "d < 10 \<Longrightarrow> is_digit (digit_char d)" "d < 16 \<Longrightarrow> is_xdigit (digit_char d)"
  by (simp_all add: is_digit_def is_xdigit_def)

lemma digit_char_other [simp]:
  assumes "d < 16"
  shows "\<not> is_space (digit_char d)" "digit_char d \<noteq> CHR ''-''" "digit_char d \<noteq> CHR ''+''" "digit_char d \<noteq> CHR 0x0A"
    "digit_char d \<noteq> CHR '':''"
  by (rule all_less_code [of "\<lambda>d. \<not> is_space (digit_char d)" 16, OF _ assms], code_simp,
      rule all_less_code [of "\<lambda>d. digit_char d \<noteq> CHR ''-''" 16, OF _ assms], code_simp,
      rule all_less_code [of "\<lambda>d. digit_char d \<noteq> CHR ''+''" 16, OF _ assms], code_simp,
      rule all_less_code [of "\<lambda>d. digit_char d \<noteq> CHR 0x0A" 16, OF _ assms], code_simp,
      rule all_less_code [of "\<lambda>d. digit_char d \<noteq> CHR '':''" 16, OF _ assms], code_simp)

section \<open>Printing\<close>

text \<open>The digits of a number in base \<open>b\<close>, at least \<open>w\<close> of them, as \<open>%d\<close>, \<open>%x\<close>, \<open>%.2x\<close> and \<open>%p\<close> print.\<close>

function digits :: "nat \<Rightarrow> nat \<Rightarrow> nat \<Rightarrow> string" where
  "digits b w n = (if b < 2 \<or> n < b \<and> w \<le> 1 then [digit_char n]
     else digits b (w - 1) (n div b) @ [digit_char (n mod b)])"
  by pat_completeness auto
termination
proof (relation "measure (\<lambda>(b, w, n). n + w)")
  fix b w n :: nat assume "\<not> (b < 2 \<or> n < b \<and> w \<le> 1)"
  then have "n div b + (w - 1) < n + w"
    using div_le_dividend [of n b] div_less_dividend [of b n] by (cases "w \<le> 1") linarith+
  then show "((b, w - 1, n div b), (b, w, n)) \<in> measure (\<lambda>(b, w, n). n + w)" by simp
qed simp

declare digits.simps [simp del]

definition print_int :: "int \<Rightarrow> string" where
  "print_int i = (if i < 0 then CHR ''-'' # digits 10 1 (nat (- i)) else digits 10 1 (nat i))"

text \<open>\<open>%p\<close> of the kernels the module is written for: 16 hexadecimal digits without a prefix.\<close>

definition print_ptr :: "u64 \<Rightarrow> string" where
  "print_ptr a = digits 16 16 (unat a)"

section \<open>Reading\<close>

fun digits_val :: "(char \<Rightarrow> nat option) \<Rightarrow> nat \<Rightarrow> nat \<Rightarrow> string \<Rightarrow> nat" where
  "digits_val f b acc [] = acc"
| "digits_val f b acc (c # cs) = (case f c of None \<Rightarrow> acc | Some d \<Rightarrow> digits_val f b (b * acc + d) cs)"

text \<open>
  \<open>strtol\<close> without an end pointer: blanks, a sign, digits; a value outside \<open>long\<close> is the nearest
  bound. No digits at all give 0. \<open>atoi\<close> is the same in base 10, converted to \<open>int\<close>.
\<close>

definition clamp_long :: "int \<Rightarrow> int" where
  "clamp_long v = max (- (2 ^ 63)) (min (2 ^ 63 - 1) v)"

definition strtol :: "nat \<Rightarrow> string \<Rightarrow> int" where
  "strtol b s =
     (let f = (if b = 16 then hex_val else dec_val); t = dropWhile is_space s in
      case t of
        [] \<Rightarrow> 0
      | c # cs \<Rightarrow>
          if c = CHR ''-'' then clamp_long (- int (digits_val f b 0 cs))
          else if c = CHR ''+'' then clamp_long (int (digits_val f b 0 cs))
          else clamp_long (int (digits_val f b 0 t)))"

definition atoi :: "string \<Rightarrow> int" where
  "atoi s = sint (of_int (strtol 10 s) :: 32 word)"

lemma digits_val_append:
  "\<forall>c \<in> set xs. f c \<noteq> None \<Longrightarrow> digits_val f b acc (xs @ ys) = digits_val f b (digits_val f b acc xs) ys"
  by (induction xs arbitrary: acc) auto

lemma digits_val_stop: "ys = [] \<or> f (hd ys) = None \<Longrightarrow> digits_val f b acc ys = acc"
  by (cases ys) auto

lemma digits_read:
  assumes "2 \<le> b" and "\<And>d. d < b \<Longrightarrow> f (digit_char d) = Some d"
  shows "digits_val f b 0 (digits b w n) = n \<and> (\<forall>c \<in> set (digits b w n). f c \<noteq> None)"
  using assms
proof (induction b w n rule: digits.induct)
  case (1 b w n)
  show ?case
  proof (cases "n < b \<and> w \<le> 1")
    case True
    then show ?thesis using 1(2,3) by (simp add: digits.simps [of b w n])
  next
    case False
    then have "digits_val f b 0 (digits b (w - 1) (n div b)) = n div b \<and>
        (\<forall>c \<in> set (digits b (w - 1) (n div b)). f c \<noteq> None)" using 1 by auto
    moreover have "f (digit_char (n mod b)) = Some (n mod b)" using 1(2,3) by simp
    ultimately show ?thesis using False 1(2)
      by (auto simp: digits.simps [of b w n] digits_val_append mult.commute)
  qed
qed

lemmas dec_read = digits_read [of 10 dec_val, simplified] and hex_read = digits_read [of 16 hex_val, simplified]

lemma digits_chars: "2 \<le> b \<Longrightarrow> c \<in> set (digits b w n) \<Longrightarrow> \<exists>d < b. c = digit_char d"
proof (induction b w n rule: digits.induct)
  case (1 b w n)
  show ?case
  proof (cases "n < b \<and> w \<le> 1")
    case True
    then show ?thesis using 1(2,3) by (auto simp: digits.simps [of b w n])
  next
    case False
    then have "c \<in> set (digits b (w - 1) (n div b)) \<or> c = digit_char (n mod b)"
      using 1(2,3) by (auto simp: digits.simps [of b w n])
    then show ?thesis
    proof
      assume "c = digit_char (n mod b)"
      then show ?thesis using 1(2) by (intro exI [of _ "n mod b"]) simp
    qed (use 1(1) [OF _ 1(2)] 1(2) False in auto)
  qed
qed

lemma digits_nonempty [simp]: "digits b w n \<noteq> []"
  by (subst digits.simps) simp

lemma hd_digits: "2 \<le> b \<Longrightarrow> \<exists>d < b. hd (digits b w n) = digit_char d"
  by (rule digits_chars [of b _ w n]) simp_all

lemma length_digits: "2 \<le> b \<Longrightarrow> n < b ^ k \<Longrightarrow> w \<le> k \<Longrightarrow> 0 < k \<Longrightarrow> length (digits b w n) \<le> k"
proof (induction b w n arbitrary: k rule: digits.induct)
  case (1 b w n)
  show ?case
  proof (cases "n < b \<and> w \<le> 1")
    case True
    then show ?thesis using 1(5) by (simp add: digits.simps [of b w n])
  next
    case False
    then have k: "1 < k" using 1(3-5) by (cases "k = 1") auto
    have "n div b < b ^ (k - 1)" using 1(3) k by (cases k) (auto simp: less_mult_imp_div_less mult.commute)
    then have "length (digits b (w - 1) (n div b)) \<le> k - 1" using 1(1) [of "k - 1"] 1(2,4) False k by auto
    then show ?thesis using False 1(2) k by (auto simp: digits.simps [of b w n])
  qed
qed

lemma length_digits_ge: "2 \<le> b \<Longrightarrow> w \<le> length (digits b w n)"
proof (induction b w n rule: digits.induct)
  case (1 b w n)
  show ?case
  proof (cases "n < b \<and> w \<le> 1")
    case False
    then have "w - 1 \<le> length (digits b (w - 1) (n div b))" using 1 by auto
    then show ?thesis using False 1(2) by (auto simp: digits.simps [of b w n])
  qed (use 1(2) in \<open>simp add: digits.simps [of b w n]\<close>)
qed

lemma length_print_ptr [simp]: "length (print_ptr a) = 16"
proof -
  have "unat a < 16 ^ 16" using unat_u64_lt [of a] by simp
  then have "length (digits 16 16 (unat a)) \<le> 16" by (intro length_digits) simp_all
  moreover have "16 \<le> length (digits 16 16 (unat a))" by (rule length_digits_ge) simp
  ultimately show ?thesis unfolding print_ptr_def by linarith
qed

subsection \<open>Printed numbers are read back\<close>

lemma dropWhile_nospace: "s \<noteq> [] \<Longrightarrow> \<not> is_space (hd s) \<Longrightarrow> dropWhile is_space s = s"
  by (cases s) auto

lemma strtol_digits:
  assumes "2 \<le> b" and "b \<le> 16" and f: "f = (if b = 16 then hex_val else dec_val)" and d: "\<And>d. d < b \<Longrightarrow> f (digit_char d) = Some d"
    and "n < 2 ^ 63" and rest: "rest = [] \<or> f (hd rest) = None"
  shows "strtol b (digits b w n @ rest) = int n"
proof -
  obtain c cs where cs: "digits b w n = c # cs" by (cases "digits b w n") auto
  then obtain e where e: "e < b" "c = digit_char e" using hd_digits [OF assms(1), of w n] by auto
  have "digits_val f b 0 (digits b w n @ rest) = n"
    using digits_read [OF assms(1) d, of w n] digits_val_stop [of rest f] rest by (simp add: digits_val_append)
  moreover have "clamp_long (int n) = int n" using assms(5) by (simp add: clamp_long_def)
  ultimately show ?thesis
    using e cs assms(2) unfolding strtol_def Let_def f [symmetric] by (simp add: dropWhile_nospace)
qed

lemma atoi_print_int:
  assumes "- (2 ^ 31) \<le> i" and "i < 2 ^ 31" and rest: "rest = [] \<or> dec_val (hd rest) = None"
  shows "atoi (print_int i @ rest) = i"
proof -
  have "strtol 10 (print_int i @ rest) = i"
  proof (cases "i < 0")
    case True
    then have "digits_val dec_val 10 0 (digits 10 1 (nat (- i)) @ rest) = nat (- i)"
      using dec_read [of 1 "nat (- i)"] digits_val_stop [of rest dec_val] rest by (simp add: digits_val_append)
    moreover have "clamp_long i = i" using assms(1,2) by (simp add: clamp_long_def)
    ultimately show ?thesis using True by (simp add: print_int_def strtol_def dropWhile_nospace is_space_def)
  next
    case False
    then show ?thesis using strtol_digits [of 10 dec_val "nat i" rest 1] assms(2) rest by (simp add: print_int_def)
  qed
  moreover have "sint (of_int i :: 32 word) = i" using assms(1,2) by (simp add: signed_of_int signed_take_bit_int_eq_self)
  ultimately show ?thesis by (simp add: atoi_def)
qed

lemma strtol_print_ptr:
  assumes "unat a < 2 ^ 63"
  shows "strtol 16 (print_ptr a) = int (unat a)"
  using strtol_digits [of 16 hex_val "unat a" "[]" 16] assms by (simp add: print_ptr_def)

lemma print_ptr_hex: "c \<in> set (print_ptr a) \<Longrightarrow> is_xdigit c"
  using hex_read [of 16 "unat a"] by (auto simp: print_ptr_def is_xdigit_def)

section \<open>Lines, lists and arrays\<close>

text \<open>
  \<open>fgets(buf, n, f)\<close> on the rest of a file: up to \<open>n - 1\<close> characters, and not beyond a newline;
  \<open>None\<close> at the end of the file.
\<close>

fun fgets_line :: "nat \<Rightarrow> string \<Rightarrow> string \<times> string" where
  "fgets_line (Suc n) (c # cs) =
     (if c = CHR 0x0A then ([c], cs) else let (l, r) = fgets_line n cs in (c # l, r))"
| "fgets_line _ cs = ([], cs)"

definition fgets :: "nat \<Rightarrow> string \<Rightarrow> (string \<times> string) option" where
  "fgets n f = (if f = [] then None else Some (fgets_line (n - 1) f))"

lemma fgets_whole_line:
  assumes "CHR 0x0A \<notin> set l" and "length l + 2 \<le> n"
  shows "fgets n (l @ CHR 0x0A # rest) = Some (l @ [CHR 0x0A], rest)"
proof -
  have "fgets_line m (l @ CHR 0x0A # rest) = (l @ [CHR 0x0A], rest)" if "length l < m" for m
    using assms(1) that
  proof (induction l arbitrary: m)
    case Nil
    then show ?case by (cases m) auto
  next
    case (Cons c l)
    then show ?case by (cases m) auto
  qed
  then show ?thesis using assms(2) by (simp add: fgets_def)
qed

text \<open>\<open>strsep\<close> over a whole string: the pieces between the separators, empty ones included.\<close>

fun split_on :: "char \<Rightarrow> string \<Rightarrow> string list" where
  "split_on sep [] = [[]]"
| "split_on sep (c # cs) =
     (if c = sep then [] # split_on sep cs else case split_on sep cs of p # ps \<Rightarrow> (c # p) # ps | [] \<Rightarrow> [[c]])"

lemma split_on_nonempty [simp]: "split_on sep s \<noteq> []"
  by (induction s) (auto split: list.splits)

lemma split_on_piece: "sep \<notin> set p \<Longrightarrow> split_on sep (p @ sep # s) = p # split_on sep s"
  by (induction p) auto

lemma split_on_last: "sep \<notin> set p \<Longrightarrow> split_on sep p = [p]"
  by (induction p) auto

text \<open>
  A string copied with \<open>strncpy(a, s, n)\<close> into an array of \<open>m\<close> zeroed characters, \<open>n \<le> m\<close>, and what a
  reader of the array sees: the characters up to the first null character.
\<close>

definition char_array :: "nat \<Rightarrow> nat \<Rightarrow> string \<Rightarrow> u8 list" where
  "char_array m n s = (let t = take n (map of_char s) in t @ replicate (m - length t) 0)"

definition array_str :: "u8 list \<Rightarrow> string" where
  "array_str a = map (\<lambda>b. char_of (unat b)) (takeWhile (\<lambda>b. b \<noteq> 0) a)"

lemma length_char_array [simp]: "n \<le> m \<Longrightarrow> length (char_array m n s) = m"
  by (simp add: char_array_def Let_def)

lemma unat_of_char_u8: "unat (of_char c :: u8) = of_char c"
proof -
  have "(of_char c :: u8) = of_nat (of_char c)" by (simp only: of_nat_of_char)
  then show ?thesis by (simp add: unat_of_nat take_bit_nat_eq_self)
qed

lemma of_char_u8_zero: "(of_char c :: u8) = 0 \<longleftrightarrow> c = CHR 0x00"
proof
  assume "(of_char c :: u8) = 0"
  then have "(of_char c :: nat) = of_char (CHR 0x00)" using unat_of_char_u8 [of c] by simp
  then show "c = CHR 0x00" by (simp only: of_char_eq_iff)
qed simp

text \<open>A string without null characters is read back, from an array it fits in.\<close>

lemma array_str_padded:
  assumes "CHR 0x00 \<notin> set s"
  shows "array_str (map of_char s @ replicate k 0) = s"
proof -
  have "takeWhile (\<lambda>b. b \<noteq> 0) (map of_char s @ replicate k 0 :: bytes) = map of_char s"
    using assms by (subst takeWhile_append2) (auto simp: takeWhile_replicate of_char_u8_zero)
  then show ?thesis by (simp add: array_str_def comp_def unat_of_char_u8)
qed

lemma array_str_char_array:
  assumes "length s \<le> n" and "CHR 0x00 \<notin> set s"
  shows "array_str (char_array m n s) = s"
  using array_str_padded [OF assms(2)] assms(1) by (simp add: char_array_def Let_def)

end
