(* ===== verification/FileIo.thy ===== *)
theory FileIo
  imports Prelude
begin

text \<open>
  The file interface of \<open>file_io.c\<close> over the kernel's VFS. The VFS is a parameter: what
  \<open>filp_open\<close> returns for a path and a mode, what \<open>vfs_read\<close> returns and delivers for a file, a
  length and an offset, what \<open>vfs_write\<close> accepts, and the results of the directory calls.
  Shown: which directories the recursive \<open>mkdir\<close> creates, in which order, and when it fails.
\<close>

section \<open>Pointers and results of the kernel\<close>

text \<open>\<open>IS_ERR\<close>: the last 4095 values of a pointer are error numbers.\<close>

definition IS_ERR :: "u64 \<Rightarrow> bool" where
  "IS_ERR p \<longleftrightarrow> p \<ge> - 4095"

record vfs =
  filp_open :: "string \<Rightarrow> u32 \<Rightarrow> u64"
  vfs_getattr :: "u64 \<Rightarrow> int \<times> u64"
  vfs_read :: "u64 \<Rightarrow> u64 \<Rightarrow> u64 \<Rightarrow> int \<times> bytes"
  vfs_write :: "u64 \<Rightarrow> bytes \<Rightarrow> u64 \<Rightarrow> int"
  kern_path_create :: "string \<Rightarrow> bool"
  vfs_mkdir :: "string \<Rightarrow> int"

definition O_LARGEFILE :: u32 where
  "O_LARGEFILE = 0x8000"

section \<open>Files\<close>

definition file_open :: "vfs \<Rightarrow> string \<Rightarrow> u32 \<Rightarrow> u64" where
  "file_open v path mode =
     (let file_ptr = filp_open v path (mode OR O_LARGEFILE)
      in if IS_ERR file_ptr then 0 else file_ptr)"

text \<open>The result, and the file that goes to \<open>filp_close\<close>.\<close>

definition file_close :: "u64 \<Rightarrow> int \<times> u64" where
  "file_close file_ptr = (0, file_ptr)"

definition file_size :: "vfs \<Rightarrow> u64 \<Rightarrow> u64" where
  "file_size v file_ptr = (let (ret, sz) = vfs_getattr v file_ptr in if ret \<noteq> 0 then -1 else sz)"

definition file_read :: "vfs \<Rightarrow> u64 \<Rightarrow> u64 \<Rightarrow> u64 \<Rightarrow> int \<times> bytes" where
  "file_read v file_ptr len offset = vfs_read v file_ptr len offset"

definition file_write :: "vfs \<Rightarrow> u64 \<Rightarrow> bytes \<Rightarrow> u64 \<Rightarrow> int" where
  "file_write v file_ptr buf offset = vfs_write v file_ptr buf offset"

section \<open>Directories\<close>

definition isprint :: "char \<Rightarrow> bool" where
  "isprint c \<longleftrightarrow> 32 \<le> (of_char c :: nat) \<and> (of_char c :: nat) \<le> 126"

text \<open>\<open>file_mkdir\<close> without recursion: an existing path is no error.\<close>

definition file_mkdir_one :: "vfs \<Rightarrow> string \<Rightarrow> int" where
  "file_mkdir_one v path = (if \<not> kern_path_create v path then 0 else vfs_mkdir v path)"

text \<open>
  The walk over the copied path: \<open>pre\<close> is the string before \<open>tmp_iter\<close>, \<open>n\<close> is
  \<open>tmp_iter - dirname_ptr\<close>. The second component of the result is the sequence of the calls
  of \<open>file_mkdir\<close>.
\<close>

fun mkdir_walk :: "vfs \<Rightarrow> string \<Rightarrow> nat \<Rightarrow> string \<Rightarrow> int \<times> string list" where
  "mkdir_walk v pre n [] =
     (if n > 1 then (if file_mkdir_one v pre \<noteq> 0 then (-1, [pre]) else (0, [pre])) else (0, []))"
| "mkdir_walk v pre n (c # cs) =
     (if c = CHR ''/'' then
        (if n > 1 then
           (if file_mkdir_one v pre \<noteq> 0 then (-1, [pre])
            else let (r, calls) = mkdir_walk v (pre @ [c]) 0 cs in (r, pre # calls))
         else mkdir_walk v (pre @ [c]) 0 cs)
      else if \<not> isprint c then (-1, [])
      else mkdir_walk v (pre @ [c]) (n + 1) cs)"

definition mkdir_recursive :: "vfs \<Rightarrow> string \<Rightarrow> bool \<Rightarrow> int \<times> string list" where
  "mkdir_recursive v path got_mem = (if \<not> got_mem then (-1, []) else mkdir_walk v [] 0 path)"

definition file_mkdir :: "vfs \<Rightarrow> string \<Rightarrow> bool \<Rightarrow> bool \<Rightarrow> int \<times> string list" where
  "file_mkdir v path recurse got_mem =
     (if recurse then mkdir_recursive v path got_mem else (file_mkdir_one v path, [path]))"

section \<open>What the recursive mkdir creates\<close>

text \<open>
  The prefixes of a path that end at a slash or at its end and whose last component has at
  least \<open>m\<close> characters.
\<close>

definition last_component :: "string \<Rightarrow> string" where
  "last_component p = rev (takeWhile (\<lambda>c. c \<noteq> CHR ''/'') (rev p))"

definition dir_prefixes :: "nat \<Rightarrow> string \<Rightarrow> string list" where
  "dir_prefixes m path =
     filter (\<lambda>p. m \<le> length (last_component p))
       (map (\<lambda>i. take i path)
         (filter (\<lambda>i. i = length path \<or> path ! i = CHR ''/'') [0..<Suc (length path)]))"

fun walk_spec :: "string \<Rightarrow> string \<Rightarrow> string list" where
  "walk_spec pre [] = (if 1 < length (last_component pre) then [pre] else [])"
| "walk_spec pre (c # cs) =
     (if c = CHR ''/'' \<and> 1 < length (last_component pre) then [pre] else []) @ walk_spec (pre @ [c]) cs"

lemma last_component_snoc:
  "last_component (p @ [c]) = (if c = CHR ''/'' then [] else last_component p @ [c])"
  by (simp add: last_component_def)

lemma mkdir_walk_spec:
  assumes "list_all isprint cs" and "n = length (last_component pre)"
    and "\<forall>p. file_mkdir_one v p = 0"
  shows "mkdir_walk v pre n cs = (0, walk_spec pre cs)"
  using assms(1,2)
proof (induction cs arbitrary: pre n)
  case (Cons c cs)
  show ?case
  proof (cases "c = CHR ''/''")
    case True
    then show ?thesis using Cons.IH [of 0 "pre @ [c]"] Cons.prems assms(3)
      by (auto simp: last_component_snoc)
  next
    case False
    then show ?thesis using Cons.IH [of "n + 1" "pre @ [c]"] Cons.prems
      by (auto simp: last_component_snoc)
  qed
qed (use assms(3) in auto)

lemma walk_spec_prefixes:
  "walk_spec pre cs =
     filter (\<lambda>p. 2 \<le> length (last_component p))
       (map (\<lambda>i. pre @ take i cs)
         (filter (\<lambda>i. i = length cs \<or> cs ! i = CHR ''/'') [0..<Suc (length cs)]))"
proof (induction cs arbitrary: pre)
  case (Cons c cs)
  have "[0..<Suc (length (c # cs))] = 0 # map Suc [0..<Suc (length cs)]"
    by (metis length_Cons map_Suc_upt upt_conv_Cons zero_less_Suc)
  then show ?case using Cons.IH [of "pre @ [c]"]
    by (simp add: filter_map comp_def del: upt_Suc)
qed auto

lemma mkdir_walk_fails: "\<not> list_all isprint cs \<Longrightarrow> fst (mkdir_walk v pre n cs) = -1"
proof (induction cs arbitrary: pre n)
  case (Cons c cs)
  have "isprint (CHR ''/'')" by (simp add: isprint_def)
  with Cons show ?case by (auto split: prod.splits) (metis fst_conv)
qed simp

text \<open>
  For a path of printable characters whose directory calls succeed, the recursive \<open>mkdir\<close>
  returns 0 after creating, from the outermost to the innermost, exactly the prefixes of the
  path whose last component has at least two characters: one-character directory names are
  passed over like empty ones. A path with another character fails.
\<close>

theorem mkdir_recursive_creates:
  assumes "\<forall>p. file_mkdir_one v p = 0"
  shows "mkdir_recursive v path True =
    (if list_all isprint path then (0, dir_prefixes 2 path)
     else (-1, snd (mkdir_walk v [] 0 path)))"
proof (cases "list_all isprint path")
  case True
  have "mkdir_walk v [] 0 path = (0, walk_spec [] path)"
    by (rule mkdir_walk_spec [OF True _ assms]) (simp add: last_component_def)
  then show ?thesis using True walk_spec_prefixes [of "[]" path]
    by (simp add: mkdir_recursive_def dir_prefixes_def)
next
  case False
  then show ?thesis using mkdir_walk_fails [OF False, of v "[]" 0]
    by (simp add: mkdir_recursive_def prod_eq_iff)
qed

definition demo_vfs :: vfs where
  "demo_vfs = \<lparr>filp_open = (\<lambda>p m. if p = ''f'' then 4096 else if p = ''g'' then 8192 else -2),
     vfs_getattr = (\<lambda>f. (0, 5)),
     vfs_read = (\<lambda>f n off. let m = min (unat n) (5 - unat off) in
       (int m, take m (drop (unat off) [10, 11, 12, 13, 14]))),
     vfs_write = (\<lambda>f bs off. int (length bs)), kern_path_create = (\<lambda>p. True),
     vfs_mkdir = (\<lambda>p. 0)\<rparr>"

theorem mkdir_recursive_creates_witness:
  "mkdir_recursive demo_vfs ''/a/bc/def'' True = (0, [''/a/bc'', ''/a/bc/def''])"
proof -
  have "\<forall>p. file_mkdir_one demo_vfs p = 0" by (simp add: file_mkdir_one_def demo_vfs_def)
  note M = mkdir_recursive_creates [OF this, of "''/a/bc/def''"]
  have "list_all isprint ''/a/bc/def''" by (simp add: isprint_def)
  moreover have "dir_prefixes 2 ''/a/bc/def'' = [''/a/bc'', ''/a/bc/def'']" by code_simp
  ultimately show ?thesis using M by simp
qed

end
