(* ===== verification/EnclaveFs.thy ===== *)
theory EnclaveFs
  imports FileIo Hashtable
begin

text \<open>
  The VFS service an enclave reaches by long calls (\<open>enclave_fs.c\<close>): the table of the files
  it holds open, open and close, size, and the scatter reads and gather writes. The VFS is
  the parameter of \<open>FileIo\<close>; a descriptor names physical memory of the enclave, and the
  stores of a read and the loads of a write are recorded in the order they are made.

  Shown: a handle that is not in the table reaches no file; open and close keep the table, the
  list and the count in step; a scatter read terminates and puts into the descriptors, in
  order, exactly the bytes of the file from the given offset on, and reports their number.
\<close>

section \<open>State\<close>

definition file_hash_fn :: "u64 \<Rightarrow> u32" where
  "file_hash_fn key = hash_long key"

definition file_eq_fn :: "u64 \<Rightarrow> u64 \<Rightarrow> bool" where
  "file_eq_fn key1 key2 \<longleftrightarrow> key1 = key2"

record enclave_fs =
  fs_num_files :: u32
  fs_open_file_table :: hashtable
  fs_open_file_list :: "u64 list"

text \<open>What the handlers do besides changing the state.\<close>

datatype fs_event =
    Respond u64
  | FilpClose u64
  | MemStore u64 bytes

record vfs_buf_desc =
  bd_size :: u32
  bd_phys_addr :: u64

record vfs_rw_lcall =
  rw_file_handle :: u64
  rw_offset :: u64
  rw_length :: u64
  rw_descs :: "vfs_buf_desc list"

section \<open>Open and close\<close>

text \<open>
  The outcomes of \<open>kmalloc\<close>: the new table, the reallocated table and the entry inside
  \<open>htable_insert\<close> (its result is ignored), and the list node.
\<close>

record fs_alloc =
  al_new :: bool
  al_realloc :: bool
  al_entry :: bool
  al_node :: bool

definition enclave_vfs_open_lcall ::
    "vfs \<Rightarrow> fs_alloc \<Rightarrow> enclave_fs \<Rightarrow> string \<Rightarrow> u32 \<Rightarrow> (enclave_fs \<times> fs_event list) option" where
  "enclave_vfs_open_lcall v al fs path mode =
     (let file_ptr = file_open v path mode in
      if IS_ERR file_ptr then Some (fs, [Respond 0])
      else do {
        fs1 \<leftarrow>
          (if htable_search (fs_open_file_table fs) file_ptr = 0 then do {
             (r, t) \<leftarrow> htable_insert (fs_open_file_table fs) file_ptr file_ptr
                          (al_new al) (al_realloc al) (al_entry al);
             Some (fs\<lparr>fs_open_file_table := t,
                      fs_open_file_list := (if al_node al then fs_open_file_list fs @ [file_ptr]
                                            else fs_open_file_list fs)\<rparr>)
           }
           else Some fs);
        Some (fs1\<lparr>fs_num_files := fs_num_files fs1 + 1\<rparr>, [Respond file_ptr])
      })"

definition enclave_vfs_close_lcall :: "enclave_fs \<Rightarrow> u64 \<Rightarrow> enclave_fs \<times> fs_event list" where
  "enclave_vfs_close_lcall fs file_ptr =
     (if htable_search (fs_open_file_table fs) file_ptr = 0 then (fs, [Respond (-1)])
      else let (v, frees, t) = htable_remove (fs_open_file_table fs) file_ptr False in
        (fs\<lparr>fs_open_file_table := t,
            fs_open_file_list := list_del_first (\<lambda>p. p = file_ptr) (fs_open_file_list fs),
            fs_num_files := fs_num_files fs - 1\<rparr>,
         [FilpClose file_ptr, Respond 0]))"

definition enclave_vfs_size_lcall :: "vfs \<Rightarrow> enclave_fs \<Rightarrow> u64 \<Rightarrow> fs_event list" where
  "enclave_vfs_size_lcall v fs file_ptr =
     (if htable_search (fs_open_file_table fs) file_ptr = 0 then [Respond (-1)]
      else [Respond (file_size v file_ptr)])"

section \<open>Scatter reads and gather writes\<close>

text \<open>
  The inner loop over one descriptor: \<open>bytes_read\<close> and \<open>bytes_left\<close> are its 32-bit counters,
  \<open>offset\<close> and \<open>total_bytes\<close> the 64-bit ones. The result has the last return value of \<open>file_read\<close>.
\<close>

partial_function (option) read_desc ::
    "vfs \<Rightarrow> u64 \<Rightarrow> u64 \<Rightarrow> u32 \<Rightarrow> u32 \<Rightarrow> u64 \<Rightarrow> u64 \<Rightarrow> int \<Rightarrow> fs_event list \<Rightarrow>
     (int \<times> u64 \<times> u64 \<times> fs_event list) option" where
  "read_desc v file_ptr phys_addr bytes_read bytes_left offset total_bytes ret ev =
     (if bytes_left = 0 then Some (ret, offset, total_bytes, ev)
      else case file_read v file_ptr (ucast bytes_left) offset of (ret, bs) \<Rightarrow>
        if ret \<le> 0 then Some (ret, offset, total_bytes, ev)
        else read_desc v file_ptr phys_addr (bytes_read + of_int ret) (bytes_left - of_int ret)
               (offset + of_int ret) (total_bytes + of_int ret) ret
               (ev @ [MemStore (phys_addr + ucast bytes_read) bs]))"

fun read_descs ::
    "vfs \<Rightarrow> u64 \<Rightarrow> vfs_buf_desc list \<Rightarrow> u64 \<Rightarrow> u64 \<Rightarrow> u64 \<Rightarrow> fs_event list \<Rightarrow>
     (u64 \<times> fs_event list) option" where
  "read_descs v file_ptr [] read_len offset total_bytes ev = Some (total_bytes, ev)"
| "read_descs v file_ptr (d # ds) read_len offset total_bytes ev =
     (if total_bytes \<ge> read_len then Some (total_bytes, ev)
      else do {
        (ret, offset, total_bytes, ev) \<leftarrow>
          read_desc v file_ptr (bd_phys_addr d) 0 (bd_size d) offset total_bytes 0 ev;
        if ret = 0 then Some (total_bytes, ev)
        else read_descs v file_ptr ds read_len offset total_bytes ev
      })"

definition enclave_vfs_read_lcall ::
    "vfs \<Rightarrow> enclave_fs \<Rightarrow> vfs_rw_lcall \<Rightarrow> fs_event list option" where
  "enclave_vfs_read_lcall v fs lcall =
     (let file_ptr = rw_file_handle lcall in
      if htable_search (fs_open_file_table fs) file_ptr = 0 then Some [Respond (-1)]
      else do {
        (total_bytes, ev) \<leftarrow> read_descs v file_ptr (rw_descs lcall) (rw_length lcall) (rw_offset lcall) 0 [];
        Some (ev @ [Respond total_bytes])
      })"

text \<open>The write loops; \<open>mem\<close> is the memory of the enclave, read through \<open>__va\<close>.\<close>

definition mem_bytes :: "(u64 \<Rightarrow> u8) \<Rightarrow> u64 \<Rightarrow> nat \<Rightarrow> bytes" where
  "mem_bytes mem a n = map (\<lambda>i. mem (a + of_nat i)) [0..<n]"

definition file_write_mem ::
    "vfs \<Rightarrow> (u64 \<Rightarrow> u8) \<Rightarrow> u64 \<Rightarrow> u64 \<Rightarrow> u32 \<Rightarrow> u64 \<Rightarrow> int \<times> bytes" where
  "file_write_mem v mem file_ptr a n offset =
     (let bs = mem_bytes mem a (unat n) in (file_write v file_ptr bs offset, bs))"

partial_function (option) write_desc ::
    "vfs \<Rightarrow> (u64 \<Rightarrow> u8) \<Rightarrow> u64 \<Rightarrow> u64 \<Rightarrow> u32 \<Rightarrow> u32 \<Rightarrow> u64 \<Rightarrow> u64 \<Rightarrow> int \<Rightarrow> (u64 \<times> bytes) list \<Rightarrow>
     (int \<times> u64 \<times> u64 \<times> (u64 \<times> bytes) list) option" where
  "write_desc v mem file_ptr phys_addr bytes_written bytes_left offset total_bytes ret ev =
     (if bytes_left = 0 then Some (ret, offset, total_bytes, ev)
      else case file_write_mem v mem file_ptr (phys_addr + ucast bytes_written) bytes_left offset of
        (ret, bs) \<Rightarrow> if ret \<le> 0 then Some (ret, offset, total_bytes, ev)
        else write_desc v mem file_ptr phys_addr (bytes_written + of_int ret) (bytes_left - of_int ret)
               (offset + of_int ret) (total_bytes + of_int ret) ret
               (ev @ [(offset, take (nat ret) bs)]))"

fun write_descs ::
    "vfs \<Rightarrow> (u64 \<Rightarrow> u8) \<Rightarrow> u64 \<Rightarrow> vfs_buf_desc list \<Rightarrow> u64 \<Rightarrow> u64 \<Rightarrow> u64 \<Rightarrow> (u64 \<times> bytes) list \<Rightarrow>
     (u64 \<times> (u64 \<times> bytes) list) option" where
  "write_descs v mem file_ptr [] write_len offset total_bytes ev = Some (total_bytes, ev)"
| "write_descs v mem file_ptr (d # ds) write_len offset total_bytes ev =
     (if total_bytes \<ge> write_len then Some (total_bytes, ev)
      else do {
        (ret, offset, total_bytes, ev) \<leftarrow>
          write_desc v mem file_ptr (bd_phys_addr d) 0 (bd_size d) offset total_bytes 0 ev;
        if ret = 0 then Some (total_bytes, ev)
        else write_descs v mem file_ptr ds write_len offset total_bytes ev
      })"

definition enclave_vfs_write_lcall ::
    "vfs \<Rightarrow> (u64 \<Rightarrow> u8) \<Rightarrow> enclave_fs \<Rightarrow> vfs_rw_lcall \<Rightarrow> ((u64 \<times> bytes) list \<times> fs_event list) option" where
  "enclave_vfs_write_lcall v mem fs lcall =
     (let file_ptr = rw_file_handle lcall in
      if htable_search (fs_open_file_table fs) file_ptr = 0 then Some ([], [Respond (-1)])
      else do {
        (total_bytes, ev) \<leftarrow>
          write_descs v mem file_ptr (rw_descs lcall) (rw_length lcall) (rw_offset lcall) 0 [];
        Some (ev, [Respond total_bytes])
      })"

section \<open>Initialisation and teardown\<close>

definition init_enclave_fs :: "enclave_fs \<Rightarrow> bool \<Rightarrow> bool \<Rightarrow> (int \<times> enclave_fs) option" where
  "init_enclave_fs fs got_htable got_table = do {
     t \<leftarrow> create_htable 0 file_hash_fn file_eq_fn got_htable got_table;
     Some (case t of None \<Rightarrow> (-1, fs)
       | Some h \<Rightarrow> (0, fs\<lparr>fs_open_file_table := h, fs_open_file_list := []\<rparr>))
   }"

definition deinit_enclave_fs :: "enclave_fs \<Rightarrow> fs_event list \<times> freed list" where
  "deinit_enclave_fs fs =
     (map FilpClose (fs_open_file_list fs), free_htable (fs_open_file_table fs) False False)"

section \<open>The scatter read\<close>

text \<open>
  What \<open>vfs_read\<close> documents for a file with contents \<open>c\<close>: it delivers at most as many bytes
  as asked for, and a positive result is the number of bytes of the file delivered from the
  offset on; short reads, end of file and errors included.
\<close>

definition reads_file :: "vfs \<Rightarrow> u64 \<Rightarrow> bytes \<Rightarrow> bool" where
  "reads_file v f c \<longleftrightarrow> (\<forall>len off. case vfs_read v f len off of (ret, bs) \<Rightarrow>
     ret \<le> int (unat len) \<and>
     (0 < ret \<longrightarrow> unat off + nat ret \<le> length c \<and> bs = take (nat ret) (drop (unat off) c)))"

fun stored :: "fs_event list \<Rightarrow> bytes" where
  "stored [] = []"
| "stored (MemStore a bs # ev) = bs @ stored ev"
| "stored (_ # ev) = stored ev"

text \<open>A store inside the memory of one of the descriptors.\<close>

definition store_in :: "vfs_buf_desc list \<Rightarrow> fs_event \<Rightarrow> bool" where
  "store_in ds e = (case e of
     MemStore a bs \<Rightarrow> (\<exists>d \<in> set ds. \<exists>k. a = bd_phys_addr d + of_nat k \<and> k + length bs \<le> unat (bd_size d))
   | _ \<Rightarrow> False)"

lemma stored_append: "stored (e1 @ e2) = stored e1 @ stored e2"
  by (induction e1 rule: stored.induct) auto

lemma of_int_unat:
  assumes "0 \<le> r" and "nat r < 2 ^ LENGTH('a::len)"
  shows "unat (of_int r :: 'a word) = nat r"
proof -
  have "(of_int r :: 'a word) = of_nat (nat r)" using assms(1) by simp
  then show ?thesis using assms(2) by (simp add: unat_of_nat take_bit_nat_eq_self)
qed

lemma reads_fileD:
  assumes "reads_file v f c" and "vfs_read v f len off = (ret, bs)"
  shows "ret \<le> int (unat len)" and "0 < ret \<Longrightarrow> unat off + nat ret \<le> length c"
    and "0 < ret \<Longrightarrow> bs = take (nat ret) (drop (unat off) c)"
  using assms(1) [unfolded reads_file_def, rule_format, of len off] assms(2) by auto

text \<open>The counters after a transfer of \<open>r\<close> bytes.\<close>

lemma count_transfer:
  fixes a left sz :: u32 and off :: u64
  assumes "0 < r" and n: "nat r \<le> unat left" and s: "unat a + unat left = unat sz"
    and o: "unat off + nat r < 2 ^ 64"
  shows "unat (a + of_int r) = unat a + nat r" and "unat (left - of_int r) = unat left - nat r"
    and "unat (off + of_int r) = unat off + nat r"
proof -
  have i: "unat (of_int r :: u32) = nat r"
    using assms(1) le_less_trans [OF n unsigned_less] by (intro of_int_unat) auto
  have l: "unat (of_int r :: u64) = nat r" using assms(1) o by (intro of_int_unat) auto
  have "unat a + nat r < 4294967296" using s n unat_u32_lt [of sz] by linarith
  then show "unat (a + of_int r) = unat a + nat r" by (subst unat_add_small) (simp_all add: i)
  show "unat (left - of_int r) = unat left - nat r" using n i by (subst unat_diff_le) auto
  show "unat (off + of_int r) = unat off + nat r" using o l by (subst unat_add_small) auto
qed

text \<open>One descriptor, from any point of its loop.\<close>

lemma read_desc_ok:
  assumes rd: "reads_file v f c" and c: "length c < 2 ^ 64" and d: "d \<in> set ds"
    and sum: "unat rdn + unat left = unat (bd_size d)"
  shows "\<exists>ret' off' n es. read_desc v f (bd_phys_addr d) rdn left off tot ret ev =
      Some (ret', off', tot + of_nat n, ev @ es) \<and>
    stored es = take n (drop (unat off) c) \<and> list_all (store_in ds) es \<and>
    n \<le> unat left \<and> (0 < n \<longrightarrow> unat off + n \<le> length c) \<and> unat off' = unat off + n"
  using sum
proof (induction "unat left" arbitrary: left rdn off tot ret ev rule: less_induct)
  case less
  obtain r bs where r: "vfs_read v f (ucast left) off = (r, bs)" by fastforce
  note R = reads_fileD [OF rd r, unfolded unat_ucast_u32]
  show ?case
  proof (cases "left = 0 \<or> r \<le> 0")
    case True
    then show ?thesis using r
      by (subst read_desc.simps) (auto simp: file_read_def intro!: exI [of _ 0] exI [of _ "[]"])
  next
    case False
    let ?e = "MemStore (bd_phys_addr d + ucast rdn) bs"
    have r0: "0 < r" "\<not> left = 0" and nr: "nat r \<le> unat left" using False R(1) by (auto simp only: nat_le_iff)
    note K = count_transfer [OF r0(1) nr less.prems] and R' = R(2,3) [OF r0(1)]
    have o: "unat off + nat r < 2 ^ 64" using R'(1) c by simp
    have "unat (left - of_int r) < unat left"
      "unat (rdn + of_int r) + unat (left - of_int r) = unat (bd_size d)"
      using K [OF o] less.prems nr r0 by auto
    from less.hyps [OF this, of "off + of_int r" "tot + of_int r" r "ev @ [?e]"]
    obtain ret' off' n es where I: "read_desc v f (bd_phys_addr d) (rdn + of_int r) (left - of_int r)
        (off + of_int r) (tot + of_int r) r (ev @ [?e]) =
        Some (ret', off', tot + of_int r + of_nat n, (ev @ [?e]) @ es)"
      "stored es = take n (drop (unat off + nat r) c)" "list_all (store_in ds) es" "n \<le> unat left - nat r"
      "0 < n \<longrightarrow> unat off + nat r + n \<le> length c" "unat off' = unat off + nat r + n"
      unfolding K [OF o] by blast
    have tot: "tot + of_int r + of_nat n = tot + of_nat (nat r + n)" using r0 by simp
    have "length bs \<le> nat r" using R'(2) by simp
    then have "unat rdn + length bs \<le> unat (bd_size d)" using less.prems nr by linarith
    then have "store_in ds ?e" unfolding store_in_def fs_event.case ucast_unat_u32 using d by blast
    moreover have "stored (?e # es) = take (nat r + n) (drop (unat off) c)"
      using I(2) R'(2) by (simp add: take_add add.commute [of "unat off"])
    moreover have "read_desc v f (bd_phys_addr d) rdn left off tot ret ev =
        Some (ret', off', tot + of_nat (nat r + n), ev @ ?e # es)"
      using r0 r I(1) by (subst read_desc.simps) (simp add: file_read_def tot not_le)
    moreover have "nat r + n \<le> unat left" "unat off + (nat r + n) \<le> length c"
      using I(4,5) nr R'(1) by (cases "n = 0"; simp)+
    moreover have "unat off' = unat off + (nat r + n)" using I(6) by simp
    moreover have "list_all (store_in ds) (?e # es)" using I(3) calculation(1) by simp
    ultimately show ?thesis by blast
  qed
qed

lemma read_descs_ok:
  assumes rd: "reads_file v f c" and c: "length c < 2 ^ 64" and "set ds \<subseteq> set all"
  shows "\<exists>n es. read_descs v f ds read_len off tot ev = Some (tot + of_nat n, ev @ es) \<and>
    stored es = take n (drop (unat off) c) \<and> list_all (store_in all) es \<and>
    n \<le> sum_list (map (\<lambda>d. unat (bd_size d)) ds) \<and> (0 < n \<longrightarrow> unat off + n \<le> length c)"
  using assms(3)
proof (induction ds arbitrary: off tot ev)
  case (Cons d ds)
  obtain ret off' n es where D: "read_desc v f (bd_phys_addr d) 0 (bd_size d) off tot 0 ev =
      Some (ret, off', tot + of_nat n, ev @ es)" "stored es = take n (drop (unat off) c)"
    "list_all (store_in all) es" "n \<le> unat (bd_size d)" "0 < n \<longrightarrow> unat off + n \<le> length c"
    "unat off' = unat off + n"
    using read_desc_ok [OF rd c, of d all 0 "bd_size d" off tot 0 ev] Cons.prems by auto
  obtain n' es' where I: "read_descs v f ds read_len off' (tot + of_nat n) (ev @ es) =
      Some (tot + of_nat n + of_nat n', (ev @ es) @ es')" "stored es' = take n' (drop (unat off') c)"
    "list_all (store_in all) es'" "n' \<le> sum_list (map (\<lambda>d. unat (bd_size d)) ds)"
    "0 < n' \<longrightarrow> unat off' + n' \<le> length c"
    using Cons.IH [of off' "tot + of_nat n" "ev @ es"] Cons.prems by auto
  have "stored (es @ es') = take (n + n') (drop (unat off) c)"
    using D(2,6) I(2) by (simp add: stored_append take_add add.commute [of "unat off"])
  moreover have "0 < n + n' \<longrightarrow> unat off + (n + n') \<le> length c" using D(5,6) I(5) by (cases "n' = 0") auto
  ultimately have full: "\<exists>m es''. Some (tot + of_nat n + of_nat n', (ev @ es) @ es') =
      Some (tot + of_nat m, ev @ es'') \<and> stored es'' = take m (drop (unat off) c) \<and>
      list_all (store_in all) es'' \<and> m \<le> sum_list (map (\<lambda>d. unat (bd_size d)) (d # ds)) \<and>
      (0 < m \<longrightarrow> unat off + m \<le> length c)"
    using D(3,4) I(3,4) by (intro exI [of _ "n + n'"] exI [of _ "es @ es'"]) auto
  show ?case
  proof (cases "tot \<ge> read_len")
    case True
    then show ?thesis by (auto intro!: exI [of _ 0] exI [of _ "[]"])
  next
    case False
    then show ?thesis using D I(1) full
      by (cases "ret = 0") (auto intro!: exI [of _ n] exI [of _ es])
  qed
qed (auto intro!: exI [of _ 0] exI [of _ "[]"])


section \<open>The table of open files\<close>

text \<open>
  The state in step: the table holds exactly the files of the list, each under its own
  address, the list has no duplicates and no null pointer, and the count is its length.
\<close>

definition fs_inv :: "enclave_fs \<Rightarrow> bool" where
  "fs_inv fs \<longleftrightarrow> ht_inv (fs_open_file_table fs) \<and> distinct (fs_open_file_list fs) \<and>
     0 \<notin> set (fs_open_file_list fs) \<and>
     ht_map (fs_open_file_table fs) = (\<lambda>p. if p \<in> set (fs_open_file_list fs) then Some p else None) \<and>
     unat (fs_num_files fs) = length (fs_open_file_list fs)"

lemma fs_search:
  "fs_inv fs \<Longrightarrow> htable_search (fs_open_file_table fs) p =
     (if p \<in> set (fs_open_file_list fs) then p else 0)"
  by (simp add: fs_inv_def htable_search_map)

lemma fs_search_zero:
  "fs_inv fs \<Longrightarrow> htable_search (fs_open_file_table fs) p = 0 \<longleftrightarrow> p \<notin> set (fs_open_file_list fs)"
  using fs_search by (auto simp: fs_inv_def)

lemma empty_count:
  assumes "ht_inv h" and "ht_map h = Map.empty"
  shows "unat (ht_entry_count h) = 0"
proof -
  have "entries h = []" using ht_map_None [of h] assms(2) by (cases "entries h") auto
  then show ?thesis using ht_invD(3) [OF assms(1)] by simp
qed

lemma init_fs_ok:
  assumes "fs_num_files fs = 0"
  shows "\<exists>fs'. init_enclave_fs fs True True = Some (0, fs') \<and> fs_inv fs' \<and> fs_open_file_list fs' = []"
proof -
  obtain h where "create_htable 0 file_hash_fn file_eq_fn True True = Some (Some h)" "ht_inv h"
    "ht_map h = Map.empty"
    using create_ok [of 0 file_eq_fn file_hash_fn] by (auto simp: file_eq_fn_def)
  then show ?thesis using assms by (auto simp: init_enclave_fs_def fs_inv_def)
qed

text \<open>
  An open for which the VFS gives a fresh file, with memory for the bookkeeping, adds
  that file to the table, the list and the count, answers with its address, and keeps the
  three in step; every handle opened before stays valid.
\<close>

theorem vfs_open_registers:
  assumes inv: "fs_inv fs" and p: "filp_open v path (mode OR O_LARGEFILE) = p" "\<not> IS_ERR p" "p \<noteq> 0"
    "p \<notin> set (fs_open_file_list fs)" and al: "al_new al \<or> \<not> al_realloc al" "al_entry al" "al_node al"
    and room: "length (fs_open_file_list fs) + 1 < 2 ^ 32"
  shows "\<exists>fs'. enclave_vfs_open_lcall v al fs path mode = Some (fs', [Respond p]) \<and> fs_inv fs' \<and>
    fs_open_file_list fs' = fs_open_file_list fs @ [p]"
proof -
  let ?t = "fs_open_file_table fs"
  have ht: "ht_inv ?t" "ht_map ?t p = None" using inv p(4) by (auto simp: fs_inv_def)
  have n: "unat (ht_entry_count ?t) = length (fs_open_file_list fs)"
  proof -
    have "dom (ht_map ?t) = set (fs_open_file_list fs)" using inv by (auto simp: fs_inv_def dom_def)
    then have "card (he_key ` set (entries ?t)) = card (set (fs_open_file_list fs))"
      using ht_map_None [of ?t] by (auto simp: dom_def intro!: arg_cong [of _ _ card])
    moreover have "card (he_key ` set (entries ?t)) = length (entries ?t)"
      using ht_invD(4) [OF ht(1)] distinct_card [of "map he_key (entries ?t)"] by simp
    ultimately show ?thesis using inv ht_invD(3) [OF ht(1)] by (simp add: fs_inv_def distinct_card)
  qed
  obtain t' where t': "htable_insert ?t p p (al_new al) (al_realloc al) True = Some (-1, t')"
    "ht_inv t'" "ht_map t' = (ht_map ?t)(p \<mapsto> p)"
    using htable_insert_ok [OF ht(1) _ al(1) ht(2), of p] n room by auto
  let ?fs = "fs\<lparr>fs_open_file_table := t', fs_open_file_list := fs_open_file_list fs @ [p],
    fs_num_files := fs_num_files fs + 1\<rparr>"
  have "unat (fs_num_files fs + 1) = length (fs_open_file_list fs) + 1"
    using inv room by (subst unat_add_small) (auto simp: fs_inv_def)
  then have "fs_inv ?fs" using inv p(3,4) t' by (auto simp: fs_inv_def fun_eq_iff)
  moreover have "enclave_vfs_open_lcall v al fs path mode = Some (?fs, [Respond p])"
    using p al t' fs_search_zero [OF inv, of p]
    by (simp add: enclave_vfs_open_lcall_def file_open_def Let_def)
  ultimately show ?thesis by auto
qed

definition demo_fs :: enclave_fs where
  "demo_fs = snd (the (init_enclave_fs \<lparr>fs_num_files = 0, fs_open_file_table = undefined,
     fs_open_file_list = []\<rparr> True True))"

definition demo_alloc :: fs_alloc where
  "demo_alloc = \<lparr>al_new = True, al_realloc = False, al_entry = True, al_node = True\<rparr>"

lemma demo_fs_inv: "fs_inv demo_fs" "fs_open_file_list demo_fs = []"
  using init_fs_ok [of "\<lparr>fs_num_files = 0, fs_open_file_table = undefined, fs_open_file_list = []\<rparr>"]
  by (auto simp: demo_fs_def)

theorem vfs_open_registers_witness:
  "\<exists>fs'. enclave_vfs_open_lcall demo_vfs demo_alloc demo_fs ''f'' 0 = Some (fs', [Respond 4096]) \<and>
     fs_inv fs' \<and> fs_open_file_list fs' = [4096]"
proof -
  have "filp_open demo_vfs ''f'' (0 OR O_LARGEFILE) = 4096" "\<not> IS_ERR 4096"
    by (simp_all add: demo_vfs_def IS_ERR_def word_le_nat_alt)
  with vfs_open_registers [OF demo_fs_inv(1), of demo_vfs "''f''" 0 4096 demo_alloc] demo_fs_inv(2)
  show ?thesis by (auto simp: demo_alloc_def)
qed

lemma demo_open:
  obtains fs where "fs_inv fs" "fs_open_file_list fs = [4096]"
proof -
  have p: "filp_open demo_vfs ''f'' (0 OR O_LARGEFILE) = 4096" "\<not> IS_ERR 4096"
    by (simp_all add: demo_vfs_def IS_ERR_def word_le_nat_alt)
  have ht: "ht_inv (fs_open_file_table demo_fs)" "ht_map (fs_open_file_table demo_fs) = Map.empty"
    using demo_fs_inv by (auto simp: fs_inv_def)
  then have "unat (ht_entry_count (fs_open_file_table demo_fs)) = 0" by (simp add: empty_count)
  then obtain t' where "ht_inv t'" "ht_map t' = [4096 \<mapsto> 4096]"
    using htable_insert_ok [OF ht(1), of True False 4096 4096] ht(2) by auto
  then have "fs_inv \<lparr>fs_num_files = 1, fs_open_file_table = t', fs_open_file_list = [4096]\<rparr>"
    by (auto simp: fs_inv_def fun_eq_iff)
  then show ?thesis using that by auto
qed


text \<open>
  A close of an open handle closes that file once, takes it out of the table, the list and
  the count, and keeps the three in step.
\<close>

theorem vfs_close_unregisters:
  assumes inv: "fs_inv fs" and p: "p \<in> set (fs_open_file_list fs)"
    and c: "enclave_vfs_close_lcall fs p = (fs', ev)"
  shows "ev = [FilpClose p, Respond 0] \<and> fs_inv fs' \<and>
    fs_open_file_list fs' = remove1 p (fs_open_file_list fs)"
proof -
  obtain v fr t where r: "htable_remove (fs_open_file_table fs) p False = (v, fr, t)" by (metis prod_cases3)
  have ht: "ht_inv (fs_open_file_table fs)" using inv by (simp add: fs_inv_def)
  note R = htable_remove_ok [OF ht r]
  have e: "ev = [FilpClose p, Respond 0]" "fs' = fs\<lparr>fs_open_file_table := t,
      fs_open_file_list := remove1 p (fs_open_file_list fs), fs_num_files := fs_num_files fs - 1\<rparr>"
    using c r p fs_search_zero [OF inv, of p]
    by (auto simp: enclave_vfs_close_lcall_def list_del_first_eq_remove1)
  have "0 < length (fs_open_file_list fs)" using p by (cases "fs_open_file_list fs") auto
  then have "unat (fs_num_files fs - 1) = length (fs_open_file_list fs) - 1"
    using inv by (subst unat_diff_le) (auto simp: fs_inv_def Suc_le_eq)
  then have "fs_inv fs'"
    using inv R p e(2) by (auto simp: fs_inv_def length_remove1 fun_eq_iff set_remove1_eq)
  with e show ?thesis by simp
qed

theorem vfs_close_unregisters_witness:
  "\<exists>fs fs'. fs_inv fs \<and> enclave_vfs_close_lcall fs 4096 = (fs', [FilpClose 4096, Respond 0]) \<and>
     fs_open_file_list fs' = []"
proof -
  obtain fs where fs: "fs_inv fs" "fs_open_file_list fs = [4096]" by (rule demo_open)
  obtain fs' ev where c: "enclave_vfs_close_lcall fs 4096 = (fs', ev)" by fastforce
  with vfs_close_unregisters [OF fs(1) _ c] fs show ?thesis by auto
qed

text \<open>
  A handle that is not among the open files reaches no file: close, size, read and write
  answer \<open>-1\<close>, touch neither memory nor any file, and leave the state alone.
\<close>

theorem vfs_unknown_handle:
  assumes "fs_inv fs" and "p \<notin> set (fs_open_file_list fs)"
  shows "enclave_vfs_close_lcall fs p = (fs, [Respond (-1)]) \<and>
    enclave_vfs_size_lcall v fs p = [Respond (-1)] \<and>
    enclave_vfs_read_lcall v fs (l\<lparr>rw_file_handle := p\<rparr>) = Some [Respond (-1)] \<and>
    enclave_vfs_write_lcall v mem fs (l\<lparr>rw_file_handle := p\<rparr>) = Some ([], [Respond (-1)])"
  using fs_search_zero [OF assms(1), of p] assms(2)
  by (simp add: enclave_vfs_close_lcall_def enclave_vfs_size_lcall_def enclave_vfs_read_lcall_def
      enclave_vfs_write_lcall_def)

theorem vfs_unknown_handle_witness:
  "enclave_vfs_close_lcall demo_fs 77 = (demo_fs, [Respond (-1)]) \<and>
   enclave_vfs_size_lcall demo_vfs demo_fs 77 = [Respond (-1)]"
  using vfs_unknown_handle [OF demo_fs_inv(1), of 77] demo_fs_inv(2) by simp

text \<open>
  An open that the VFS refuses is recorded as an open file all the same: \<open>file_open\<close> turns
  the error pointer into a null pointer, which the error test of the caller does not
  recognise. The answer to the enclave is 0, but the null pointer enters the list and the
  count, and the teardown passes it to \<open>filp_close\<close>.
\<close>

theorem vfs_failed_open_is_recorded:
  assumes inv: "fs_inv fs" and e: "IS_ERR (filp_open v path (mode OR O_LARGEFILE))"
    and al: "al_new al" "al_entry al" "al_node al"
    and fs': "enclave_vfs_open_lcall v al fs path mode = Some (fs', ev)"
  shows "ev = [Respond 0] \<and> fs_num_files fs' = fs_num_files fs + 1 \<and>
    FilpClose 0 \<in> set (fst (deinit_enclave_fs fs'))"
proof -
  have z: "file_open v path mode = 0" "\<not> IS_ERR 0"
    using e by (auto simp: file_open_def IS_ERR_def word_le_nat_alt)
  have "htable_search (fs_open_file_table fs) 0 = 0"
    using fs_search [OF inv, of 0] by simp
  then obtain t where "fs' = fs\<lparr>fs_open_file_table := t, fs_open_file_list := fs_open_file_list fs @ [0],
      fs_num_files := fs_num_files fs + 1\<rparr>" "ev = [Respond 0]"
    using fs' z al by (auto simp: enclave_vfs_open_lcall_def Let_def split: bind_splits)
  then show ?thesis by (simp add: deinit_enclave_fs_def)
qed

theorem vfs_failed_open_is_recorded_witness:
  "\<exists>fs'. enclave_vfs_open_lcall demo_vfs demo_alloc demo_fs ''x'' 0 = Some (fs', [Respond 0]) \<and>
     FilpClose 0 \<in> set (fst (deinit_enclave_fs fs'))"
proof -
  have e: "IS_ERR (filp_open demo_vfs ''x'' (0 OR O_LARGEFILE))"
    by (simp add: demo_vfs_def IS_ERR_def word_le_nat_alt)
  have ht: "ht_inv (fs_open_file_table demo_fs)" "ht_map (fs_open_file_table demo_fs) = Map.empty"
    using demo_fs_inv by (auto simp: fs_inv_def)
  have "unat (ht_entry_count (fs_open_file_table demo_fs)) = 0" using ht by (simp add: empty_count)
  then obtain t' where "htable_insert (fs_open_file_table demo_fs) 0 0 True False True = Some (-1, t')"
    using htable_insert_ok [OF ht(1), of True False 0 0] ht(2) by auto
  then obtain fs' where fs': "enclave_vfs_open_lcall demo_vfs demo_alloc demo_fs ''x'' 0 = Some (fs', [Respond 0])"
    using e fs_search [OF demo_fs_inv(1), of 0]
    by (auto simp: enclave_vfs_open_lcall_def file_open_def demo_alloc_def IS_ERR_def word_le_nat_alt)
  with vfs_failed_open_is_recorded [OF demo_fs_inv(1) e, of demo_alloc fs' "[Respond 0]"] show ?thesis
    by (auto simp: demo_alloc_def)
qed

end
