(* ===== verification/Pci.thy ===== *)
theory Pci
  imports Prelude
begin

text \<open>
  Host PCI devices assigned to an enclave (\<open>enclave_pci.c\<close>): the device list of an enclave with
  its counter, acquiring and giving back the hardware, and the long calls an enclave makes on a
  device (attach, detach, IOMMU mappings, interrupt commands). A device structure is identified
  by its address. What the kernel answers enters as an environment; what the module asks of it
  is a trace of actions, each tagged with the address of the device structure.

  Shown: device names stay distinct; every hardware resource a failed registration took is given
  back; an attached device is neither attached again nor removed; the teardown loop ends exactly
  when no device is attached or lost by a reset; the IOMMU loops tile the requested region with
  pages exactly once when its size is a positive multiple of 4 KB.
\<close>

section \<open>Data\<close>

text \<open>
  The fields of the kernel's \<open>struct pci_dev\<close> the module uses. A \<open>char[128]\<close> is the string up to
  its first zero byte.
\<close>

record pci_dev =
  kd_hdr_type :: u8
  kd_irq :: u32
  kd_dev_flags :: u16

abbreviation PCI_HEADER_TYPE_NORMAL :: u8 where "PCI_HEADER_TYPE_NORMAL \<equiv> 0"
abbreviation PCI_DEV_FLAGS_ASSIGNED :: u16 where "PCI_DEV_FLAGS_ASSIGNED \<equiv> 4"

record pisces_pci_dev =
  pd_addr :: nat
  pd_name :: string
  pd_domain :: u32
  pd_bus :: u32
  pd_devfn :: u32
  pd_enclave :: "nat option"
  pd_ready :: u8
  pd_assigned :: u8
  pd_iommu_enabled :: u8
  pd_iommu_domain :: bool
  pd_device_ipi_vector :: u32
  pd_intx_disabled :: u8
  pd_dev :: "pci_dev option"

record enclave_pci_state =
  pci_dev_list :: "pisces_pci_dev list"
  pci_dev_cnt :: u32

record pisces_pci_spec =
  sp_name :: string
  sp_bus :: u32
  sp_dev :: u32
  sp_func :: u32

text \<open>The answers of the kernel, and what the module asks of it.\<close>

record pci_env =
  pe_lookup :: "u32 \<Rightarrow> u32 \<Rightarrow> pci_dev option"
  pe_iommu_present :: bool
  pe_enable :: int
  pe_request_regions :: int
  pe_domain_alloc :: bool

datatype pci_action =
    PciGet bool | PciDevPut | EnableDevice bool | DisableDevice | RequestRegions bool | ReleaseRegions
  | ResetFunction | RestoreState | DomainAlloc bool | DomainFree | KfreeDev
  | AttachDevice int | DetachDevice | RequestIrq int | FreeIrq | EnableIrq | DisableIrq
  | DisableIrqNosync | SendIpi nat u32

type_synonym pci_trace = "(nat \<times> pci_action) list"

definition on_dev :: "nat \<Rightarrow> pci_action list \<Rightarrow> pci_trace" where
  "on_dev a = map (Pair a)"

definition PCI_DEVFN :: "u32 \<Rightarrow> u32 \<Rightarrow> u32" where
  "PCI_DEVFN slot func = push_bit 3 (slot AND 0x1f) OR (func AND 0x07)"

definition PCI_SLOT :: "u32 \<Rightarrow> u32" where
  "PCI_SLOT devfn = drop_bit 3 devfn AND 0x1f"

definition PCI_FUNC :: "u32 \<Rightarrow> u32" where
  "PCI_FUNC devfn = devfn AND 0x07"

section \<open>The device list\<close>

definition find_dev_by_name :: "enclave_pci_state \<Rightarrow> string \<Rightarrow> pisces_pci_dev option" where
  "find_dev_by_name st name = find (\<lambda>d. take 128 (pd_name d) = take 128 name) (pci_dev_list st)"

text \<open>A store through a device pointer, and \<open>list_del\<close> of its node.\<close>

definition dev_update :: "nat \<Rightarrow> (pisces_pci_dev \<Rightarrow> pisces_pci_dev) \<Rightarrow> enclave_pci_state \<Rightarrow> enclave_pci_state" where
  "dev_update a f st =
     st\<lparr>pci_dev_list := map (\<lambda>d. if pd_addr d = a then f d else d) (pci_dev_list st)\<rparr>"

definition dev_del :: "nat \<Rightarrow> enclave_pci_state \<Rightarrow> enclave_pci_state" where
  "dev_del a st = st\<lparr>pci_dev_list := list_del_first (\<lambda>d. pd_addr d = a) (pci_dev_list st)\<rparr>"

section \<open>The hardware\<close>

definition deinit_pci_dev :: "pisces_pci_dev \<Rightarrow> pci_action list \<times> pisces_pci_dev" where
  "deinit_pci_dev d =
     ([DomainFree, ReleaseRegions, ResetFunction, RestoreState, DisableDevice], d\<lparr>pd_ready := 0\<rparr>)"

definition init_pci_dev :: "pci_env \<Rightarrow> pisces_pci_dev \<Rightarrow> int \<times> pci_action list \<times> pisces_pci_dev" where
  "init_pci_dev env d =
     (if pe_enable env \<noteq> 0 then (- EBUSY, [EnableDevice False], d)
      else if pe_request_regions env \<noteq> 0
      then (pe_request_regions env, [EnableDevice True, RequestRegions False, DisableDevice], d)
      else if \<not> pe_domain_alloc env
      then (- ENOMEM, [EnableDevice True, RequestRegions True, ResetFunction, DomainAlloc False,
              ReleaseRegions, DisableDevice], d\<lparr>pd_iommu_domain := False\<rparr>)
      else (0, [EnableDevice True, RequestRegions True, ResetFunction, DomainAlloc True],
            d\<lparr>pd_iommu_domain := True, pd_iommu_enabled := 1, pd_ready := 1\<rparr>))"

section \<open>Adding and removing a device\<close>

definition zero_dev :: "nat \<Rightarrow> pisces_pci_dev" where
  "zero_dev a = \<lparr>pd_addr = a, pd_name = [], pd_domain = 0, pd_bus = 0, pd_devfn = 0, pd_enclave = None,
     pd_ready = 0, pd_assigned = 0, pd_iommu_enabled = 0, pd_iommu_domain = False,
     pd_device_ipi_vector = 0, pd_intx_disabled = 0, pd_dev = None\<rparr>"

text \<open>
  \<open>a\<close> is the address \<open>kmalloc\<close> gives, \<open>enc\<close> the enclave. A failure after the device has entered the
  list takes it out again and frees it, and leaves the counter.
\<close>

definition enclave_pci_add_dev ::
    "pci_env \<Rightarrow> nat \<Rightarrow> nat \<Rightarrow> pisces_pci_spec \<Rightarrow> enclave_pci_state \<Rightarrow>
     int \<times> pci_trace \<times> enclave_pci_state" where
  "enclave_pci_add_dev env a enc spec st =
     (case find_dev_by_name st (sp_name spec) of
        Some _ \<Rightarrow> (-1, on_dev a [KfreeDev], st)
      | None \<Rightarrow>
        let st1 = st\<lparr>pci_dev_list := zero_dev a # pci_dev_list st, pci_dev_cnt := pci_dev_cnt st + 1\<rparr>;
            devfn = PCI_DEVFN (sp_dev spec) (sp_func spec);
            fill = (\<lambda>d. d\<lparr>pd_name := take 128 (sp_name spec), pd_domain := 0, pd_bus := sp_bus spec,
                        pd_devfn := devfn, pd_device_ipi_vector := 0, pd_intx_disabled := 1,
                        pd_assigned := 0, pd_enclave := Some enc\<rparr>);
            st2 = dev_update a fill st1
        in case pe_lookup env (sp_bus spec) devfn of
             None \<Rightarrow> (- EINVAL, on_dev a [PciGet False, KfreeDev], dev_del a st2)
           | Some dev \<Rightarrow>
             if kd_hdr_type dev \<noteq> PCI_HEADER_TYPE_NORMAL
             then (- EPERM, on_dev a [PciGet True, PciDevPut, KfreeDev], dev_del a st2)
             else if \<not> pe_iommu_present env
             then (- ENODEV, on_dev a [PciGet True, PciDevPut, KfreeDev], dev_del a st2)
             else let d = (fill (zero_dev a))\<lparr>pd_dev := Some dev\<rparr>;
                      (ret, acts, d') = init_pci_dev env d;
                      st3 = dev_update a (\<lambda>_. d') st2
                  in if ret \<noteq> 0
                     then (ret, on_dev a ([PciGet True] @ acts @ [PciDevPut, KfreeDev]), dev_del a st3)
                     else (0, on_dev a ([PciGet True] @ acts), st3))"

definition unregister_device :: "pisces_pci_dev option \<Rightarrow> enclave_pci_state \<Rightarrow> int \<times> enclave_pci_state" where
  "unregister_device pci_dev st =
     (case pci_dev of
        None \<Rightarrow> (-1, st)
      | Some d \<Rightarrow>
        if pd_assigned d = 0 \<and> pd_ready d = 1
        then (0, (dev_del (pd_addr d) st)\<lparr>pci_dev_cnt := pci_dev_cnt st - 1\<rparr>)
        else (-1, st))"

definition enclave_pci_remove_dev ::
    "string \<Rightarrow> enclave_pci_state \<Rightarrow> int \<times> pci_trace \<times> enclave_pci_state" where
  "enclave_pci_remove_dev name st =
     (let pci_dev = find_dev_by_name st name;
          (r, st1) = unregister_device pci_dev st
      in case pci_dev of
           None \<Rightarrow> (-1, [], st1)
         | Some d \<Rightarrow>
           if r = -1 then (-1, [], st1)
           else (0, on_dev (pd_addr d) (fst (deinit_pci_dev d) @ [KfreeDev]),
                 st1\<lparr>pci_dev_cnt := pci_dev_cnt st1 - 1\<rparr>))"

definition init_enclave_pci :: "enclave_pci_state \<Rightarrow> int \<times> enclave_pci_state" where
  "init_enclave_pci st = (0, st\<lparr>pci_dev_list := [], pci_dev_cnt := 0\<rparr>)"

text \<open>
  The teardown loop takes the first device out of the list and frees it. When the device cannot
  be unregistered it is freed while it is still linked, and the next round reads it: the loop
  does not come back.
\<close>

fun deinit_loop :: "pisces_pci_dev list \<Rightarrow> u32 \<Rightarrow> (pci_trace \<times> enclave_pci_state) option" where
  "deinit_loop [] cnt = Some ([], \<lparr>pci_dev_list = [], pci_dev_cnt = cnt\<rparr>)"
| "deinit_loop (d # ds) cnt =
     (let (r, st1) = unregister_device (Some d) \<lparr>pci_dev_list = d # ds, pci_dev_cnt = cnt\<rparr> in
      if r = -1 then None
      else do {
        (tr, st2) \<leftarrow> deinit_loop ds (pci_dev_cnt st1 - 1);
        Some (on_dev (pd_addr d) (fst (deinit_pci_dev d) @ [KfreeDev]) @ tr, st2)
      })"

definition deinit_enclave_pci :: "enclave_pci_state \<Rightarrow> (int \<times> pci_trace \<times> enclave_pci_state) option" where
  "deinit_enclave_pci st =
     map_option (Pair 0) (deinit_loop (pci_dev_list st) (pci_dev_cnt st))"

text \<open>\<open>env d\<close> holds the answers of the kernel for the device structure \<open>d\<close>.\<close>

fun reset_loop :: "(nat \<Rightarrow> pci_env) \<Rightarrow> pisces_pci_dev list \<Rightarrow> pci_trace \<times> pisces_pci_dev list" where
  "reset_loop env [] = ([], [])"
| "reset_loop env (d # ds) =
     (let (a1, d1) = deinit_pci_dev d;
          (r, a2, d2) = init_pci_dev (env (pd_addr d)) d1;
          (tr, ds') = reset_loop env ds
      in (on_dev (pd_addr d) (a1 @ a2) @ tr, d2 # ds'))"

definition reset_enclave_pci :: "(nat \<Rightarrow> pci_env) \<Rightarrow> enclave_pci_state \<Rightarrow> int \<times> pci_trace \<times> enclave_pci_state" where
  "reset_enclave_pci env st =
     (let (tr, ds) = reset_loop env (pci_dev_list st) in (0, tr, st\<lparr>pci_dev_list := ds\<rparr>))"

section \<open>Interrupts\<close>

datatype irqreturn = IRQ_NONE | IRQ_HANDLED

definition host_pci_intx_irq_handler :: "pisces_pci_dev \<Rightarrow> irqreturn \<times> pci_trace" where
  "host_pci_intx_irq_handler d =
     (case pd_enclave d of
        None \<Rightarrow> (IRQ_NONE, [])
      | Some enc \<Rightarrow>
        if pd_device_ipi_vector d = 0 then (IRQ_NONE, [])
        else (IRQ_HANDLED, on_dev (pd_addr d) [DisableIrqNosync, SendIpi enc (pd_device_ipi_vector d)]))"

section \<open>Long calls on a device\<close>

text \<open>
  A long call returns its value, the status it answers the enclave with (\<open>None\<close> when it does not
  answer), its trace and the new state. Devices that are in the list carry a kernel device; a
  null one would be dereferenced, which is the outer \<open>None\<close>.
\<close>

type_synonym pci_result = "(int \<times> int option \<times> pci_trace \<times> enclave_pci_state) option"

definition pci_answer :: "int \<Rightarrow> enclave_pci_state \<Rightarrow> pci_result" where
  "pci_answer status st = Some (0, Some status, [], st)"

definition enclave_pci_attach :: "string \<Rightarrow> u32 \<Rightarrow> int \<Rightarrow> int \<Rightarrow> enclave_pci_state \<Rightarrow> pci_result" where
  "enclave_pci_attach name ipi_vector attach_ret irq_ret st =
     (case find_dev_by_name st name of
        None \<Rightarrow> pci_answer (-1) st
      | Some d \<Rightarrow>
        if pd_assigned d = 0 \<and> pd_ready d = 1
        then let a = pd_addr d; st1 = dev_update a (\<lambda>d. d\<lparr>pd_assigned := 1\<rparr>) st in
          case pd_dev d of
            None \<Rightarrow> None
          | Some k \<Rightarrow>
            if attach_ret \<noteq> 0 then Some (attach_ret, None, on_dev a [AttachDevice attach_ret], st1)
            else Some (0, Some 0, on_dev a [AttachDevice 0, RequestIrq irq_ret],
                   dev_update a (\<lambda>d. d\<lparr>pd_dev := Some (k\<lparr>kd_dev_flags := kd_dev_flags k OR PCI_DEV_FLAGS_ASSIGNED\<rparr>),
                                      pd_device_ipi_vector := ipi_vector, pd_intx_disabled := 0\<rparr>) st1)
        else pci_answer (-1) st)"

definition enclave_pci_detach :: "string \<Rightarrow> enclave_pci_state \<Rightarrow> pci_result" where
  "enclave_pci_detach name st =
     (case find_dev_by_name st name of
        None \<Rightarrow> pci_answer (-1) st
      | Some d \<Rightarrow>
        if pd_assigned d = 0 then pci_answer (-1) st
        else case pd_dev d of
            None \<Rightarrow> None
          | Some k \<Rightarrow> Some (0, Some 0, on_dev (pd_addr d) [DetachDevice],
              dev_update (pd_addr d)
                (\<lambda>d. d\<lparr>pd_dev := Some (k\<lparr>kd_dev_flags := kd_dev_flags k AND NOT PCI_DEV_FLAGS_ASSIGNED\<rparr>),
                      pd_device_ipi_vector := 0, pd_assigned := 0\<rparr>) st))"

definition enclave_pci_ack_irq :: "string \<Rightarrow> enclave_pci_state \<Rightarrow> pci_result" where
  "enclave_pci_ack_irq name st =
     (case find_dev_by_name st name of
        None \<Rightarrow> pci_answer (-1) st
      | Some d \<Rightarrow> (case pd_dev d of
            None \<Rightarrow> None
          | Some k \<Rightarrow> Some (0, Some 0, on_dev (pd_addr d) [EnableIrq], st)))"

abbreviation HOST_PCI_CMD_INTX_DISABLE :: u32 where "HOST_PCI_CMD_INTX_DISABLE \<equiv> 4"
abbreviation HOST_PCI_CMD_INTX_ENABLE :: u32 where "HOST_PCI_CMD_INTX_ENABLE \<equiv> 5"

definition enclave_pci_cmd :: "string \<Rightarrow> u32 \<Rightarrow> int \<Rightarrow> enclave_pci_state \<Rightarrow> pci_result" where
  "enclave_pci_cmd name cmd irq_ret st =
     (case find_dev_by_name st name of
        None \<Rightarrow> pci_answer (-1) st
      | Some d \<Rightarrow>
        if cmd = HOST_PCI_CMD_INTX_DISABLE then
          if pd_intx_disabled d = 1 then pci_answer 0 st
          else (case pd_dev d of
              None \<Rightarrow> None
            | Some k \<Rightarrow> Some (0, Some 0, on_dev (pd_addr d) [DisableIrq, FreeIrq],
                dev_update (pd_addr d) (\<lambda>d. d\<lparr>pd_intx_disabled := 1\<rparr>) st))
        else if cmd = HOST_PCI_CMD_INTX_ENABLE then
          if pd_intx_disabled d = 0 then pci_answer 0 st
          else (case pd_dev d of
              None \<Rightarrow> None
            | Some k \<Rightarrow> Some (0, Some 0, on_dev (pd_addr d) [RequestIrq irq_ret],
                dev_update (pd_addr d) (\<lambda>d. d\<lparr>pd_intx_disabled := 0\<rparr>) st))
        else pci_answer (-1) st)"

section \<open>IOMMU mappings\<close>

text \<open>
  The two loops over a region, 2 MB pages first and 4 KB pages once less than 2 MB is left. They
  end when the remaining size is exactly 0; a size that is not a multiple of 4 KB wraps around.
  \<open>iommu_map\<close> and \<open>iommu_unmap\<close> enter as the result they give for a call.
\<close>

partial_function (option) iommu_map_loop ::
    "(u64 \<Rightarrow> u64 \<Rightarrow> u32 \<Rightarrow> int) \<Rightarrow> u64 \<Rightarrow> u32 \<Rightarrow> u64 \<Rightarrow> u64 \<Rightarrow> (u64 \<times> u64 \<times> u32) list \<Rightarrow>
     (int \<times> (u64 \<times> u64 \<times> u32) list) option" where
  "iommu_map_loop iommu_map sz page_size0 gpa hpa calls =
     (let page_size = (if sz < ucast page_size0 then 4096 else page_size0);
          ret = iommu_map gpa hpa page_size;
          calls' = calls @ [(gpa, hpa, page_size)]
      in if ret \<noteq> 0 then Some (ret, calls')
         else let sz' = sz - ucast page_size in
           if sz' > 0 then iommu_map_loop iommu_map sz' page_size (gpa + ucast page_size) (hpa + ucast page_size) calls'
           else Some (ret, calls'))"

definition enclave_pci_iommu_map ::
    "(u64 \<Rightarrow> u64 \<Rightarrow> u32 \<Rightarrow> int) \<Rightarrow> string \<Rightarrow> u64 \<Rightarrow> u64 \<Rightarrow> u64 \<Rightarrow> enclave_pci_state \<Rightarrow>
     (int \<times> int \<times> (u64 \<times> u64 \<times> u32) list) option" where
  "enclave_pci_iommu_map iommu_map name region_start region_end gpa st =
     (case find_dev_by_name st name of
        None \<Rightarrow> Some (0, -1, [])
      | Some d \<Rightarrow>
        if pd_assigned d = 0 then Some (0, -1, [])
        else do {
          (ret, calls) \<leftarrow> iommu_map_loop iommu_map (region_end - region_start) (512 * 4096) gpa region_start [];
          Some (0, ret, calls)
        })"

partial_function (option) iommu_unmap_loop ::
    "(u64 \<Rightarrow> u32 \<Rightarrow> u64) \<Rightarrow> u64 \<Rightarrow> u32 \<Rightarrow> u64 \<Rightarrow> (u64 \<times> u32) list \<Rightarrow> (int \<times> (u64 \<times> u32) list) option" where
  "iommu_unmap_loop iommu_unmap sz page_size0 gpa calls =
     (let page_size = (if sz < ucast page_size0 then 4096 else page_size0);
          unmap_size = iommu_unmap gpa page_size;
          calls' = calls @ [(gpa, page_size)]
      in if unmap_size \<noteq> ucast page_size then Some (-1, calls')
         else let sz' = sz - ucast page_size in
           if sz' > 0 then iommu_unmap_loop iommu_unmap sz' page_size (gpa + ucast page_size) calls'
           else Some (0, calls'))"

definition enclave_pci_iommu_unmap ::
    "(u64 \<Rightarrow> u32 \<Rightarrow> u64) \<Rightarrow> string \<Rightarrow> u64 \<Rightarrow> u64 \<Rightarrow> u64 \<Rightarrow> enclave_pci_state \<Rightarrow>
     (int \<times> int \<times> (u64 \<times> u32) list) option" where
  "enclave_pci_iommu_unmap iommu_unmap name region_start region_end gpa st =
     (case find_dev_by_name st name of
        None \<Rightarrow> Some (0, -1, [])
      | Some d \<Rightarrow>
        if pd_assigned d = 0 then Some (0, -1, [])
        else do {
          (ret, calls) \<leftarrow> iommu_unmap_loop iommu_unmap (region_end - region_start) (512 * 4096) gpa [];
          Some (0, ret, calls)
        })"

section \<open>The device list through every operation\<close>

definition pci_ok :: "enclave_pci_state \<Rightarrow> bool" where
  "pci_ok st \<longleftrightarrow> distinct (map pd_addr (pci_dev_list st)) \<and>
     distinct (map (\<lambda>d. take 128 (pd_name d)) (pci_dev_list st)) \<and>
     (\<forall>d \<in> set (pci_dev_list st). pd_dev d \<noteq> None)"

lemma map_if_addr:
  assumes "\<And>d. pd_addr (f d) = pd_addr d" and "\<And>d. pd_name (f d) = pd_name d"
  shows "map pd_addr (map (\<lambda>d. if P d then f d else d) ds) = map pd_addr ds"
    and "map (\<lambda>d. take 128 (pd_name d)) (map (\<lambda>d. if P d then f d else d) ds) = map (\<lambda>d. take 128 (pd_name d)) ds"
  using assms by simp_all

lemma dev_update_ok:
  assumes "pci_ok st" and "\<And>d. pd_addr (f d) = pd_addr d" and "\<And>d. pd_name (f d) = pd_name d"
    and "\<And>d. pd_dev d \<noteq> None \<Longrightarrow> pd_dev (f d) \<noteq> None"
  shows "pci_ok (dev_update a f st)"
  unfolding pci_ok_def dev_update_def
  using assms map_if_addr [of f "\<lambda>d. pd_addr d = a" "pci_dev_list st"]
  by (auto simp: pci_ok_def simp del: map_map)

lemma distinct_list_del_first: "distinct (map f xs) \<Longrightarrow> distinct (map f (list_del_first P xs))"
proof (induction xs)
  case (Cons x xs)
  then show ?case using set_list_del_first [of P xs] by auto
qed simp

lemma dev_del_ok: "pci_ok st \<Longrightarrow> pci_ok (dev_del a st)"
  using set_list_del_first [of _ "pci_dev_list st"]
  by (auto simp: pci_ok_def dev_del_def distinct_list_del_first)

lemma pci_ok_cnt [simp]: "pci_ok (st\<lparr>pci_dev_cnt := n\<rparr>) = pci_ok st"
  by (simp add: pci_ok_def)

lemma find_dev_Some:
  "find_dev_by_name st name = Some d \<Longrightarrow> d \<in> set (pci_dev_list st) \<and> take 128 (pd_name d) = take 128 name"
  by (auto simp: find_dev_by_name_def find_Some_iff)

lemma find_dev_None:
  "find_dev_by_name st name = None \<longleftrightarrow> (\<forall>d \<in> set (pci_dev_list st). take 128 (pd_name d) \<noteq> take 128 name)"
  by (auto simp: find_dev_by_name_def find_None_iff)

lemma init_pci_dev_keeps:
  assumes "init_pci_dev env d = (r, acts, d')"
  shows "pd_addr d' = pd_addr d" "pd_name d' = pd_name d" "pd_dev d' = pd_dev d"
    "pd_assigned d' = pd_assigned d" "pd_bus d' = pd_bus d" "pd_devfn d' = pd_devfn d"
    "r = 0 \<longleftrightarrow> pe_enable env = 0 \<and> pe_request_regions env = 0 \<and> pe_domain_alloc env"
    "r = 0 \<Longrightarrow> pd_ready d' = 1"
  using assms by (auto simp: init_pci_dev_def split: if_splits)

text \<open>What a registration does, with the two ways through the device list folded away.\<close>

lemma dev_update_new:
  assumes "a \<notin> pd_addr ` set ds"
  shows "dev_update a f (st\<lparr>pci_dev_list := d # ds, pci_dev_cnt := n\<rparr>) =
    st\<lparr>pci_dev_list := (if pd_addr d = a then f d else d) # ds, pci_dev_cnt := n\<rparr>"
proof -
  have "map (\<lambda>d. if pd_addr d = a then f d else d) ds = ds" using assms by (intro map_idI) auto
  then show ?thesis by (simp add: dev_update_def)
qed

lemma dev_del_new:
  "pd_addr d = a \<Longrightarrow> dev_del a (st\<lparr>pci_dev_list := d # ds, pci_dev_cnt := n\<rparr>) =
    st\<lparr>pci_dev_list := ds, pci_dev_cnt := n\<rparr>"
  by (simp add: dev_del_def)

lemma add_dev_cases:
  assumes "a \<notin> pd_addr ` set (pci_dev_list st)"
    and "enclave_pci_add_dev env a enc spec st = (r, tr, st')"
  shows "if r \<noteq> 0
    then pci_dev_list st' = pci_dev_list st \<and>
      pci_dev_cnt st' = pci_dev_cnt st + (if find_dev_by_name st (sp_name spec) = None then 1 else 0)
    else find_dev_by_name st (sp_name spec) = None \<and> pci_dev_cnt st' = pci_dev_cnt st + 1 \<and>
      (\<exists>d. pci_dev_list st' = d # pci_dev_list st \<and> pd_addr d = a \<and> pd_name d = take 128 (sp_name spec) \<and>
         pd_ready d = 1 \<and> pd_assigned d = 0 \<and> pd_bus d = sp_bus spec \<and>
         pd_devfn d = PCI_DEVFN (sp_dev spec) (sp_func spec) \<and>
         pd_dev d = pe_lookup env (sp_bus spec) (PCI_DEVFN (sp_dev spec) (sp_func spec)) \<and> pd_dev d \<noteq> None)"
proof (cases "find_dev_by_name st (sp_name spec)")
  case None
  define devfn where "devfn = PCI_DEVFN (sp_dev spec) (sp_func spec)"
  define d0 where "d0 = (zero_dev a)\<lparr>pd_name := take 128 (sp_name spec), pd_domain := 0, pd_bus := sp_bus spec,
    pd_devfn := devfn, pd_device_ipi_vector := 0, pd_intx_disabled := 1, pd_assigned := 0, pd_enclave := Some enc\<rparr>"
  have a0: "pd_addr d0 = a" "pd_addr (zero_dev a) = a" by (simp_all add: d0_def zero_dev_def)
  note new = dev_update_new [OF assms(1)]
  show ?thesis
  proof (cases "pe_lookup env (sp_bus spec) devfn")
    case no_dev: None
    then show ?thesis using assms(2) None
      by (auto simp: enclave_pci_add_dev_def Let_def new a0 dev_del_def zero_dev_def devfn_def [symmetric])
  next
    case dev: (Some k)
    obtain r1 acts d1 where i: "init_pci_dev env (d0\<lparr>pd_dev := Some k\<rparr>) = (r1, acts, d1)"
      by (cases "init_pci_dev env (d0\<lparr>pd_dev := Some k\<rparr>)") auto
    note keep = init_pci_dev_keeps [OF i]
    have "enclave_pci_add_dev env a enc spec st =
      (if kd_hdr_type k \<noteq> PCI_HEADER_TYPE_NORMAL
       then (- EPERM, on_dev a [PciGet True, PciDevPut, KfreeDev], st\<lparr>pci_dev_cnt := pci_dev_cnt st + 1\<rparr>)
       else if \<not> pe_iommu_present env
       then (- ENODEV, on_dev a [PciGet True, PciDevPut, KfreeDev], st\<lparr>pci_dev_cnt := pci_dev_cnt st + 1\<rparr>)
       else if r1 \<noteq> 0
       then (r1, on_dev a ([PciGet True] @ acts @ [PciDevPut, KfreeDev]), st\<lparr>pci_dev_cnt := pci_dev_cnt st + 1\<rparr>)
       else (0, on_dev a ([PciGet True] @ acts), st\<lparr>pci_dev_list := d1 # pci_dev_list st, pci_dev_cnt := pci_dev_cnt st + 1\<rparr>))"
      using None dev i a0 keep(1)
      by (simp add: enclave_pci_add_dev_def Let_def devfn_def [symmetric] new d0_def [symmetric] dev_del_new)
    then show ?thesis using assms(2) None dev keep
      by (auto simp: d0_def devfn_def [symmetric] zero_dev_def split: if_splits)
  qed
qed (use assms(2) in \<open>auto simp: enclave_pci_add_dev_def\<close>)

definition demo_pci_env :: pci_env where
  "demo_pci_env = \<lparr>pe_lookup = (\<lambda>bus devfn. Some \<lparr>kd_hdr_type = 0, kd_irq = 11, kd_dev_flags = 0\<rparr>),
     pe_iommu_present = True, pe_enable = 0, pe_request_regions = 0, pe_domain_alloc = True\<rparr>"

definition demo_spec :: pisces_pci_spec where
  "demo_spec = \<lparr>sp_name = ''nic'', sp_bus = 3, sp_dev = 2, sp_func = 1\<rparr>"

text \<open>
  Registering a device. On every failure the device list is as before, and the counter has
  grown by one unless the name was already taken. On success the new device stands at the head of
  the list, ready and unassigned, with the name and the bus position of the request.
\<close>

theorem pci_add_dev_correct:
  assumes "a \<notin> pd_addr ` set (pci_dev_list st)"
    and "enclave_pci_add_dev env a enc spec st = (r, tr, st')"
  shows "if r \<noteq> 0
    then pci_dev_list st' = pci_dev_list st \<and>
      pci_dev_cnt st' = pci_dev_cnt st + (if find_dev_by_name st (sp_name spec) = None then 1 else 0)
    else find_dev_by_name st (sp_name spec) = None \<and> pci_dev_cnt st' = pci_dev_cnt st + 1 \<and>
      (\<exists>d. pci_dev_list st' = d # pci_dev_list st \<and> pd_addr d = a \<and> pd_name d = take 128 (sp_name spec) \<and>
         pd_ready d = 1 \<and> pd_assigned d = 0 \<and> pd_bus d = sp_bus spec \<and>
         pd_devfn d = PCI_DEVFN (sp_dev spec) (sp_func spec) \<and>
         pd_dev d = pe_lookup env (sp_bus spec) (PCI_DEVFN (sp_dev spec) (sp_func spec)) \<and> pd_dev d \<noteq> None)"
  using add_dev_cases [OF assms] .

theorem pci_add_dev_correct_witness:
  "fst (enclave_pci_add_dev demo_pci_env 5 100 demo_spec \<lparr>pci_dev_list = [], pci_dev_cnt = 0\<rparr>) = 0 \<and>
   (\<exists>d. pci_dev_list (snd (snd (enclave_pci_add_dev demo_pci_env 5 100 demo_spec \<lparr>pci_dev_list = [], pci_dev_cnt = 0\<rparr>))) = [d] \<and>
      pd_name d = ''nic'' \<and> pd_devfn d = 17)"
proof -
  let ?r = "enclave_pci_add_dev demo_pci_env 5 100 demo_spec \<lparr>pci_dev_list = [], pci_dev_cnt = 0\<rparr>"
  have r: "fst ?r = 0" by code_simp
  show ?thesis
    using pci_add_dev_correct [of 5 "\<lparr>pci_dev_list = [], pci_dev_cnt = 0\<rparr>" demo_pci_env 100 demo_spec
        "fst ?r" "fst (snd ?r)" "snd (snd ?r)"] r
    by (auto simp: demo_spec_def PCI_DEVFN_def)
qed

text \<open>The kernel resources a trace takes and gives back.\<close>

datatype hw = HwEnabled | HwRegions | HwDomain | HwRef

fun delta :: "hw \<Rightarrow> pci_action \<Rightarrow> int" where
  "delta HwEnabled (EnableDevice True) = 1"
| "delta HwEnabled DisableDevice = -1"
| "delta HwRegions (RequestRegions True) = 1"
| "delta HwRegions ReleaseRegions = -1"
| "delta HwDomain (DomainAlloc True) = 1"
| "delta HwDomain DomainFree = -1"
| "delta HwRef (PciGet True) = 1"
| "delta HwRef PciDevPut = -1"
| "delta _ _ = 0"

definition net :: "hw \<Rightarrow> pci_trace \<Rightarrow> int" where
  "net h tr = sum_list (map (\<lambda>(a, x). delta h x) tr)"

lemma net_simps [simp]:
  "net h [] = 0" "net h (on_dev a []) = 0" "net h (on_dev a (x # xs)) = delta h x + net h (on_dev a xs)"
  "net h (on_dev a (xs @ ys)) = net h (on_dev a xs) + net h (on_dev a ys)"
  "net h (tr @ tr') = net h tr + net h tr'"
  by (simp_all add: net_def on_dev_def)

lemma init_pci_dev_net:
  assumes "init_pci_dev env d = (r, acts, d')"
  shows "net h (on_dev a acts) = (if r = 0 \<and> h \<noteq> HwRef then 1 else 0)"
  using assms by (cases h) (auto simp: init_pci_dev_def split: if_splits)

lemma deinit_pci_dev_net: "net h (on_dev a (fst (deinit_pci_dev d))) = (if h = HwRef then 0 else -1)"
  by (cases h) (auto simp: deinit_pci_dev_def)

lemma add_dev_net:
  "case enclave_pci_add_dev env a enc spec st of (r, tr, st') \<Rightarrow> net h tr = (if r = 0 then 1 else 0)"
proof (cases "find_dev_by_name st (sp_name spec)")
  case None
  define devfn where "devfn = PCI_DEVFN (sp_dev spec) (sp_func spec)"
  show ?thesis
  proof (cases "pe_lookup env (sp_bus spec) devfn")
    case (Some k)
    define d0 where "d0 = (zero_dev a)\<lparr>pd_name := take 128 (sp_name spec), pd_domain := 0,
      pd_bus := sp_bus spec, pd_devfn := devfn, pd_device_ipi_vector := 0, pd_intx_disabled := 1,
      pd_assigned := 0, pd_enclave := Some enc, pd_dev := Some k\<rparr>"
    obtain r1 acts d1 where i: "init_pci_dev env d0 = (r1, acts, d1)" by (cases "init_pci_dev env d0") auto
    note n = init_pci_dev_net [OF i, of h a]
    show ?thesis using None Some i n
      by (cases h) (auto simp: enclave_pci_add_dev_def Let_def devfn_def [symmetric] d0_def)
  qed (use None in \<open>cases h; simp add: enclave_pci_add_dev_def Let_def devfn_def\<close>)
qed (cases h; simp add: enclave_pci_add_dev_def)

text \<open>
  Hardware a registration acquires. A registration that fails, at whatever point, has given
  back the reference to the kernel device, the enabled state, the memory regions and the IOMMU
  domain it had taken; one that succeeds holds each exactly once.
\<close>

theorem pci_add_dev_balanced:
  "case enclave_pci_add_dev env a enc spec st of (r, tr, st') \<Rightarrow> net h tr = (if r = 0 then 1 else 0)"
  by (rule add_dev_net)

lemma remove_dev_cases:
  assumes "pci_ok st"
  shows "case enclave_pci_remove_dev name st of (r, tr, st') \<Rightarrow>
    (case find_dev_by_name st name of
       None \<Rightarrow> r = -1 \<and> tr = [] \<and> st' = st
     | Some d \<Rightarrow>
       if pd_assigned d = 0 \<and> pd_ready d = 1
       then r = 0 \<and> pci_dev_list st' = filter (\<lambda>e. pd_addr e \<noteq> pd_addr d) (pci_dev_list st) \<and>
         length (pci_dev_list st') + 1 = length (pci_dev_list st) \<and> find_dev_by_name st' name = None \<and>
         pci_dev_cnt st' = pci_dev_cnt st - 2 \<and>
         (\<forall>h. net h tr = (if h = HwRef then 0 else -1))
       else r = -1 \<and> tr = [] \<and> st' = st)"
proof (cases "find_dev_by_name st name")
  case (Some d)
  let ?ds = "pci_dev_list st"
  have d: "d \<in> set ?ds" "take 128 (pd_name d) = take 128 name" using find_dev_Some [OF Some] by auto
  have f: "list_del_first (\<lambda>e. pd_addr e = pd_addr d) ?ds = filter (\<lambda>e. pd_addr e \<noteq> pd_addr d) ?ds"
    using assms by (intro list_del_first_filter) (simp add: pci_ok_def)
  have "list_ex (\<lambda>e. pd_addr e = pd_addr d) ?ds" using d(1) by (auto simp: list_ex_iff)
  then have l: "length (filter (\<lambda>e. pd_addr e \<noteq> pd_addr d) ?ds) + 1 = length ?ds"
    using length_list_del_first [of "\<lambda>e. pd_addr e = pd_addr d" ?ds] d(1) f by (cases ?ds) auto
  have inj: "inj_on (\<lambda>d. take 128 (pd_name d)) (set ?ds)" using assms by (simp add: pci_ok_def distinct_map)
  have u: "take 128 (pd_name e) \<noteq> take 128 name" if "e \<in> set ?ds" "pd_addr e \<noteq> pd_addr d" for e
    using inj_onD [OF inj, of e d] that d by auto
  show ?thesis
  proof (cases "pd_assigned d = 0 \<and> pd_ready d = 1")
    case True
    have "net h (on_dev (pd_addr d) (fst (deinit_pci_dev d) @ [KfreeDev])) = (if h = HwRef then 0 else -1)" for h
      by (cases h) (auto simp: deinit_pci_dev_net)
    then show ?thesis using True Some f l u
      by (auto simp: enclave_pci_remove_dev_def unregister_device_def dev_del_def Let_def find_dev_None)
  next
    case False
    then show ?thesis using Some by (auto simp: enclave_pci_remove_dev_def unregister_device_def)
  qed
qed (simp add: enclave_pci_remove_dev_def unregister_device_def)

text \<open>
  Removing a device. Only a device that is ready and not attached can be removed: otherwise
  nothing happens and the answer is -1. A removal takes exactly that device out of the list and
  gives back its enabled state, regions and IOMMU domain, but not the reference to the kernel
  device taken at registration, and it lowers the device counter by two.
\<close>

theorem pci_remove_dev_correct:
  assumes "pci_ok st"
  shows "case enclave_pci_remove_dev name st of (r, tr, st') \<Rightarrow>
    (case find_dev_by_name st name of
       None \<Rightarrow> r = -1 \<and> tr = [] \<and> st' = st
     | Some d \<Rightarrow>
       if pd_assigned d = 0 \<and> pd_ready d = 1
       then r = 0 \<and> pci_dev_list st' = filter (\<lambda>e. pd_addr e \<noteq> pd_addr d) (pci_dev_list st) \<and>
         length (pci_dev_list st') + 1 = length (pci_dev_list st) \<and> find_dev_by_name st' name = None \<and>
         pci_dev_cnt st' = pci_dev_cnt st - 2 \<and>
         (\<forall>h. net h tr = (if h = HwRef then 0 else -1))
       else r = -1 \<and> tr = [] \<and> st' = st)"
  by (rule remove_dev_cases [OF assms])

text \<open>
  Tearing the devices down. The teardown of an enclave's devices comes back exactly when
  every device is ready and none is attached. It then leaves an empty list, has given back every
  enabled state, region and IOMMU domain, and has freed every device structure once, in list
  order. With an attached device, or one whose reinitialisation failed during a reset, the loop
  reads a structure it has freed.
\<close>

theorem pci_deinit_correct:
  "case deinit_enclave_pci st of
     None \<Rightarrow> \<exists>d \<in> set (pci_dev_list st). pd_assigned d \<noteq> 0 \<or> pd_ready d \<noteq> 1
   | Some (r, tr, st') \<Rightarrow> r = 0 \<and> (\<forall>d \<in> set (pci_dev_list st). pd_assigned d = 0 \<and> pd_ready d = 1) \<and>
       pci_dev_list st' = [] \<and> pci_dev_cnt st' = pci_dev_cnt st - 2 * of_nat (length (pci_dev_list st)) \<and>
       map fst (filter (\<lambda>(a, x). x = KfreeDev) tr) = map pd_addr (pci_dev_list st) \<and>
       (\<forall>h. net h tr = (if h = HwRef then 0 else - int (length (pci_dev_list st))))"
proof -
  have "case deinit_loop ds cnt of
      None \<Rightarrow> \<exists>d \<in> set ds. pd_assigned d \<noteq> 0 \<or> pd_ready d \<noteq> 1
    | Some (tr, st') \<Rightarrow> (\<forall>d \<in> set ds. pd_assigned d = 0 \<and> pd_ready d = 1) \<and>
       pci_dev_list st' = [] \<and> pci_dev_cnt st' = cnt - 2 * of_nat (length ds) \<and>
       map fst (filter (\<lambda>(a, x). x = KfreeDev) tr) = map pd_addr ds \<and>
       (\<forall>h. net h tr = (if h = HwRef then 0 else - int (length ds)))" for ds cnt
  proof (induction ds cnt rule: deinit_loop.induct)
    case (2 d ds cnt)
    show ?case
    proof (cases "pd_assigned d = 0 \<and> pd_ready d = 1")
      case True
      have n: "net h (on_dev (pd_addr d) (fst (deinit_pci_dev d) @ KfreeDev # tr)) =
          (if h = HwRef then 0 else -1) + net h (on_dev (pd_addr d) tr)" for h tr
        by (cases h) (auto simp: deinit_pci_dev_net)
      have k: "map fst (filter (\<lambda>(a, x). x = KfreeDev) (on_dev a (fst (deinit_pci_dev d) @ [KfreeDev]))) = [a]" for a
        by (simp add: deinit_pci_dev_def on_dev_def)
      have c: "cnt - 1 - 1 - 2 * of_nat n = cnt - (2 + 2 * of_nat n)" for n by (simp add: algebra_simps)
      show ?thesis using 2 [OF refl] True n k
        by (auto simp: unregister_device_def c ring_distribs split: option.splits)
    next
      case False
      then show ?thesis by (auto simp: unregister_device_def)
    qed
  qed simp
  from this [of "pci_dev_list st" "pci_dev_cnt st"] show ?thesis
    by (auto simp: deinit_enclave_pci_def split: option.splits)
qed

text \<open>
  The states a device list goes through: from the empty list by registrations at fresh addresses,
  removals, resets and the long calls that came back.
\<close>

inductive pci_step :: "enclave_pci_state \<Rightarrow> enclave_pci_state \<Rightarrow> bool" where
  add: "a \<notin> pd_addr ` set (pci_dev_list st) \<Longrightarrow> enclave_pci_add_dev env a enc spec st = (r, tr, st') \<Longrightarrow> pci_step st st'"
| remove: "enclave_pci_remove_dev name st = (r, tr, st') \<Longrightarrow> pci_step st st'"
| reset: "reset_enclave_pci envs st = (r, tr, st') \<Longrightarrow> pci_step st st'"
| attach: "enclave_pci_attach name v r1 r2 st = Some (r, resp, tr, st') \<Longrightarrow> pci_step st st'"
| detach: "enclave_pci_detach name st = Some (r, resp, tr, st') \<Longrightarrow> pci_step st st'"
| ack: "enclave_pci_ack_irq name st = Some (r, resp, tr, st') \<Longrightarrow> pci_step st st'"
| cmd: "enclave_pci_cmd name c r1 st = Some (r, resp, tr, st') \<Longrightarrow> pci_step st st'"

inductive pci_reach :: "enclave_pci_state \<Rightarrow> bool" where
  pci_start: "init_enclave_pci st = (r, st') \<Longrightarrow> pci_reach st'"
| pci_next: "pci_reach st \<Longrightarrow> pci_step st st' \<Longrightarrow> pci_reach st'"

lemma add_dev_ok:
  assumes "pci_ok st" and "a \<notin> pd_addr ` set (pci_dev_list st)"
    and "enclave_pci_add_dev env a enc spec st = (r, tr, st')"
  shows "pci_ok st'"
proof (cases "r = 0")
  case True
  note C = add_dev_cases [OF assms(2,3)]
  from C True obtain d where d: "pci_dev_list st' = d # pci_dev_list st" "pd_addr d = a"
    "pd_name d = take 128 (sp_name spec)" "pd_dev d \<noteq> None" by auto
  moreover have "find_dev_by_name st (sp_name spec) = None" using C True by simp
  ultimately show ?thesis using assms(1,2) by (auto simp: pci_ok_def find_dev_None)
next
  case False
  then have "pci_dev_list st' = pci_dev_list st" using add_dev_cases [OF assms(2,3)] by simp
  then show ?thesis using assms(1) by (simp add: pci_ok_def)
qed

lemma reset_loop_keeps:
  "reset_loop env ds = (tr, ds') \<Longrightarrow> map pd_addr ds' = map pd_addr ds \<and> map pd_name ds' = map pd_name ds \<and>
     map pd_dev ds' = map pd_dev ds \<and> map pd_assigned ds' = map pd_assigned ds"
proof (induction ds arbitrary: tr ds')
  case (Cons d ds)
  obtain r a2 d2 where i: "init_pci_dev (env (pd_addr d)) (d\<lparr>pd_ready := 0\<rparr>) = (r, a2, d2)"
    by (cases "init_pci_dev (env (pd_addr d)) (d\<lparr>pd_ready := 0\<rparr>)") auto
  obtain tr1 ds1 where s: "reset_loop env ds = (tr1, ds1)" by fastforce
  show ?case using Cons.prems i s Cons.IH [OF s] init_pci_dev_keeps [OF i]
    by (auto simp: deinit_pci_dev_def)
qed simp

lemma reset_ok:
  assumes "pci_ok st" and "reset_enclave_pci env st = (r, tr, st')"
  shows "pci_ok st'"
proof -
  obtain ds' where r: "reset_loop env (pci_dev_list st) = (tr, ds')" "st' = st\<lparr>pci_dev_list := ds'\<rparr>"
    using assms(2) by (auto simp: reset_enclave_pci_def split: prod.splits)
  note K = reset_loop_keeps [OF r(1)]
  have "map (\<lambda>d. take 128 (pd_name d)) ds' = map (take 128) (map pd_name ds')" by simp
  also have "\<dots> = map (\<lambda>d. take 128 (pd_name d)) (pci_dev_list st)" using K by simp
  finally have n: "map (\<lambda>d. take 128 (pd_name d)) ds' = map (\<lambda>d. take 128 (pd_name d)) (pci_dev_list st)" .
  have "pd_dev ` set ds' = pd_dev ` set (pci_dev_list st)" using K by (metis list.set_map)
  moreover have "None \<notin> pd_dev ` set (pci_dev_list st)" using assms(1) by (auto simp: pci_ok_def)
  ultimately have "\<forall>d \<in> set ds'. pd_dev d \<noteq> None" by (metis imageI)
  then show ?thesis using assms(1) K n r(2) by (simp add: pci_ok_def)
qed

lemma pci_step_ok:
  assumes "pci_step st st'" and "pci_ok st"
  shows "pci_ok st'"
  using assms(1)
proof (cases rule: pci_step.cases)
  case (add a env enc spec r tr)
  then show ?thesis using add_dev_ok assms(2) by blast
next
  case (remove name r tr)
  then show ?thesis using assms(2)
    by (auto simp: enclave_pci_remove_dev_def unregister_device_def dev_del_ok Let_def split: option.splits if_splits)
next
  case (reset envs r tr)
  then show ?thesis using reset_ok assms(2) by blast
next
  case (attach name v r1 r2 r resp tr)
  then show ?thesis using assms(2)
    by (auto simp: enclave_pci_attach_def pci_answer_def Let_def intro!: dev_update_ok split: option.splits if_splits)
next
  case (detach name r resp tr)
  then show ?thesis using assms(2)
    by (auto simp: enclave_pci_detach_def pci_answer_def intro!: dev_update_ok split: option.splits if_splits)
next
  case (ack name r resp tr)
  then show ?thesis using assms(2)
    by (auto simp: enclave_pci_ack_irq_def pci_answer_def split: option.splits if_splits)
next
  case (cmd name c r1 r resp tr)
  then show ?thesis using assms(2)
    by (auto simp: enclave_pci_cmd_def pci_answer_def intro!: dev_update_ok split: option.splits if_splits)
qed

lemma pci_reach_ok: "pci_reach st \<Longrightarrow> pci_ok st"
proof (induction rule: pci_reach.induct)
  case (pci_start st r st')
  then show ?case by (auto simp: init_enclave_pci_def pci_ok_def)
qed (rule pci_step_ok)


definition demo_pci :: enclave_pci_state where
  "demo_pci = snd (snd (enclave_pci_add_dev demo_pci_env 5 100 demo_spec \<lparr>pci_dev_list = [], pci_dev_cnt = 0\<rparr>))"

lemma demo_pci_reach: "pci_reach demo_pci"
proof -
  let ?s = "\<lparr>pci_dev_list = [], pci_dev_cnt = 0\<rparr>"
  have "pci_reach ?s" by (rule pci_start [of ?s 0]) (simp add: init_enclave_pci_def)
  moreover have "pci_step ?s demo_pci"
    by (rule pci_step.add [of 5 _ demo_pci_env 100 demo_spec
          "fst (enclave_pci_add_dev demo_pci_env 5 100 demo_spec ?s)"
          "fst (snd (enclave_pci_add_dev demo_pci_env 5 100 demo_spec ?s))"])
      (simp_all add: demo_pci_def)
  ultimately show ?thesis by (rule pci_next)
qed


theorem pci_remove_dev_correct_witness:
  "fst (enclave_pci_remove_dev ''nic'' demo_pci) = 0 \<and>
   find_dev_by_name (snd (snd (enclave_pci_remove_dev ''nic'' demo_pci))) ''nic'' = None"
proof -
  have "case find_dev_by_name demo_pci ''nic'' of None \<Rightarrow> False | Some d \<Rightarrow> pd_assigned d = 0 \<and> pd_ready d = 1"
    by code_simp
  then show ?thesis using pci_remove_dev_correct [OF pci_reach_ok [OF demo_pci_reach], of "''nic''"]
    by (auto split: option.splits prod.splits)
qed

theorem pci_deinit_correct_witness:
  "case deinit_enclave_pci demo_pci of None \<Rightarrow> False | Some (r, tr, st') \<Rightarrow> r = 0 \<and> pci_dev_list st' = []"
proof -
  have "\<not> (\<exists>d \<in> set (pci_dev_list demo_pci). pd_assigned d \<noteq> 0 \<or> pd_ready d \<noteq> 1)" by code_simp
  then show ?thesis using pci_deinit_correct [of demo_pci] by (auto split: option.splits)
qed

section \<open>Attaching a device\<close>

lemma find_dev_update:
  assumes "pci_ok st" and "find_dev_by_name st name = Some d" and "\<And>d. pd_addr (f d) = pd_addr d"
    and "\<And>d. pd_name (f d) = pd_name d"
  shows "find_dev_by_name (dev_update (pd_addr d) f st) name = Some (f d)"
proof -
  have "find P (map (\<lambda>e. if pd_addr e = pd_addr d then f e else e) ds) = Some (f d)"
    if "find P ds = Some d" "\<And>e. P (f e) = P e" "distinct (map pd_addr ds)" for P ds
    using that
  proof (induction ds)
    case (Cons e ds)
    show ?case
    proof (cases "P e")
      case False
      then have "find P ds = Some d" using Cons.prems(1) by simp
      moreover from this have "d \<in> set ds" by (auto simp: find_Some_iff)
      ultimately show ?thesis using False Cons by auto
    qed (use Cons.prems in auto)
  qed simp
  from this [of "\<lambda>d. take 128 (pd_name d) = take 128 name" "pci_dev_list st"] assms show ?thesis
    by (simp add: find_dev_by_name_def dev_update_def pci_ok_def)
qed

text \<open>
  Attaching. A device that is attached already, is not ready or is unknown is refused with -1
  and nothing changes. Otherwise the device is marked as assigned first; when the IOMMU refuses
  it, the mark stays and the enclave gets no answer; when it accepts, the device carries the
  requested vector and the call is answered with 0. From then on, until a detach, another attach
  and a removal of that device are refused; after a detach it can be attached again.
\<close>

theorem pci_attach_correct:
  assumes "pci_ok st" and "find_dev_by_name st name = Some d" and "pd_dev d = Some k"
  shows "case enclave_pci_attach name v attach_ret irq_ret st of
      None \<Rightarrow> False
    | Some (ret, resp, tr, st') \<Rightarrow>
      if pd_assigned d \<noteq> 0 \<or> pd_ready d \<noteq> 1 then ret = 0 \<and> resp = Some (-1) \<and> tr = [] \<and> st' = st
      else \<exists>d'. find_dev_by_name st' name = Some d' \<and> pd_assigned d' = 1 \<and>
        (if attach_ret = 0 then ret = 0 \<and> resp = Some 0 \<and> pd_device_ipi_vector d' = v
         else ret = attach_ret \<and> resp = None) \<and>
        enclave_pci_attach name v2 r1 r2 st' = Some (0, Some (-1), [], st') \<and>
        enclave_pci_remove_dev name st' = (-1, [], st') \<and>
        (\<exists>tr2 st2. enclave_pci_detach name st' = Some (0, Some 0, tr2, st2) \<and>
           (\<exists>d2. find_dev_by_name st2 name = Some d2 \<and> pd_assigned d2 = 0 \<and> pd_ready d2 = 1))"
proof (cases "pd_assigned d \<noteq> 0 \<or> pd_ready d \<noteq> 1")
  case True
  then show ?thesis using assms(2) by (auto simp: enclave_pci_attach_def pci_answer_def)
next
  case False
  let ?f1 = "\<lambda>d. d\<lparr>pd_assigned := 1\<rparr>"
  let ?f2 = "\<lambda>d. d\<lparr>pd_dev := Some (k\<lparr>kd_dev_flags := kd_dev_flags k OR PCI_DEV_FLAGS_ASSIGNED\<rparr>),
    pd_device_ipi_vector := v, pd_intx_disabled := 0\<rparr>"
  let ?s1 = "dev_update (pd_addr d) ?f1 st"
  let ?s' = "if attach_ret = 0 then dev_update (pd_addr d) ?f2 ?s1 else ?s1"
  let ?d' = "if attach_ret = 0 then ?f2 (?f1 d) else ?f1 d"
  have ok1: "pci_ok ?s1" by (rule dev_update_ok [OF assms(1)]) auto
  have f1: "find_dev_by_name ?s1 name = Some (?f1 d)" by (rule find_dev_update [OF assms(1,2)]) auto
  have ok': "pci_ok ?s'" using ok1 by (auto intro: dev_update_ok)
  have f': "find_dev_by_name ?s' name = Some ?d'"
    using f1 find_dev_update [OF ok1 f1, of ?f2] by auto
  have att: "enclave_pci_attach name v2 r1 r2 ?s' = Some (0, Some (-1), [], ?s')"
    using f' by (auto simp: enclave_pci_attach_def pci_answer_def)
  have rem: "enclave_pci_remove_dev name ?s' = (-1, [], ?s')"
    using f' by (auto simp: enclave_pci_remove_dev_def unregister_device_def)
  have "\<exists>k'. pd_dev ?d' = Some k'" using assms(3) by simp
  then obtain k' where k': "pd_dev ?d' = Some k'" by blast
  let ?g = "\<lambda>d. d\<lparr>pd_dev := Some (k'\<lparr>kd_dev_flags := kd_dev_flags k' AND NOT PCI_DEV_FLAGS_ASSIGNED\<rparr>),
    pd_device_ipi_vector := 0, pd_assigned := 0\<rparr>"
  have "enclave_pci_detach name ?s' = Some (0, Some 0, on_dev (pd_addr ?d') [DetachDevice], dev_update (pd_addr ?d') ?g ?s')"
    using f' k' by (auto simp: enclave_pci_detach_def)
  moreover have "find_dev_by_name (dev_update (pd_addr ?d') ?g ?s') name = Some (?g ?d')"
    by (rule find_dev_update [OF ok' f']) auto
  moreover have "pd_assigned (?g ?d') = 0 \<and> pd_ready (?g ?d') = 1" using False by auto
  ultimately have det: "\<exists>tr2 st2. enclave_pci_detach name ?s' = Some (0, Some 0, tr2, st2) \<and>
      (\<exists>d2. find_dev_by_name st2 name = Some d2 \<and> pd_assigned d2 = 0 \<and> pd_ready d2 = 1)" by blast
  have "enclave_pci_attach name v attach_ret irq_ret st =
    (if attach_ret = 0 then Some (0, Some 0, on_dev (pd_addr d) [AttachDevice 0, RequestIrq irq_ret], ?s')
     else Some (attach_ret, None, on_dev (pd_addr d) [AttachDevice attach_ret], ?s'))"
    using False assms(2,3) by (simp add: enclave_pci_attach_def Let_def)
  then show ?thesis using False f' att rem det by (cases "attach_ret = 0") auto
qed

theorem pci_attach_correct_witness:
  "\<exists>tr st'. enclave_pci_attach ''nic'' 200 0 0 demo_pci = Some (0, Some 0, tr, st') \<and>
     enclave_pci_remove_dev ''nic'' st' = (-1, [], st')"
proof -
  obtain d k where d: "find_dev_by_name demo_pci ''nic'' = Some d" "pd_dev d = Some k"
    "pd_assigned d = 0" "pd_ready d = 1"
    by (simp add: demo_pci_def enclave_pci_add_dev_def find_dev_by_name_def demo_pci_env_def demo_spec_def
      init_pci_dev_def zero_dev_def dev_update_def Let_def)
  show ?thesis
    using pci_attach_correct [OF pci_reach_ok [OF demo_pci_reach] d(1,2), where v = 200 and attach_ret = 0 and irq_ret = 0 and ?v2.0 = 0 and ?r1.0 = 0 and ?r2.0 = 0] d(3,4)
    by (auto split: option.splits)
qed

section \<open>The IOMMU loops\<close>

text \<open>
  What is left of a region of \<open>n\<close> bytes after a sequence of calls that map consecutive pages of
  4 KB or 2 MB from its start on.
\<close>

fun tiles :: "(u64 \<times> u64 \<times> u32) list \<Rightarrow> u64 \<Rightarrow> u64 \<Rightarrow> nat \<Rightarrow> nat option" where
  "tiles [] gpa hpa n = Some n"
| "tiles ((g, h, p) # cs) gpa hpa n =
     (if g = gpa \<and> h = hpa \<and> (p = 4096 \<or> p = 2097152) \<and> unat p \<le> n
      then tiles cs (gpa + ucast p) (hpa + ucast p) (n - unat p) else None)"

fun uncurry3 :: "('a \<Rightarrow> 'b \<Rightarrow> 'c \<Rightarrow> 'd) \<Rightarrow> 'a \<times> 'b \<times> 'c \<Rightarrow> 'd" where
  "uncurry3 f (a, b, c) = f a b c"

lemma iommu_map_loop_tiles:
  assumes "0 < unat sz" and "4096 dvd unat sz" and "p = 4096 \<or> p = 2097152"
  shows "\<exists>ret cs. iommu_map_loop m sz p gpa hpa calls = Some (ret, calls @ cs) \<and> cs \<noteq> [] \<and>
    (\<forall>c \<in> set (butlast cs). uncurry3 m c = 0) \<and> uncurry3 m (last cs) = ret \<and>
    (\<exists>n. tiles cs gpa hpa (unat sz) = Some n \<and> (ret = 0 \<longrightarrow> n = 0))"
  using assms
proof (induction "unat sz" arbitrary: sz p gpa hpa calls rule: less_induct)
  case less
  define q :: u32 where "q = (if sz < ucast p then 4096 else p)"
  have q: "q = 4096 \<or> q = 2097152" using less.prems(3) by (auto simp: q_def)
  have ge: "4096 \<le> unat sz" using less.prems(1,2) by (auto elim: dvdE)
  have qn: "unat (ucast q :: u64) = unat q" "unat q = 4096 \<or> unat q = 2097152" "4096 dvd unat q"
    using q by (auto simp: unat_ucast_u32)
  have qle: "unat q \<le> unat sz"
    using ge qn less.prems(3) by (auto simp: q_def word_less_nat_alt unat_ucast_u32)
  define sz' where "sz' = sz - ucast q"
  have s': "unat sz' = unat sz - unat q" using qle qn by (simp add: sz'_def unat_diff_le)
  show ?case
  proof (cases "m gpa hpa q = 0 \<and> sz' > 0")
    case True
    have "0 < unat sz'" using True by (simp add: word_less_nat_alt)
    moreover have "4096 dvd unat sz'" using s' qn less.prems(2) by (simp add: dvd_diff_nat)
    moreover have "unat sz' < unat sz" using s' qn less.prems(1) by auto
    ultimately obtain ret cs where I: "iommu_map_loop m sz' q (gpa + ucast q) (hpa + ucast q) (calls @ [(gpa, hpa, q)]) =
        Some (ret, (calls @ [(gpa, hpa, q)]) @ cs)" "cs \<noteq> []"
      "\<forall>c \<in> set (butlast cs). uncurry3 m c = 0" "uncurry3 m (last cs) = ret"
      "\<exists>n. tiles cs (gpa + ucast q) (hpa + ucast q) (unat sz') = Some n \<and> (ret = 0 \<longrightarrow> n = 0)"
      using less.hyps [of sz' q "gpa + ucast q" "hpa + ucast q" "calls @ [(gpa, hpa, q)]"] q by blast
    have "iommu_map_loop m sz p gpa hpa calls = Some (ret, calls @ ((gpa, hpa, q) # cs))"
      using True I(1) by (subst iommu_map_loop.simps) (simp add: q_def [symmetric] sz'_def [symmetric] Let_def)
    moreover have "tiles ((gpa, hpa, q) # cs) gpa hpa (unat sz) =
        tiles cs (gpa + ucast q) (hpa + ucast q) (unat sz')"
      using q qle s' by simp
    ultimately show ?thesis using I True
      by (intro exI [of _ ret] exI [of _ "(gpa, hpa, q) # cs"]) (auto simp del: tiles.simps)
  next
    case False
    have l: "iommu_map_loop m sz p gpa hpa calls = Some (m gpa hpa q, calls @ [(gpa, hpa, q)])"
      using False by (subst iommu_map_loop.simps) (auto simp: q_def [symmetric] sz'_def [symmetric] Let_def)
    have t: "tiles [(gpa, hpa, q)] gpa hpa (unat sz) = Some (unat sz')" using q qle s' by simp
    have "m gpa hpa q = 0 \<Longrightarrow> unat sz' = 0" using False by (auto simp: word_less_nat_alt)
    then show ?thesis using l t
      by (intro exI [of _ "m gpa hpa q"] exI [of _ "[(gpa, hpa, q)]"]) (auto simp del: tiles.simps)
  qed
qed

text \<open>
  C30: Mapping a region whose size is a positive multiple of 4 KB always comes back. The calls to
  \<open>iommu_map\<close> are consecutive 4 KB or 2 MB pages that start at the beginning of the region and
  never leave it. The answer is the result of the last call; when it is 0, every page was mapped
  and the calls cover the region exactly, otherwise the last call is the first one that failed.
\<close>

theorem pci_iommu_map_tiles:
  assumes "find_dev_by_name st name = Some d" and "pd_assigned d \<noteq> 0"
    and "region_end \<noteq> region_start" and "4096 dvd unat (region_end - region_start)"
  shows "\<exists>ret cs. enclave_pci_iommu_map m name region_start region_end gpa st = Some (0, ret, cs) \<and>
    cs \<noteq> [] \<and> (\<forall>c \<in> set (butlast cs). uncurry3 m c = 0) \<and> uncurry3 m (last cs) = ret \<and>
    (\<exists>n. tiles cs gpa region_start (unat (region_end - region_start)) = Some n \<and> (ret = 0 \<longrightarrow> n = 0))"
proof -
  have "0 < unat (region_end - region_start)" using assms(3) by (simp add: unat_gt_0)
  from iommu_map_loop_tiles [OF this assms(4), of 2097152 m gpa region_start "[]"] assms(1,2) show ?thesis
    by (auto simp: enclave_pci_iommu_map_def)
qed

definition demo_attached :: enclave_pci_state where
  "demo_attached = \<lparr>pci_dev_list = [(zero_dev 5)\<lparr>pd_name := ''nic'', pd_assigned := 1\<rparr>], pci_dev_cnt = 1\<rparr>"

lemma demo_attached_find:
  "find_dev_by_name demo_attached ''nic'' = Some ((zero_dev 5)\<lparr>pd_name := ''nic'', pd_assigned := 1\<rparr>)"
  by (simp add: demo_attached_def find_dev_by_name_def zero_dev_def)

theorem pci_iommu_map_tiles_witness:
  "\<exists>cs. enclave_pci_iommu_map (\<lambda>_ _ _. 0) ''nic'' 0x400000 0x601000 0 demo_attached = Some (0, 0, cs) \<and>
     tiles cs 0 0x400000 0x201000 = Some 0"
proof -
  obtain ret cs n where "enclave_pci_iommu_map (\<lambda>_ _ _. 0) ''nic'' 0x400000 0x601000 0 demo_attached = Some (0, ret, cs)"
    "cs \<noteq> []" "uncurry3 (\<lambda>_ _ _. 0) (last cs) = ret" "tiles cs 0 0x400000 0x201000 = Some n" "ret = 0 \<longrightarrow> n = 0"
    using pci_iommu_map_tiles [OF demo_attached_find, of "0x601000" "0x400000" "\<lambda>_ _ _. 0" 0]
    by (auto simp: zero_dev_def)
  moreover have "uncurry3 (\<lambda>_ _ _. 0) (last cs) = (0 :: int)" by (cases "last cs") auto
  ultimately show ?thesis by auto
qed

lemma iommu_map_loop_returns:
  assumes "iommu_map_loop m sz p gpa hpa calls = Some y"
  shows "(\<forall>g h q. m g h q = 0) \<longrightarrow> p = 4096 \<or> p = 2097152 \<longrightarrow> 4096 dvd unat sz"
proof (rule iommu_map_loop.raw_induct [OF _ assms])
  fix f m calls y and sz gpa hpa :: u64 and p :: u32
  assume I: "\<And>m sz p gpa hpa calls y. f m sz p gpa hpa calls = Some y \<Longrightarrow>
      (\<forall>g h q. m g h q = 0) \<longrightarrow> p = 4096 \<or> p = 2097152 \<longrightarrow> 4096 dvd unat sz"
    and b: "(let page_size = if sz < ucast p then 4096 else p; ret = m gpa hpa page_size;
        calls' = calls @ [(gpa, hpa, page_size)]
      in if ret \<noteq> 0 then Some (ret, calls')
         else let sz' = sz - ucast page_size in
           if 0 < sz' then f m sz' page_size (gpa + ucast page_size) (hpa + ucast page_size) calls'
           else Some (ret, calls')) = Some y"
  define q :: u32 where "q = (if sz < ucast p then 4096 else p)"
  define sz' where "sz' = sz - ucast q"
  show "(\<forall>g h q. m g h q = 0) \<longrightarrow> p = 4096 \<or> p = 2097152 \<longrightarrow> 4096 dvd unat sz"
  proof (intro impI)
    assume y: "\<forall>g h q. m g h q = 0" and p: "p = 4096 \<or> p = 2097152"
    have q: "q = 4096 \<or> q = 2097152" using p by (auto simp: q_def)
    have "4096 dvd unat sz'"
    proof (cases "0 < sz'")
      case True
      then have "f m sz' q (gpa + ucast q) (hpa + ucast q) (calls @ [(gpa, hpa, q)]) = Some y"
        using b y unfolding q_def [symmetric] Let_def sz'_def [symmetric] by (auto split: if_splits)
      from I [OF this] q y show ?thesis by blast
    qed (simp add: word_less_nat_alt)
    moreover have "sz = sz' + ucast q" by (simp add: sz'_def)
    moreover have "4096 dvd unat q" "unat (ucast q :: u64) = unat q" using q by (auto simp: unat_ucast_u32)
    ultimately have "4096 dvd (unat sz' + unat (ucast q :: u64)) mod 2 ^ 64"
      by (simp add: dvd_mod)
    then show "4096 dvd unat sz" using \<open>sz = sz' + ucast q\<close> by (simp add: unat_word_ariths)
  qed
qed

text \<open>
  Mapping a region whose size is not a multiple of 4 KB does not come back as long as
  \<open>iommu_map\<close> accepts the pages: the remaining size wraps below zero and never becomes exactly 0.
\<close>

theorem pci_iommu_map_unaligned_hangs:
  assumes "find_dev_by_name st name = Some d" and "pd_assigned d \<noteq> 0"
    and "\<not> 4096 dvd unat (region_end - region_start)" and "\<And>g h p. m g h p = 0"
  shows "enclave_pci_iommu_map m name region_start region_end gpa st = None"
proof -
  have "iommu_map_loop m (region_end - region_start) (512 * 4096) gpa region_start [] = None"
    using iommu_map_loop_returns [of m "region_end - region_start" 2097152 gpa region_start "[]"] assms(3,4)
    by (cases "iommu_map_loop m (region_end - region_start) 2097152 gpa region_start []") auto
  then show ?thesis using assms(1,2) by (simp add: enclave_pci_iommu_map_def)
qed

theorem pci_iommu_map_unaligned_hangs_witness:
  "enclave_pci_iommu_map (\<lambda>_ _ _. 0) ''nic'' 0x400000 0x400800 0 demo_attached = None"
  by (rule pci_iommu_map_unaligned_hangs [OF demo_attached_find]) (simp_all add: zero_dev_def)

end
