(* ===== verification/Enclave.thy ===== *)
theory Enclave
  imports EnclaveFs Pci "HOL-Library.Multiset"
begin

text \<open>
  The life of an enclave (\<open>enclave.c\<close>): the table of enclaves and the index each takes in it,
  creation with its error paths, reference counts, CPUs and memory blocks assigned to an
  enclave, launch, the information files under \<open>/proc\<close>, and teardown. Enclave structures live
  in a heap of allocated addresses; using a structure that has been freed is a run that does
  not come back (\<open>None\<close>). Kernel calls outside the module enter as their results.

  Shown: an index is the lowest free slot and stays unique; every slot of the table points to a
  live enclave that knows its index, kept by creation, reference counting and teardown (and
  lost by the error paths of creation); the memory list stays sorted and in step with its
  counter; the CPU count is the size of the CPU mask; launch records exactly the memory blocks
  of the boot environment.
\<close>

section \<open>Data\<close>

definition MAX_ENCLAVES :: nat where
  "MAX_ENCLAVES = 128"

abbreviation ENCLAVE_LOADED :: int where "ENCLAVE_LOADED \<equiv> 1"
abbreviation ENCLAVE_RUNNING :: int where "ENCLAVE_RUNNING \<equiv> 2"
abbreviation ENCLAVE_DEAD :: int where "ENCLAVE_DEAD \<equiv> 3"

record enclave_mem_block =
  mb_base_addr :: u64
  mb_pages :: u32

record pisces_enclave =
  en_state :: int
  en_id :: nat
  en_boot_cpu :: u32
  en_num_cpus :: u32
  en_assigned_cpus :: "nat set"
  en_lcall_thread :: bool
  en_fs_state :: enclave_fs
  en_pci_state :: enclave_pci_state
  en_bootmem_addr_pa :: u64
  en_bootmem_size :: u64
  en_refcount :: nat
  en_memdesc_list :: "enclave_mem_block list"
  en_memdesc_num :: u32

record enclave_boot_env =
  be_base_addr :: u64
  be_block_size :: u64
  be_num_blocks :: u32
  be_cpu_id :: u32

text \<open>The table and the heap of enclave structures, by address.\<close>

record pisces_sys =
  enclave_map :: "nat option list"
  en_heap :: "nat \<Rightarrow> pisces_enclave option"

definition sys_init :: pisces_sys where
  "sys_init = \<lparr>enclave_map = replicate MAX_ENCLAVES None, en_heap = (\<lambda>_. None)\<rparr>"

section \<open>The table of enclaves\<close>

fun index_loop :: "nat option list \<Rightarrow> nat \<Rightarrow> nat option" where
  "index_loop [] i = None"
| "index_loop (None # m) i = Some i"
| "index_loop (Some p # m) i = index_loop m (i + 1)"

definition alloc_enclave_index :: "pisces_sys \<Rightarrow> nat \<Rightarrow> int \<times> pisces_sys" where
  "alloc_enclave_index s p =
     (case index_loop (enclave_map s) 0 of
        None \<Rightarrow> (-1, s)
      | Some i \<Rightarrow> (int i, s\<lparr>enclave_map := (enclave_map s)[i := Some p]\<rparr>))"

definition free_enclave_index :: "pisces_sys \<Rightarrow> nat \<Rightarrow> pisces_sys" where
  "free_enclave_index s idx = s\<lparr>enclave_map := (enclave_map s)[idx := None]\<rparr>"

section \<open>Reference counts\<close>

definition enclave_get :: "pisces_sys \<Rightarrow> nat \<Rightarrow> pisces_sys option" where
  "enclave_get s p = do {
     e \<leftarrow> en_heap s p;
     Some (s\<lparr>en_heap := (en_heap s)(p \<mapsto> e\<lparr>en_refcount := en_refcount e + 1\<rparr>)\<rparr>)
   }"

text \<open>\<open>kref_put\<close>: the last reference runs \<open>enclave_last_put\<close>, which frees the structure.\<close>

definition enclave_put :: "pisces_sys \<Rightarrow> nat \<Rightarrow> pisces_sys option" where
  "enclave_put s p = do {
     e \<leftarrow> en_heap s p;
     Some (if en_refcount e = 1 then s\<lparr>en_heap := (en_heap s)(p := None)\<rparr>
           else s\<lparr>en_heap := (en_heap s)(p \<mapsto> e\<lparr>en_refcount := en_refcount e - 1\<rparr>)\<rparr>)
   }"

definition enclave_open :: "pisces_sys \<Rightarrow> nat \<Rightarrow> pisces_sys option" where
  "enclave_open s p = enclave_get s p"

definition enclave_release :: "pisces_sys \<Rightarrow> nat \<Rightarrow> pisces_sys option" where
  "enclave_release s p = enclave_put s p"

section \<open>CPUs and memory\<close>

definition pisces_enclave_add_cpu :: "pisces_enclave \<Rightarrow> u32 \<Rightarrow> int \<times> pisces_enclave" where
  "pisces_enclave_add_cpu e cpu_id =
     (if unat cpu_id \<in> en_assigned_cpus e then (-1, e)
      else (0, e\<lparr>en_assigned_cpus := insert (unat cpu_id) (en_assigned_cpus e),
                 en_num_cpus := en_num_cpus e + 1\<rparr>))"

text \<open>The walk that links a block into the list; an empty list is not walked.\<close>

fun mem_insert :: "enclave_mem_block \<Rightarrow> enclave_mem_block list \<Rightarrow> enclave_mem_block list" where
  "mem_insert m [] = []"
| "mem_insert m (iter # rest) =
     (if mb_base_addr iter > mb_base_addr m then m # iter # rest
      else if rest = [] then [iter, m]
      else iter # mem_insert m rest)"

definition pisces_enclave_add_mem ::
    "pisces_enclave \<Rightarrow> u64 \<Rightarrow> u32 \<Rightarrow> bool \<Rightarrow> (int \<times> pisces_enclave) option" where
  "pisces_enclave_add_mem e base_addr pages got_mem =
     (if \<not> got_mem then None
      else let m = \<lparr>mb_base_addr = base_addr, mb_pages = pages\<rparr> in
        Some (0, e\<lparr>en_memdesc_list := (if en_memdesc_num e = 0 then m # en_memdesc_list e
                                       else mem_insert m (en_memdesc_list e)),
                   en_memdesc_num := en_memdesc_num e + 1\<rparr>))"

section \<open>Creation\<close>

text \<open>
  What the kernel answers during creation: the address \<open>kmalloc\<close> gives (\<open>None\<close> for a null
  pointer, which the error test does not recognise), the memory of the file table, and whether
  \<open>cdev_add\<close> and \<open>device_create\<close> succeed.
\<close>

record create_env =
  ce_addr :: "nat option"
  ce_htable :: bool
  ce_table :: bool
  ce_cdev :: bool
  ce_device :: bool

definition zero_enclave :: pisces_enclave where
  "zero_enclave = \<lparr>en_state = 0, en_id = 0, en_boot_cpu = 0, en_num_cpus = 0, en_assigned_cpus = {},
     en_lcall_thread = False,
     en_fs_state = \<lparr>fs_num_files = 0, fs_open_file_table =
       \<lparr>ht_table_length = 0, ht_table = [], ht_entry_count = 0, ht_load_limit = 0, ht_prime_index = 0,
        ht_hash_fn = (\<lambda>_. 0), ht_eq_fn = (\<lambda>_ _. False)\<rparr>, fs_open_file_list = []\<rparr>,
     en_pci_state = \<lparr>pci_dev_list = [], pci_dev_cnt = 0\<rparr>, en_bootmem_addr_pa = 0, en_bootmem_size = 0, en_refcount = 0,
     en_memdesc_list = [], en_memdesc_num = 0\<rparr>"

definition pisces_enclave_create :: "pisces_sys \<Rightarrow> create_env \<Rightarrow> (int \<times> pisces_sys) option" where
  "pisces_enclave_create s env = do {
     p \<leftarrow> ce_addr env;
     let e0 = zero_enclave;
     let (idx, s1) = alloc_enclave_index (s\<lparr>en_heap := (en_heap s)(p \<mapsto> e0)\<rparr>) p;
     if idx = -1 then Some (-1, s1\<lparr>en_heap := (en_heap s1)(p := None)\<rparr>)
     else do {
       (r, fs) \<leftarrow> init_enclave_fs (en_fs_state e0) (ce_htable env) (ce_table env);
       let e = e0\<lparr>en_refcount := 1, en_state := ENCLAVE_LOADED, en_id := nat idx,
                  en_memdesc_list := [], en_fs_state := fs,
                  en_pci_state := snd (init_enclave_pci (en_pci_state e0)),
                  en_memdesc_num := 0, en_assigned_cpus := {}, en_num_cpus := 0\<rparr>;
       let s2 = s1\<lparr>en_heap := (en_heap s1)(p \<mapsto> e)\<rparr>;
       if \<not> ce_cdev env then Some (-1, s2\<lparr>en_heap := (en_heap s2)(p := None)\<rparr>)
       else if \<not> ce_device env then Some (-1, s2\<lparr>en_heap := (en_heap s2)(p := None)\<rparr>)
       else Some (idx, s2)
     }
   }"

section \<open>Launch\<close>

text \<open>
  \<open>setup_boot_params\<close> and \<open>boot_enclave\<close> enter as their results; the first one starts the
  long-call thread on the way.
\<close>

definition pisces_enclave_launch :: "pisces_enclave \<Rightarrow> int \<Rightarrow> bool \<Rightarrow> int \<Rightarrow> int \<times> pisces_enclave" where
  "pisces_enclave_launch e setup_ret lcall_up boot_ret =
     (let e1 = e\<lparr>en_lcall_thread := lcall_up\<rparr> in
      if setup_ret = -1 then (-1, e1)
      else if boot_ret = -1 then (-1, e1)
      else (0, e1\<lparr>en_state := ENCLAVE_RUNNING\<rparr>))"

fun launch_blocks :: "pisces_enclave \<Rightarrow> enclave_boot_env \<Rightarrow> nat list \<Rightarrow> pisces_enclave option" where
  "launch_blocks e env [] = Some e"
| "launch_blocks e env (i # is) = do {
     (r, e') \<leftarrow> pisces_enclave_add_mem e (be_base_addr env + of_nat i * be_block_size env)
                  (ucast (be_block_size env div 4096)) True;
     launch_blocks e' env is
   }"

definition ioctl_launch ::
    "pisces_enclave \<Rightarrow> enclave_boot_env option \<Rightarrow> int \<Rightarrow> bool \<Rightarrow> int \<Rightarrow> (int \<times> pisces_enclave) option" where
  "ioctl_launch e arg setup_ret lcall_up boot_ret =
     (case arg of
        None \<Rightarrow> Some (- EFAULT, e)
      | Some env \<Rightarrow>
          let num_pages = (ucast (be_num_blocks env) * be_block_size env) div 4096;
              e1 = e\<lparr>en_bootmem_addr_pa := be_base_addr env, en_bootmem_size := num_pages * 4096,
                     en_boot_cpu := be_cpu_id env\<rparr>;
              e2 = snd (pisces_enclave_add_cpu e1 (be_cpu_id env))
          in do {
            e3 \<leftarrow> launch_blocks e2 env [0..<unat (be_num_blocks env)];
            Some (pisces_enclave_launch e3 setup_ret lcall_up boot_ret)
          })"

section \<open>The information files\<close>

text \<open>
  The lines of the memory file: number, first and last address. The product \<open>pages * 4096\<close> is
  computed in 32 bits.
\<close>

definition proc_mem_show :: "pisces_enclave \<Rightarrow> u32 \<times> (nat \<times> u64 \<times> u64) list" where
  "proc_mem_show e =
     (en_memdesc_num e,
      map (\<lambda>(i, b). (i, mb_base_addr b, mb_base_addr b + ucast (mb_pages b * 4096)))
        (enumerate 0 (en_memdesc_list e)))"

definition proc_pci_show :: "pisces_enclave \<Rightarrow> u32 \<times> (string \<times> u32 \<times> u32 \<times> u32) list" where
  "proc_pci_show e =
     (pci_dev_cnt (en_pci_state e),
      map (\<lambda>d. (pd_name d, pd_bus d, PCI_SLOT (pd_devfn d), PCI_FUNC (pd_devfn d)))
        (pci_dev_list (en_pci_state e)))"

definition proc_cpu_show :: "pisces_enclave \<Rightarrow> u32 \<times> nat list" where
  "proc_cpu_show e = (en_num_cpus e, sorted_list_of_set (en_assigned_cpus e))"

section \<open>Teardown\<close>

datatype teardown =
    DeviceDestroy nat | CdevDel nat | CtrlDeinit | RemoveProc string nat | FsEvents "fs_event list"
  | FsFrees "freed list" | PciTrace pci_trace | LcallDeinit | FreeMemdesc enclave_mem_block

text \<open>
  \<open>pisces_lcall_deinit\<close> stops the long-call thread: without one, \<open>kthread_stop\<close> is called on a
  null pointer and the run does not come back.
\<close>

definition pisces_enclave_free :: "pisces_sys \<Rightarrow> nat \<Rightarrow> (int \<times> teardown list \<times> pisces_sys) option" where
  "pisces_enclave_free s p = do {
     e \<leftarrow> en_heap s p;
     let s1 = s\<lparr>en_heap := (en_heap s)(p \<mapsto> e\<lparr>en_state := ENCLAVE_DEAD\<rparr>)\<rparr>;
     let s2 = free_enclave_index s1 (en_id e);
     let fs = deinit_enclave_fs (en_fs_state e);
     (pr, ptr, pst) \<leftarrow> deinit_enclave_pci (en_pci_state e);
     if \<not> en_lcall_thread e then None
     else do {
       let e' = e\<lparr>en_state := ENCLAVE_DEAD, en_lcall_thread := False, en_pci_state := pst,
                   en_memdesc_list := []\<rparr>;
       s3 \<leftarrow> enclave_put (s2\<lparr>en_heap := (en_heap s2)(p \<mapsto> e')\<rparr>) p;
       Some (0, [DeviceDestroy (en_id e), CdevDel (en_id e), CtrlDeinit, RemoveProc ''memory'' (en_id e),
             RemoveProc ''cpus'' (en_id e), RemoveProc ''pci'' (en_id e),
             RemoveProc ''enclave'' (en_id e), FsEvents (fst fs), FsFrees (snd fs), PciTrace ptr,
             LcallDeinit] @ map FreeMemdesc (en_memdesc_list e), s3)
     }
   }"

section \<open>The index of an enclave\<close>

lemma index_loop_Some:
  "index_loop m i = Some j \<Longrightarrow>
     i \<le> j \<and> j - i < length m \<and> m ! (j - i) = None \<and> (\<forall>k < j - i. m ! k \<noteq> None)"
proof (induction m i rule: index_loop.induct)
  case (3 p m i)
  then have I: "i + 1 \<le> j \<and> j - (i + 1) < length m \<and> m ! (j - (i + 1)) = None \<and>
      (\<forall>k < j - (i + 1). m ! k \<noteq> None)" by simp
  then obtain d where d: "j = i + 1 + d" using le_Suc_ex by blast
  with I show ?case by (auto simp: nth_Cons')
qed auto

lemma index_loop_None: "index_loop m i = None \<longleftrightarrow> None \<notin> set m"
  by (induction m i rule: index_loop.induct) auto

text \<open>
  \<open>alloc_enclave_index\<close> takes the lowest free slot of the table and writes only that slot;
  it answers \<open>-1\<close>, changing nothing, exactly when the table is full.
\<close>

theorem enclave_index_lowest:
  assumes "alloc_enclave_index s p = (idx, s')"
  shows "if None \<in> set (enclave_map s)
    then \<exists>i < length (enclave_map s). idx = int i \<and> enclave_map s ! i = None \<and>
           (\<forall>k < i. enclave_map s ! k \<noteq> None) \<and> s' = s\<lparr>enclave_map := (enclave_map s)[i := Some p]\<rparr>
    else idx = -1 \<and> s' = s"
proof (cases "index_loop (enclave_map s) 0")
  case None
  then show ?thesis using assms index_loop_None [of "enclave_map s" 0]
    by (simp add: alloc_enclave_index_def)
next
  case (Some i)
  then have "None \<in> set (enclave_map s)" using index_loop_None [of "enclave_map s" 0] by auto
  with Some assms index_loop_Some [OF Some] show ?thesis by (auto simp: alloc_enclave_index_def)
qed

theorem enclave_index_lowest_witness:
  "fst (alloc_enclave_index \<lparr>enclave_map = [Some 7, None, None], en_heap = (\<lambda>_. None)\<rparr> 9) = 1"
  using enclave_index_lowest [of "\<lparr>enclave_map = [Some 7, None, None], en_heap = (\<lambda>_. None)\<rparr>" 9 1
      "\<lparr>enclave_map = [Some 7, Some 9, None], en_heap = (\<lambda>_. None)\<rparr>"]
  by (simp add: alloc_enclave_index_def)

section \<open>Lifetimes\<close>

text \<open>
  The steps of the system: creation that succeeds, opening and releasing a file on an enclave,
  a change of an enclave's own fields (launch, resources), and freeing through the table.
  \<open>h p\<close> counts the open files of the enclave at \<open>p\<close>.
\<close>

inductive sys_step :: "pisces_sys \<times> (nat \<Rightarrow> nat) \<Rightarrow> pisces_sys \<times> (nat \<Rightarrow> nat) \<Rightarrow> bool" where
  create: "pisces_enclave_create s env = Some (int i, s') \<Longrightarrow> ce_addr env = Some p \<Longrightarrow>
    en_heap s p = None \<Longrightarrow> sys_step (s, h) (s', h)"
| op_open: "enclave_map s ! i = Some p \<Longrightarrow> i < length (enclave_map s) \<Longrightarrow> enclave_open s p = Some s' \<Longrightarrow>
    sys_step (s, h) (s', h(p := h p + 1))"
| op_release: "0 < h p \<Longrightarrow> enclave_release s p = Some s' \<Longrightarrow> sys_step (s, h) (s', h(p := h p - 1))"
| op_update: "en_heap s p = Some e \<Longrightarrow> en_id e' = en_id e \<Longrightarrow> en_refcount e' = en_refcount e \<Longrightarrow>
    sys_step (s, h) (s\<lparr>en_heap := (en_heap s)(p \<mapsto> e')\<rparr>, h)"
| op_free: "enclave_map s ! i = Some p \<Longrightarrow> i < length (enclave_map s) \<Longrightarrow>
    pisces_enclave_free s p = Some (r, ev, s') \<Longrightarrow> sys_step (s, h) (s', h)"

inductive sys_reach :: "pisces_sys \<times> (nat \<Rightarrow> nat) \<Rightarrow> bool" where
  sys_start: "sys_reach (sys_init, \<lambda>_. 0)"
| sys_next: "sys_reach c \<Longrightarrow> sys_step c c' \<Longrightarrow> sys_reach c'"

definition in_table :: "pisces_sys \<Rightarrow> nat \<Rightarrow> bool" where
  "in_table s p \<longleftrightarrow> (\<exists>i < length (enclave_map s). enclave_map s ! i = Some p)"

definition ref_ok :: "bool \<Rightarrow> nat \<Rightarrow> pisces_enclave \<Rightarrow> bool" where
  "ref_ok tbl n e \<longleftrightarrow> en_refcount e = n + (if tbl then 1 else 0) \<and> 0 < en_refcount e"

definition sys_inv :: "pisces_sys \<times> (nat \<Rightarrow> nat) \<Rightarrow> bool" where
  "sys_inv c \<longleftrightarrow> (case c of (s, h) \<Rightarrow>
     length (enclave_map s) = MAX_ENCLAVES \<and>
     (\<forall>i p. i < length (enclave_map s) \<longrightarrow> enclave_map s ! i = Some p \<longrightarrow>
        (\<exists>e. en_heap s p = Some e \<and> en_id e = i)) \<and>
     (\<forall>p. case en_heap s p of None \<Rightarrow> h p = 0
        | Some e \<Rightarrow> ref_ok (in_table s p) (h p) e))"

lemma sys_invD:
  assumes "sys_inv (s, h)"
  shows "length (enclave_map s) = MAX_ENCLAVES"
    and "i < length (enclave_map s) \<Longrightarrow> enclave_map s ! i = Some p \<Longrightarrow>
      \<exists>e. en_heap s p = Some e \<and> en_id e = i"
    and "en_heap s p = None \<Longrightarrow> h p = 0"
    and "en_heap s p = Some e \<Longrightarrow> ref_ok (in_table s p) (h p) e"
proof -
  have h: "case en_heap s p of None \<Rightarrow> h p = 0 | Some e \<Rightarrow> ref_ok (in_table s p) (h p) e"
    using assms by (simp add: sys_inv_def)
  show "en_heap s p = None \<Longrightarrow> h p = 0" "en_heap s p = Some e \<Longrightarrow> ref_ok (in_table s p) (h p) e"
    using h by simp_all
qed (use assms in \<open>auto simp: sys_inv_def\<close>)

lemma sys_invI:
  assumes "length (enclave_map s) = MAX_ENCLAVES"
    and "\<And>i p. i < length (enclave_map s) \<Longrightarrow> enclave_map s ! i = Some p \<Longrightarrow>
      \<exists>e. en_heap s p = Some e \<and> en_id e = i"
    and "\<And>p. en_heap s p = None \<Longrightarrow> h p = 0"
    and "\<And>p e. en_heap s p = Some e \<Longrightarrow> ref_ok (in_table s p) (h p) e"
  shows "sys_inv (s, h)"
  using assms by (auto simp: sys_inv_def split: option.splits)

lemma sys_inv_slot:
  assumes "sys_inv (s, h)" and "i < length (enclave_map s)" and "enclave_map s ! i = Some p"
  shows "\<exists>e. en_heap s p = Some e \<and> en_id e = i \<and> en_refcount e = h p + 1"
proof -
  obtain e where e: "en_heap s p = Some e" "en_id e = i" using sys_invD(2) [OF assms] by blast
  moreover have "in_table s p" using assms(2,3) by (auto simp: in_table_def)
  ultimately show ?thesis using sys_invD(4) [OF assms(1) e(1)] by (simp add: ref_ok_def)
qed

lemma sys_inv_handle:
  assumes "sys_inv (s, h)" and "0 < h p"
  shows "\<exists>e. en_heap s p = Some e \<and> en_refcount e = h p + (if in_table s p then 1 else 0)"
proof -
  have "en_heap s p \<noteq> None" using sys_invD(3) [OF assms(1), of p] assms(2) by auto
  then show ?thesis using sys_invD(4) [OF assms(1), of p] by (auto simp: ref_ok_def)
qed

text \<open>Only one slot points to an enclave.\<close>

lemma sys_inv_unique:
  assumes "sys_inv (s, h)" and "i < length (enclave_map s)" and "enclave_map s ! i = Some p"
    and "j < length (enclave_map s)" and "enclave_map s ! j = Some p"
  shows "j = i"
  using sys_invD(2) [OF assms(1,2,3)] sys_invD(2) [OF assms(1,4,5)] by auto

lemma in_table_heap [simp]: "in_table (s\<lparr>en_heap := f\<rparr>) p = in_table s p"
  by (simp add: in_table_def)

text \<open>A change of one heap cell that keeps the identity of the enclave.\<close>

lemma sys_inv_cell:
  assumes inv: "sys_inv (s, h)" and e: "en_heap s p = Some e" "en_id e' = en_id e"
    and rc: "ref_ok (in_table s p) n e'"
  shows "sys_inv (s\<lparr>en_heap := (en_heap s)(p \<mapsto> e')\<rparr>, h(p := n))"
proof (rule sys_invI)
  show "\<exists>e''. en_heap (s\<lparr>en_heap := (en_heap s)(p \<mapsto> e')\<rparr>) q = Some e'' \<and> en_id e'' = i"
    if "i < length (enclave_map (s\<lparr>en_heap := (en_heap s)(p \<mapsto> e')\<rparr>))"
      "enclave_map (s\<lparr>en_heap := (en_heap s)(p \<mapsto> e')\<rparr>) ! i = Some q" for i q
    using that sys_invD(2) [OF inv, of i q] e by auto
qed (use sys_invD [OF inv] rc in \<open>auto split: if_splits\<close>)

lemma get_inv:
  assumes "sys_inv (s, h)" and "enclave_get s p = Some s'"
  shows "sys_inv (s', h(p := h p + 1))"
proof -
  obtain e where e: "en_heap s p = Some e"
    "s' = s\<lparr>en_heap := (en_heap s)(p \<mapsto> e\<lparr>en_refcount := en_refcount e + 1\<rparr>)\<rparr>"
    using assms(2) by (auto simp: enclave_get_def split: bind_splits)
  show ?thesis unfolding e(2)
    using sys_invD(4) [OF assms(1) e(1)]
    by (intro sys_inv_cell [OF assms(1) e(1)]) (auto simp: ref_ok_def)
qed

lemma put_inv:
  assumes inv: "sys_inv (s, h)" and h: "0 < h p" and p: "enclave_put s p = Some s'"
  shows "sys_inv (s', h(p := h p - 1))"
proof -
  obtain e where e: "en_heap s p = Some e" using p by (auto simp: enclave_put_def split: bind_splits)
  note rc = sys_invD(4) [OF inv e]
  show ?thesis
  proof (cases "en_refcount e = 1")
    case True
    then have s': "s' = s\<lparr>en_heap := (en_heap s)(p := None)\<rparr>" using p e by (simp add: enclave_put_def)
    have t: "\<not> in_table s p" "h p = 1" using True rc h by (auto simp: ref_ok_def split: if_splits)
    show ?thesis unfolding s'
    proof (rule sys_invI)
      show "\<exists>e'. en_heap (s\<lparr>en_heap := (en_heap s)(p := None)\<rparr>) q = Some e' \<and> en_id e' = i"
        if "i < length (enclave_map (s\<lparr>en_heap := (en_heap s)(p := None)\<rparr>))"
          "enclave_map (s\<lparr>en_heap := (en_heap s)(p := None)\<rparr>) ! i = Some q" for i q
        using that sys_invD(2) [OF inv, of i q] t(1) by (auto simp: in_table_def)
    qed (use sys_invD [OF inv] t in \<open>auto split: if_splits\<close>)
  next
    case False
    then have s': "s' = s\<lparr>en_heap := (en_heap s)(p \<mapsto> e\<lparr>en_refcount := en_refcount e - 1\<rparr>)\<rparr>"
      using p e by (simp add: enclave_put_def)
    show ?thesis unfolding s' using rc h False by (intro sys_inv_cell [OF inv e]) (auto simp: ref_ok_def)
  qed
qed

lemma slot_taken:
  assumes "i < length m" and "m ! i = None"
  shows "(\<exists>k < length m. m[i := Some p] ! k = Some q) \<longleftrightarrow> q = p \<or> (\<exists>k < length m. m ! k = Some q)"
proof
  assume "\<exists>k < length m. m[i := Some p] ! k = Some q"
  then obtain k where "k < length m" "m[i := Some p] ! k = Some q" by blast
  then show "q = p \<or> (\<exists>k < length m. m ! k = Some q)" using assms by (cases "k = i") auto
next
  assume "q = p \<or> (\<exists>k < length m. m ! k = Some q)"
  then show "\<exists>k < length m. m[i := Some p] ! k = Some q"
  proof
    assume "\<exists>k < length m. m ! k = Some q"
    then obtain k where k: "k < length m" "m ! k = Some q" by blast
    then have "k \<noteq> i" using assms(2) by auto
    with k show ?thesis by (intro exI [of _ k]) simp
  qed (use assms(1) in auto)
qed

lemma create_inv:
  assumes inv: "sys_inv (s, h)" and c: "pisces_enclave_create s env = Some (int i, s')"
    and p: "ce_addr env = Some p" "en_heap s p = None"
  shows "sys_inv (s', h)" and "i < MAX_ENCLAVES" and "enclave_map s ! i = None"
    and "\<exists>e. en_heap s' p = Some e \<and> en_id e = i \<and> en_state e = ENCLAVE_LOADED \<and> en_refcount e = 1 \<and>
      en_memdesc_list e = [] \<and> en_assigned_cpus e = {}"
    and "enclave_map s' = (enclave_map s)[i := Some p]"
proof -
  let ?h0 = "s\<lparr>en_heap := (en_heap s)(p \<mapsto> zero_enclave)\<rparr>"
  obtain idx s1 where a: "alloc_enclave_index ?h0 p = (idx, s1)" by fastforce
  have "idx \<noteq> -1" using c p(1) a by (auto simp: pisces_enclave_create_def)
  then obtain j where j: "index_loop (enclave_map s) 0 = Some j" "idx = int j"
    "s1 = ?h0\<lparr>enclave_map := (enclave_map s)[j := Some p]\<rparr>"
    using a by (auto simp: alloc_enclave_index_def split: option.splits)
  note J = index_loop_Some [OF j(1)]
  obtain r fs where "init_enclave_fs (en_fs_state zero_enclave) (ce_htable env) (ce_table env) = Some (r, fs)"
    using c p(1) a \<open>idx \<noteq> -1\<close> by (auto simp: pisces_enclave_create_def split: bind_splits)
  with c p(1) a \<open>idx \<noteq> -1\<close> j have r: "j = i"
    "s' = s1\<lparr>en_heap := (en_heap s1)(p \<mapsto> zero_enclave\<lparr>en_refcount := 1, en_state := ENCLAVE_LOADED,
       en_id := i, en_memdesc_list := [], en_fs_state := fs,
       en_pci_state := snd (init_enclave_pci (en_pci_state zero_enclave)),
       en_memdesc_num := 0, en_assigned_cpus := {}, en_num_cpus := 0\<rparr>)\<rparr>"
    by (auto simp: pisces_enclave_create_def Let_def split: if_splits)
  show "i < MAX_ENCLAVES" "enclave_map s ! i = None" "enclave_map s' = (enclave_map s)[i := Some p]"
    using J r j(3) sys_invD(1) [OF inv] by auto
  show "\<exists>e. en_heap s' p = Some e \<and> en_id e = i \<and> en_state e = ENCLAVE_LOADED \<and> en_refcount e = 1 \<and>
      en_memdesc_list e = [] \<and> en_assigned_cpus e = {}"
    using r by (auto simp: zero_enclave_def)
  have out: "\<not> in_table s p" using sys_invD(2) [OF inv] p(2) by (fastforce simp: in_table_def)
  have tbl: "in_table s' q = (q = p \<or> in_table s q)" for q
    using slot_taken [of i "enclave_map s" p q] J r j(3) by (simp add: in_table_def)
  show "sys_inv (s', h)"
  proof (rule sys_invI)
    show "\<exists>e. en_heap s' q = Some e \<and> en_id e = k"
      if "k < length (enclave_map s')" "enclave_map s' ! k = Some q" for k q
      using that sys_invD(2) [OF inv, of k q] J r j(3) p(2)
      by (cases "k = i") (auto split: if_splits)
    show "ref_ok (in_table s' q) (h q) e" if e: "en_heap s' q = Some e" for q e
    proof (cases "q = p")
      case True
      then show ?thesis using e sys_invD(3) [OF inv p(2)] r j(3) tbl by (auto simp: ref_ok_def)
    next
      case False
      then have "en_heap s q = Some e" using e r j(3) by simp
      from sys_invD(4) [OF inv this] False show ?thesis by (simp add: tbl)
    qed
  qed (use sys_invD(1,3) [OF inv] r j(3) in \<open>auto split: if_splits\<close>)
qed

lemma free_inv:
  assumes inv: "sys_inv (s, h)" and i: "enclave_map s ! i = Some p" "i < length (enclave_map s)"
    and f: "pisces_enclave_free s p = Some (r, ev, s')"
  shows "sys_inv (s', h)" and "enclave_map s' = (enclave_map s)[i := None]"
    and "h p = 0 \<Longrightarrow> en_heap s' p = None" and "q \<noteq> p \<Longrightarrow> en_heap s' q = en_heap s q"
proof -
  obtain e where e: "en_heap s p = Some e" "en_id e = i" "en_refcount e = h p + 1"
    using sys_inv_slot [OF inv i(2,1)] by blast
  obtain pr ptr pst where d: "deinit_enclave_pci (en_pci_state e) = Some (pr, ptr, pst)"
    using f e by (auto simp: pisces_enclave_free_def Let_def split: bind_splits)
  let ?e = "e\<lparr>en_state := ENCLAVE_DEAD, en_lcall_thread := False, en_pci_state := pst, en_memdesc_list := []\<rparr>"
  let ?s2 = "s\<lparr>enclave_map := (enclave_map s)[i := None], en_heap := (en_heap s)(p \<mapsto> ?e)\<rparr>"
  have s': "enclave_put ?s2 p = Some s'"
    using f e d by (auto simp: pisces_enclave_free_def free_enclave_index_def Let_def
        split: if_splits bind_splits)
  have out: "\<not> in_table ?s2 p"
    using sys_inv_unique [OF inv i(2,1)] i(2) by (auto simp: in_table_def nth_list_update split: if_splits)
  have tbl: "in_table ?s2 q = in_table s q" if "q \<noteq> p" for q
    using i that by (auto simp: in_table_def nth_list_update) (metis option.inject)
  have P: "s' = (if h p = 0 then ?s2\<lparr>en_heap := (en_heap ?s2)(p := None)\<rparr>
      else ?s2\<lparr>en_heap := (en_heap ?s2)(p \<mapsto> ?e\<lparr>en_refcount := h p\<rparr>)\<rparr>)"
    using s' e(3) by (auto simp: enclave_put_def)
  show "enclave_map s' = (enclave_map s)[i := None]" using P by (auto split: if_splits)
  show "h p = 0 \<Longrightarrow> en_heap s' p = None" "q \<noteq> p \<Longrightarrow> en_heap s' q = en_heap s q" using P by auto
  have t': "in_table s' = in_table ?s2" using P by (auto simp: in_table_def fun_eq_iff)
  show "sys_inv (s', h)"
  proof (rule sys_invI)
    show "\<exists>e'. en_heap s' q = Some e' \<and> en_id e' = k"
      if "k < length (enclave_map s')" "enclave_map s' ! k = Some q" for k q
    proof -
      have k: "k \<noteq> i" "enclave_map s ! k = Some q" "k < length (enclave_map s)"
        using that P i(2) by (auto simp: nth_list_update split: if_splits)
      then have "q \<noteq> p" using sys_inv_unique [OF inv i(2,1)] by blast
      then show ?thesis using sys_invD(2) [OF inv k(3,2)] P by auto
    qed
    show "ref_ok (in_table s' q) (h q) e'" if "en_heap s' q = Some e'" for q e'
      using that sys_invD(4) [OF inv, of q e'] P out tbl t'
      by (cases "q = p") (auto simp: ref_ok_def split: if_splits)
  qed (use sys_invD(1,3) [OF inv] P in \<open>auto split: if_splits\<close>)
qed

lemma update_inv:
  assumes "sys_inv (s, h)" and "en_heap s p = Some e" and "en_id e' = en_id e"
    and "en_refcount e' = en_refcount e"
  shows "sys_inv (s\<lparr>en_heap := (en_heap s)(p \<mapsto> e')\<rparr>, h)"
proof -
  have "ref_ok (in_table s p) (h p) e'"
    using sys_invD(4) [OF assms(1,2)] unfolding ref_ok_def assms(4) .
  from sys_inv_cell [OF assms(1-3) this] show ?thesis by simp
qed

lemma sys_reach_inv: "sys_reach c \<Longrightarrow> sys_inv c"
proof (induction rule: sys_reach.induct)
  case sys_start
  show ?case by (rule sys_invI) (auto simp: sys_init_def)
next
  case (sys_next c c')
  from sys_next(2,3) show ?case
  proof (cases rule: sys_step.cases)
    case (create s env i s' p h)
    then show ?thesis using create_inv(1) sys_next(3) by blast
  next
    case (op_open s i p s' h)
    then show ?thesis using get_inv sys_next(3) by (auto simp: enclave_open_def)
  next
    case (op_release h p s s')
    then show ?thesis using put_inv sys_next(3) by (auto simp: enclave_release_def)
  next
    case (op_update s p e e' h)
    then show ?thesis using update_inv sys_next(3) by blast
  next
    case (op_free s i p r ev s' h)
    then show ?thesis using free_inv(1) sys_next(3) by blast
  qed
qed

text \<open>
  In every state the module reaches through successful creations, opens, releases, launches
  and frees, each slot of the table points to a live enclave that carries that slot as its
  index, no two slots point to the same one, every enclave with an open file is still
  allocated, and releasing such a file finds it: no structure is used after it was freed.
\<close>

theorem enclave_table_live:
  assumes "sys_reach (s, h)"
  shows "(i < MAX_ENCLAVES \<longrightarrow> enclave_map s ! i = Some p \<longrightarrow>
      (\<exists>e. en_heap s p = Some e \<and> en_id e = i) \<and>
      (\<forall>j < MAX_ENCLAVES. enclave_map s ! j = Some p \<longrightarrow> j = i)) \<and>
    (0 < h q \<longrightarrow> en_heap s q \<noteq> None \<and> enclave_release s q \<noteq> None)"
proof -
  note inv = sys_reach_inv [OF assms]
  have l: "length (enclave_map s) = MAX_ENCLAVES" by (rule sys_invD(1) [OF inv])
  have "0 < h q \<longrightarrow> en_heap s q \<noteq> None \<and> enclave_release s q \<noteq> None"
    using sys_inv_handle [OF inv, of q] by (auto simp: enclave_release_def enclave_put_def)
  moreover note sys_invD(2) [OF inv, unfolded l] sys_inv_unique [OF inv, unfolded l]
  ultimately show ?thesis by blast
qed

definition demo_env :: "nat \<Rightarrow> create_env" where
  "demo_env p = \<lparr>ce_addr = Some p, ce_htable = True, ce_table = True, ce_cdev = True, ce_device = True\<rparr>"

lemma demo_create:
  "\<exists>s. pisces_enclave_create sys_init (demo_env 100) = Some (int 0, s) \<and> enclave_map s ! 0 = Some 100 \<and>
     (\<exists>e. en_heap s 100 = Some e \<and> en_id e = 0 \<and> en_refcount e = 1 \<and> pci_dev_list (en_pci_state e) = [])"
proof -
  obtain fs' where "init_enclave_fs (en_fs_state zero_enclave) True True = Some (0, fs')"
    using init_fs_ok [of "en_fs_state zero_enclave"] by (auto simp: zero_enclave_def)
  moreover have "index_loop (enclave_map sys_init) 0 = Some 0"
    by (simp add: sys_init_def MAX_ENCLAVES_def numeral_eq_Suc)
  moreover have "0 < length (enclave_map sys_init)" by (simp add: sys_init_def MAX_ENCLAVES_def)
  ultimately show ?thesis
    by (auto simp: pisces_enclave_create_def demo_env_def alloc_enclave_index_def init_enclave_pci_def Let_def)
qed

lemma demo_reach:
  assumes "pisces_enclave_create sys_init (demo_env 100) = Some (int 0, s)"
  shows "sys_reach (s, \<lambda>_. 0)"
proof -
  have "sys_step (sys_init, \<lambda>_. 0) (s, \<lambda>_. 0)"
    by (rule sys_step.create [OF assms]) (auto simp: demo_env_def sys_init_def)
  then show ?thesis using sys_reach.intros by blast
qed

theorem enclave_table_live_witness:
  "\<exists>s :: pisces_sys. enclave_map s ! 0 = Some 100 \<and> (\<exists>e. en_heap s 100 = Some e \<and> en_id e = 0)"
proof -
  obtain s where s: "pisces_enclave_create sys_init (demo_env 100) = Some (int 0, s)"
    "enclave_map s ! 0 = Some 100" using demo_create by blast
  then have "sys_reach (s, \<lambda>_. 0)" by (intro demo_reach)
  from enclave_table_live [OF this, of 0 100 0] s(2) show ?thesis by (auto simp: MAX_ENCLAVES_def)
qed

text \<open>
  Freeing an enclave that nobody holds open empties its slot, releases its structure, and
  leaves every other slot and every other enclave untouched.
\<close>

theorem enclave_free_releases:
  assumes "sys_reach (s, h)" and "i < MAX_ENCLAVES" and "enclave_map s ! i = Some p" and "h p = 0"
    and "pisces_enclave_free s p = Some (r, ev, s')"
  shows "r = 0 \<and> enclave_map s' = (enclave_map s)[i := None] \<and> en_heap s' p = None \<and>
    (\<forall>q. q \<noteq> p \<longrightarrow> en_heap s' q = en_heap s q)"
proof -
  note inv = sys_reach_inv [OF assms(1)]
  have i: "i < length (enclave_map s)" using assms(2) sys_invD(1) [OF inv] by simp
  have "r = 0" using assms(5) by (auto simp: pisces_enclave_free_def Let_def split: bind_splits if_splits)
  with free_inv [OF inv assms(3) i assms(5)] assms(4) show ?thesis by blast
qed

theorem enclave_free_releases_witness:
  "\<exists>s s' ev. enclave_map s ! 0 = Some 100 \<and> pisces_enclave_free s 100 = Some (0, ev, s') \<and>
     enclave_map s' ! 0 = None \<and> en_heap s' 100 = None"
proof -
  obtain s0 e where s0: "pisces_enclave_create sys_init (demo_env 100) = Some (int 0, s0)"
    "enclave_map s0 ! 0 = Some 100" and e: "en_heap s0 100 = Some e" "en_id e = 0" "en_refcount e = 1"
    "pci_dev_list (en_pci_state e) = []" using demo_create by blast
  then have r0: "sys_reach (s0, \<lambda>_. 0)" by (intro demo_reach)
  note inv0 = sys_reach_inv [OF r0]
  let ?e = "snd (pisces_enclave_launch e 0 True 0)"
  let ?s = "s0\<lparr>en_heap := (en_heap s0)(100 \<mapsto> ?e)\<rparr>"
  have "sys_step (s0, \<lambda>_. 0) (?s, \<lambda>_. 0)"
    using e by (intro sys_step.op_update) (auto simp: pisces_enclave_launch_def)
  then have r: "sys_reach (?s, \<lambda>_. 0)" using r0 sys_reach.intros by blast
  obtain ev s' where f: "pisces_enclave_free ?s 100 = Some (0, ev, s')"
    using e by (simp add: pisces_enclave_free_def pisces_enclave_launch_def free_enclave_index_def
        enclave_put_def deinit_enclave_pci_def Let_def)
  from enclave_free_releases [OF r _ _ _ f, of 0] s0(2) show ?thesis
    using f sys_invD(1) [OF inv0] by (intro exI [of _ ?s] exI [of _ s'] exI [of _ ev]) (auto simp: MAX_ENCLAVES_def)
qed



section \<open>Memory and CPUs of an enclave\<close>

text \<open>
  The bookkeeping of an enclave's resources: the memory list is sorted by address and as long as
  its counter says, and the CPU counter is the size of the CPU mask.
\<close>

definition res_ok :: "pisces_enclave \<Rightarrow> bool" where
  "res_ok e \<longleftrightarrow> sorted (map mb_base_addr (en_memdesc_list e)) \<and>
     length (en_memdesc_list e) = unat (en_memdesc_num e) \<and>
     finite (en_assigned_cpus e) \<and> card (en_assigned_cpus e) = unat (en_num_cpus e)"

lemma mem_insert_mset: "ms \<noteq> [] \<Longrightarrow> mset (mem_insert m ms) = add_mset m (mset ms)"
  by (induction ms) auto

lemma mem_insert_set: "ms \<noteq> [] \<Longrightarrow> set (mem_insert m ms) = insert m (set ms)"
  by (induction ms) auto

lemma mem_insert_sorted: "sorted (map mb_base_addr ms) \<Longrightarrow> sorted (map mb_base_addr (mem_insert m ms))"
proof (induction ms)
  case (Cons b ms)
  then show ?case by (cases "ms = []") (auto simp: mem_insert_set)
qed simp

lemma add_mem_eq:
  assumes "res_ok e"
  shows "\<exists>ms. pisces_enclave_add_mem e b p True = Some (0, e\<lparr>en_memdesc_list := ms, en_memdesc_num := en_memdesc_num e + 1\<rparr>) \<and>
    sorted (map mb_base_addr ms) \<and> mset ms = add_mset \<lparr>mb_base_addr = b, mb_pages = p\<rparr> (mset (en_memdesc_list e))"
proof (cases "en_memdesc_num e = 0")
  case True
  then have "en_memdesc_list e = []" using assms by (simp add: res_ok_def)
  then show ?thesis using True by (simp add: pisces_enclave_add_mem_def)
next
  case False
  then have "en_memdesc_list e \<noteq> []" using assms by (auto simp: res_ok_def unat_eq_zero_iff)
  then show ?thesis using False assms
    by (intro exI [of _ "mem_insert \<lparr>mb_base_addr = b, mb_pages = p\<rparr> (en_memdesc_list e)"])
      (simp add: pisces_enclave_add_mem_def res_ok_def mem_insert_mset mem_insert_sorted)
qed

lemma add_mem_ok:
  assumes "res_ok e" and "length (en_memdesc_list e) < 4294967295"
    and "pisces_enclave_add_mem e b p True = Some (r, e')"
  shows "res_ok e'" and "r = 0"
    and "mset (en_memdesc_list e') = add_mset \<lparr>mb_base_addr = b, mb_pages = p\<rparr> (mset (en_memdesc_list e))"
    and "en_assigned_cpus e' = en_assigned_cpus e"
    and "e' = e\<lparr>en_memdesc_list := en_memdesc_list e', en_memdesc_num := en_memdesc_num e'\<rparr>"
proof -
  obtain ms where ms: "r = 0" "e' = e\<lparr>en_memdesc_list := ms, en_memdesc_num := en_memdesc_num e + 1\<rparr>"
    "sorted (map mb_base_addr ms)"
    "mset ms = add_mset \<lparr>mb_base_addr = b, mb_pages = p\<rparr> (mset (en_memdesc_list e))"
    using add_mem_eq [OF assms(1), of b p] assms(3) by auto
  have "length ms = length (en_memdesc_list e) + 1" using arg_cong [OF ms(4), of size] by simp
  moreover have "unat (en_memdesc_num e + 1) = unat (en_memdesc_num e) + 1"
    using assms(1,2) by (intro unat_add_small [THEN trans]) (simp_all add: res_ok_def)
  ultimately show "res_ok e'" using ms assms(1) by (simp add: res_ok_def)
qed (use add_mem_eq [OF assms(1), of b p] assms(3) in auto)

text \<open>
  C28: Assigning a memory block keeps the list of blocks sorted by address and in step with its
  counter, adds exactly the new block, and always succeeds once the descriptor is allocated;
  assigning a CPU that is already assigned is refused without effect, any other one is added and
  counted.
\<close>

theorem enclave_resources_tracked:
  assumes "res_ok e" and "length (en_memdesc_list e) < 4294967295" and "card (en_assigned_cpus e) < 4294967295"
  shows "(\<exists>e'. pisces_enclave_add_mem e b p True = Some (0, e') \<and> res_ok e' \<and>
      mset (en_memdesc_list e') = add_mset \<lparr>mb_base_addr = b, mb_pages = p\<rparr> (mset (en_memdesc_list e)) \<and>
      en_assigned_cpus e' = en_assigned_cpus e) \<and>
    (case pisces_enclave_add_cpu e c of (r, e') \<Rightarrow>
      if unat c \<in> en_assigned_cpus e then r = -1 \<and> e' = e
      else r = 0 \<and> res_ok e' \<and> en_assigned_cpus e' = insert (unat c) (en_assigned_cpus e) \<and>
        en_memdesc_list e' = en_memdesc_list e)"
proof -
  obtain e' where e': "pisces_enclave_add_mem e b p True = Some (0, e')" using add_mem_eq [OF assms(1)] by blast
  have "unat (en_num_cpus e + 1) = unat (en_num_cpus e) + 1"
    using assms(1,3) by (intro unat_add_small [THEN trans]) (simp_all add: res_ok_def)
  then show ?thesis using e' add_mem_ok [OF assms(1,2) e'] assms(1)
    by (auto simp: pisces_enclave_add_cpu_def res_ok_def)
qed

theorem enclave_resources_tracked_witness:
  "\<exists>e' :: pisces_enclave. pisces_enclave_add_mem zero_enclave 0x1000000 32 True = Some (0, e') \<and>
     mset (en_memdesc_list e') = {#\<lparr>mb_base_addr = 0x1000000, mb_pages = 32\<rparr>#}"
  using enclave_resources_tracked [where e = zero_enclave and b = "0x1000000" and p = 32 and c = 0] by (auto simp: res_ok_def zero_enclave_def)

lemma add_cpu_ok:
  assumes "res_ok e" and "card (en_assigned_cpus e) < 4294967295"
  shows "res_ok (snd (pisces_enclave_add_cpu e c))"
    and "en_assigned_cpus (snd (pisces_enclave_add_cpu e c)) = insert (unat c) (en_assigned_cpus e)"
    and "en_memdesc_list (snd (pisces_enclave_add_cpu e c)) = en_memdesc_list e"
proof -
  have "unat (en_num_cpus e + 1) = unat (en_num_cpus e) + 1"
    using assms by (intro unat_add_small [THEN trans]) (simp_all add: res_ok_def)
  then show "res_ok (snd (pisces_enclave_add_cpu e c))"
    using assms(1) by (auto simp: pisces_enclave_add_cpu_def res_ok_def)
qed (auto simp: pisces_enclave_add_cpu_def)

definition boot_block :: "enclave_boot_env \<Rightarrow> nat \<Rightarrow> enclave_mem_block" where
  "boot_block env i = \<lparr>mb_base_addr = be_base_addr env + of_nat i * be_block_size env,
     mb_pages = ucast (be_block_size env div 4096)\<rparr>"

lemma launch_blocks_ok:
  assumes "res_ok e" and "length (en_memdesc_list e) + length is < 4294967296"
  shows "\<exists>e'. launch_blocks e env is = Some e' \<and> res_ok e' \<and>
    mset (en_memdesc_list e') = mset (en_memdesc_list e) + mset (map (boot_block env) is) \<and>
    e' = e\<lparr>en_memdesc_list := en_memdesc_list e', en_memdesc_num := en_memdesc_num e'\<rparr>"
  using assms
proof (induction "is" arbitrary: e)
  case (Cons i "is")
  let ?b = "boot_block env i"
  obtain e1 where e1: "pisces_enclave_add_mem e (mb_base_addr ?b) (mb_pages ?b) True = Some (0, e1)"
    using add_mem_eq [OF Cons.prems(1)] by blast
  have l: "length (en_memdesc_list e) < 4294967295" using Cons.prems(2) by simp
  note A = add_mem_ok [OF Cons.prems(1) l e1]
  have "length (en_memdesc_list e1) = length (en_memdesc_list e) + 1" using arg_cong [OF A(3), of size] by simp
  then obtain e2 where e2: "launch_blocks e1 env is = Some e2" "res_ok e2"
    "mset (en_memdesc_list e2) = mset (en_memdesc_list e1) + mset (map (boot_block env) is)"
    "e2 = e1\<lparr>en_memdesc_list := en_memdesc_list e2, en_memdesc_num := en_memdesc_num e2\<rparr>"
    using Cons.IH [OF A(1)] Cons.prems(2) by auto
  have b: "\<lparr>mb_base_addr = mb_base_addr ?b, mb_pages = mb_pages ?b\<rparr> = ?b" by simp
  have "e2 = e\<lparr>en_memdesc_list := en_memdesc_list e2, en_memdesc_num := en_memdesc_num e2\<rparr>"
    using e2(4) A(5) by (cases e; cases e1; cases e2) simp
  moreover have "launch_blocks e env (i # is) = Some e2" using e1 e2(1) by (simp add: boot_block_def)
  ultimately show ?case using e2(2,3) A(3) by (intro exI [of _ e2]) (simp add: b)
qed simp

text \<open>
  A launch request records in the enclave exactly the memory blocks of its boot environment
  (in address order, counted) and its boot CPU and touches no device, whatever the boot itself answers; the enclave is
  marked as running exactly when both the boot parameters and the boot succeed, and its state is
  left as it was otherwise.
\<close>

theorem enclave_launch_records:
  assumes "res_ok e" and "length (en_memdesc_list e) + unat (be_num_blocks env) < 4294967296"
    and "card (en_assigned_cpus e) < 4294967295"
  shows "\<exists>r e'. ioctl_launch e (Some env) setup_ret lcall_up boot_ret = Some (r, e') \<and> res_ok e' \<and>
    mset (en_memdesc_list e') = mset (en_memdesc_list e) + mset (map (boot_block env) [0..<unat (be_num_blocks env)]) \<and>
    en_assigned_cpus e' = insert (unat (be_cpu_id env)) (en_assigned_cpus e) \<and> en_boot_cpu e' = be_cpu_id env \<and>
    en_pci_state e' = en_pci_state e \<and>
    (if setup_ret \<noteq> -1 \<and> boot_ret \<noteq> -1 then r = 0 \<and> en_state e' = ENCLAVE_RUNNING
     else r = -1 \<and> en_state e' = en_state e)"
proof -
  define e1 where "e1 = e\<lparr>en_bootmem_addr_pa := be_base_addr env,
    en_bootmem_size := (ucast (be_num_blocks env) * be_block_size env) div 4096 * 4096, en_boot_cpu := be_cpu_id env\<rparr>"
  define e2 where "e2 = snd (pisces_enclave_add_cpu e1 (be_cpu_id env))"
  have 1: "res_ok e1" "card (en_assigned_cpus e1) < 4294967295" using assms(1,3) by (simp_all add: e1_def res_ok_def)
  note C = add_cpu_ok [OF 1, of "be_cpu_id env", folded e2_def]
  have "length (en_memdesc_list e2) + length [0..<unat (be_num_blocks env)] < 4294967296"
    using assms(2) C(3) by (simp add: e1_def)
  from launch_blocks_ok [OF C(1) this, of env] obtain e3 where e3:
    "launch_blocks e2 env [0..<unat (be_num_blocks env)] = Some e3" "res_ok e3"
    "mset (en_memdesc_list e3) = mset (en_memdesc_list e2) + mset (map (boot_block env) [0..<unat (be_num_blocks env)])"
    "e3 = e2\<lparr>en_memdesc_list := en_memdesc_list e3, en_memdesc_num := en_memdesc_num e3\<rparr>" by blast
  have f: "en_state e3 = en_state e" "en_boot_cpu e3 = be_cpu_id env" "en_assigned_cpus e3 = en_assigned_cpus e2"
    "en_pci_state e3 = en_pci_state e"
    by (subst e3(4), simp add: e2_def e1_def pisces_enclave_add_cpu_def)+
  obtain r e4 where e4: "pisces_enclave_launch e3 setup_ret lcall_up boot_ret = (r, e4)" by fastforce
  then have run: "ioctl_launch e (Some env) setup_ret lcall_up boot_ret = Some (r, e4)"
    using e3(1) by (simp add: ioctl_launch_def Let_def e1_def [symmetric] e2_def [symmetric])
  have L: "en_memdesc_list e4 = en_memdesc_list e3" "en_assigned_cpus e4 = en_assigned_cpus e3"
    "en_boot_cpu e4 = en_boot_cpu e3" "en_memdesc_num e4 = en_memdesc_num e3" "en_num_cpus e4 = en_num_cpus e3"
    "en_pci_state e4 = en_pci_state e3"
    "if setup_ret \<noteq> -1 \<and> boot_ret \<noteq> -1 then r = 0 \<and> en_state e4 = ENCLAVE_RUNNING
     else r = -1 \<and> en_state e4 = en_state e3"
    using e4 by (auto simp: pisces_enclave_launch_def Let_def split: if_splits)
  have "res_ok e4" using e3(2) L by (simp add: res_ok_def)
  moreover have "en_assigned_cpus e1 = en_assigned_cpus e" "en_memdesc_list e1 = en_memdesc_list e"
    by (simp_all add: e1_def)
  ultimately show ?thesis using run L f C(2,3) e3(3) by (intro exI [of _ r] exI [of _ e4]) simp
qed

definition demo_boot_env :: enclave_boot_env where
  "demo_boot_env = \<lparr>be_base_addr = 0x8000000, be_block_size = 0x8000000, be_num_blocks = 2, be_cpu_id = 1\<rparr>"

theorem enclave_launch_records_witness:
  "\<exists>e'. ioctl_launch zero_enclave (Some demo_boot_env) 0 True 0 = Some (0, e') \<and> en_state e' = ENCLAVE_RUNNING \<and>
     mset (en_memdesc_list e') = mset (map (boot_block demo_boot_env) [0, 1])"
proof -
  have "res_ok zero_enclave" by (simp add: res_ok_def zero_enclave_def)
  moreover have "[0..<unat (be_num_blocks demo_boot_env)] = [0, 1]" by (simp add: demo_boot_env_def upt_rec)
  moreover have "unat (be_num_blocks demo_boot_env) = 2" "en_memdesc_list zero_enclave = []" "en_assigned_cpus zero_enclave = {}"
    by (simp_all add: demo_boot_env_def zero_enclave_def)
  ultimately show ?thesis using enclave_launch_records [of zero_enclave demo_boot_env 0 True 0] by auto
qed

text \<open>
  The memory file reports the end of a block as its base plus \<open>pages * 4096\<close> computed in 32
  bits: a block of 4 GB is reported as an empty range, while a block below 4 GB is reported
  with its true extent.
\<close>

theorem proc_mem_show_extent:
  assumes "i < length (en_memdesc_list e)" and "b = en_memdesc_list e ! i"
  shows "snd (proc_mem_show e) ! i = (i, mb_base_addr b, mb_base_addr b + of_nat (unat (mb_pages b) * 4096 mod 2 ^ 32))"
proof -
  have "ucast (mb_pages b * 4096) = (of_nat (unat (mb_pages b) * 4096 mod 2 ^ 32) :: u64)"
    by (simp add: ucast_unat_u32 unat_word_ariths)
  then show ?thesis using assms by (simp add: proc_mem_show_def nth_enumerate_eq)
qed

theorem proc_mem_show_extent_witness:
  "snd (proc_mem_show (zero_enclave\<lparr>en_memdesc_list := [\<lparr>mb_base_addr = 0x100000000, mb_pages = 0x100000\<rparr>]\<rparr>)) ! 0 =
     (0, 0x100000000, 0x100000000)"
  using proc_mem_show_extent [of 0 "zero_enclave\<lparr>en_memdesc_list := [\<lparr>mb_base_addr = 0x100000000, mb_pages = 0x100000\<rparr>]\<rparr>"
      "\<lparr>mb_base_addr = 0x100000000, mb_pages = 0x100000\<rparr>"] by simp

end
