(* ===== verification/CtrlCmd.thy ===== *)
theory CtrlCmd
  imports Prelude
begin

text \<open>
  The messages of the control channel (\<open>ctrl_ioctl.h\<close>): the packed command structures as the bytes
  that go through the channel, little-endian, with a header that carries the command number and
  the number of payload bytes; the response header; the structures the module copies from user
  space. Shown: every command can be parsed back from its bytes, with a length field that counts
  exactly the bytes that follow.
\<close>

section \<open>Little-endian integers\<close>

fun le :: "nat \<Rightarrow> nat \<Rightarrow> bytes" where
  "le 0 v = []"
| "le (Suc n) v = of_nat (v mod 256) # le n (v div 256)"

fun of_le :: "bytes \<Rightarrow> nat" where
  "of_le [] = 0"
| "of_le (b # bs) = unat b + 256 * of_le bs"

lemma length_le [simp]: "length (le n v) = n"
  by (induction n arbitrary: v) auto

lemma of_le_le: "of_le (le n v) = v mod 256 ^ n"
proof (induction n arbitrary: v)
  case (Suc n)
  have "unat (of_nat (v mod 256) :: u8) = v mod 256" by (simp add: unat_of_nat take_bit_nat_eq_self)
  then show ?case using Suc mod_mult2_eq [of v 256 "256 ^ n"] by simp
qed simp

lemma of_le_u64 [simp]: "of_le (le 8 (unat (w :: u64))) = unat w"
  using unat_u64_lt [of w] by (simp add: of_le_le)

lemma of_le_u32 [simp]: "of_le (le 4 (unat (w :: u32))) = unat w"
  using unat_u32_lt [of w] by (simp add: of_le_le)

section \<open>Command numbers\<close>

abbreviation PISCES_CMD_ADD_CPU :: u64 where "PISCES_CMD_ADD_CPU \<equiv> 100"
abbreviation PISCES_CMD_ADD_MEM :: u64 where "PISCES_CMD_ADD_MEM \<equiv> 101"
abbreviation PISCES_CMD_REMOVE_CPU :: u64 where "PISCES_CMD_REMOVE_CPU \<equiv> 110"
abbreviation PISCES_CMD_REMOVE_MEM :: u64 where "PISCES_CMD_REMOVE_MEM \<equiv> 111"
abbreviation PISCES_CMD_CREATE_VM :: u64 where "PISCES_CMD_CREATE_VM \<equiv> 120"
abbreviation PISCES_CMD_FREE_VM :: u64 where "PISCES_CMD_FREE_VM \<equiv> 121"
abbreviation PISCES_CMD_LAUNCH_VM :: u64 where "PISCES_CMD_LAUNCH_VM \<equiv> 122"
abbreviation PISCES_CMD_STOP_VM :: u64 where "PISCES_CMD_STOP_VM \<equiv> 123"
abbreviation PISCES_CMD_PAUSE_VM :: u64 where "PISCES_CMD_PAUSE_VM \<equiv> 124"
abbreviation PISCES_CMD_CONTINUE_VM :: u64 where "PISCES_CMD_CONTINUE_VM \<equiv> 125"
abbreviation PISCES_CMD_VM_DBG :: u64 where "PISCES_CMD_VM_DBG \<equiv> 141"
abbreviation PISCES_CMD_VM_CONS_CONNECT :: u64 where "PISCES_CMD_VM_CONS_CONNECT \<equiv> 150"
abbreviation PISCES_CMD_VM_CONS_DISCONNECT :: u64 where "PISCES_CMD_VM_CONS_DISCONNECT \<equiv> 151"
abbreviation PISCES_CMD_VM_CONS_KEYCODE :: u64 where "PISCES_CMD_VM_CONS_KEYCODE \<equiv> 152"
abbreviation PISCES_CMD_ADD_V3_PCI :: u64 where "PISCES_CMD_ADD_V3_PCI \<equiv> 180"
abbreviation PISCES_CMD_FREE_V3_PCI :: u64 where "PISCES_CMD_FREE_V3_PCI \<equiv> 190"
abbreviation PISCES_CMD_LAUNCH_JOB :: u64 where "PISCES_CMD_LAUNCH_JOB \<equiv> 200"
abbreviation PISCES_CMD_LOAD_FILE :: u64 where "PISCES_CMD_LOAD_FILE \<equiv> 201"
abbreviation PISCES_CMD_STORE_FILE :: u64 where "PISCES_CMD_STORE_FILE \<equiv> 202"
abbreviation PISCES_CMD_SHUTDOWN :: u64 where "PISCES_CMD_SHUTDOWN \<equiv> 900"

section \<open>The structures\<close>

text \<open>
  \<open>struct pisces_cmd\<close> is the header: the command number and the payload length. Every command
  structure starts with it.
\<close>

definition pisces_cmd :: "u64 \<Rightarrow> nat \<Rightarrow> bytes" where
  "pisces_cmd cmd data_len = le 8 (unat cmd) @ le 4 data_len"

definition sizeof_pisces_cmd :: nat where "sizeof_pisces_cmd = 8 + 4"
definition sizeof_cmd_cpu_add :: nat where "sizeof_cmd_cpu_add = sizeof_pisces_cmd + 8 + 8"
definition sizeof_cmd_mem_add :: nat where "sizeof_cmd_mem_add = sizeof_pisces_cmd + 8 + 8"
definition sizeof_vm_path :: nat where "sizeof_vm_path = 256 + 128"
definition sizeof_cmd_create_vm :: nat where "sizeof_cmd_create_vm = sizeof_pisces_cmd + sizeof_vm_path"
definition sizeof_cmd_vm_ctrl :: nat where "sizeof_cmd_vm_ctrl = sizeof_pisces_cmd + 4"
definition sizeof_cmd_vm_cons_keycode :: nat where "sizeof_cmd_vm_cons_keycode = sizeof_pisces_cmd + 4 + 1"
definition sizeof_pisces_dbg_spec :: nat where "sizeof_pisces_dbg_spec = 4 + 4 + 4"
definition sizeof_cmd_vm_debug :: nat where "sizeof_cmd_vm_debug = sizeof_pisces_cmd + sizeof_pisces_dbg_spec"
definition sizeof_pisces_pci_spec :: nat where "sizeof_pisces_pci_spec = 128 + 4 + 4 + 4"
definition sizeof_cmd_add_pci_dev :: nat where "sizeof_cmd_add_pci_dev = sizeof_pisces_cmd + sizeof_pisces_pci_spec + 4"
definition sizeof_cmd_free_pci_dev :: nat where "sizeof_cmd_free_pci_dev = sizeof_pisces_cmd + sizeof_pisces_pci_spec"
definition sizeof_pisces_job_spec :: nat where "sizeof_pisces_job_spec = 64 + 256 + 256 + 256 + 8 + 1 + 8 + 8 + 8"
definition sizeof_cmd_launch_job :: nat where "sizeof_cmd_launch_job = sizeof_pisces_cmd + sizeof_pisces_job_spec"
definition sizeof_pisces_file_pair :: nat where "sizeof_pisces_file_pair = 128 + 128"
definition sizeof_cmd_load_file :: nat where "sizeof_cmd_load_file = sizeof_pisces_cmd + sizeof_pisces_file_pair"
definition sizeof_cmd_store_file :: nat where "sizeof_cmd_store_file = sizeof_pisces_cmd + sizeof_pisces_file_pair"
definition sizeof_memory_range :: nat where "sizeof_memory_range = 8 + 8"

lemmas sizeofs = sizeof_pisces_cmd_def sizeof_cmd_cpu_add_def sizeof_cmd_mem_add_def sizeof_vm_path_def
  sizeof_cmd_create_vm_def sizeof_cmd_vm_ctrl_def sizeof_cmd_vm_cons_keycode_def sizeof_pisces_dbg_spec_def
  sizeof_cmd_vm_debug_def sizeof_pisces_pci_spec_def sizeof_cmd_add_pci_dev_def sizeof_cmd_free_pci_dev_def
  sizeof_pisces_job_spec_def sizeof_cmd_launch_job_def sizeof_pisces_file_pair_def sizeof_cmd_load_file_def
  sizeof_cmd_store_file_def sizeof_memory_range_def

definition cmd_cpu_add :: "u64 \<Rightarrow> u64 \<Rightarrow> u64 \<Rightarrow> bytes" where
  "cmd_cpu_add cmd phys_cpu_id apic_id =
     pisces_cmd cmd (sizeof_cmd_cpu_add - sizeof_pisces_cmd) @ le 8 (unat phys_cpu_id) @ le 8 (unat apic_id)"

definition cmd_mem_add :: "u64 \<Rightarrow> u64 \<Rightarrow> bytes" where
  "cmd_mem_add phys_addr size_bytes =
     pisces_cmd PISCES_CMD_ADD_MEM (sizeof_cmd_mem_add - sizeof_pisces_cmd) @
     le 8 (unat phys_addr) @ le 8 (unat size_bytes)"

definition cmd_vm_ctrl :: "u64 \<Rightarrow> u32 \<Rightarrow> bytes" where
  "cmd_vm_ctrl cmd vm_id = pisces_cmd cmd (sizeof_cmd_vm_ctrl - sizeof_pisces_cmd) @ le 4 (unat vm_id)"

definition cmd_vm_cons_keycode :: "u32 \<Rightarrow> u8 \<Rightarrow> bytes" where
  "cmd_vm_cons_keycode vm_id scan_code =
     pisces_cmd PISCES_CMD_VM_CONS_KEYCODE (sizeof_cmd_vm_cons_keycode - sizeof_pisces_cmd) @
     le 4 (unat vm_id) @ [scan_code]"

text \<open>A structure copied from user space behind a header.\<close>

definition cmd_create_vm :: "bytes \<Rightarrow> bytes" where
  "cmd_create_vm path = pisces_cmd PISCES_CMD_CREATE_VM (sizeof_cmd_create_vm - sizeof_pisces_cmd) @ path"

definition cmd_vm_debug :: "bytes \<Rightarrow> bytes" where
  "cmd_vm_debug dbg_spec = pisces_cmd PISCES_CMD_VM_DBG (sizeof_cmd_vm_debug - sizeof_pisces_cmd) @ dbg_spec"

definition cmd_add_pci_dev :: "bytes \<Rightarrow> u32 \<Rightarrow> bytes" where
  "cmd_add_pci_dev spec device_ipi_vector =
     pisces_cmd PISCES_CMD_ADD_V3_PCI (sizeof_cmd_add_pci_dev - sizeof_pisces_cmd) @ spec @ le 4 (unat device_ipi_vector)"

definition cmd_free_pci_dev :: "bytes \<Rightarrow> bytes" where
  "cmd_free_pci_dev spec = pisces_cmd PISCES_CMD_FREE_V3_PCI (sizeof_cmd_free_pci_dev - sizeof_pisces_cmd) @ spec"

definition cmd_launch_job :: "bytes \<Rightarrow> bytes" where
  "cmd_launch_job spec = pisces_cmd PISCES_CMD_LAUNCH_JOB (sizeof_cmd_launch_job - sizeof_pisces_cmd) @ spec"

definition cmd_load_file :: "bytes \<Rightarrow> bytes" where
  "cmd_load_file file_pair = pisces_cmd PISCES_CMD_LOAD_FILE (sizeof_cmd_load_file - sizeof_pisces_cmd) @ file_pair"

definition cmd_store_file :: "bytes \<Rightarrow> bytes" where
  "cmd_store_file file_pair = pisces_cmd PISCES_CMD_STORE_FILE (sizeof_cmd_store_file - sizeof_pisces_cmd) @ file_pair"

lemmas cmd_defs = cmd_cpu_add_def cmd_mem_add_def cmd_vm_ctrl_def cmd_vm_cons_keycode_def cmd_create_vm_def
  cmd_vm_debug_def cmd_add_pci_dev_def cmd_free_pci_dev_def cmd_launch_job_def cmd_load_file_def cmd_store_file_def

text \<open>
  The \<open>status\<close> field of a response. A buffer shorter than the field is read past its end, which
  is \<open>None\<close>.
\<close>

definition resp_status :: "bytes \<Rightarrow> u64 option" where
  "resp_status resp = (if length resp < 8 then None else Some (of_nat (of_le (take 8 resp))))"

definition pisces_resp :: "u64 \<Rightarrow> u32 \<Rightarrow> bytes" where
  "pisces_resp status data_len = le 8 (unat status) @ le 4 (unat data_len)"

lemma resp_status_resp [simp]: "resp_status (pisces_resp s n @ d) = Some s"
  by (simp add: resp_status_def pisces_resp_def)

section \<open>Parsing\<close>

text \<open>A message read back as command number, length field and payload.\<close>

definition parse_cmd :: "bytes \<Rightarrow> (nat \<times> nat \<times> bytes) option" where
  "parse_cmd m = (if length m < sizeof_pisces_cmd then None
     else Some (of_le (take 8 m), of_le (take 4 (drop 8 m)), drop sizeof_pisces_cmd m))"

lemma parse_cmd_eq: "parse_cmd (pisces_cmd c n @ d) = Some (unat c, n mod 2 ^ 32, d)"
  by (simp add: parse_cmd_def pisces_cmd_def sizeof_pisces_cmd_def of_le_le [of 4])

text \<open>A well-framed message: its length field counts exactly the bytes that follow the header.\<close>

definition framed :: "u64 \<Rightarrow> bytes \<Rightarrow> bool" where
  "framed c m = (case parse_cmd m of None \<Rightarrow> False | Some (cmd, n, d) \<Rightarrow> cmd = unat c \<and> n = length d)"

lemma framed_cmd: "length d = n \<Longrightarrow> n < 2 ^ 32 \<Longrightarrow> framed c (pisces_cmd c n @ d)"
  by (simp add: framed_def parse_cmd_eq)

end
