(* ===== verification/V3Console.thy ===== *)
theory V3Console
  imports PiscesLock Irq CtrlCmd
begin

text \<open>
  The console of a virtual machine inside an enclave (\<open>v3_console.c\<close>): the ring of screen messages
  the enclave fills, its reader, the keyboard codes sent over the control channel, and connecting
  and releasing the console with its interrupt line.

  Shown: the messages leave the ring in order; a write sends one well-framed key code command per
  byte, in order, and stops at the first fault; a connect that fails after its interrupt line is
  requested keeps the line, and a line without a vector is not noticed.
\<close>

section \<open>The ring of console messages\<close>

text \<open>\<open>struct cons_msg\<close>: the operation and the union of its four bodies, 11 bytes in all.\<close>

datatype cons_msg =
    CONSOLE_CURS_SET u32 u32
  | CONSOLE_CHAR_SET u32 u32 u8 u8
  | CONSOLE_SCROLL u32
  | CONSOLE_UPDATE
  | CONSOLE_RESOLUTION u32 u32

definition sizeof_cons_msg :: nat where
  "sizeof_cons_msg = 1 + (4 + 4 + 1 + 1)"

record cons_ring_buf =
  rg_lock :: pisces_spinlock
  rg_read_idx :: u16
  rg_write_idx :: u16
  rg_cur_entries :: u16
  rg_total_entries :: u16
  rg_kick_ipi_vec :: u16
  rg_kick_apic :: u16
  rg_msgs :: "cons_msg list"

text \<open>
  The copy out of the ring is \<open>None\<close> when the index leaves the array; so is the remainder by a
  total of 0 entries, which the processor refuses.
\<close>

definition cons_dequeue :: "cons_ring_buf \<Rightarrow> (int \<times> cons_msg option \<times> cons_ring_buf) option" where
  "cons_dequeue r = do {
     l \<leftarrow> pisces_spin_lock (rg_lock r);
     let r1 = r\<lparr>rg_lock := l\<rparr>;
     if rg_cur_entries r1 > 0
     then if length (rg_msgs r1) \<le> unat (rg_read_idx r1) \<or> rg_total_entries r1 = 0 then None
       else Some (0, Some (rg_msgs r1 ! unat (rg_read_idx r1)),
         r1\<lparr>rg_cur_entries := rg_cur_entries r1 - 1,
            rg_read_idx := (rg_read_idx r1 + 1) mod rg_total_entries r1,
            rg_lock := pisces_spin_unlock l\<rparr>)
     else Some (-1, None, r1\<lparr>rg_lock := pisces_spin_unlock l\<rparr>)
   }"

definition cons_kick :: "cons_ring_buf \<Rightarrow> bool" where
  "cons_kick r \<longleftrightarrow> rg_cur_entries r > 0"

text \<open>
  A read after its wait, which ends with a message in the ring or with a signal; \<open>ok\<close> tells whether
  the copy to the user succeeds.
\<close>

definition v3_console_read :: "bool \<Rightarrow> nat \<Rightarrow> cons_ring_buf \<Rightarrow> (int \<times> cons_msg option \<times> cons_ring_buf) option" where
  "v3_console_read ok sz r =
     (if sz \<noteq> sizeof_cons_msg then Some (- EFAULT, None, r)
      else do {
        (ret, msg, r1) \<leftarrow> cons_dequeue r;
        if ret = -1 then Some (- EFAULT, None, r1)
        else if \<not> ok then Some (- EFAULT, None, r1)
        else Some (int sz, msg, r1)
      })"

definition v3_console_poll :: "cons_ring_buf \<Rightarrow> (u32 \<times> cons_ring_buf) option" where
  "v3_console_poll r = do {
     l \<leftarrow> pisces_spin_lock (rg_lock r);
     let entries = rg_cur_entries r;
     Some (if entries > 0 then 0x41 else 0, r\<lparr>rg_lock := pisces_spin_unlock l\<rparr>)
   }"

section \<open>Keyboard codes\<close>

text \<open>
  The loop of \<open>console_write\<close>: the user's bytes, \<open>None\<close> where the copy faults. The result is the
  value returned and the messages handed to \<open>pisces_xbuf_send\<close>, whose result is ignored.
\<close>

fun console_write_loop :: "u32 \<Rightarrow> u8 option list \<Rightarrow> int \<Rightarrow> int \<times> bytes list" where
  "console_write_loop vm_id [] sz = (sz, [])"
| "console_write_loop vm_id (None # us) sz = (- EFAULT, [])"
| "console_write_loop vm_id (Some c # us) sz =
     (let (r, ms) = console_write_loop vm_id us sz in (r, cmd_vm_cons_keycode vm_id c # ms))"

definition console_write :: "u32 \<Rightarrow> u8 option list \<Rightarrow> int \<times> bytes list" where
  "console_write vm_id buf = console_write_loop vm_id buf (int (length buf))"

section \<open>Connecting and releasing\<close>

record palacios_console =
  pl_addr :: nat
  pl_vm_id :: u32
  pl_irq :: int

text \<open>
  \<open>apic0\<close> is the APIC number of CPU 0, \<open>fd\<close> what \<open>anon_inode_getfd\<close> returns. The vector is stored in
  a 16-bit field before the test for a negative value, which therefore never succeeds.
\<close>

definition v3_console_connect ::
    "irq_env \<Rightarrow> nat \<Rightarrow> int \<Rightarrow> u32 \<Rightarrow> u32 \<Rightarrow> cons_ring_buf \<Rightarrow> irq_state \<Rightarrow>
     int \<times> palacios_console option \<times> cons_ring_buf \<times> irq_state" where
  "v3_console_connect env a fd apic0 vm_id ring st =
     (let r1 = ring\<lparr>rg_kick_apic := ucast apic0\<rparr>;
          (irq, st1) = pisces_request_irq env a st
      in if irq < 0 then (-1, None, r1, st1)
         else let r2 = r1\<lparr>rg_kick_ipi_vec := of_int (pisces_irq_to_vector env irq)\<rparr>;
                  cons = \<lparr>pl_addr = a, pl_vm_id = vm_id, pl_irq = irq\<rparr>
              in if uint (rg_kick_ipi_vec r2) < 0 then (-1, None, r2, st1)
                 else if fd < 0 then (fd, None, r2, st1)
                 else (fd, Some cons, r2, st1))"

text \<open>Releasing sends the disconnect command, gives the line back and frees the console.\<close>

definition v3_console_release :: "palacios_console \<Rightarrow> irq_state \<Rightarrow> int \<times> bytes \<times> irq_state" where
  "v3_console_release cons st =
     (0, cmd_vm_ctrl PISCES_CMD_VM_CONS_DISCONNECT (pl_vm_id cons), snd (pisces_release_irq (pl_irq cons) st))"

section \<open>The ring delivers in order\<close>

definition cring_ok :: "cons_ring_buf \<Rightarrow> bool" where
  "cring_ok r \<longleftrightarrow> raw_lock (rg_lock r) = 0 \<and> 0 < rg_total_entries r \<and>
     length (rg_msgs r) = unat (rg_total_entries r) \<and> rg_read_idx r < rg_total_entries r \<and>
     rg_cur_entries r \<le> rg_total_entries r"

definition cring_msgs :: "cons_ring_buf \<Rightarrow> cons_msg list" where
  "cring_msgs r = cyc (rg_msgs r) (unat (rg_read_idx r)) (unat (rg_cur_entries r))"

text \<open>
  On a well-formed ring, taking a console message always comes back and releases the lock. An
  empty ring answers -1 and is unchanged; otherwise the oldest message is delivered, exactly that
  message leaves the ring, and the ring stays well-formed.
\<close>

theorem cons_dequeue_fifo:
  assumes "cring_ok r"
  shows "case cring_msgs r of
      [] \<Rightarrow> cons_dequeue r = Some (-1, None, r)
    | m # ms \<Rightarrow> \<exists>r'. cons_dequeue r = Some (0, Some m, r') \<and> cring_ok r' \<and> cring_msgs r' = ms"
proof (cases "rg_cur_entries r = 0")
  case True
  then show ?thesis using assms by (simp add: cring_msgs_def cons_dequeue_def cring_ok_def)
next
  case False
  have ok: "raw_lock (rg_lock r) = 0" "length (rg_msgs r) = unat (rg_total_entries r)" "rg_total_entries r \<noteq> 0"
    "unat (rg_read_idx r) < unat (rg_total_entries r)" "unat (rg_cur_entries r) \<le> unat (rg_total_entries r)"
    using assms by (auto simp: cring_ok_def word_less_nat_alt word_le_nat_alt)
  let ?n = "unat (rg_cur_entries r)" and ?i = "unat (rg_read_idx r)" and ?t = "unat (rg_total_entries r)"
  have n: "0 < ?n" using False by (simp add: unat_gt_0)
  have c: "unat (rg_cur_entries r - 1) = ?n - 1" using n by (simp add: unat_diff_le)
  have t: "?t < 2 ^ 16" using unsigned_less [of "rg_total_entries r"] by simp
  then have "unat (rg_read_idx r + 1) = ?i + 1" using ok(4) by (intro unat_add_small [THEN trans]) simp_all
  then have i: "unat ((rg_read_idx r + 1) mod rg_total_entries r) = (?i + 1) mod ?t" by (simp add: unat_mod)
  define r' where "r' = r\<lparr>rg_cur_entries := rg_cur_entries r - 1, rg_read_idx := (rg_read_idx r + 1) mod rg_total_entries r\<rparr>"
  have "cons_dequeue r = Some (0, Some (rg_msgs r ! ?i), r')"
    using ok False by (simp add: cons_dequeue_def r'_def word_gt_0)
  moreover have "cring_ok r'" using ok c i n
    by (simp add: cring_ok_def r'_def word_less_nat_alt word_le_nat_alt unat_gt_0)
  moreover have "cring_msgs r = rg_msgs r ! ?i # cring_msgs r'"
  proof -
    have "cring_msgs r = cyc (rg_msgs r) ?i 1 @ cyc (rg_msgs r) (?i + 1) (?n - 1)"
      unfolding cring_msgs_def using n by (intro cyc_split) simp
    also have "cyc (rg_msgs r) ?i 1 = [rg_msgs r ! ?i]" using ok(2,4) by (simp add: cyc_def)
    also have "cyc (rg_msgs r) (?i + 1) (?n - 1) = cring_msgs r'"
      using cyc_mod [of "rg_msgs r" "?i + 1" "?n - 1"] ok(2) c i by (simp add: cring_msgs_def r'_def)
    finally show ?thesis by simp
  qed
  ultimately show ?thesis by simp
qed

definition demo_cring :: cons_ring_buf where
  "demo_cring = \<lparr>rg_lock = \<lparr>raw_lock = 0\<rparr>, rg_read_idx = 1, rg_write_idx = 1, rg_cur_entries = 2, rg_total_entries = 2,
     rg_kick_ipi_vec = 0, rg_kick_apic = 0, rg_msgs = [CONSOLE_UPDATE, CONSOLE_SCROLL 3]\<rparr>"

theorem cons_dequeue_fifo_witness:
  "\<exists>r'. cons_dequeue demo_cring = Some (0, Some (CONSOLE_SCROLL 3), r') \<and> cring_msgs r' = [CONSOLE_UPDATE]"
proof -
  have "cring_ok demo_cring" by (simp add: cring_ok_def demo_cring_def)
  moreover have "cring_msgs demo_cring = [CONSOLE_SCROLL 3, CONSOLE_UPDATE]"
    by (simp add: cring_msgs_def demo_cring_def cyc_def upt_rec)
  ultimately show ?thesis using cons_dequeue_fifo [of demo_cring] by auto
qed

section \<open>What a write sends\<close>

lemma write_loop_eq:
  "console_write_loop vm_id us sz =
     (if None \<in> set us then - EFAULT else sz,
      map (\<lambda>u. cmd_vm_cons_keycode vm_id (the u)) (takeWhile (\<lambda>u. u \<noteq> None) us))"
  by (induction vm_id us sz rule: console_write_loop.induct) auto

text \<open>
  A write to the console of a virtual machine sends one key code command per byte up to the
  first byte that cannot be read, in order. Each command is well-framed and carries the machine
  and the byte. The write returns the full size when every byte could be read, and a fault
  otherwise, the commands before the fault having been sent.
\<close>

theorem v3_console_write_sends:
  "case console_write vm_id buf of (r, ms) \<Rightarrow>
     r = (if None \<in> set buf then - EFAULT else int (length buf)) \<and>
     map parse_cmd ms = map (\<lambda>u. Some (152, 5, le 4 (unat vm_id) @ [the u])) (takeWhile (\<lambda>u. u \<noteq> None) buf) \<and>
     list_all (framed PISCES_CMD_VM_CONS_KEYCODE) ms"
  by (simp add: console_write_def write_loop_eq cmd_vm_cons_keycode_def parse_cmd_eq framed_def sizeofs
      list_all_iff)

section \<open>Connecting\<close>

text \<open>
  Connecting to the console of a virtual machine. When it succeeds the interrupt line of the
  console is registered with the console as its data, and releasing the console gives it back and
  sends a well-framed disconnect command. When no line is available nothing is kept. When the file
  cannot be created the line stays allocated with its handler, although nothing refers to it any
  more; and a line without a vector does not make the connect fail: the ring then carries the
  vector 65535.
\<close>

theorem v3_console_connect_correct:
  assumes "irq_fresh env st" and "v3_console_connect env a fd apic0 vm_id ring st = (r, cons, ring', st')"
  shows "(case cons of
      Some c \<Rightarrow> r = fd \<and> 0 \<le> fd \<and> irq_handlers st' (pl_irq c) = Some a \<and>
        (case v3_console_release c st' of (r2, m, st2) \<Rightarrow> st2 = st \<and> framed PISCES_CMD_VM_CONS_DISCONNECT m)
    | None \<Rightarrow> r < 0 \<and> (if fst (pisces_request_irq env a st) < 0 then st' = st
        else r = fd \<and> irq_handlers st' (ie_alloc env) = Some a)) \<and>
    (0 \<le> fst (pisces_request_irq env a st) \<and> ie_vector env (ie_alloc env) = None \<longrightarrow> rg_kick_ipi_vec ring' = 0xFFFF)"
proof -
  obtain irq st1 where q: "pisces_request_irq env a st = (irq, st1)" by fastforce
  note C = request_irq_cases [OF assms(1) q] and R = request_release [OF assms(1) q]
  have f: "framed PISCES_CMD_VM_CONS_DISCONNECT (cmd_vm_ctrl PISCES_CMD_VM_CONS_DISCONNECT vm_id)"
    by (simp add: framed_def cmd_vm_ctrl_def parse_cmd_eq sizeofs)
  show ?thesis
  proof (cases "irq < 0")
    case True
    then show ?thesis using assms(2) q C by (auto simp: v3_console_connect_def Let_def)
  next
    case False
    then have "irq_handlers st1 irq = Some a" "irq = ie_alloc env" using C by auto
    then show ?thesis using assms(2) q R False f
      by (auto simp: v3_console_connect_def v3_console_release_def pisces_irq_to_vector_def Let_def split: if_splits)
  qed
qed

theorem v3_console_connect_correct_witness:
  "\<exists>c ring' st'. v3_console_connect \<lparr>ie_alloc = 40, ie_request = 0, ie_vector = (\<lambda>_. Some 0x51)\<rparr> 7 12 0 3 demo_cring
      \<lparr>irq_lines = {}, irq_handlers = (\<lambda>_. None)\<rparr> = (12, Some c, ring', st') \<and> irq_handlers st' (pl_irq c) = Some 7"
proof -
  let ?e = "\<lparr>ie_alloc = 40, ie_request = 0, ie_vector = (\<lambda>_. Some 0x51)\<rparr> :: irq_env"
  let ?s = "\<lparr>irq_lines = {}, irq_handlers = (\<lambda>_. None)\<rparr> :: irq_state"
  obtain c ring' st' where r: "v3_console_connect ?e 7 12 0 3 demo_cring ?s = (12, Some c, ring', st')"
    by (simp add: v3_console_connect_def pisces_request_irq_def pisces_alloc_irq_def Let_def)
  show ?thesis using v3_console_connect_correct [OF _ r] r by (auto simp: irq_fresh_def)
qed

end
