(* ===== verification/Ctrl.thy ===== *)
theory Ctrl
  imports CText Enclave V3Console "HOL-Library.Char_ord"
begin

text \<open>
  The control channel of an enclave (\<open>enclave_ctrl.c\<close>): the commands the host sends to a running
  enclave for memory, CPUs, PCI devices, jobs, files and virtual machines, as the handler of the
  control file's \<open>ioctl\<close>. The transport is a parameter: what \<open>pisces_xbuf_sync_send\<close> returns for a
  message, with the response buffer.

  Shown: every command except one is a well-framed message; a refused or failed command is
  reported, whatever stage it failed at; resources are recorded before the enclave is asked, and
  stay recorded when it refuses; PCI devices are taken back when it refuses.
\<close>

section \<open>Environment and state\<close>

text \<open>
  \<open>cx_user n\<close> is the result of copying \<open>n\<close> bytes from the argument pointer, \<open>cx_stack\<close> the bytes that
  follow a command structure on the stack. The console rings of virtual machines are found by
  physical address.
\<close>

record ctrl_env =
  cx_send :: "bytes \<Rightarrow> int \<times> bytes option"
  cx_apicid :: "u64 \<Rightarrow> u64"
  cx_user :: "nat \<Rightarrow> bytes option"
  cx_addr :: nat
  cx_pci :: pci_env
  cx_stack :: bytes
  cx_irq :: irq_env
  cx_fd :: int

record ctrl_state =
  cs_enclave_addr :: nat
  cs_enclave :: pisces_enclave
  cs_irq :: irq_state
  cs_ring :: "u64 \<Rightarrow> cons_ring_buf"

datatype ctrl_event =
    CtrlSend bytes | SetupTrampoline | RestoreTrampoline | PciEvents pci_trace | FreeDesc "nat option"

type_synonym ctrl_result = "(int \<times> ctrl_event list \<times> ctrl_state) option"

section \<open>Sending a command\<close>

text \<open>
  The pattern of most commands: send, read \<open>resp->status\<close> as an \<open>int\<close> when the send returned 0, and
  take -1 otherwise. A null or truncated response is read through, which does not come back.
\<close>

definition send_status :: "ctrl_env \<Rightarrow> bytes \<Rightarrow> (int \<times> int) option" where
  "send_status env m =
     (case cx_send env m of (ret, resp) \<Rightarrow>
        if ret = 0
        then (case resp of None \<Rightarrow> None
          | Some bs \<Rightarrow> map_option (\<lambda>s. (ret, sint (ucast s :: u32))) (resp_status bs))
        else Some (ret, -1))"

definition send_vm_cmd :: "ctrl_env \<Rightarrow> u64 \<Rightarrow> u64 \<Rightarrow> (int \<times> ctrl_event list) option" where
  "send_vm_cmd env cmd_id vm_id =
     (let m = cmd_vm_ctrl cmd_id (ucast vm_id) in
      case cx_send env m of (ret, resp) \<Rightarrow>
        if ret \<noteq> 0 then Some (-1, [CtrlSend m])
        else (case resp of None \<Rightarrow> None
          | Some bs \<Rightarrow> map_option (\<lambda>s. (sint s, [CtrlSend m])) (resp_status bs)))"

definition ctrl_add_mem :: "ctrl_env \<Rightarrow> u64 \<Rightarrow> u64 \<Rightarrow> int \<times> ctrl_event list" where
  "ctrl_add_mem env base_addr pages =
     (let m = cmd_mem_add base_addr (pages * 4096); (ret, resp) = cx_send env m in
      (if ret = 0 then 0 else -1, [CtrlSend m]))"

definition ctrl_add_cpu :: "ctrl_env \<Rightarrow> u64 \<Rightarrow> (int \<times> ctrl_event list) option" where
  "ctrl_add_cpu env cpu_id = do {
     let m = cmd_cpu_add PISCES_CMD_ADD_CPU cpu_id (cx_apicid env cpu_id);
     (ret, status) \<leftarrow> send_status env m;
     Some (if status \<noteq> 0 then -1 else 0, [SetupTrampoline, CtrlSend m, RestoreTrampoline])
   }"

text \<open>A device specification as the bytes of the structure and back.\<close>

definition pci_spec_bytes :: "pisces_pci_spec \<Rightarrow> bytes" where
  "pci_spec_bytes spec =
     (let n = take 128 (map of_char (sp_name spec)) in
      n @ replicate (128 - length n) 0 @ le 4 (unat (sp_bus spec)) @ le 4 (unat (sp_dev spec)) @
      le 4 (unat (sp_func spec)))"

definition parse_pci_spec :: "bytes \<Rightarrow> pisces_pci_spec" where
  "parse_pci_spec bs =
     \<lparr>sp_name = map (\<lambda>b. char_of (unat b)) (takeWhile (\<lambda>b. b \<noteq> 0) (take 128 bs)),
      sp_bus = of_nat (of_le (take 4 (drop 128 bs))), sp_dev = of_nat (of_le (take 4 (drop 132 bs))),
      sp_func = of_nat (of_le (take 4 (drop 136 bs)))\<rparr>"

definition ctrl_add_pci :: "ctrl_env \<Rightarrow> bytes \<Rightarrow> enclave_pci_state \<Rightarrow> (int \<times> ctrl_event list \<times> enclave_pci_state) option" where
  "ctrl_add_pci env spec st = do {
     let m = cmd_add_pci_dev spec 0;
     (ret, status) \<leftarrow> send_status env m;
     Some (if status \<noteq> 0
       then let (r, tr, st') = enclave_pci_remove_dev (sp_name (parse_pci_spec spec)) st
            in (-1, [CtrlSend m, PciEvents tr], st')
       else (0, [CtrlSend m], st))
   }"

section \<open>The cases of the ioctl\<close>

definition cs_upd_enclave :: "pisces_enclave \<Rightarrow> ctrl_state \<Rightarrow> ctrl_state" where
  "cs_upd_enclave e s = s\<lparr>cs_enclave := e\<rparr>"

definition cs_upd_pci :: "enclave_pci_state \<Rightarrow> ctrl_state \<Rightarrow> ctrl_state" where
  "cs_upd_pci p s = s\<lparr>cs_enclave := (cs_enclave s)\<lparr>en_pci_state := p\<rparr>\<rparr>"

definition ioctl_add_cpu :: "ctrl_env \<Rightarrow> u64 \<Rightarrow> ctrl_state \<Rightarrow> ctrl_result" where
  "ioctl_add_cpu env cpu_id s =
     (let (r, e) = pisces_enclave_add_cpu (cs_enclave s) (ucast cpu_id) in
      if r \<noteq> 0 then Some (-1, [], s)
      else do {
        (ret, ev) \<leftarrow> ctrl_add_cpu env cpu_id;
        Some (ret, ev, cs_upd_enclave e s)
      })"

definition ioctl_remove_cpu :: "ctrl_env \<Rightarrow> u64 \<Rightarrow> ctrl_state \<Rightarrow> ctrl_result" where
  "ioctl_remove_cpu env cpu_id s = do {
     let m = cmd_cpu_add PISCES_CMD_REMOVE_CPU cpu_id (cx_apicid env cpu_id);
     (ret, status) \<leftarrow> send_status env m;
     Some (if status \<noteq> 0 then -1 else ret, [CtrlSend m], s)
   }"

definition ioctl_add_mem :: "ctrl_env \<Rightarrow> ctrl_state \<Rightarrow> ctrl_result" where
  "ioctl_add_mem env s =
     (case cx_user env sizeof_memory_range of
        None \<Rightarrow> Some (- EFAULT, [], s)
      | Some reg \<Rightarrow>
        let base_addr = of_nat (of_le (take 8 reg)); pages = of_nat (of_le (drop 8 reg)) in do {
          (r, e) \<leftarrow> pisces_enclave_add_mem (cs_enclave s) base_addr (ucast (pages :: u64)) True;
          if r \<noteq> 0 then Some (-1, [], s)
          else let (ret, ev) = ctrl_add_mem env base_addr pages in Some (ret, ev, cs_upd_enclave e s)
        })"

definition ioctl_add_v3_pci :: "ctrl_env \<Rightarrow> ctrl_state \<Rightarrow> ctrl_result" where
  "ioctl_add_v3_pci env s =
     (case cx_user env sizeof_pisces_pci_spec of
        None \<Rightarrow> Some (- EFAULT, [], s)
      | Some spec \<Rightarrow>
        let (ret, tr, st) = enclave_pci_add_dev (cx_pci env) (cx_addr env) (cs_enclave_addr s)
              (parse_pci_spec spec) (en_pci_state (cs_enclave s))
        in if ret \<noteq> 0 then Some (ret, [PciEvents tr], cs_upd_pci st s)
           else do {
             (ret, ev, st') \<leftarrow> ctrl_add_pci env spec st;
             Some (ret, PciEvents tr # ev, cs_upd_pci st' s)
           })"

text \<open>
  The free command is sent with the size of the add command: the message has four bytes more than
  the structure, whatever follows it on the stack.
\<close>

definition ioctl_free_v3_pci :: "ctrl_env \<Rightarrow> ctrl_state \<Rightarrow> ctrl_result" where
  "ioctl_free_v3_pci env s =
     (case cx_user env sizeof_pisces_pci_spec of
        None \<Rightarrow> Some (- EFAULT, [], s)
      | Some spec \<Rightarrow>
        let m = take sizeof_cmd_add_pci_dev (cmd_free_pci_dev spec @ cx_stack env) in do {
          (ret, status) \<leftarrow> send_status env m;
          if status \<noteq> 0 then Some (-1, [CtrlSend m], s)
          else let (r, tr, st) = enclave_pci_remove_dev (sp_name (parse_pci_spec spec)) (en_pci_state (cs_enclave s))
            in Some (if r \<noteq> 0 then -1 else ret, [CtrlSend m, PciEvents tr], cs_upd_pci st s)
        })"

text \<open>
  The commands that forward a structure from user space and return the status of the response:
  launching a job, loading and storing a file, creating a virtual machine.
\<close>

definition forward_status :: "ctrl_env \<Rightarrow> nat \<Rightarrow> (bytes \<Rightarrow> bytes) \<Rightarrow> ctrl_state \<Rightarrow> ctrl_result" where
  "forward_status env n mk s =
     (case cx_user env n of
        None \<Rightarrow> Some (- EFAULT, [], s)
      | Some d \<Rightarrow> do {
          (ret, status) \<leftarrow> send_status env (mk d);
          Some (if status < 0 then -1 else status, [CtrlSend (mk d)], s)
        })"

definition ioctl_launch_job :: "ctrl_env \<Rightarrow> ctrl_state \<Rightarrow> ctrl_result" where
  "ioctl_launch_job env = forward_status env sizeof_pisces_job_spec cmd_launch_job"

definition ioctl_load_file :: "ctrl_env \<Rightarrow> ctrl_state \<Rightarrow> ctrl_result" where
  "ioctl_load_file env = forward_status env sizeof_pisces_file_pair cmd_load_file"

definition ioctl_store_file :: "ctrl_env \<Rightarrow> ctrl_state \<Rightarrow> ctrl_result" where
  "ioctl_store_file env = forward_status env sizeof_pisces_file_pair cmd_store_file"

definition ioctl_create_vm :: "ctrl_env \<Rightarrow> ctrl_state \<Rightarrow> ctrl_result" where
  "ioctl_create_vm env = forward_status env sizeof_vm_path cmd_create_vm"

definition ioctl_vm_cmd :: "ctrl_env \<Rightarrow> u64 \<Rightarrow> u64 \<Rightarrow> ctrl_state \<Rightarrow> ctrl_result" where
  "ioctl_vm_cmd env cmd arg s = do {
     (r, ev) \<leftarrow> send_vm_cmd env cmd arg;
     Some (if r \<noteq> 0 then -1 else 0, ev, s)
   }"

definition ioctl_vm_cons_connect :: "ctrl_env \<Rightarrow> u64 \<Rightarrow> ctrl_state \<Rightarrow> ctrl_result" where
  "ioctl_vm_cons_connect env arg s = do {
     (cons_pa, ev) \<leftarrow> send_vm_cmd env PISCES_CMD_VM_CONS_CONNECT arg;
     Some (if cons_pa \<le> 0 then (-1, ev, s)
       else let pa = of_int cons_pa;
                (ret, cons, ring, irq) = v3_console_connect (cx_irq env) (cx_addr env) (cx_fd env)
                  (ucast (cx_apicid env 0)) (ucast arg) (cs_ring s pa) (cs_irq s)
            in (ret, ev, s\<lparr>cs_irq := irq, cs_ring := (cs_ring s)(pa := ring)\<rparr>))
   }"

definition send_only :: "ctrl_env \<Rightarrow> bytes \<Rightarrow> ctrl_state \<Rightarrow> ctrl_result" where
  "send_only env m s = Some (if fst (cx_send env m) = 0 then 0 else -1, [CtrlSend m], s)"

definition ioctl_vm_dbg :: "ctrl_env \<Rightarrow> ctrl_state \<Rightarrow> ctrl_result" where
  "ioctl_vm_dbg env s =
     (case cx_user env sizeof_pisces_dbg_spec of
        None \<Rightarrow> Some (- EFAULT, [], s)
      | Some d \<Rightarrow> send_only env (cmd_vm_debug d) s)"

definition ioctl_shutdown :: "ctrl_env \<Rightarrow> ctrl_state \<Rightarrow> ctrl_result" where
  "ioctl_shutdown env s = send_only env (pisces_cmd PISCES_CMD_SHUTDOWN 0) s"

definition ctrl_ioctl :: "ctrl_env \<Rightarrow> u32 \<Rightarrow> u64 \<Rightarrow> ctrl_state \<Rightarrow> ctrl_result" where
  "ctrl_ioctl env ioctl arg s =
     (let c = ucast ioctl :: u64 in
      if en_state (cs_enclave s) \<noteq> ENCLAVE_RUNNING then Some (-1, [], s)
      else if c = PISCES_CMD_ADD_CPU then ioctl_add_cpu env arg s
      else if c = PISCES_CMD_REMOVE_CPU then ioctl_remove_cpu env arg s
      else if c = PISCES_CMD_ADD_MEM then ioctl_add_mem env s
      else if c = PISCES_CMD_REMOVE_MEM then Some (-1, [], s)
      else if c = PISCES_CMD_ADD_V3_PCI then ioctl_add_v3_pci env s
      else if c = PISCES_CMD_FREE_V3_PCI then ioctl_free_v3_pci env s
      else if c = PISCES_CMD_LAUNCH_JOB then ioctl_launch_job env s
      else if c = PISCES_CMD_LOAD_FILE then ioctl_load_file env s
      else if c = PISCES_CMD_STORE_FILE then ioctl_store_file env s
      else if c = PISCES_CMD_CREATE_VM then ioctl_create_vm env s
      else if c \<in> {PISCES_CMD_LAUNCH_VM, PISCES_CMD_STOP_VM, PISCES_CMD_FREE_VM, PISCES_CMD_PAUSE_VM,
                   PISCES_CMD_CONTINUE_VM} then ioctl_vm_cmd env c arg s
      else if c = PISCES_CMD_VM_CONS_CONNECT then ioctl_vm_cons_connect env arg s
      else if c = PISCES_CMD_VM_DBG then ioctl_vm_dbg env s
      else if c = PISCES_CMD_SHUTDOWN then ioctl_shutdown env s
      else Some (-1, [], s))"

section \<open>The control file\<close>

text \<open>
  Connecting takes a reference to the enclave and gives it back when no file can be created;
  releasing the file gives it back. \<open>fd\<close> is what \<open>anon_inode_getfd\<close> returns.
\<close>

definition pisces_ctrl_connect :: "int \<Rightarrow> pisces_sys \<Rightarrow> nat \<Rightarrow> (int \<times> pisces_sys) option" where
  "pisces_ctrl_connect fd s p = do {
     s1 \<leftarrow> enclave_get s p;
     if fd < 0 then do { s2 \<leftarrow> enclave_put s1 p; Some (fd, s2) } else Some (fd, s1)
   }"

definition ctrl_release :: "pisces_sys \<Rightarrow> nat \<Rightarrow> (int \<times> pisces_sys) option" where
  "ctrl_release s p = do { s1 \<leftarrow> enclave_put s p; Some (0, s1) }"

section \<open>Messages are well-framed\<close>

text \<open>\<open>copy_from_user\<close> delivers as many bytes as asked for.\<close>

definition user_ok :: "ctrl_env \<Rightarrow> bool" where
  "user_ok env \<longleftrightarrow> (\<forall>n d. cx_user env n = Some d \<longrightarrow> length d = n)"

definition sends :: "(bytes \<Rightarrow> bool) \<Rightarrow> ctrl_result \<Rightarrow> bool" where
  "sends P res = (case res of None \<Rightarrow> True | Some (r, ev, s) \<Rightarrow> \<forall>m. CtrlSend m \<in> set ev \<longrightarrow> P m)"

lemma sends_simps [simp]: "sends P (Some (r, [], s))" "sends P (Some (r, [CtrlSend m], s)) = P m" "sends P None"
  by (auto simp: sends_def)

lemma forward_status_sends:
  assumes "user_ok env" and "\<And>d. length d = n \<Longrightarrow> P (mk d)"
  shows "sends P (forward_status env n mk s)"
  using assms by (auto simp: forward_status_def sends_def user_ok_def split: option.splits bind_splits)

lemma send_vm_cmd_sends:
  assumes "send_vm_cmd env c a = Some (r, ev)"
  shows "ev = [CtrlSend (cmd_vm_ctrl c (ucast a))]"
  using assms by (auto simp: send_vm_cmd_def Let_def split: prod.splits if_splits option.splits)

lemma cmds_framed:
  "framed c (cmd_cpu_add c p a)" "framed PISCES_CMD_ADD_MEM (cmd_mem_add p n)" "framed c (cmd_vm_ctrl c v)"
  "framed PISCES_CMD_SHUTDOWN (pisces_cmd PISCES_CMD_SHUTDOWN 0)"
  "length d = sizeof_vm_path \<Longrightarrow> framed PISCES_CMD_CREATE_VM (cmd_create_vm d)"
  "length d = sizeof_pisces_dbg_spec \<Longrightarrow> framed PISCES_CMD_VM_DBG (cmd_vm_debug d)"
  "length d = sizeof_pisces_pci_spec \<Longrightarrow> framed PISCES_CMD_ADD_V3_PCI (cmd_add_pci_dev d w)"
  "length d = sizeof_pisces_job_spec \<Longrightarrow> framed PISCES_CMD_LAUNCH_JOB (cmd_launch_job d)"
  "length d = sizeof_pisces_file_pair \<Longrightarrow> framed PISCES_CMD_LOAD_FILE (cmd_load_file d)"
  "length d = sizeof_pisces_file_pair \<Longrightarrow> framed PISCES_CMD_STORE_FILE (cmd_store_file d)"
  using framed_cmd [of "[]" 0 PISCES_CMD_SHUTDOWN] by (simp_all add: cmd_defs framed_cmd sizeofs)

lemma ioctl_sends:
  assumes "user_ok env"
  shows "sends (framed PISCES_CMD_ADD_CPU) (ioctl_add_cpu env a s)"
    "sends (framed PISCES_CMD_REMOVE_CPU) (ioctl_remove_cpu env a s)"
    "sends (framed PISCES_CMD_ADD_MEM) (ioctl_add_mem env s)"
    "sends (framed PISCES_CMD_ADD_V3_PCI) (ioctl_add_v3_pci env s)"
    "sends (framed c) (ioctl_vm_cmd env c a s)"
    "sends (framed PISCES_CMD_VM_CONS_CONNECT) (ioctl_vm_cons_connect env a s)"
    "sends (framed PISCES_CMD_VM_DBG) (ioctl_vm_dbg env s)"
    "sends (framed PISCES_CMD_SHUTDOWN) (ioctl_shutdown env s)"
    "sends (\<lambda>m. \<exists>spec. length spec = sizeof_pisces_pci_spec \<and> m = cmd_free_pci_dev spec @ take 4 (cx_stack env))
       (ioctl_free_v3_pci env s)"
proof -
  have u: "length d = n" if "cx_user env n = Some d" for n d using assms that by (simp add: user_ok_def)
  show "sends (framed PISCES_CMD_ADD_CPU) (ioctl_add_cpu env a s)"
    by (auto simp: ioctl_add_cpu_def ctrl_add_cpu_def sends_def cmds_framed Let_def split: prod.splits bind_splits)
  show "sends (framed PISCES_CMD_REMOVE_CPU) (ioctl_remove_cpu env a s)"
    by (auto simp: ioctl_remove_cpu_def sends_def cmds_framed Let_def split: prod.splits bind_splits)
  show "sends (framed PISCES_CMD_ADD_MEM) (ioctl_add_mem env s)"
    by (auto simp: ioctl_add_mem_def ctrl_add_mem_def sends_def cmds_framed Let_def
        split: prod.splits bind_splits option.splits if_splits)
  show "sends (framed PISCES_CMD_ADD_V3_PCI) (ioctl_add_v3_pci env s)"
    by (auto simp: ioctl_add_v3_pci_def ctrl_add_pci_def sends_def cmds_framed Let_def
        split: prod.splits bind_splits option.splits if_splits dest!: u)
  show "sends (framed c) (ioctl_vm_cmd env c a s)"
    by (auto simp: ioctl_vm_cmd_def sends_def cmds_framed split: bind_splits dest!: send_vm_cmd_sends)
  show "sends (framed PISCES_CMD_VM_CONS_CONNECT) (ioctl_vm_cons_connect env a s)"
    by (auto simp: ioctl_vm_cons_connect_def sends_def cmds_framed Let_def
        split: bind_splits prod.splits if_splits dest!: send_vm_cmd_sends)
  show "sends (framed PISCES_CMD_VM_DBG) (ioctl_vm_dbg env s)"
    by (auto simp: ioctl_vm_dbg_def send_only_def cmds_framed split: option.splits dest!: u)
  show "sends (framed PISCES_CMD_SHUTDOWN) (ioctl_shutdown env s)"
    by (simp add: ioctl_shutdown_def send_only_def cmds_framed)
  have t: "take sizeof_cmd_add_pci_dev (cmd_free_pci_dev d @ x) = cmd_free_pci_dev d @ take 4 x"
    if "length d = sizeof_pisces_pci_spec" for d x
    using that by (simp add: cmd_free_pci_dev_def pisces_cmd_def sizeofs)
  show "sends (\<lambda>m. \<exists>spec. length spec = sizeof_pisces_pci_spec \<and> m = cmd_free_pci_dev spec @ take 4 (cx_stack env))
       (ioctl_free_v3_pci env s)"
    by (auto simp: ioctl_free_v3_pci_def sends_def Let_def t simp del: take_append
        split: bind_splits prod.splits option.splits if_splits dest!: u)
qed

text \<open>
  C19: Every message a control request sends carries the number of that request and a length field
  that counts exactly the bytes after the header, with one exception: the request to free a PCI
  device sends its structure followed by four more bytes of the stack, which its length field
  does not count.
\<close>

theorem ctrl_messages_framed:
  assumes "user_ok env" and "ctrl_ioctl env ioctl arg s = Some (r, ev, s')" and "CtrlSend m \<in> set ev"
  shows "if ucast ioctl = PISCES_CMD_FREE_V3_PCI
    then \<exists>spec. length spec = sizeof_pisces_pci_spec \<and> m = cmd_free_pci_dev spec @ take 4 (cx_stack env) \<and>
      framed PISCES_CMD_FREE_V3_PCI (cmd_free_pci_dev spec) \<and> (framed PISCES_CMD_FREE_V3_PCI m \<longleftrightarrow> cx_stack env = [])
    else framed (ucast ioctl) m"
proof -
  note I = ioctl_sends [OF assms(1)]
  have F: "framed PISCES_CMD_FREE_V3_PCI (cmd_free_pci_dev spec)"
    "framed PISCES_CMD_FREE_V3_PCI (cmd_free_pci_dev spec @ x) \<longleftrightarrow> x = []"
    if "length spec = sizeof_pisces_pci_spec" for spec x
    using that by (auto simp: cmd_free_pci_dev_def framed_def parse_cmd_eq sizeofs)
  have W: "sends (framed PISCES_CMD_LAUNCH_JOB) (ioctl_launch_job env s)"
    "sends (framed PISCES_CMD_LOAD_FILE) (ioctl_load_file env s)"
    "sends (framed PISCES_CMD_STORE_FILE) (ioctl_store_file env s)"
    "sends (framed PISCES_CMD_CREATE_VM) (ioctl_create_vm env s)"
    unfolding ioctl_launch_job_def ioctl_load_file_def ioctl_store_file_def ioctl_create_vm_def
    using assms(1) by (auto intro!: forward_status_sends cmds_framed)
  have "sends (\<lambda>m. if (ucast ioctl :: u64) = PISCES_CMD_FREE_V3_PCI
      then \<exists>spec. length spec = sizeof_pisces_pci_spec \<and> m = cmd_free_pci_dev spec @ take 4 (cx_stack env)
      else framed (ucast ioctl) m) (ctrl_ioctl env ioctl arg s)"
    unfolding ctrl_ioctl_def Let_def using I W by (simp add: numeral_eq_iff split: if_split)
  then have S: "if (ucast ioctl :: u64) = PISCES_CMD_FREE_V3_PCI
      then \<exists>spec. length spec = sizeof_pisces_pci_spec \<and> m = cmd_free_pci_dev spec @ take 4 (cx_stack env)
      else framed (ucast ioctl) m"
    using assms(2,3) by (simp add: sends_def split: if_splits)
  show ?thesis
  proof (cases "(ucast ioctl :: u64) = PISCES_CMD_FREE_V3_PCI")
    case True
    then obtain spec where m: "length spec = sizeof_pisces_pci_spec" "m = cmd_free_pci_dev spec @ take 4 (cx_stack env)"
      using S by auto
    have "framed PISCES_CMD_FREE_V3_PCI m \<longleftrightarrow> cx_stack env = []" using F(2) [OF m(1)] m(2) by auto
    then show ?thesis using True m F(1) [OF m(1)] by auto
  qed (use S in simp)
qed

definition demo_ctrl :: ctrl_state where
  "demo_ctrl = \<lparr>cs_enclave_addr = 100, cs_enclave = zero_enclave\<lparr>en_state := ENCLAVE_RUNNING\<rparr>,
     cs_irq = \<lparr>irq_lines = {}, irq_handlers = (\<lambda>_. None)\<rparr>, cs_ring = (\<lambda>_. demo_cring)\<rparr>"

definition demo_ctrl_env :: "u64 \<Rightarrow> ctrl_env" where
  "demo_ctrl_env status = \<lparr>cx_send = (\<lambda>m. (0, Some (pisces_resp status 0))), cx_apicid = (\<lambda>c. c),
     cx_user = (\<lambda>n. Some (replicate n 1)), cx_addr = 5, cx_pci = demo_pci_env, cx_stack = [1, 2, 3, 4],
     cx_irq = \<lparr>ie_alloc = 40, ie_request = 0, ie_vector = (\<lambda>_. Some 0x51)\<rparr>, cx_fd = 3\<rparr>"

lemma demo_user_ok: "user_ok (demo_ctrl_env s)"
  by (simp add: user_ok_def demo_ctrl_env_def)

theorem ctrl_messages_framed_witness:
  "\<exists>r ev s'. ctrl_ioctl (demo_ctrl_env 0) 900 0 demo_ctrl = Some (r, ev, s') \<and>
     (\<exists>m. CtrlSend m \<in> set ev \<and> framed 900 m)"
proof -
  let ?m = "pisces_cmd PISCES_CMD_SHUTDOWN 0"
  have r: "ctrl_ioctl (demo_ctrl_env 0) 900 0 demo_ctrl = Some (0, [CtrlSend ?m], demo_ctrl)"
    by (simp add: ctrl_ioctl_def demo_ctrl_def ioctl_shutdown_def send_only_def demo_ctrl_env_def)
  show ?thesis using ctrl_messages_framed [OF demo_user_ok r, of ?m] r by auto
qed

section \<open>Failures are reported\<close>

lemma add_dev_ret:
  assumes "pe_request_regions env \<le> 0"
  shows "fst (enclave_pci_add_dev env a enc spec st) \<le> 0"
  using assms
  by (auto simp: enclave_pci_add_dev_def init_pci_dev_def Let_def split: option.splits)

text \<open>
  C31: When the channel to a running enclave fails, every control request comes back with a
  negative result: nothing is mistaken for the answer of the enclave. On an enclave that is not
  running every request is refused with -1 and nothing is sent or changed.
\<close>

theorem ctrl_failure_reported:
  assumes "\<And>m. fst (cx_send env m) \<noteq> 0" and "pe_request_regions (cx_pci env) \<le> 0"
  shows "\<exists>r ev s'. ctrl_ioctl env ioctl arg s = Some (r, ev, s') \<and> r < 0 \<and>
    (en_state (cs_enclave s) \<noteq> ENCLAVE_RUNNING \<longrightarrow> r = -1 \<and> ev = [] \<and> s' = s)"
proof -
  have send: "send_status env m = Some (fst (cx_send env m), -1)" for m
    using assms(1) [of m] by (auto simp: send_status_def split: prod.splits)
  have vm: "\<exists>ev. send_vm_cmd env c a = Some (-1, ev)" for c a
    using assms(1) [of "cmd_vm_ctrl c (ucast a)"] by (auto simp: send_vm_cmd_def Let_def split: prod.splits)
  have vc: "\<exists>r ev s'. ioctl_vm_cmd env c arg s = Some (r, ev, s') \<and> r < 0" for c
    using vm [of c arg] by (auto simp: ioctl_vm_cmd_def)
  have cc: "\<exists>r ev s'. ioctl_vm_cons_connect env arg s = Some (r, ev, s') \<and> r < 0"
    using vm [of PISCES_CMD_VM_CONS_CONNECT arg] by (auto simp: ioctl_vm_cons_connect_def)
  have cpu: "\<exists>r ev s'. ioctl_add_cpu env arg s = Some (r, ev, s') \<and> r < 0"
    "\<exists>r ev s'. ioctl_remove_cpu env arg s = Some (r, ev, s') \<and> r < 0"
    by (auto simp: ioctl_add_cpu_def ctrl_add_cpu_def ioctl_remove_cpu_def send split: prod.splits)
  have mem: "\<exists>r ev s'. ioctl_add_mem env s = Some (r, ev, s') \<and> r < 0"
    using assms(1) by (auto simp: ioctl_add_mem_def ctrl_add_mem_def pisces_enclave_add_mem_def Let_def
        split: option.splits prod.splits) (metis fst_conv)+
  have pci: "\<exists>r ev s'. ioctl_add_v3_pci env s = Some (r, ev, s') \<and> r < 0"
  proof (cases "cx_user env sizeof_pisces_pci_spec")
    case (Some spec)
    obtain r tr st where a: "enclave_pci_add_dev (cx_pci env) (cx_addr env) (cs_enclave_addr s)
        (parse_pci_spec spec) (en_pci_state (cs_enclave s)) = (r, tr, st)" by (rule prod_cases3)
    have "r \<le> 0" using add_dev_ret [OF assms(2)] a by (metis fst_conv)
    then show ?thesis using Some a
      by (cases "r = 0") (simp_all add: ioctl_add_v3_pci_def ctrl_add_pci_def send Let_def split_beta)
  qed (simp add: ioctl_add_v3_pci_def)
  have fpci: "\<exists>r ev s'. ioctl_free_v3_pci env s = Some (r, ev, s') \<and> r < 0"
    by (simp add: ioctl_free_v3_pci_def send Let_def split: option.splits)
  have fw: "\<exists>r ev s'. forward_status env n mk s = Some (r, ev, s') \<and> r < 0" for n mk
    by (auto simp: forward_status_def send split: option.splits)
  have so: "\<exists>r ev s'. send_only env m s = Some (r, ev, s') \<and> r < 0" for m
    using assms(1) [of m] by (simp add: send_only_def)
  have dbg: "\<exists>r ev s'. ioctl_vm_dbg env s = Some (r, ev, s') \<and> r < 0"
    using so by (simp add: ioctl_vm_dbg_def split: option.splits)
  show ?thesis
  proof (cases "en_state (cs_enclave s) = ENCLAVE_RUNNING")
    case True
    then show ?thesis
      using vc cc cpu mem pci fpci fw so dbg
      by (simp add: ctrl_ioctl_def Let_def ioctl_launch_job_def ioctl_load_file_def ioctl_store_file_def
          ioctl_create_vm_def ioctl_shutdown_def)
  qed (simp add: ctrl_ioctl_def)
qed

theorem ctrl_failure_reported_witness:
  "\<exists>r ev s'. ctrl_ioctl ((demo_ctrl_env 0)\<lparr>cx_send := (\<lambda>m. (-1, None))\<rparr>) 101 0 demo_ctrl = Some (r, ev, s') \<and> r < 0"
  using ctrl_failure_reported [of "(demo_ctrl_env 0)\<lparr>cx_send := (\<lambda>m. (-1, None))\<rparr>" 101 0 demo_ctrl]
  by (auto simp: demo_ctrl_env_def demo_pci_env_def)

section \<open>What a refused request leaves behind\<close>

text \<open>
  Adding memory or a CPU over the control channel. The host records the resource before it asks
  the enclave, and keeps it recorded whatever the enclave answers. The answer of the enclave to an
  added memory block is not looked at: the request succeeds as soon as the message was delivered.
  The number of pages is recorded in 32 bits while the message carries all 64.
\<close>

theorem ctrl_resources_recorded:
  assumes "res_ok (cs_enclave s)" and "length (en_memdesc_list (cs_enclave s)) < 4294967295"
    and "cx_user env 16 = Some (le 8 (unat base) @ le 8 (unat pages))"
    and "unat (ucast cpu :: u32) \<notin> en_assigned_cpus (cs_enclave s)" and "send_status env
      (cmd_cpu_add PISCES_CMD_ADD_CPU cpu (cx_apicid env cpu)) = Some (ret, status)"
  shows "(\<exists>s'. ioctl_add_mem env s = Some (if fst (cx_send env (cmd_mem_add base (pages * 4096))) = 0 then 0 else -1,
        [CtrlSend (cmd_mem_add base (pages * 4096))], s') \<and>
      mset (en_memdesc_list (cs_enclave s')) =
        add_mset \<lparr>mb_base_addr = base, mb_pages = ucast pages\<rparr> (mset (en_memdesc_list (cs_enclave s)))) \<and>
    (\<exists>s' ev. ioctl_add_cpu env cpu s = Some (if status = 0 then 0 else -1, ev, s') \<and>
      en_assigned_cpus (cs_enclave s') = insert (unat (ucast cpu :: u32)) (en_assigned_cpus (cs_enclave s)))"
proof -
  obtain e' where e': "pisces_enclave_add_mem (cs_enclave s) base (ucast pages) True = Some (0, e')"
    using add_mem_eq [OF assms(1)] by blast
  note A = add_mem_ok(3) [OF assms(1,2) e']
  have p: "of_nat (of_le (take 8 (le 8 (unat base) @ le 8 (unat pages)))) = base"
    "of_nat (of_le (drop 8 (le 8 (unat base) @ le 8 (unat pages)))) = pages" by simp_all
  have "ioctl_add_mem env s = Some (if fst (cx_send env (cmd_mem_add base (pages * 4096))) = 0 then 0 else -1,
      [CtrlSend (cmd_mem_add base (pages * 4096))], cs_upd_enclave e' s)"
    using assms(3) e' by (simp add: ioctl_add_mem_def sizeof_memory_range_def p ctrl_add_mem_def Let_def split: prod.splits)
  moreover have "\<exists>s' ev. ioctl_add_cpu env cpu s = Some (if status = 0 then 0 else -1, ev, s') \<and>
      en_assigned_cpus (cs_enclave s') = insert (unat (ucast cpu :: u32)) (en_assigned_cpus (cs_enclave s))"
    using assms(4,5) by (simp add: ioctl_add_cpu_def pisces_enclave_add_cpu_def ctrl_add_cpu_def cs_upd_enclave_def)
  ultimately show ?thesis using A by (simp add: cs_upd_enclave_def)
qed

definition demo_mem_env :: ctrl_env where
  "demo_mem_env = (demo_ctrl_env 1)\<lparr>cx_user := (\<lambda>n. Some (le 8 (unat (0x10000000 :: u64)) @ le 8 (unat (64 :: u64))))\<rparr>"

theorem ctrl_resources_recorded_witness:
  "\<exists>s'. ioctl_add_mem demo_mem_env demo_ctrl = Some (0, [CtrlSend (cmd_mem_add 0x10000000 (64 * 4096))], s') \<and>
     mset (en_memdesc_list (cs_enclave s')) = {#\<lparr>mb_base_addr = 0x10000000, mb_pages = 64\<rparr>#}"
proof -
  have "res_ok (cs_enclave demo_ctrl)" "length (en_memdesc_list (cs_enclave demo_ctrl)) < 4294967295"
    by (simp_all add: demo_ctrl_def res_ok_def zero_enclave_def)
  moreover have "cx_user demo_mem_env 16 = Some (le 8 (unat (0x10000000 :: u64)) @ le 8 (unat (64 :: u64)))"
    by (simp add: demo_mem_env_def)
  moreover have "unat (ucast (2 :: u64) :: u32) \<notin> en_assigned_cpus (cs_enclave demo_ctrl)"
    by (simp add: demo_ctrl_def zero_enclave_def)
  moreover have "send_status demo_mem_env m = Some (0, 1)" for m
    using resp_status_resp [of 1 0 "[]"] by (simp add: send_status_def demo_mem_env_def demo_ctrl_env_def)
  ultimately show ?thesis
    using ctrl_resources_recorded [of demo_ctrl demo_mem_env "0x10000000" 64 2 0 1]
    by (simp add: demo_mem_env_def demo_ctrl_env_def demo_ctrl_def zero_enclave_def)
qed



section \<open>Device specifications\<close>

text \<open>
  A device specification written as the bytes of its structure and parsed back is the same
  specification, for every name of at most 128 characters without a zero character.
\<close>

theorem pci_spec_roundtrip:
  assumes "length (sp_name spec) \<le> 128" and "CHR 0x00 \<notin> set (sp_name spec)"
  shows "parse_pci_spec (pci_spec_bytes spec) = spec \<and> length (pci_spec_bytes spec) = sizeof_pisces_pci_spec"
proof -
  have "array_str (map of_char (sp_name spec) @ replicate k 0) = sp_name spec" for k by (rule array_str_padded [OF assms(2)])
  then show ?thesis using assms(1) by (simp add: parse_pci_spec_def pci_spec_bytes_def Let_def sizeofs flip: array_str_def)
qed

theorem pci_spec_roundtrip_witness:
  "parse_pci_spec (pci_spec_bytes demo_spec) = demo_spec \<and> length (pci_spec_bytes demo_spec) = sizeof_pisces_pci_spec"
  by (rule pci_spec_roundtrip) (simp_all add: demo_spec_def)

section \<open>The control file and the references to the enclave\<close>

text \<open>
  Connecting the control file holds exactly one reference to the enclave for as long as the file
  is open: a connect that fails leaves the enclave as it was, and releasing a file that was
  connected restores the state before the connect.
\<close>

theorem ctrl_connect_balanced:
  assumes "en_heap s p = Some e" and "0 < en_refcount e"
  shows "\<exists>s'. pisces_ctrl_connect fd s p = Some (fd, s') \<and>
    (if fd < 0 then s' = s
     else en_heap s' p = Some (e\<lparr>en_refcount := en_refcount e + 1\<rparr>) \<and> ctrl_release s' p = Some (0, s))"
  using assms by (auto simp: pisces_ctrl_connect_def ctrl_release_def enclave_get_def enclave_put_def fun_upd_idem)

theorem ctrl_connect_balanced_witness:
  "\<exists>s'. pisces_ctrl_connect 4 (sys_init\<lparr>en_heap := [100 \<mapsto> zero_enclave\<lparr>en_refcount := 1\<rparr>]\<rparr>) 100 = Some (4, s') \<and>
     ctrl_release s' 100 = Some (0, sys_init\<lparr>en_heap := [100 \<mapsto> zero_enclave\<lparr>en_refcount := 1\<rparr>]\<rparr>)"
  using ctrl_connect_balanced [of "sys_init\<lparr>en_heap := [100 \<mapsto> zero_enclave\<lparr>en_refcount := 1\<rparr>]\<rparr>" 100
      "zero_enclave\<lparr>en_refcount := 1\<rparr>" 4] by auto

end
