(* ===== verification/EnclaveCons.thy ===== *)
theory EnclaveCons
  imports PiscesLock
begin

text \<open>
  The console of an enclave (\<open>enclave_cons.c\<close>): the ring of console bytes in the boot memory that
  the enclave fills, the read of the host from it, and the exclusive connection to it.

  Shown: a read delivers the oldest bytes and advances the ring by exactly that many, as long as
  they do not wrap around the end of the array; when they do, the second part is copied to the
  start of the user's buffer and overwrites the first one. At most one connection is granted, and
  a connection whose file cannot be created stays taken.
\<close>

section \<open>The ring\<close>

definition CONS_BUF_SIZE :: u64 where
  "CONS_BUF_SIZE = 64 * 1024 - 32"

record pisces_cons_ringbuf =
  cr_lock :: pisces_spinlock
  cr_read_idx :: u64
  cr_write_idx :: u64
  cr_cur_len :: u64
  cr_buf :: bytes

text \<open>
  One \<open>copy_to_user(buffer, ringbuf->buf + read_idx, read_len)\<close> with the updates after it; \<open>ok\<close>
  tells whether the copy succeeds. The result is the user's buffer, the file offset, what is left
  to read and the ring; the inner \<open>None\<close> is the fault, the outer one a copy outside an array.
\<close>

definition cons_copy ::
    "bool \<Rightarrow> u64 \<Rightarrow> bytes \<times> u64 \<times> u64 \<times> pisces_cons_ringbuf \<Rightarrow>
     (bytes \<times> u64 \<times> u64 \<times> pisces_cons_ringbuf) option option" where
  "cons_copy ok read_len c = (case c of (buffer, offset, left_to_read, r) \<Rightarrow>
     if \<not> ok then Some None
     else do {
       buffer' \<leftarrow> memcpy buffer 0 (cr_buf r) (unat (cr_read_idx r)) (unat read_len);
       Some (Some (buffer', offset + read_len, left_to_read - read_len,
         r\<lparr>cr_read_idx := (cr_read_idx r + read_len) mod CONS_BUF_SIZE,
           cr_cur_len := cr_cur_len r - read_len\<rparr>))
     })"

text \<open>The part up to the end of the array, and the part from \<open>read_idx\<close> to \<open>write_idx\<close>.\<close>

definition cons_to_end ::
    "bool \<Rightarrow> bytes \<times> u64 \<times> u64 \<times> pisces_cons_ringbuf \<Rightarrow>
     (bytes \<times> u64 \<times> u64 \<times> pisces_cons_ringbuf) option option" where
  "cons_to_end ok c = (case c of (buffer, offset, left_to_read, r) \<Rightarrow>
     if left_to_read > 0 \<and> cr_read_idx r \<ge> cr_write_idx r
     then let n = CONS_BUF_SIZE - cr_read_idx r in
       cons_copy ok (if n > left_to_read then left_to_read else n) c
     else Some (Some c))"

definition cons_to_write_idx ::
    "bool \<Rightarrow> bytes \<times> u64 \<times> u64 \<times> pisces_cons_ringbuf \<Rightarrow>
     (bytes \<times> u64 \<times> u64 \<times> pisces_cons_ringbuf) option option" where
  "cons_to_write_idx ok c = (case c of (buffer, offset, left_to_read, r) \<Rightarrow>
     if left_to_read > 0
     then let n = cr_write_idx r - cr_read_idx r in
       cons_copy ok (if n > left_to_read then left_to_read else n) c
     else Some (Some c))"

definition console_read ::
    "bool \<Rightarrow> bool \<Rightarrow> bytes \<Rightarrow> u64 \<Rightarrow> u64 \<Rightarrow> pisces_cons_ringbuf \<Rightarrow>
     (int \<times> bytes \<times> u64 \<times> pisces_cons_ringbuf) option" where
  "console_read ok1 ok2 buffer len0 offset ring0 = do {
     l \<leftarrow> pisces_spin_lock (cr_lock ring0);
     let r = ring0\<lparr>cr_lock := l\<rparr>;
     let len = (if len0 > cr_cur_len r then cr_cur_len r else len0);
     c1 \<leftarrow> cons_to_end ok1 (buffer, offset, len, r);
     case c1 of
       None \<Rightarrow> Some (- EFAULT, buffer, offset, r\<lparr>cr_lock := pisces_spin_unlock l\<rparr>)
     | Some (b1, o1, left1, r1) \<Rightarrow> do {
         c2 \<leftarrow> cons_to_write_idx ok2 (b1, o1, left1, r1);
         case c2 of
           None \<Rightarrow> Some (- EFAULT, b1, o1, r1\<lparr>cr_lock := pisces_spin_unlock l\<rparr>)
         | Some (b2, o2, left2, r2) \<Rightarrow>
             Some (uint len, b2, o2, r2\<lparr>cr_lock := pisces_spin_unlock l\<rparr>)
       }
   }"

section \<open>The connection\<close>

record pisces_cons =
  pc_connected :: int

definition pisces_cons_init :: "pisces_cons \<Rightarrow> pisces_cons_ringbuf \<Rightarrow> int \<times> pisces_cons \<times> pisces_cons_ringbuf" where
  "pisces_cons_init cons ringbuf =
     (0, cons\<lparr>pc_connected := 0\<rparr>, ringbuf\<lparr>cr_lock := pisces_lock_init (cr_lock ringbuf)\<rparr>)"

definition cons_console_release :: "pisces_cons \<Rightarrow> int \<times> pisces_cons" where
  "cons_console_release cons = (0, cons\<lparr>pc_connected := 0\<rparr>)"

text \<open>\<open>fd\<close> is what \<open>anon_inode_getfd\<close> returns, negative when it fails.\<close>

definition pisces_cons_connect :: "int \<Rightarrow> pisces_cons \<Rightarrow> int \<times> pisces_cons" where
  "pisces_cons_connect fd cons =
     (if pc_connected cons = 0 then (fd, cons\<lparr>pc_connected := 1\<rparr>) else (-1, cons))"

section \<open>Reading\<close>

abbreviation csz :: nat where "csz \<equiv> 65504"

definition cons_ok :: "pisces_cons_ringbuf \<Rightarrow> bool" where
  "cons_ok r \<longleftrightarrow> raw_lock (cr_lock r) = 0 \<and> length (cr_buf r) = csz \<and>
     unat (cr_read_idx r) < csz \<and> unat (cr_write_idx r) < csz \<and> unat (cr_cur_len r) \<le> csz \<and>
     (unat (cr_read_idx r) + unat (cr_cur_len r)) mod csz = unat (cr_write_idx r)"

definition cons_contents :: "pisces_cons_ringbuf \<Rightarrow> bytes" where
  "cons_contents r = cyc (cr_buf r) (unat (cr_read_idx r)) (unat (cr_cur_len r))"

lemma unat_CONS_BUF_SIZE [simp]: "unat CONS_BUF_SIZE = csz"
  by (simp add: CONS_BUF_SIZE_def)

text \<open>The ring after \<open>n\<close> bytes have been taken out of it.\<close>

definition cons_taken :: "nat \<Rightarrow> pisces_cons_ringbuf \<Rightarrow> pisces_cons_ringbuf" where
  "cons_taken n r = r\<lparr>cr_read_idx := of_nat ((unat (cr_read_idx r) + n) mod csz),
     cr_cur_len := of_nat (unat (cr_cur_len r) - n)\<rparr>"

lemma cons_copy_ok:
  assumes "length (cr_buf r) = csz" and "unat (cr_read_idx r) + unat n \<le> csz"
    and "unat n \<le> unat (cr_cur_len r)" and "unat n \<le> length buffer"
  shows "cons_copy True n (buffer, offset, left, r) =
    Some (Some (take (unat n) (drop (unat (cr_read_idx r)) (cr_buf r)) @ drop (unat n) buffer,
      offset + n, left - n, cons_taken (unat n) r))"
proof -
  have "unat (cr_read_idx r + n) = unat (cr_read_idx r) + unat n"
    using assms(2) by (intro unat_add_small) simp
  then have "(cr_read_idx r + n) mod CONS_BUF_SIZE = of_nat ((unat (cr_read_idx r) + unat n) mod csz)"
    by (simp add: word_arith_nat_mod)
  moreover have "cr_cur_len r - n = of_nat (unat (cr_cur_len r) - unat n)"
    using assms(3) by (simp add: unat_inj_iff unat_diff_le unat_of_nat_u64 order.strict_trans1 [OF diff_le_self])
  ultimately show ?thesis using assms by (simp add: cons_copy_def memcpy_def cons_taken_def)
qed

lemma cons_taken_contents:
  assumes "cons_ok r" and "n \<le> unat (cr_cur_len r)"
  shows "cons_contents (cons_taken n r) = drop n (cons_contents r)" and "cons_ok (cons_taken n r)"
    and "unat (cr_read_idx (cons_taken n r)) = (unat (cr_read_idx r) + n) mod csz"
    and "unat (cr_cur_len (cons_taken n r)) = unat (cr_cur_len r) - n"
proof -
  have "(unat (cr_read_idx r) + n) mod csz < csz" by simp
  also have "\<dots> < 18446744073709551616" by simp
  finally show i: "unat (cr_read_idx (cons_taken n r)) = (unat (cr_read_idx r) + n) mod csz"
    unfolding cons_taken_def by (simp add: unat_of_nat_u64)
  have c: "unat (cr_cur_len r) \<le> csz" using assms(1) by (simp add: cons_ok_def)
  then show l: "unat (cr_cur_len (cons_taken n r)) = unat (cr_cur_len r) - n"
    unfolding cons_taken_def by (simp add: unat_of_nat_u64)
  have b: "length (cr_buf r) = csz" using assms(1) by (simp add: cons_ok_def)
  show "cons_contents (cons_taken n r) = drop n (cons_contents r)"
    unfolding cons_contents_def i l using cyc_mod [of "cr_buf r"] b cyc_drop [OF assms(2), of "cr_buf r"]
    by (simp add: cons_taken_def)
  have "((unat (cr_read_idx r) + n) mod csz + (unat (cr_cur_len r) - n)) mod csz =
      (unat (cr_read_idx r) + unat (cr_cur_len r)) mod csz"
    using assms(2) by (subst mod_add_left_eq) simp
  then show "cons_ok (cons_taken n r)" unfolding cons_ok_def i l using assms(1) c
    by (auto simp: cons_ok_def cons_taken_def)
qed

text \<open>What the reader's buffer holds after the (at most) two copies of a read of \<open>n\<close> bytes.\<close>

definition read_result :: "nat \<Rightarrow> nat \<Rightarrow> bytes \<Rightarrow> bytes \<Rightarrow> bytes" where
  "read_result k n data buffer =
     (if n \<le> k then take n data @ drop n buffer
      else drop k (take n data) @ drop (n - k) (take k data @ drop k buffer))"

lemma mod_csz: "m < csz + csz \<Longrightarrow> m mod csz = (if m < csz then m else m - csz)"
  by (simp add: mod_if)

lemma cons_taken_twice:
  assumes "cons_ok r" and "a + b \<le> unat (cr_cur_len r)"
  shows "cons_taken b (cons_taken a r) = cons_taken (a + b) r"
proof -
  note A = cons_taken_contents(3,4) [OF assms(1), of a]
  have "((unat (cr_read_idx r) + a) mod csz + b) mod csz = (unat (cr_read_idx r) + (a + b)) mod csz"
    by (simp add: mod_add_left_eq add.assoc)
  then show ?thesis using A assms(2)
    unfolding cons_taken_def [of b] by (simp add: cons_taken_def [of a] cons_taken_def [of "a + b"])
qed

lemma cons_data_linear:
  assumes "cons_ok r" and "n \<le> unat (cr_cur_len r)" and "unat (cr_read_idx r) + n \<le> csz"
  shows "take n (drop (unat (cr_read_idx r)) (cr_buf r)) = take n (cons_contents r)"
proof -
  have "take n (cons_contents r) = cyc (cr_buf r) (unat (cr_read_idx r)) n"
    unfolding cons_contents_def by (rule cyc_take [OF assms(2)])
  also have "\<dots> = take n (drop (unat (cr_read_idx r)) (cr_buf r))"
    using assms(1,3) by (intro cyc_linear) (simp add: cons_ok_def)
  finally show ?thesis by simp
qed

lemma cons_data_wrap:
  assumes "cons_ok r" and "n \<le> unat (cr_cur_len r)" and "csz - unat (cr_read_idx r) < n"
  shows "take (n - (csz - unat (cr_read_idx r))) (cr_buf r) = drop (csz - unat (cr_read_idx r)) (take n (cons_contents r))"
proof -
  let ?k = "csz - unat (cr_read_idx r)"
  have ok: "length (cr_buf r) = csz" "unat (cr_read_idx r) < csz" "unat (cr_cur_len r) \<le> csz"
    using assms(1) by (simp_all add: cons_ok_def)
  have "drop ?k (take n (cons_contents r)) = drop ?k (cyc (cr_buf r) (unat (cr_read_idx r)) n)"
    unfolding cons_contents_def by (simp only: cyc_take [OF assms(2)])
  also have "\<dots> = cyc (cr_buf r) (unat (cr_read_idx r) + ?k) (n - ?k)" using assms(3) by (intro cyc_drop) simp
  also have "\<dots> = cyc (cr_buf r) 0 (n - ?k)"
    using ok(1,2) cyc_mod [of "cr_buf r" "unat (cr_read_idx r) + ?k" "n - ?k"] by simp
  also have "\<dots> = take (n - ?k) (cr_buf r)" using ok assms(2) by (subst cyc_linear) auto
  finally show ?thesis by simp
qed

lemma cons_ok_lock: "raw_lock l = 0 \<Longrightarrow> cons_ok r \<Longrightarrow> cons_ok (r\<lparr>cr_lock := l\<rparr>)"
  by (simp add: cons_ok_def)

lemma cons_contents_lock [simp]: "cons_contents (r\<lparr>cr_lock := l\<rparr>) = cons_contents r"
  by (simp add: cons_contents_def)

lemma cons_taken_lock: "cons_taken n (r\<lparr>cr_lock := l\<rparr>) = (cons_taken n r)\<lparr>cr_lock := l\<rparr>"
  by (simp add: cons_taken_def)

lemma cons_taken_fields [simp]:
  "cr_lock (cons_taken n r) = cr_lock r" "cr_buf (cons_taken n r) = cr_buf r"
  "cr_write_idx (cons_taken n r) = cr_write_idx r"
  by (simp_all add: cons_taken_def)

text \<open>
  The two copies of a read of \<open>n\<close> bytes together: the ring loses its \<open>n\<close> oldest bytes and the
  reader's buffer holds \<open>b\<close>.
\<close>

definition copies_to :: "bytes \<Rightarrow> u64 \<Rightarrow> u64 \<Rightarrow> pisces_cons_ringbuf \<Rightarrow> bytes \<Rightarrow> bool" where
  "copies_to buffer offset n r b \<longleftrightarrow> (\<exists>c left. cons_to_end True (buffer, offset, n, r) = Some (Some c) \<and>
     cons_to_write_idx True c = Some (Some (b, offset + n, left, cons_taken (unat n) r)))"

lemma copies_none:
  assumes "cons_ok r" and "n = 0"
  shows "copies_to buffer offset n (r\<lparr>cr_lock := l\<rparr>) (read_result k (unat n) data buffer)"
  using assms by (simp add: copies_to_def cons_to_end_def cons_to_write_idx_def read_result_def cons_taken_def cons_ok_def)

text \<open>The bytes lie before \<open>write_idx\<close>: only the second copy runs.\<close>

lemma copies_to_write_idx:
  assumes "cons_ok r" and "unat n \<le> unat (cr_cur_len r)" and "unat n \<le> length buffer" and "0 < unat n"
    and "unat (cr_read_idx r) < unat (cr_write_idx r)"
  shows "copies_to buffer offset n (r\<lparr>cr_lock := l\<rparr>)
    (read_result (csz - unat (cr_read_idx r)) (unat n) (cons_contents r) buffer)"
proof -
  let ?r = "r\<lparr>cr_lock := l\<rparr>"
  note ok = assms(1) [unfolded cons_ok_def]
  have "unat (cr_cur_len r) = unat (cr_write_idx r) - unat (cr_read_idx r)"
    using ok assms(5) mod_csz [of "unat (cr_read_idx r) + unat (cr_cur_len r)"] by (auto split: if_splits)
  moreover have "unat (cr_write_idx r - cr_read_idx r) = unat (cr_write_idx r) - unat (cr_read_idx r)"
    using assms(5) by (simp add: unat_diff_le)
  ultimately have m: "(if cr_write_idx r - cr_read_idx r > n then n else cr_write_idx r - cr_read_idx r) = n" and
    fit: "unat (cr_read_idx r) + unat n \<le> csz"
    using assms(2,5) ok by (auto simp: word_less_nat_alt unat_inj_iff)
  have "cons_to_end True (buffer, offset, n, ?r) = Some (Some (buffer, offset, n, ?r))"
    using assms(5) by (simp add: cons_to_end_def word_le_nat_alt)
  moreover have "cons_to_write_idx True (buffer, offset, n, ?r) = cons_copy True n (buffer, offset, n, ?r)"
    using assms(4) m by (auto simp: cons_to_write_idx_def word_gt_0 Let_def split: if_splits)
  ultimately show ?thesis
    using cons_copy_ok [of ?r n buffer offset n] fit ok assms(2,3) cons_data_linear [OF assms(1,2) fit]
    by (auto simp: copies_to_def read_result_def)
qed

text \<open>The bytes end at the end of the array at the latest: only the first copy does work.\<close>

lemma copies_to_end:
  assumes "cons_ok r" and "unat n \<le> unat (cr_cur_len r)" and "unat n \<le> length buffer" and "0 < unat n"
    and "unat (cr_write_idx r) \<le> unat (cr_read_idx r)" and "unat n \<le> csz - unat (cr_read_idx r)"
  shows "copies_to buffer offset n (r\<lparr>cr_lock := l\<rparr>)
    (read_result (csz - unat (cr_read_idx r)) (unat n) (cons_contents r) buffer)"
proof -
  let ?r = "r\<lparr>cr_lock := l\<rparr>"
  note ok = assms(1) [unfolded cons_ok_def]
  have fit: "unat (cr_read_idx r) + unat n \<le> csz" using assms(6) ok by linarith
  have "unat (CONS_BUF_SIZE - cr_read_idx r) = csz - unat (cr_read_idx r)" using ok by (simp add: unat_diff_le)
  then have m: "(if CONS_BUF_SIZE - cr_read_idx r > n then n else CONS_BUF_SIZE - cr_read_idx r) = n"
    using assms(6) by (auto simp: word_less_nat_alt unat_inj_iff)
  have "cons_to_end True (buffer, offset, n, ?r) = cons_copy True n (buffer, offset, n, ?r)"
    using assms(4,5) m by (auto simp: cons_to_end_def word_gt_0 word_le_nat_alt Let_def split: if_splits)
  then show ?thesis
    using cons_copy_ok [of ?r n buffer offset n] fit ok assms(2,3,6) cons_data_linear [OF assms(1,2) fit]
    by (auto simp: copies_to_def read_result_def cons_to_write_idx_def)
qed

text \<open>The bytes wrap: both copies run, each into the start of the buffer.\<close>

lemma copies_first_part:
  assumes "cons_ok r" and "csz - unat (cr_read_idx r) < unat n" and "unat n \<le> unat (cr_cur_len r)"
    and "unat n \<le> length buffer" and "unat (cr_write_idx r) \<le> unat (cr_read_idx r)"
  defines "k \<equiv> csz - unat (cr_read_idx r)" and "K \<equiv> CONS_BUF_SIZE - cr_read_idx r"
  shows "cons_to_end True (buffer, offset, n, r\<lparr>cr_lock := l\<rparr>) =
    Some (Some (take k (cons_contents r) @ drop k buffer, offset + K, n - K, cons_taken k (r\<lparr>cr_lock := l\<rparr>)))"
    and "unat (n - K) = unat n - k"
proof -
  note ok = assms(1) [unfolded cons_ok_def]
  have k: "unat K = k" using ok by (simp add: unat_diff_le K_def k_def)
  have "cons_to_end True (buffer, offset, n, r\<lparr>cr_lock := l\<rparr>) = cons_copy True K (buffer, offset, n, r\<lparr>cr_lock := l\<rparr>)"
    using assms(2,5) k by (simp add: cons_to_end_def word_less_nat_alt word_le_nat_alt Let_def K_def k_def)
  moreover have "take k (drop (unat (cr_read_idx r)) (cr_buf r)) = take k (cons_contents r)"
    using assms(2,3) ok unfolding k_def by (intro cons_data_linear [OF assms(1)]) auto
  ultimately show "cons_to_end True (buffer, offset, n, r\<lparr>cr_lock := l\<rparr>) =
    Some (Some (take k (cons_contents r) @ drop k buffer, offset + K, n - K, cons_taken k (r\<lparr>cr_lock := l\<rparr>)))"
    using cons_copy_ok [of "r\<lparr>cr_lock := l\<rparr>" K buffer offset n] ok k assms(2-4) by (simp add: k_def)
  show "unat (n - K) = unat n - k" using assms(2) k by (simp add: unat_diff_le k_def)
qed

lemma copies_second_part:
  assumes "cons_ok r" and "csz - unat (cr_read_idx r) < unat n" and "unat n \<le> unat (cr_cur_len r)"
    and "unat n \<le> length b" and "unat (cr_write_idx r) \<le> unat (cr_read_idx r)" and "unat m = unat n - (csz - unat (cr_read_idx r))"
  defines "k \<equiv> csz - unat (cr_read_idx r)"
  shows "\<exists>left. cons_to_write_idx True (b, off, m, cons_taken k (r\<lparr>cr_lock := l\<rparr>)) =
    Some (Some (drop k (take (unat n) (cons_contents r)) @ drop (unat n - k) b, off + m, left,
      cons_taken (unat n) (r\<lparr>cr_lock := l\<rparr>)))"
proof -
  define r1 where "r1 = cons_taken k (r\<lparr>cr_lock := l\<rparr>)"
  note ok = assms(1) [unfolded cons_ok_def] and mk = assms(6) [folded k_def]
  have f: "unat (cr_read_idx r1) = 0" "unat (cr_cur_len r1) = unat (cr_cur_len r) - k"
    "cr_write_idx r1 = cr_write_idx r" "cr_buf r1 = cr_buf r"
    using cons_taken_contents(3,4) [OF assms(1), of k] assms(2,3) ok by (simp_all add: r1_def cons_taken_def k_def)
  have "unat (cr_write_idx r) = unat (cr_cur_len r) - k"
    using ok assms(2,3,5) mod_csz [of "unat (cr_read_idx r) + unat (cr_cur_len r)"] by (auto simp: k_def split: if_splits)
  then have u: "unat (cr_write_idx r - cr_read_idx r1) = unat (cr_cur_len r) - k" using f(1) by (simp add: unat_diff_le)
  have "unat m \<le> unat (cr_cur_len r) - k" using assms(3) mk by linarith
  then have "\<not> m < cr_write_idx r - cr_read_idx r1 \<Longrightarrow> unat (cr_write_idx r - cr_read_idx r1) = unat m"
    unfolding word_less_nat_alt u by linarith
  then have "(if m < cr_write_idx r - cr_read_idx r1 then m else cr_write_idx r - cr_read_idx r1) = m"
    using unat_inj_iff by metis
  then have c: "cons_to_write_idx True (b, off, m, r1) = cons_copy True m (b, off, m, r1)"
    using mk assms(2) f(3) by (auto simp: cons_to_write_idx_def word_gt_0 Let_def k_def split: if_splits)
  have le: "unat m \<le> csz" "unat m \<le> unat (cr_cur_len r1)" "unat m \<le> length b"
    using f(2) ok mk assms(3,4) by linarith+
  note c
  also have "cons_copy True m (b, off, m, r1) = Some (Some (take (unat m) (cr_buf r) @ drop (unat m) b, off + m, m - m, cons_taken (unat m) r1))"
    using cons_copy_ok [of r1 m b off m] f(1,4) ok le by simp
  also have "cons_taken (unat m) r1 = cons_taken (unat n) (r\<lparr>cr_lock := l\<rparr>)"
    using cons_taken_twice [OF assms(1), of k "unat m"] assms(2,3) mk by (simp add: r1_def cons_taken_lock k_def)
  also have "take (unat m) (cr_buf r) = drop k (take (unat n) (cons_contents r))"
    unfolding mk k_def by (rule cons_data_wrap [OF assms(1,3,2)])
  finally show ?thesis unfolding mk r1_def by blast
qed

lemma copies_wrapped:
  assumes "cons_ok r" and "csz - unat (cr_read_idx r) < unat n" and "unat n \<le> unat (cr_cur_len r)"
    and "unat n \<le> length buffer" and "unat (cr_write_idx r) \<le> unat (cr_read_idx r)"
  shows "copies_to buffer offset n (r\<lparr>cr_lock := l\<rparr>)
    (read_result (csz - unat (cr_read_idx r)) (unat n) (cons_contents r) buffer)"
proof -
  let ?k = "csz - unat (cr_read_idx r)" and ?K = "CONS_BUF_SIZE - cr_read_idx r"
  let ?b = "take ?k (cons_contents r) @ drop ?k buffer"
  note c1 = copies_first_part(1) [OF assms, of offset l] and left = copies_first_part(2) [OF assms]
  have "unat n \<le> length ?b" using assms(2-4) by (simp add: cons_contents_def)
  from copies_second_part [OF assms(1-3) this assms(5) left, of "offset + ?K" l]
  show ?thesis using c1 assms(2) unfolding copies_to_def read_result_def by auto
qed

lemma console_read_copies:
  assumes "raw_lock (cr_lock r) = 0" and "n = (if len > cr_cur_len r then cr_cur_len r else len)"
    and "copies_to buffer offset n (r\<lparr>cr_lock := (cr_lock r)\<lparr>raw_lock := 1\<rparr>\<rparr>) b"
  shows "console_read True True buffer len offset r = Some (uint n, b, offset + n, cons_taken (unat n) r)"
proof -
  let ?r = "r\<lparr>cr_lock := (cr_lock r)\<lparr>raw_lock := 1\<rparr>\<rparr>"
  obtain b1 o1 left1 r1 left2 where "cons_to_end True (buffer, offset, n, ?r) = Some (Some (b1, o1, left1, r1))"
    "cons_to_write_idx True (b1, o1, left1, r1) = Some (Some (b, offset + n, left2, cons_taken (unat n) ?r))"
    using assms(3) unfolding copies_to_def by (metis prod_cases4)
  then show ?thesis using assms(1,2) unfolding console_read_def
    by (cases "cr_cur_len r < len") (simp_all add: Let_def cons_taken_def)
qed

text \<open>
  C33: A console read of \<open>len\<close> bytes on a well-formed ring always comes back with the smaller of
  \<open>len\<close> and the fill level \<open>n\<close>, removes exactly the oldest \<open>n\<close> bytes from the ring and releases
  the lock. As long as these bytes do not wrap around the end of the array they stand at the
  start of the user's buffer. When they do wrap, the part after the wrap is copied to the start of
  the buffer too: the oldest bytes are overwritten and the end of the buffer is not filled.
\<close>

theorem console_read_correct:
  assumes "cons_ok r" and "length buffer = unat len"
  shows "\<exists>r'. console_read True True buffer len offset r =
      Some (int (min (unat len) (unat (cr_cur_len r))),
        read_result (csz - unat (cr_read_idx r)) (min (unat len) (unat (cr_cur_len r))) (cons_contents r) buffer,
        offset + of_nat (min (unat len) (unat (cr_cur_len r))), r') \<and>
    cons_ok r' \<and> cons_contents r' = drop (min (unat len) (unat (cr_cur_len r))) (cons_contents r)"
proof -
  define n where "n = (if len > cr_cur_len r then cr_cur_len r else len)"
  let ?k = "csz - unat (cr_read_idx r)"
  have n: "min (unat len) (unat (cr_cur_len r)) = unat n" by (auto simp: n_def word_less_nat_alt)
  have le: "unat n \<le> unat (cr_cur_len r)" "unat n \<le> length buffer" using n assms(2) by auto
  consider "n = 0" | "0 < unat n" "unat (cr_read_idx r) < unat (cr_write_idx r)"
    | "0 < unat n" "unat (cr_write_idx r) \<le> unat (cr_read_idx r)" "unat n \<le> ?k"
    | "unat (cr_write_idx r) \<le> unat (cr_read_idx r)" "?k < unat n" by (metis not_less unat_eq_zero_iff neq0_conv)
  then have "copies_to buffer offset n (r\<lparr>cr_lock := l\<rparr>) (read_result ?k (unat n) (cons_contents r) buffer)" for l
    by cases (use copies_none copies_to_write_idx copies_to_end copies_wrapped assms(1) le in simp_all)
  then have "console_read True True buffer len offset r =
      Some (uint n, read_result ?k (unat n) (cons_contents r) buffer, offset + n, cons_taken (unat n) r)"
    using assms(1) by (intro console_read_copies) (simp_all add: n_def cons_ok_def)
  then show ?thesis using cons_taken_contents(1,2) [OF assms(1) le(1)] unfolding n
    by (intro exI [of _ "cons_taken (unat n) r"]) simp
qed

definition demo_ring :: pisces_cons_ringbuf where
  "demo_ring = \<lparr>cr_lock = \<lparr>raw_lock = 0\<rparr>, cr_read_idx = 65500, cr_write_idx = 2, cr_cur_len = 6,
     cr_buf = replicate 65504 0\<rparr>"

theorem console_read_correct_witness:
  "\<exists>b off r'. console_read True True (replicate 6 9) 6 0 demo_ring = Some (6, b, off, r') \<and> cons_contents r' = []"
proof -
  have "cons_ok demo_ring" by (simp add: cons_ok_def demo_ring_def)
  from console_read_correct [OF this, of "replicate 6 9" 6 0] show ?thesis
    by (auto simp: demo_ring_def cons_contents_def)
qed

text \<open>
  The console has at most one connection: while it is connected, another connect is refused
  with -1 and changes nothing; releasing it makes it available again. A connect that fails to
  create its file keeps the console marked as connected, so that every later connect is refused.
\<close>

theorem console_connect_exclusive:
  "case pisces_cons_connect fd c of (r, c') \<Rightarrow>
     r = (if pc_connected c = 0 then fd else -1) \<and>
     pisces_cons_connect fd2 c' = (-1, c') \<and>
     fst (pisces_cons_connect fd2 (snd (cons_console_release c'))) = fd2"
  by (simp add: pisces_cons_connect_def cons_console_release_def)

end
