(* ===== verification/Queue.thy ===== *)
theory Queue
  imports Prelude
begin

text \<open>
  The bounded queue of \<open>util-queue.c\<close>. An entry is a pointer; the null pointer is also what
  \<open>dequeue\<close> returns for an empty queue. \<open>enqueue\<close> tests the number of entries before it takes the
  lock and inserts under it: the two are separate steps of a thread.

  Shown: one caller at a time gets a bounded first-in first-out queue; emptying it ends and frees
  every entry up to the first null one; with \<open>n\<close> further callers between test and insertion the
  bound is exceeded by at most \<open>n\<close>, and it can be.
\<close>

section \<open>The queue\<close>

record gen_queue =
  num_entries :: u32
  max_entries :: u32
  entries :: "u64 list"

definition init_queue :: "u32 \<Rightarrow> gen_queue" where
  "init_queue limit = \<lparr>num_entries = 0, max_entries = limit, entries = []\<rparr>"

definition create_queue :: "bool \<Rightarrow> u32 \<Rightarrow> gen_queue option" where
  "create_queue kmalloc limit = (if \<not> kmalloc then None else Some (init_queue limit))"

definition enqueue_check :: "gen_queue \<Rightarrow> bool" where
  "enqueue_check q \<longleftrightarrow> \<not> num_entries q \<ge> max_entries q"

definition enqueue_insert :: "u64 \<Rightarrow> gen_queue \<Rightarrow> gen_queue" where
  "enqueue_insert entry q = q\<lparr>entries := entries q @ [entry], num_entries := num_entries q + 1\<rparr>"

definition enqueue :: "bool \<Rightarrow> u64 \<Rightarrow> gen_queue \<Rightarrow> int \<times> gen_queue" where
  "enqueue kmalloc entry q =
     (if \<not> enqueue_check q then (-1, q)
      else if \<not> kmalloc then (-1, q)
      else (0, enqueue_insert entry q))"

definition dequeue :: "gen_queue \<Rightarrow> u64 \<times> gen_queue" where
  "dequeue q =
     (case entries q of
        [] \<Rightarrow> (0, q)
      | e # es \<Rightarrow> (e, q\<lparr>entries := es, num_entries := num_entries q - 1\<rparr>))"

function deinit_queue :: "gen_queue \<Rightarrow> gen_queue" where
  "deinit_queue q = (let (e, q') = dequeue q in if e \<noteq> 0 then deinit_queue q' else q')"
  by pat_completeness auto
termination
  by (relation "measure (\<lambda>q. length (entries q))") (auto simp: dequeue_def split: list.splits)

declare deinit_queue.simps [simp del]

section \<open>The contract\<close>

text \<open>A bounded first-in first-out buffer, for one caller at a time.\<close>

locale bounded_fifo =
  fixes contents :: "'q \<Rightarrow> 'e list" and bound :: "'q \<Rightarrow> nat" and ok :: "'q \<Rightarrow> bool"
    and put :: "'e \<Rightarrow> 'q \<Rightarrow> int \<times> 'q" and get :: "'q \<Rightarrow> 'e \<times> 'q" and none :: 'e
  assumes put_room: "ok q \<Longrightarrow> length (contents q) < bound q \<Longrightarrow> \<exists>q'. put e q = (0, q') \<and> ok q' \<and>
      contents q' = contents q @ [e] \<and> bound q' = bound q"
    and put_full: "ok q \<Longrightarrow> bound q \<le> length (contents q) \<Longrightarrow> put e q = (-1, q)"
    and get_first: "ok q \<Longrightarrow> contents q = e # es \<Longrightarrow> \<exists>q'. get q = (e, q') \<and> ok q' \<and> contents q' = es \<and> bound q' = bound q"
    and get_empty: "ok q \<Longrightarrow> contents q = [] \<Longrightarrow> get q = (none, q)"
    and within: "ok q \<Longrightarrow> length (contents q) \<le> bound q"
begin

fun put_all :: "'e list \<Rightarrow> 'q \<Rightarrow> 'q" where
  "put_all [] q = q"
| "put_all (e # es) q = put_all es (snd (put e q))"

fun get_n :: "nat \<Rightarrow> 'q \<Rightarrow> 'e list \<times> 'q" where
  "get_n 0 q = ([], q)"
| "get_n (Suc n) q = (let (e, q1) = get q; (es, q2) = get_n n q1 in (e # es, q2))"

lemma put_all_contents:
  "ok q \<Longrightarrow> ok (put_all es q) \<and> bound (put_all es q) = bound q \<and>
     contents (put_all es q) = contents q @ take (bound q - length (contents q)) es"
proof (induction es arbitrary: q)
  case (Cons e es)
  show ?case
  proof (cases "length (contents q) < bound q")
    case True
    from put_room [OF Cons.prems this, of e] obtain q' where q': "put e q = (0, q')" "ok q'"
      "contents q' = contents q @ [e]" "bound q' = bound q" by blast
    have "bound q - length (contents q) = Suc (bound q - length (contents q'))" using True q'(3) by simp
    with Cons.IH [OF q'(2)] q' show ?thesis by simp
  next
    case False
    then show ?thesis using put_full [OF Cons.prems, of e] Cons.IH [OF Cons.prems] by simp
  qed
qed simp

lemma get_n_contents:
  "ok q \<Longrightarrow> n \<le> length (contents q) \<Longrightarrow> fst (get_n n q) = take n (contents q) \<and> ok (snd (get_n n q)) \<and>
     contents (snd (get_n n q)) = drop n (contents q)"
proof (induction n arbitrary: q)
  case (Suc n)
  then obtain e es where c: "contents q = e # es" by (cases "contents q") auto
  from get_first [OF Suc.prems(1) c] obtain q' where "get q = (e, q')" "ok q'" "contents q' = es" by blast
  with Suc.IH [of q'] Suc.prems(2) c show ?case by (auto split: prod.splits)
qed simp

text \<open>What was accepted comes out in the same order.\<close>

lemma fifo_order:
  assumes "ok q" and "contents q = []"
  shows "fst (get_n (min (bound q) (length es)) (put_all es q)) = take (bound q) es"
proof -
  note p = put_all_contents [OF assms(1), of es, unfolded assms(2), simplified]
  then show ?thesis using get_n_contents [of "put_all es q" "min (bound q) (length es)"] by (auto simp: min_def)
qed

end

definition queue_ok :: "gen_queue \<Rightarrow> bool" where
  "queue_ok q \<longleftrightarrow> unat (num_entries q) = length (entries q) \<and> length (entries q) \<le> unat (max_entries q)"

interpretation gq: bounded_fifo entries "\<lambda>q. unat (max_entries q)" queue_ok "enqueue True" dequeue 0
proof unfold_locales
  fix q e assume "queue_ok q" "length (entries q) < unat (max_entries q)"
  moreover from this have "unat (num_entries q + 1) = unat (num_entries q) + 1"
    using unat_u32_lt [of "max_entries q"] by (subst unat_add_small) (auto simp: queue_ok_def simp del: unat_u32_lt)
  ultimately show "\<exists>q'. enqueue True e q = (0, q') \<and> queue_ok q' \<and> entries q' = entries q @ [e] \<and>
      unat (max_entries q') = unat (max_entries q)"
    by (simp add: enqueue_def enqueue_check_def enqueue_insert_def queue_ok_def word_le_nat_alt)
next
  fix q e es assume "queue_ok q" "entries q = e # es"
  moreover from this have "unat (num_entries q - 1) = unat (num_entries q) - 1"
    by (subst unat_diff_le) (auto simp: queue_ok_def)
  ultimately show "\<exists>q'. dequeue q = (e, q') \<and> queue_ok q' \<and> entries q' = es \<and> unat (max_entries q') = unat (max_entries q)"
    by (simp add: dequeue_def queue_ok_def)
qed (auto simp: queue_ok_def enqueue_def enqueue_check_def word_le_nat_alt dequeue_def)

text \<open>
  Entries put into a new queue come out in the same order; the ones past the bound are refused.
\<close>

theorem queue_fifo:
  "fst (gq.get_n (min (unat m) (length es)) (gq.put_all es (init_queue m))) = take (unat m) es"
  using gq.fifo_order [of "init_queue m" es] by (simp add: init_queue_def queue_ok_def)

text \<open>Emptying a queue ends, and leaves what lies behind the first null entry.\<close>

theorem deinit_queue_leaves:
  "entries (deinit_queue q) = drop 1 (dropWhile (\<lambda>e. e \<noteq> 0) (entries q))"
proof (induction q rule: deinit_queue.induct)
  case (1 q)
  show ?case using 1 by (subst deinit_queue.simps) (auto simp: dequeue_def split: list.splits)
qed

section \<open>Callers between test and insertion\<close>

text \<open>
  At most \<open>n\<close> callers are in \<open>enqueue\<close> at a time; \<open>late\<close> of them have passed the test and not yet
  inserted. \<open>dequeue\<close> runs under the lock and is one step.
\<close>

inductive queue_step :: "nat \<Rightarrow> gen_queue \<times> nat \<Rightarrow> gen_queue \<times> nat \<Rightarrow> bool" for n where
  pass: "enqueue_check q \<Longrightarrow> late < n \<Longrightarrow> queue_step n (q, late) (q, late + 1)"
| insert: "queue_step n (q, late + 1) (enqueue_insert e q, late)"
| remove: "dequeue q = (e, q') \<Longrightarrow> queue_step n (q, late) (q', late)"

inductive queue_reach :: "nat \<Rightarrow> u32 \<Rightarrow> gen_queue \<times> nat \<Rightarrow> bool" for n m where
  start: "queue_reach n m (init_queue m, 0)"
| more: "queue_reach n m s \<Longrightarrow> queue_step n s s' \<Longrightarrow> queue_reach n m s'"

inductive_cases queue_stepE: "queue_step n (q, l) s"

definition queue_race_inv :: "nat \<Rightarrow> u32 \<Rightarrow> gen_queue \<times> nat \<Rightarrow> bool" where
  "queue_race_inv n m s = (case s of (q, late) \<Rightarrow> max_entries q = m \<and> unat (num_entries q) = length (entries q) \<and>
     late \<le> n \<and> length (entries q) + late \<le> unat m + n - 1)"

lemma queue_step_inv:
  assumes "queue_step n s s'" and "queue_race_inv n m s" and "unat m + n < 2 ^ 32"
  shows "queue_race_inv n m s'"
  using assms
proof cases
  case (pass q late)
  then show ?thesis using assms(2) by (auto simp: queue_race_inv_def enqueue_check_def word_le_nat_alt)
next
  case (insert q late e)
  then have "unat (num_entries q + 1) = unat (num_entries q) + 1"
    using assms(2, 3) by (subst unat_add_small) (auto simp: queue_race_inv_def)
  then show ?thesis using insert assms(2) by (auto simp: queue_race_inv_def enqueue_insert_def)
next
  case (remove q e q' late)
  show ?thesis
  proof (cases "entries q")
    case (Cons x xs)
    then have "unat (num_entries q - 1) = unat (num_entries q) - 1"
      using assms(2) remove by (subst unat_diff_le) (auto simp: queue_race_inv_def)
    then show ?thesis using remove Cons assms(2) by (auto simp: queue_race_inv_def dequeue_def)
  qed (use remove assms(2) in \<open>auto simp: dequeue_def\<close>)
qed

text \<open>
  With at most \<open>n\<close> concurrent callers, the counter is always the number of entries and a queue
  holds at most \<open>n - 1\<close> entries more than its bound: with one caller at a time the bound is kept.
\<close>

theorem queue_bound_concurrent:
  assumes "queue_reach n m (q, late)" and "0 < n" and "unat m + n < 2 ^ 32"
  shows "unat (num_entries q) = length (entries q) \<and> length (entries q) \<le> unat m + (n - 1)"
proof -
  have "queue_race_inv n m (q, late)" using assms(1)
  proof (induction "(q, late)" arbitrary: q late rule: queue_reach.induct)
    case start
    show ?case using assms(2) by (simp add: queue_race_inv_def init_queue_def)
  next
    case (more s)
    then show ?case using queue_step_inv [OF _ _ assms(3)] by (cases s) blast
  qed
  then show ?thesis using assms(2) by (auto simp: queue_race_inv_def)
qed

lemma queue_bound_exceeded:
  "queue_reach 2 1 (enqueue_insert 8 (enqueue_insert 7 (init_queue 1)), 0)"
proof -
  have "enqueue_check (init_queue 1)" by (simp add: enqueue_check_def init_queue_def)
  then have "queue_step 2 (init_queue 1, 0) (init_queue 1, 0 + 1)" "queue_step 2 (init_queue 1, 1) (init_queue 1, 1 + 1)"
    by (rule queue_step.pass; simp)+
  then have "queue_reach 2 1 (init_queue 1, 1 + 1)" using queue_reach.start queue_reach.more by (metis add_0)
  then have "queue_reach 2 1 (enqueue_insert 7 (init_queue 1), 0 + 1)"
    using queue_reach.more queue_step.insert by (metis add_0)
  then show ?thesis using queue_reach.more queue_step.insert by blast
qed

theorem queue_bound_concurrent_witness:
  "queue_reach 2 1 (enqueue_insert 8 (enqueue_insert 7 (init_queue 1)), 0) \<and>
   length (entries (enqueue_insert 8 (enqueue_insert 7 (init_queue 1)))) \<le> 2"
  using queue_bound_concurrent [OF queue_bound_exceeded] queue_bound_exceeded by simp

end
