(* ===== verification/PgTables.thy ===== *)
theory PgTables
  imports Prelude
begin

text \<open>
  The page table structures of the processor (\<open>pgtables.h\<close>) and the two routines that read them
  (\<open>pgtables.c\<close>). An entry is its 64-bit value, a field of the bit-field structures a range of its
  bits. The memory that holds page tables is a map from the physical address of a page to its 512
  entries; the tables are page-aligned, so that two of them never overlap.

  Shown: storing a field and reading it back, without effect on the other fields; the base address
  conversions lose nothing of an aligned address; \<open>dump_pgtables\<close> finds a page exactly where the
  processor's own walk does.
\<close>

section \<open>Bit fields\<close>

definition get_field :: "nat \<Rightarrow> nat \<Rightarrow> u64 \<Rightarrow> u64" where
  "get_field lo n w = take_bit n (drop_bit lo w)"

definition put_field :: "nat \<Rightarrow> nat \<Rightarrow> u64 \<Rightarrow> u64 \<Rightarrow> u64" where
  "put_field lo n v w = (w AND NOT (push_bit lo (mask n))) OR push_bit lo (take_bit n v)"

lemma bit_get_field: "bit (get_field lo n w) i \<longleftrightarrow> i < n \<and> bit w (lo + i)"
  by (auto simp: get_field_def bit_simps)

lemma bit_put_field:
  assumes "lo + n \<le> 64"
  shows "bit (put_field lo n v w) i \<longleftrightarrow> (if lo \<le> i \<and> i < lo + n then bit v (i - lo) else bit w i)"
  using assms by (auto simp: put_field_def bit_simps dest: bit_imp_le_length)

lemma get_put_same: "lo + n \<le> 64 \<Longrightarrow> get_field lo n (put_field lo n v w) = take_bit n v"
  by (rule bit_eqI) (auto simp: bit_get_field bit_put_field bit_take_bit_iff)

lemma get_put_other:
  assumes "lo' + n' \<le> 64" and "lo + n \<le> lo' \<or> lo' + n' \<le> lo"
  shows "get_field lo n (put_field lo' n' v w) = get_field lo n w"
  using assms by (intro bit_eqI) (auto simp: bit_get_field bit_put_field)

section \<open>Indices and base addresses\<close>

definition PML4E64_INDEX :: "u64 \<Rightarrow> nat" where "PML4E64_INDEX x = unat (drop_bit 39 x AND 0x1ff)"
definition PDPE64_INDEX :: "u64 \<Rightarrow> nat" where "PDPE64_INDEX x = unat (drop_bit 30 x AND 0x1ff)"
definition PDE64_INDEX :: "u64 \<Rightarrow> nat" where "PDE64_INDEX x = unat (drop_bit 21 x AND 0x1ff)"
definition PTE64_INDEX :: "u64 \<Rightarrow> nat" where "PTE64_INDEX x = unat (drop_bit 12 x AND 0x1ff)"

definition PAGE_TO_BASE_ADDR :: "u64 \<Rightarrow> u64" where "PAGE_TO_BASE_ADDR x = drop_bit 12 x"
definition PAGE_TO_BASE_ADDR_2MB :: "u64 \<Rightarrow> u64" where "PAGE_TO_BASE_ADDR_2MB x = drop_bit 21 x"
definition PAGE_TO_BASE_ADDR_1GB :: "u64 \<Rightarrow> u64" where "PAGE_TO_BASE_ADDR_1GB x = drop_bit 30 x"
definition BASE_TO_PAGE_ADDR :: "u64 \<Rightarrow> u64" where "BASE_TO_PAGE_ADDR x = push_bit 12 x"
definition BASE_TO_PAGE_ADDR_2MB :: "u64 \<Rightarrow> u64" where "BASE_TO_PAGE_ADDR_2MB x = push_bit 21 x"
definition BASE_TO_PAGE_ADDR_1GB :: "u64 \<Rightarrow> u64" where "BASE_TO_PAGE_ADDR_1GB x = push_bit 30 x"
definition PAGE_OFFSET_4KB :: "u64 \<Rightarrow> u64" where "PAGE_OFFSET_4KB x = x AND 0xfff"
definition PAGE_OFFSET_2MB :: "u64 \<Rightarrow> u64" where "PAGE_OFFSET_2MB x = x AND 0x1fffff"
definition PAGE_OFFSET_1GB :: "u64 \<Rightarrow> u64" where "PAGE_OFFSET_1GB x = x AND 0x3fffffff"

abbreviation PAGE_SIZE_4KB :: u64 where "PAGE_SIZE_4KB \<equiv> 4096"
abbreviation PAGE_SIZE_2MB :: u64 where "PAGE_SIZE_2MB \<equiv> 2097152"
abbreviation PAGE_SIZE_1GB :: u64 where "PAGE_SIZE_1GB \<equiv> 0x40000000"
abbreviation MAX_PDE64_ENTRIES :: nat where "MAX_PDE64_ENTRIES \<equiv> 512"

lemma unat_index: "unat (drop_bit n x AND 0x1ff) = (unat x div 2 ^ n) mod 512" for x :: u64
proof -
  have "drop_bit n x AND 0x1ff = take_bit 9 (drop_bit n x)" by (simp add: take_bit_eq_mask mask_numeral)
  then have "unat (drop_bit n x AND 0x1ff) = take_bit 9 (drop_bit n (unat x))"
    by (simp only: unsigned_take_bit_eq unat_drop_bit_eq)
  then show ?thesis by (simp add: take_bit_eq_mod drop_bit_eq_div)
qed

lemma index_nat:
  "PML4E64_INDEX x = unat x div 2 ^ 39 mod 512" "PDPE64_INDEX x = unat x div 2 ^ 30 mod 512"
  "PDE64_INDEX x = unat x div 2 ^ 21 mod 512" "PTE64_INDEX x = unat x div 2 ^ 12 mod 512"
  unfolding PML4E64_INDEX_def PDPE64_INDEX_def PDE64_INDEX_def PTE64_INDEX_def by (rule unat_index)+

lemma unat_offset: "unat (x AND 0x1fffff) = unat x mod 2 ^ 21" for x :: u64
proof -
  have "x AND 0x1fffff = take_bit 21 x" by (simp add: take_bit_eq_mask mask_numeral)
  moreover have "unat (take_bit 21 x) = take_bit 21 (unat x)" by (rule unsigned_take_bit_eq)
  ultimately show ?thesis by (simp add: take_bit_eq_mod del: unsigned_take_bit_eq)
qed

section \<open>Entries\<close>

definition pte_present :: "u64 \<Rightarrow> bool" where "pte_present e = bit e 0"
definition pte_large_page :: "u64 \<Rightarrow> bool" where "pte_large_page e = bit e 7"

definition pml4e64_pdp_base_addr :: "u64 \<Rightarrow> u64" where "pml4e64_pdp_base_addr e = get_field 12 40 e"
definition pdpe64_pd_base_addr :: "u64 \<Rightarrow> u64" where "pdpe64_pd_base_addr e = get_field 12 40 e"
definition pde64_pt_base_addr :: "u64 \<Rightarrow> u64" where "pde64_pt_base_addr e = get_field 12 40 e"
definition pte64_page_base_addr :: "u64 \<Rightarrow> u64" where "pte64_page_base_addr e = get_field 12 40 e"
definition pdpe64_1GB_page_base_addr :: "u64 \<Rightarrow> u64" where "pdpe64_1GB_page_base_addr e = get_field 30 22 e"
definition pde64_2MB_page_base_addr :: "u64 \<Rightarrow> u64" where "pde64_2MB_page_base_addr e = get_field 21 31 e"

text \<open>The stores of the module into an entry: a table below it, or a page of 2 MB.\<close>

definition set_table_entry :: "u64 \<Rightarrow> u64 \<Rightarrow> u64" where
  "set_table_entry base e = put_field 12 40 base (put_field 1 1 1 (put_field 0 1 1 e))"

definition set_2MB_entry :: "u64 \<Rightarrow> u64 \<Rightarrow> u64" where
  "set_2MB_entry base e = put_field 21 31 base (put_field 7 1 1 (put_field 1 1 1 (put_field 0 1 1 e)))"

lemma set_table_entry_fields:
  "pte_present (set_table_entry b e)" "pte_large_page (set_table_entry b e) = pte_large_page e"
  "get_field 12 40 (set_table_entry b e) = take_bit 40 b"
  by (simp_all add: set_table_entry_def pte_present_def pte_large_page_def bit_put_field get_put_same bit_1_iff)

lemma set_2MB_entry_fields:
  "pte_present (set_2MB_entry b e)" "pte_large_page (set_2MB_entry b e)"
  "get_field 21 31 (set_2MB_entry b e) = take_bit 31 b"
  by (simp_all add: set_2MB_entry_def pte_present_def pte_large_page_def bit_put_field get_put_same bit_1_iff)

text \<open>An address below \<open>2 ^ 52\<close> on an \<open>n\<close>-bit boundary.\<close>

definition aligned52 :: "nat \<Rightarrow> u64 \<Rightarrow> bool" where
  "aligned52 n a \<longleftrightarrow> 2 ^ n dvd unat a \<and> unat a < 2 ^ 52"

lemma push_take_drop:
  assumes "aligned52 n a" and "n + k = 52"
  shows "push_bit n (take_bit k (drop_bit n a)) = a"
proof -
  have d: "unat (drop_bit n a) = unat a div 2 ^ n" unfolding unat_drop_bit_eq by (rule drop_bit_eq_div)
  have "unat a div 2 ^ n < 2 ^ k"
  proof -
    have "unat a < 2 ^ k * 2 ^ n" using assms by (simp add: aligned52_def power_add [symmetric] add.commute)
    then show ?thesis by (simp add: less_mult_imp_div_less)
  qed
  then have t: "take_bit k (drop_bit n a) = drop_bit n a"
    unfolding unat_inj_iff unsigned_take_bit_eq d by (rule take_bit_nat_eq_self)
  have "(2 :: nat) ^ n \<le> 2 ^ 52" using assms(2) by (intro power_increasing) auto
  then have "unat (of_nat (2 ^ n) :: u64) = 2 ^ n" by (intro unat_of_nat_u64) simp
  then have "unat (2 ^ n :: u64) = 2 ^ n" by simp
  then have "unat (push_bit n (drop_bit n a)) = unat a div 2 ^ n * 2 ^ n mod 2 ^ 64"
    unfolding push_bit_eq_mult by (simp only: unat_word_ariths d) simp
  also have "unat a div 2 ^ n * 2 ^ n = unat a" using assms(1) by (simp add: aligned52_def)
  finally have "push_bit n (drop_bit n a) = a" by (simp add: unat_inj_iff)
  then show ?thesis by (simp only: t)
qed

lemma table_base_roundtrip: "aligned52 12 a \<Longrightarrow> BASE_TO_PAGE_ADDR (take_bit 40 (PAGE_TO_BASE_ADDR a)) = a"
  by (simp add: BASE_TO_PAGE_ADDR_def PAGE_TO_BASE_ADDR_def push_take_drop)

lemma page_2MB_roundtrip: "aligned52 21 a \<Longrightarrow> BASE_TO_PAGE_ADDR_2MB (take_bit 31 (PAGE_TO_BASE_ADDR_2MB a)) = a"
  by (simp add: BASE_TO_PAGE_ADDR_2MB_def PAGE_TO_BASE_ADDR_2MB_def push_take_drop)

section \<open>Walking the tables\<close>

type_synonym ptmem = "u64 \<Rightarrow> nat \<Rightarrow> u64"

datatype pg_result =
    PgNotPresent nat nat | Pg1G u64 | Pg2M u64 | Pg4K u64

text \<open>What \<open>dump_pgtables\<close> reports: the level and index where it stopped, or the page it found.\<close>

definition dump_pgtables :: "ptmem \<Rightarrow> u64 \<Rightarrow> u64 \<Rightarrow> int \<times> pg_result option" where
  "dump_pgtables mem pgt_ptr vaddr =
     (if pgt_ptr = 0 then (-1, None)
      else let pml_entry = mem pgt_ptr (PML4E64_INDEX vaddr) in
      if \<not> pte_present pml_entry then (-1, Some (PgNotPresent 4 (PML4E64_INDEX vaddr)))
      else let pdp = BASE_TO_PAGE_ADDR (pml4e64_pdp_base_addr pml_entry);
               pdp_entry = mem pdp (PDPE64_INDEX vaddr) in
      if \<not> pte_present pdp_entry then (-1, Some (PgNotPresent 3 (PDPE64_INDEX vaddr)))
      else if pte_large_page pdp_entry
      then (0, Some (Pg1G (BASE_TO_PAGE_ADDR_1GB (pdpe64_1GB_page_base_addr pdp_entry))))
      else let pd = BASE_TO_PAGE_ADDR (pdpe64_pd_base_addr pdp_entry);
               pd_entry = mem pd (PDE64_INDEX vaddr) in
      if \<not> pte_present pd_entry then (-1, Some (PgNotPresent 2 (PDE64_INDEX vaddr)))
      else if pte_large_page pd_entry
      then (0, Some (Pg2M (BASE_TO_PAGE_ADDR_2MB (pde64_2MB_page_base_addr pd_entry))))
      else let pt = BASE_TO_PAGE_ADDR (pde64_pt_base_addr pd_entry);
               pt_entry = mem pt (PTE64_INDEX vaddr) in
      if \<not> pte_present pt_entry then (-1, Some (PgNotPresent 1 (PTE64_INDEX vaddr)))
      else (0, Some (Pg4K (BASE_TO_PAGE_ADDR (pte64_page_base_addr pt_entry)))))"

text \<open>
  The four nested loops of \<open>walk_pgtables\<close>: each takes the address reached so far and gives the
  pages printed (virtual address, page) and the address after its table.
\<close>

fun walk_pt :: "ptmem \<Rightarrow> u64 \<Rightarrow> nat list \<Rightarrow> u64 \<Rightarrow> (u64 \<times> pg_result) list \<times> u64" where
  "walk_pt mem pt [] addr = ([], addr)"
| "walk_pt mem pt (m # ms) addr =
     (let pt_entry = mem pt m; (ps, a) = walk_pt mem pt ms (addr + PAGE_SIZE_4KB) in
      if \<not> pte_present pt_entry then (ps, a)
      else ((addr, Pg4K (BASE_TO_PAGE_ADDR (pte64_page_base_addr pt_entry))) # ps, a))"

fun walk_pd :: "ptmem \<Rightarrow> u64 \<Rightarrow> nat list \<Rightarrow> u64 \<Rightarrow> (u64 \<times> pg_result) list \<times> u64" where
  "walk_pd mem pd [] addr = ([], addr)"
| "walk_pd mem pd (k # ks) addr =
     (let pd_entry = mem pd k in
      if \<not> pte_present pd_entry then walk_pd mem pd ks (addr + PAGE_SIZE_2MB)
      else if pte_large_page pd_entry
      then let (ps, a) = walk_pd mem pd ks (addr + PAGE_SIZE_2MB) in
        ((addr, Pg2M (BASE_TO_PAGE_ADDR_2MB (pde64_2MB_page_base_addr pd_entry))) # ps, a)
      else let (ps1, a1) = walk_pt mem (BASE_TO_PAGE_ADDR (pde64_pt_base_addr pd_entry)) [0..<512] addr;
               (ps2, a2) = walk_pd mem pd ks a1
           in (ps1 @ ps2, a2))"

fun walk_pdp :: "ptmem \<Rightarrow> u64 \<Rightarrow> nat list \<Rightarrow> u64 \<Rightarrow> (u64 \<times> pg_result) list \<times> u64" where
  "walk_pdp mem pdp [] addr = ([], addr)"
| "walk_pdp mem pdp (j # js) addr =
     (let pdp_entry = mem pdp j in
      if \<not> pte_present pdp_entry then walk_pdp mem pdp js (addr + PAGE_SIZE_1GB)
      else if pte_large_page pdp_entry
      then let (ps, a) = walk_pdp mem pdp js (addr + PAGE_SIZE_1GB) in
        ((addr, Pg1G (BASE_TO_PAGE_ADDR_1GB (pdpe64_1GB_page_base_addr pdp_entry))) # ps, a)
      else let (ps1, a1) = walk_pd mem (BASE_TO_PAGE_ADDR (pdpe64_pd_base_addr pdp_entry)) [0..<512] addr;
               (ps2, a2) = walk_pdp mem pdp js a1
           in (ps1 @ ps2, a2))"

fun walk_pml :: "ptmem \<Rightarrow> u64 \<Rightarrow> nat list \<Rightarrow> u64 \<Rightarrow> (u64 \<times> pg_result) list \<times> u64" where
  "walk_pml mem pml [] addr = ([], addr)"
| "walk_pml mem pml (i # is) addr =
     (let pml_entry = mem pml i in
      if \<not> pte_present pml_entry then walk_pml mem pml is (addr + PAGE_SIZE_1GB * 512)
      else let (ps1, a1) = walk_pdp mem (BASE_TO_PAGE_ADDR (pml4e64_pdp_base_addr pml_entry)) [0..<512] addr;
               (ps2, a2) = walk_pml mem pml is a1
           in (ps1 @ ps2, a2))"

definition walk_pgtables :: "ptmem \<Rightarrow> u64 \<Rightarrow> int \<times> (u64 \<times> pg_result) list" where
  "walk_pgtables mem pgt_ptr =
     (if pgt_ptr = 0 then (-1, []) else (0, fst (walk_pml mem pgt_ptr [0..<512] 0)))"

section \<open>The processor's walk\<close>

text \<open>
  Address translation in long mode, as the processor does it: the physical address a virtual
  address is mapped to.
\<close>

definition translate :: "ptmem \<Rightarrow> u64 \<Rightarrow> u64 \<Rightarrow> u64 option" where
  "translate mem pml va =
     (let e4 = mem pml (PML4E64_INDEX va) in
      if \<not> bit e4 0 then None
      else let e3 = mem (push_bit 12 (get_field 12 40 e4)) (PDPE64_INDEX va) in
      if \<not> bit e3 0 then None
      else if bit e3 7 then Some (push_bit 30 (get_field 30 22 e3) + (va AND 0x3fffffff))
      else let e2 = mem (push_bit 12 (get_field 12 40 e3)) (PDE64_INDEX va) in
      if \<not> bit e2 0 then None
      else if bit e2 7 then Some (push_bit 21 (get_field 21 31 e2) + (va AND 0x1fffff))
      else let e1 = mem (push_bit 12 (get_field 12 40 e2)) (PTE64_INDEX va) in
      if \<not> bit e1 0 then None
      else Some (push_bit 12 (get_field 12 40 e1) + (va AND 0xfff)))"

definition page_addr :: "pg_result \<Rightarrow> u64 \<Rightarrow> u64 option" where
  "page_addr p va = (case p of PgNotPresent _ _ \<Rightarrow> None | Pg1G a \<Rightarrow> Some (a + PAGE_OFFSET_1GB va)
     | Pg2M a \<Rightarrow> Some (a + PAGE_OFFSET_2MB va) | Pg4K a \<Rightarrow> Some (a + PAGE_OFFSET_4KB va))"

lemmas pg_defs = pte_present_def pte_large_page_def pml4e64_pdp_base_addr_def pdpe64_pd_base_addr_def
  pde64_pt_base_addr_def pte64_page_base_addr_def pdpe64_1GB_page_base_addr_def pde64_2MB_page_base_addr_def
  BASE_TO_PAGE_ADDR_def BASE_TO_PAGE_ADDR_2MB_def BASE_TO_PAGE_ADDR_1GB_def

text \<open>
  The table dump reports a page for an address exactly when the processor translates that
  address, and then the page and the offset in it give the physical address; it returns 0 in that
  case and -1 otherwise.
\<close>

theorem dump_pgtables_correct:
  assumes "pml \<noteq> 0"
  shows "case dump_pgtables mem pml va of (r, p) \<Rightarrow>
    (case translate mem pml va of
       None \<Rightarrow> r = -1 \<and> (\<exists>l i. p = Some (PgNotPresent l i))
     | Some pa \<Rightarrow> r = 0 \<and> (\<exists>q. p = Some q \<and> page_addr q va = Some pa))"
  using assms
  by (simp add: dump_pgtables_def translate_def pg_defs page_addr_def Let_def PAGE_OFFSET_1GB_def
      PAGE_OFFSET_2MB_def PAGE_OFFSET_4KB_def)

definition demo_ptmem :: ptmem where
  "demo_ptmem p i = (if p = 0x1000 \<and> i = 0 then 0x2003 else if p = 0x2000 \<and> i = 1 then 0x40000083 else 0)"

theorem dump_pgtables_correct_witness:
  "fst (dump_pgtables demo_ptmem 0x1000 0x40001234) = 0 \<and> translate demo_ptmem 0x1000 0x40001234 = Some 0x40001234"
proof -
  have "translate demo_ptmem 0x1000 0x40001234 = Some 0x40001234" by code_simp
  then show ?thesis using dump_pgtables_correct [where pml = "0x1000" and mem = demo_ptmem and va = "0x40001234"]
    by (auto split: prod.splits)
qed

section \<open>The walk over all tables\<close>

text \<open>The virtual address the four indices stand for, without sign extension.\<close>

definition va_of :: "nat \<Rightarrow> nat \<Rightarrow> nat \<Rightarrow> nat \<Rightarrow> u64" where
  "va_of i j k m = of_nat (i * 2 ^ 39 + j * 2 ^ 30 + k * 2 ^ 21 + m * 2 ^ 12)"

lemma split512: "m < 512 \<Longrightarrow> (x * 512 + m) div 512 = x" "m < 512 \<Longrightarrow> (x * 512 + m) mod 512 = m" for x m :: nat
  by simp_all

lemma va_of_index:
  assumes "i < 512" "j < 512" "k < 512" "m < 512"
  shows "PML4E64_INDEX (va_of i j k m) = i" "PDPE64_INDEX (va_of i j k m) = j"
    "PDE64_INDEX (va_of i j k m) = k" "PTE64_INDEX (va_of i j k m) = m"
proof -
  let ?n = "i * 2 ^ 39 + j * 2 ^ 30 + k * 2 ^ 21 + m * 2 ^ 12"
  have u: "unat (va_of i j k m) = ?n" unfolding va_of_def using assms by (intro unat_of_nat_u64) simp
  define A where "A = ((i * 512 + j) * 512 + k) * 512 + m"
  have n: "?n = A * 4096" by (simp add: A_def algebra_simps)
  have d: "A * 4096 div 2 ^ 12 = A" "A * 4096 div 2 ^ 21 = A div 512" "A * 4096 div 2 ^ 30 = A div 512 div 512"
    "A * 4096 div 2 ^ 39 = A div 512 div 512 div 512"
    using div_mult2_eq [of "A * 4096" 4096 512] div_mult2_eq [of "A * 4096" 4096 "512 * 512"]
      div_mult2_eq [of "A * 4096" 4096 "512 * 512 * 512"] div_mult2_eq [of A 512 512]
      div_mult2_eq [of A 512 "512 * 512"] div_mult2_eq [of "A div 512" 512 512] by simp_all
  note s = A_def split512 [OF assms(4)] split512 [OF assms(3)] split512 [OF assms(2)]
  show "PML4E64_INDEX (va_of i j k m) = i" "PDPE64_INDEX (va_of i j k m) = j"
    "PDE64_INDEX (va_of i j k m) = k" "PTE64_INDEX (va_of i j k m) = m"
    unfolding index_nat u n d unfolding s using assms(1) by simp_all
qed

text \<open>A loop whose rounds each advance the address by the same amount.\<close>

lemma walk_rounds:
  fixes W :: "nat list \<Rightarrow> u64 \<Rightarrow> 'p list \<times> u64"
  assumes nil: "\<And>a. W [] a = ([], a)"
    and cons: "\<And>k ks a. W (k # ks) a = (let (ps1, a1) = B k a; (ps2, a2) = W ks a1 in (ps1 @ ps2, a2))"
    and adv: "\<And>k a. snd (B k a) = a + S"
  shows "W [m..<m + n] (a + of_nat m * S) =
    (concat (map (\<lambda>t. fst (B t (a + of_nat t * S))) [m..<m + n]), a + of_nat (m + n) * S)"
proof (induction n arbitrary: m)
  case (Suc n)
  have a: "a + of_nat m * S + S = a + of_nat (Suc m) * S" by (simp add: ring_distribs)
  have u: "[m..<m + Suc n] = m # [Suc m..<Suc m + n]" by (simp add: upt_conv_Cons)
  obtain ps where B: "B m (a + of_nat m * S) = (ps, a + of_nat (Suc m) * S)"
    using adv [of m "a + of_nat m * S"] unfolding a by (metis prod.collapse)
  show ?case unfolding u cons B Let_def prod.case Suc.IH [of "Suc m"] by (simp add: B)
qed (simp add: nil)

lemmas walk_512 = walk_rounds [where m = 0 and n = 512, simplified]

definition pt_round :: "ptmem \<Rightarrow> u64 \<Rightarrow> nat \<Rightarrow> u64 \<Rightarrow> (u64 \<times> pg_result) list \<times> u64" where
  "pt_round mem pt m a = (if pte_present (mem pt m)
     then [(a, Pg4K (BASE_TO_PAGE_ADDR (pte64_page_base_addr (mem pt m))))] else [], a + PAGE_SIZE_4KB)"

definition pd_round :: "ptmem \<Rightarrow> u64 \<Rightarrow> nat \<Rightarrow> u64 \<Rightarrow> (u64 \<times> pg_result) list \<times> u64" where
  "pd_round mem pd k a =
     (if \<not> pte_present (mem pd k) then ([], a + PAGE_SIZE_2MB)
      else if pte_large_page (mem pd k)
      then ([(a, Pg2M (BASE_TO_PAGE_ADDR_2MB (pde64_2MB_page_base_addr (mem pd k))))], a + PAGE_SIZE_2MB)
      else walk_pt mem (BASE_TO_PAGE_ADDR (pde64_pt_base_addr (mem pd k))) [0..<512] a)"

definition pdp_round :: "ptmem \<Rightarrow> u64 \<Rightarrow> nat \<Rightarrow> u64 \<Rightarrow> (u64 \<times> pg_result) list \<times> u64" where
  "pdp_round mem pdp j a =
     (if \<not> pte_present (mem pdp j) then ([], a + PAGE_SIZE_1GB)
      else if pte_large_page (mem pdp j)
      then ([(a, Pg1G (BASE_TO_PAGE_ADDR_1GB (pdpe64_1GB_page_base_addr (mem pdp j))))], a + PAGE_SIZE_1GB)
      else walk_pd mem (BASE_TO_PAGE_ADDR (pdpe64_pd_base_addr (mem pdp j))) [0..<512] a)"

definition pml_round :: "ptmem \<Rightarrow> u64 \<Rightarrow> nat \<Rightarrow> u64 \<Rightarrow> (u64 \<times> pg_result) list \<times> u64" where
  "pml_round mem pml i a =
     (if \<not> pte_present (mem pml i) then ([], a + PAGE_SIZE_1GB * 512)
      else walk_pdp mem (BASE_TO_PAGE_ADDR (pml4e64_pdp_base_addr (mem pml i))) [0..<512] a)"

lemma walk_pt_512: "walk_pt mem pt [0..<512] a =
    (concat (map (\<lambda>t. fst (pt_round mem pt t (a + of_nat t * PAGE_SIZE_4KB))) [0..<512]), a + PAGE_SIZE_2MB)"
  by (subst walk_512 [where B = "pt_round mem pt" and S = PAGE_SIZE_4KB])
    (auto simp: pt_round_def Let_def split: prod.splits)

lemma walk_pd_512: "walk_pd mem pd [0..<512] a =
    (concat (map (\<lambda>t. fst (pd_round mem pd t (a + of_nat t * PAGE_SIZE_2MB))) [0..<512]), a + PAGE_SIZE_1GB)"
  by (subst walk_512 [where B = "pd_round mem pd" and S = PAGE_SIZE_2MB])
    (auto simp: pd_round_def walk_pt_512 Let_def split: prod.splits)

lemma walk_pdp_512: "walk_pdp mem pdp [0..<512] a =
    (concat (map (\<lambda>t. fst (pdp_round mem pdp t (a + of_nat t * PAGE_SIZE_1GB))) [0..<512]), a + PAGE_SIZE_1GB * 512)"
  by (subst walk_512 [where B = "pdp_round mem pdp" and S = PAGE_SIZE_1GB])
    (auto simp: pdp_round_def walk_pd_512 Let_def split: prod.splits)

lemma walk_pml_512: "walk_pml mem pml [0..<512] a =
    (concat (map (\<lambda>t. fst (pml_round mem pml t (a + of_nat t * (PAGE_SIZE_1GB * 512)))) [0..<512]),
     a + 512 * (PAGE_SIZE_1GB * 512))"
  by (subst walk_512 [where B = "pml_round mem pml" and S = "PAGE_SIZE_1GB * 512"])
    (auto simp: pml_round_def walk_pdp_512 Let_def split: prod.splits)


text \<open>Where a page that the walk reports starts: the indices below its level are 0.\<close>

definition page_start :: "pg_result \<Rightarrow> nat \<Rightarrow> nat \<Rightarrow> bool" where
  "page_start p k m = (case p of Pg1G _ \<Rightarrow> k = 0 \<and> m = 0 | Pg2M _ \<Rightarrow> m = 0 | _ \<Rightarrow> True)"

lemma walk_pt_set: "x \<in> set (fst (walk_pt mem pt [0..<512] a)) \<longleftrightarrow>
    (\<exists>m<512. x \<in> set (fst (pt_round mem pt m (a + of_nat m * PAGE_SIZE_4KB))))"
  unfolding walk_pt_512 by (auto simp: image_iff)

lemma walk_pd_set: "x \<in> set (fst (walk_pd mem pd [0..<512] a)) \<longleftrightarrow>
    (\<exists>k<512. x \<in> set (fst (pd_round mem pd k (a + of_nat k * PAGE_SIZE_2MB))))"
  unfolding walk_pd_512 by (auto simp: image_iff)

lemma walk_pdp_set: "x \<in> set (fst (walk_pdp mem pdp [0..<512] a)) \<longleftrightarrow>
    (\<exists>j<512. x \<in> set (fst (pdp_round mem pdp j (a + of_nat j * PAGE_SIZE_1GB))))"
  unfolding walk_pdp_512 by (auto simp: image_iff)

lemma walk_pml_set: "x \<in> set (fst (walk_pml mem pml [0..<512] a)) \<longleftrightarrow>
    (\<exists>i<512. x \<in> set (fst (pml_round mem pml i (a + of_nat i * (PAGE_SIZE_1GB * 512)))))"
  unfolding walk_pml_512 by (auto simp: image_iff)

lemmas walk_sets = walk_pt_set walk_pd_set walk_pdp_set walk_pml_set

lemma va_of_sum: "of_nat i * (PAGE_SIZE_1GB * 512) + of_nat j * PAGE_SIZE_1GB + of_nat k * PAGE_SIZE_2MB
    + of_nat m * PAGE_SIZE_4KB = va_of i j k m"
  by (simp add: va_of_def)

lemma va_of_sums:
  "of_nat i * (PAGE_SIZE_1GB * 512) + of_nat j * PAGE_SIZE_1GB + of_nat k * PAGE_SIZE_2MB = va_of i j k 0"
  "of_nat i * (PAGE_SIZE_1GB * 512) + of_nat j * PAGE_SIZE_1GB = va_of i j 0 0"
  using va_of_sum [of i j k 0] va_of_sum [of i j 0 0] by simp_all

text \<open>A page found below an entry of a page directory.\<close>

lemma walk_pd_sound:
  fixes mem pml i j k
  defines "pdp \<equiv> BASE_TO_PAGE_ADDR (pml4e64_pdp_base_addr (mem pml i))"
  defines "pd \<equiv> BASE_TO_PAGE_ADDR (pdpe64_pd_base_addr (mem pdp j))"
  assumes w: "pml \<noteq> 0" "i < 512" "j < 512" "k < 512" "pte_present (mem pml i)" "pte_present (mem pdp j)" "\<not> pte_large_page (mem pdp j)"
    and k: "(va, p) \<in> set (fst (pd_round mem pd k
      (of_nat i * (PAGE_SIZE_1GB * 512) + of_nat j * PAGE_SIZE_1GB + of_nat k * PAGE_SIZE_2MB)))"
  shows "\<exists>m<512. va = va_of i j k m \<and> page_start p k m \<and> dump_pgtables mem pml va = (0, Some p)"
proof -
  let ?e2 = "mem pd k"
  note W = w [unfolded pd_def pdp_def]
  have e2: "pte_present ?e2" using k by (auto simp: pd_round_def split: if_splits)
  show ?thesis
  proof (cases "pte_large_page ?e2")
    case True
    then have "va = va_of i j k 0" "p = Pg2M (BASE_TO_PAGE_ADDR_2MB (pde64_2MB_page_base_addr ?e2))"
      using k e2 by (simp_all add: pd_round_def va_of_sums(1) [simplified])
    then show ?thesis using True W e2 unfolding pd_def pdp_def
      by (intro exI [of _ 0] conjI) (simp_all add: page_start_def dump_pgtables_def va_of_index Let_def)
  next
    case e2l: False
    let ?pt = "BASE_TO_PAGE_ADDR (pde64_pt_base_addr ?e2)"
    obtain m where m: "m < 512" "(va, p) \<in> set (fst (pt_round mem ?pt m
        (of_nat i * (PAGE_SIZE_1GB * 512) + of_nat j * PAGE_SIZE_1GB + of_nat k * PAGE_SIZE_2MB
         + of_nat m * PAGE_SIZE_4KB)))"
      using k e2 e2l unfolding pd_round_def by (auto simp only: walk_pt_set if_False if_True simp_thms)
    then have "pte_present (mem ?pt m)" "va = va_of i j k m"
      "p = Pg4K (BASE_TO_PAGE_ADDR (pte64_page_base_addr (mem ?pt m)))"
      unfolding va_of_sum by (auto simp: pt_round_def split: if_splits)
    then show ?thesis using W e2 e2l m(1) unfolding pd_def pdp_def
      by (intro exI [of _ m] conjI) (simp_all add: page_start_def dump_pgtables_def va_of_index Let_def)
  qed
qed

lemma walk_sound:
  assumes "pml \<noteq> 0" and "(va, p) \<in> set (snd (walk_pgtables mem pml))"
  shows "\<exists>i<512. \<exists>j<512. \<exists>k<512. \<exists>m<512. va = va_of i j k m \<and> page_start p k m \<and>
    dump_pgtables mem pml va = (0, Some p)"
proof -
  obtain i where i: "i < 512" "(va, p) \<in> set (fst (pml_round mem pml i (of_nat i * (PAGE_SIZE_1GB * 512))))"
    using assms unfolding walk_pgtables_def by (auto simp: walk_pml_set)
  let ?pdp = "BASE_TO_PAGE_ADDR (pml4e64_pdp_base_addr (mem pml i))"
  obtain j where e4: "pte_present (mem pml i)" and j: "j < 512"
    "(va, p) \<in> set (fst (pdp_round mem ?pdp j (of_nat i * (PAGE_SIZE_1GB * 512) + of_nat j * PAGE_SIZE_1GB)))"
    using i(2) unfolding pml_round_def
    by (auto simp only: walk_pdp_set fst_conv list.set empty_iff split: if_splits)
  let ?e3 = "mem ?pdp j"
  let ?pd = "BASE_TO_PAGE_ADDR (pdpe64_pd_base_addr ?e3)"
  have e3: "pte_present ?e3" using j(2) by (auto simp: pdp_round_def split: if_splits)
  note w = assms(1) i(1) j(1) e4 e3
  show ?thesis
  proof (cases "pte_large_page ?e3")
    case True
    then have "va = va_of i j 0 0" "p = Pg1G (BASE_TO_PAGE_ADDR_1GB (pdpe64_1GB_page_base_addr ?e3))"
      using j(2) e3 by (simp_all add: pdp_round_def va_of_sums [simplified])
    then show ?thesis using True w
      by (intro exI [of _ i] exI [of _ j] exI [of _ 0] conjI) (simp_all add: page_start_def dump_pgtables_def va_of_index Let_def)
  next
    case e3l: False
    obtain k where k: "k < 512" "(va, p) \<in> set (fst (pd_round mem ?pd k
        (of_nat i * (PAGE_SIZE_1GB * 512) + of_nat j * PAGE_SIZE_1GB + of_nat k * PAGE_SIZE_2MB)))"
      using j(2) e3 e3l unfolding pdp_round_def by (auto simp only: walk_pd_set if_False if_True simp_thms)
    from walk_pd_sound [OF w(1-3) k(1) e4 e3 e3l k(2)] show ?thesis using w(2, 3) k(1) by blast
  qed
qed

lemma walk_complete:
  assumes "pml \<noteq> 0" and b: "i < 512" "j < 512" "k < 512" "m < 512"
    and d: "dump_pgtables mem pml (va_of i j k m) = (0, Some p)" and s: "page_start p k m"
  shows "(va_of i j k m, p) \<in> set (snd (walk_pgtables mem pml))"
proof -
  let ?e4 = "mem pml i"
  let ?pdp = "BASE_TO_PAGE_ADDR (pml4e64_pdp_base_addr ?e4)"
  let ?e3 = "mem ?pdp j"
  let ?pd = "BASE_TO_PAGE_ADDR (pdpe64_pd_base_addr ?e3)"
  let ?e2 = "mem ?pd k"
  let ?pt = "BASE_TO_PAGE_ADDR (pde64_pt_base_addr ?e2)"
  let ?a2 = "of_nat i * (PAGE_SIZE_1GB * 512) + of_nat j * PAGE_SIZE_1GB :: u64"
  let ?a1 = "?a2 + of_nat k * PAGE_SIZE_2MB"
  have e: "pte_present ?e4" "pte_present ?e3"
    using d assms(1) by (auto simp: dump_pgtables_def va_of_index [OF b] Let_def split: if_splits)
  have t: "pte_present ?e2 \<and> \<not> pte_large_page ?e2 \<Longrightarrow> \<not> pte_large_page ?e3 \<Longrightarrow>
      (va_of i j k m, p) \<in> set (fst (pt_round mem ?pt m (?a1 + of_nat m * PAGE_SIZE_4KB)))"
    using d assms(1) unfolding va_of_sum
    by (auto simp: dump_pgtables_def va_of_index [OF b] Let_def pt_round_def split: if_splits)
  have "\<not> pte_large_page ?e3 \<Longrightarrow> (va_of i j k m, p) \<in> set (fst (pd_round mem ?pd k ?a1))"
  proof (cases "pte_large_page ?e2")
    case True
    moreover assume "\<not> pte_large_page ?e3"
    ultimately show ?thesis using d assms(1) e s unfolding va_of_sums(1)
      by (auto simp: dump_pgtables_def va_of_index [OF b] Let_def pd_round_def page_start_def split: if_splits)
  next
    case False
    moreover assume l: "\<not> pte_large_page ?e3"
    moreover have "pte_present ?e2"
      using d assms(1) e l by (auto simp: dump_pgtables_def va_of_index [OF b] Let_def split: if_splits)
    ultimately show ?thesis using t b(4) by (auto simp only: pd_round_def walk_pt_set if_False if_True simp_thms)
  qed
  moreover have "pte_large_page ?e3 \<Longrightarrow> (va_of i j k m, p) \<in> set (fst (pdp_round mem ?pdp j ?a2))"
    using d assms(1) e s unfolding va_of_sums
    by (auto simp: dump_pgtables_def va_of_index [OF b] Let_def pdp_round_def page_start_def split: if_splits)
  ultimately have "(va_of i j k m, p) \<in> set (fst (pdp_round mem ?pdp j ?a2))"
    using e b(3) by (cases "pte_large_page ?e3") (auto simp only: pdp_round_def walk_pd_set if_False if_True simp_thms)
  then have "(va_of i j k m, p) \<in> set (fst (pml_round mem pml i (of_nat i * (PAGE_SIZE_1GB * 512))))"
    using e b(2) by (auto simp only: pml_round_def walk_pdp_set if_False if_True simp_thms)
  then show ?thesis using assms(1) b(1) by (auto simp: walk_pgtables_def walk_pml_set)
qed

text \<open>
  C29: The full walk prints a page exactly when the look-up of its first address finds that page:
  the running address of the four nested loops is the address the table indices stand for, at
  every level and across skipped entries.
\<close>

theorem walk_pgtables_complete:
  assumes "pml \<noteq> 0"
  shows "(va, p) \<in> set (snd (walk_pgtables mem pml)) \<longleftrightarrow>
    (\<exists>i j k m. i < 512 \<and> j < 512 \<and> k < 512 \<and> m < 512 \<and> va = va_of i j k m \<and> page_start p k m \<and>
      dump_pgtables mem pml va = (0, Some p))"
  using walk_sound [OF assms, of va p mem] walk_complete [OF assms] by blast

theorem walk_pgtables_complete_witness:
  "(0x40000000, Pg1G 0x40000000) \<in> set (snd (walk_pgtables demo_ptmem 0x1000))"
proof -
  have "dump_pgtables demo_ptmem 0x1000 0x40000000 = (0, Some (Pg1G 0x40000000))" by code_simp
  moreover have "(0x40000000 :: u64) = va_of 0 1 0 0" by (simp add: va_of_def)
  moreover have "page_start (Pg1G 0x40000000) 0 0" by (simp add: page_start_def)
  moreover have "(0 :: nat) < 512" "(1 :: nat) < 512" "(0x1000 :: u64) \<noteq> 0" by simp_all
  ultimately show ?thesis by (subst walk_pgtables_complete) blast+
qed

end
