(* ===== verification/Trampoline.thy ===== *)
theory Trampoline
  imports PgTables
begin

text \<open>
  The boot trampoline (\<open>boot.c\<close> up to \<open>pisces_restore_trampoline\<close>, \<open>boot.h\<close> and
  \<open>trampoline_3/trampoline.c\<close>): seven page table pages that map the boot memory of an enclave for
  the first instructions of its CPU, and the loan of Linux's own trampoline.

  \<open>trampoline_lock\<close> and the CPU hotplug lock of Linux are the flags \<open>bt_lock\<close> and \<open>bt_cpu_maps\<close>;
  taking a lock that is held gives \<open>None\<close>, the run that waits. Linux's trampoline is its page
  directory page and its target address.

  Shown: after the set-up the processor translates exactly the first 2 MB, the boot memory and its
  kernel alias, as intended; set-up and restore give back Linux's trampoline and both locks.
\<close>

section \<open>State\<close>

record trampoline_data =
  pml_pa :: u64
  pdp0_pa :: u64
  pdp1_pa :: u64
  pdp2_pa :: u64
  pd0_pa :: u64
  pd1_pa :: u64
  pd2_pa :: u64
  cpu_init_rip :: u64

record boot_state =
  trampoline_state :: trampoline_data
  pgt_pages :: "u64 option"
  pt_mem :: ptmem
  bt_lock :: bool
  bt_cpu_maps :: bool
  trampoline_target :: u64
  trampoline_pgd :: "nat \<Rightarrow> u64"
  cached_trampoline_target :: u64
  cached_pgd :: "(nat \<Rightarrow> u64) option"

section \<open>Linux's trampoline\<close>

text \<open>
  The kernel symbols are looked up by name; the trampoline header gives the target and the page
  directory, which the state holds from the start.
\<close>

definition init_trampoline :: "(string \<Rightarrow> bool) \<Rightarrow> u64 \<Rightarrow> bool \<Rightarrow> boot_state \<Rightarrow> int \<times> boot_state" where
  "init_trampoline symbol trampoline_start page_ok s =
     (if \<not> symbol ''real_mode_header'' then (-1, s)
      else let s1 = s\<lparr>trampoline_state := (trampoline_state s)\<lparr>cpu_init_rip := trampoline_start\<rparr>\<rparr> in
      if \<not> symbol ''cpu_maps_update_begin'' then (-1, s1)
      else if \<not> symbol ''cpu_maps_update_done'' then (-1, s1)
      else if \<not> page_ok then (-1, s1)
      else (0, s1\<lparr>cached_pgd := Some (\<lambda>_. 0)\<rparr>))"

definition deinit_trampoline :: "boot_state \<Rightarrow> int \<times> boot_state" where
  "deinit_trampoline s = (0, s\<lparr>cached_pgd := None\<rparr>)"

text \<open>Without a page for the copy, the copy goes through a null pointer.\<close>

definition setup_enclave_trampoline :: "u64 \<Rightarrow> boot_state \<Rightarrow> (int \<times> boot_state) option" where
  "setup_enclave_trampoline bootmem_addr_pa s =
     (if bt_cpu_maps s \<or> cached_pgd s = None then None
      else let s1 = s\<lparr>bt_cpu_maps := True, cached_pgd := Some (trampoline_pgd s)\<rparr>;
               s2 = s1\<lparr>trampoline_pgd := pt_mem s1 (pml_pa (trampoline_state s1))\<rparr>;
               s3 = s2\<lparr>cached_trampoline_target := trampoline_target s2\<rparr>
           in Some (0, s3\<lparr>trampoline_target := bootmem_addr_pa\<rparr>))"

definition restore_enclave_trampoline :: "boot_state \<Rightarrow> (int \<times> boot_state) option" where
  "restore_enclave_trampoline s =
     (case cached_pgd s of
        None \<Rightarrow> None
      | Some pgd \<Rightarrow> Some (0, s\<lparr>trampoline_pgd := pgd, trampoline_target := cached_trampoline_target s,
                             bt_cpu_maps := False\<rparr>))"

section \<open>The page tables of the trampoline\<close>

definition upd_entry :: "ptmem \<Rightarrow> u64 \<Rightarrow> nat \<Rightarrow> (u64 \<Rightarrow> u64) \<Rightarrow> ptmem" where
  "upd_entry mem p i f = mem(p := (mem p)(i := f (mem p i)))"

definition init_trampoline_pgts :: "trampoline_data \<Rightarrow> ptmem \<Rightarrow> ptmem" where
  "init_trampoline_pgts t mem =
     (let m = mem(pml_pa t := \<lambda>_. 0, pdp0_pa t := \<lambda>_. 0, pdp1_pa t := \<lambda>_. 0, pdp2_pa t := \<lambda>_. 0,
                  pd0_pa t := \<lambda>_. 0, pd1_pa t := \<lambda>_. 0, pd2_pa t := \<lambda>_. 0);
          m1 = upd_entry m (pml_pa t) 0 (set_table_entry (PAGE_TO_BASE_ADDR (pdp0_pa t)));
          m2 = upd_entry m1 (pdp0_pa t) 0 (set_table_entry (PAGE_TO_BASE_ADDR (pd0_pa t)))
      in upd_entry m2 (pd0_pa t) 0 (set_2MB_entry (PAGE_TO_BASE_ADDR_2MB 0)))"

definition pisces_init_trampoline ::
    "u64 option \<Rightarrow> (string \<Rightarrow> bool) \<Rightarrow> u64 \<Rightarrow> bool \<Rightarrow> boot_state \<Rightarrow> int \<times> boot_state" where
  "pisces_init_trampoline pages symbol trampoline_start page_ok s =
     (let zero = \<lparr>pml_pa = 0, pdp0_pa = 0, pdp1_pa = 0, pdp2_pa = 0, pd0_pa = 0, pd1_pa = 0, pd2_pa = 0,
                   cpu_init_rip = 0\<rparr>;
          s1 = s\<lparr>bt_lock := False, trampoline_state := zero, pgt_pages := pages\<rparr>
      in case pages of
           None \<Rightarrow> (-1, s1)
         | Some p \<Rightarrow>
             let t = zero\<lparr>pml_pa := p, pdp0_pa := p + 4096, pdp1_pa := p + 2 * 4096, pdp2_pa := p + 3 * 4096,
                          pd0_pa := p + 4 * 4096, pd1_pa := p + 5 * 4096, pd2_pa := p + 6 * 4096\<rparr>;
                 s2 = s1\<lparr>trampoline_state := t, pt_mem := init_trampoline_pgts t (pt_mem s1)\<rparr>
             in init_trampoline symbol trampoline_start page_ok s2)"

definition pisces_deinit_trampoline :: "boot_state \<Rightarrow> int \<times> boot_state" where
  "pisces_deinit_trampoline s = (0, (snd (deinit_trampoline s))\<lparr>pgt_pages := None\<rparr>)"

text \<open>
  The two mapping blocks of \<open>pisces_setup_trampoline\<close> differ in the virtual address and in the
  tables they may put in: \<open>map_block\<close> is either of them, \<open>map_pdes\<close> its loop.
\<close>

fun map_pdes :: "ptmem \<Rightarrow> u64 \<Rightarrow> u64 \<Rightarrow> u64 \<Rightarrow> nat \<Rightarrow> ptmem" where
  "map_pdes mem pd va pa 0 = mem"
| "map_pdes mem pd va pa (Suc n) =
     map_pdes (if \<not> pte_present (mem pd (PDE64_INDEX va))
               then upd_entry mem pd (PDE64_INDEX va) (set_2MB_entry (PAGE_TO_BASE_ADDR_2MB pa)) else mem)
       pd (va + PAGE_SIZE_2MB) (pa + PAGE_SIZE_2MB) n"

definition map_block :: "ptmem \<Rightarrow> u64 \<Rightarrow> u64 \<Rightarrow> u64 \<Rightarrow> u64 \<Rightarrow> u64 \<Rightarrow> u64 \<Rightarrow> ptmem" where
  "map_block mem pml new_pdp new_pd va pa bootmem_size =
     (let num = (ucast (bootmem_size div PAGE_SIZE_2MB) :: u32);
          num_pde_entries = (if unat num > MAX_PDE64_ENTRIES - PDE64_INDEX va
                             then MAX_PDE64_ENTRIES - PDE64_INDEX va else unat num);
          m1 = (if \<not> pte_present (mem pml (PML4E64_INDEX va))
                then upd_entry mem pml (PML4E64_INDEX va) (set_table_entry (PAGE_TO_BASE_ADDR new_pdp)) else mem);
          pdp = BASE_TO_PAGE_ADDR (pml4e64_pdp_base_addr (m1 pml (PML4E64_INDEX va)));
          m2 = (if \<not> pte_present (m1 pdp (PDPE64_INDEX va))
                then upd_entry m1 pdp (PDPE64_INDEX va) (set_table_entry (PAGE_TO_BASE_ADDR new_pd)) else m1);
          pd = BASE_TO_PAGE_ADDR (pdpe64_pd_base_addr (m2 pdp (PDPE64_INDEX va)))
      in map_pdes m2 pd va pa num_pde_entries)"

abbreviation KERN_VA_BASE :: u64 where "KERN_VA_BASE \<equiv> 0xffffffff80000000"

definition pisces_setup_trampoline :: "u64 \<Rightarrow> u64 \<Rightarrow> boot_state \<Rightarrow> (int \<times> boot_state) option" where
  "pisces_setup_trampoline bootmem_addr_pa bootmem_size s =
     (if bootmem_size mod PAGE_SIZE_2MB \<noteq> 0 then Some (-1, s)
      else if bt_lock s then None
      else let t = trampoline_state s;
               m0 = init_trampoline_pgts t (pt_mem s);
               m1 = map_block m0 (pml_pa t) (pdp1_pa t) (pd1_pa t) bootmem_addr_pa bootmem_addr_pa bootmem_size;
               m2 = map_block m1 (pml_pa t) (pdp2_pa t) (pd2_pa t) KERN_VA_BASE bootmem_addr_pa bootmem_size
           in do {
             (ret, s') \<leftarrow> setup_enclave_trampoline bootmem_addr_pa (s\<lparr>bt_lock := True, pt_mem := m2\<rparr>);
             Some (ret, if ret = -1 then s'\<lparr>bt_lock := False\<rparr> else s')
           })"

definition pisces_restore_trampoline :: "boot_state \<Rightarrow> (int \<times> boot_state) option" where
  "pisces_restore_trampoline s = do {
     (ret, s') \<leftarrow> restore_enclave_trampoline s;
     Some (ret, s'\<lparr>bt_lock := False\<rparr>)
   }"

section \<open>What the set-up leaves in the tables\<close>

lemma PDE64_INDEX_add:
  assumes "unat va + i * 2 ^ 21 < 2 ^ 64" and "PDE64_INDEX va + i < 512"
  shows "PDE64_INDEX (va + of_nat i * PAGE_SIZE_2MB) = PDE64_INDEX va + i"
proof -
  have "unat (of_nat (i * 2 ^ 21) :: u64) = i * 2 ^ 21" using assms(1) by (intro unat_of_nat_u64) simp
  then have "unat (va + of_nat i * PAGE_SIZE_2MB) = unat va + i * 2 ^ 21"
    using assms(1) by (simp add: unat_add_small)
  then have "PDE64_INDEX (va + of_nat i * PAGE_SIZE_2MB) = (unat va div 2 ^ 21 + i) mod 512"
    unfolding index_nat by (simp add: add.commute)
  also have "\<dots> = (PDE64_INDEX va + i) mod 512" unfolding index_nat by (simp add: mod_add_left_eq)
  finally show ?thesis using assms(2) by simp
qed

definition pde_filled :: "(nat \<Rightarrow> u64) \<Rightarrow> nat \<Rightarrow> u64 \<Rightarrow> nat \<Rightarrow> nat \<Rightarrow> u64" where
  "pde_filled old k pa n i = (if k \<le> i \<and> i < k + n \<and> \<not> pte_present (old i)
     then set_2MB_entry (PAGE_TO_BASE_ADDR_2MB (pa + of_nat (i - k) * PAGE_SIZE_2MB)) (old i) else old i)"

lemma map_pdes_filled:
  assumes "unat va + n * 2 ^ 21 \<le> 2 ^ 64" and "PDE64_INDEX va + n \<le> 512"
  shows "map_pdes mem pd va pa n = mem(pd := pde_filled (mem pd) (PDE64_INDEX va) pa n)"
  using assms
proof (induction n arbitrary: mem va pa)
  case 0
  then show ?case by (auto simp: pde_filled_def fun_eq_iff)
next
  case (Suc n)
  let ?k = "PDE64_INDEX va"
  let ?m = "if \<not> pte_present (mem pd ?k) then upd_entry mem pd ?k (set_2MB_entry (PAGE_TO_BASE_ADDR_2MB pa)) else mem"
  show ?case
  proof (cases "n = 0")
    case True
    then show ?thesis by (auto simp: pde_filled_def upd_entry_def fun_eq_iff le_less_Suc_eq)
  next
    case False
    then have k: "PDE64_INDEX (va + PAGE_SIZE_2MB) = Suc ?k"
      using PDE64_INDEX_add [of va 1] Suc.prems by simp
    have "unat (va + PAGE_SIZE_2MB) = unat va + 2 ^ 21"
      using Suc.prems False by (subst unat_add_small) auto
    then have "map_pdes M pd (va + PAGE_SIZE_2MB) (pa + PAGE_SIZE_2MB) n =
        M(pd := pde_filled (M pd) (Suc ?k) (pa + PAGE_SIZE_2MB) n)" for M
      using Suc.prems k Suc.IH [of "va + PAGE_SIZE_2MB" M "pa + PAGE_SIZE_2MB"] by (simp add: fun_upd_def)
    moreover have "pde_filled (?m pd) (Suc ?k) (pa + PAGE_SIZE_2MB) n i = pde_filled (mem pd) ?k pa (Suc n) i" for i
    proof (cases "i = ?k")
      case True
      then show ?thesis by (simp add: pde_filled_def upd_entry_def)
    next
      case False
      have "?k < i \<Longrightarrow> pa + PAGE_SIZE_2MB + of_nat (i - Suc ?k) * PAGE_SIZE_2MB = pa + of_nat (i - ?k) * PAGE_SIZE_2MB"
        by (simp add: Suc_diff_Suc [symmetric] ring_distribs)
      with False show ?thesis by (auto simp: pde_filled_def upd_entry_def Suc_le_eq)
    qed
    then have "pde_filled (?m pd) (Suc ?k) (pa + PAGE_SIZE_2MB) n = pde_filled (mem pd) ?k pa (Suc n)" by (rule ext)
    moreover have "?m(pd := X) = mem(pd := X)" for X by (simp add: upd_entry_def)
    ultimately show ?thesis by (simp only: map_pdes.simps)
  qed
qed


lemma map_block_filled:
  assumes "bootmem_size = of_nat (n * 2 ^ 21)" and "PDE64_INDEX va + n \<le> 512" and "unat va + n * 2 ^ 21 \<le> 2 ^ 64"
  shows "map_block mem pml new_pdp new_pd va pa bootmem_size =
    (let m1 = (if \<not> pte_present (mem pml (PML4E64_INDEX va))
               then upd_entry mem pml (PML4E64_INDEX va) (set_table_entry (PAGE_TO_BASE_ADDR new_pdp)) else mem);
         pdp = BASE_TO_PAGE_ADDR (pml4e64_pdp_base_addr (m1 pml (PML4E64_INDEX va)));
         m2 = (if \<not> pte_present (m1 pdp (PDPE64_INDEX va))
               then upd_entry m1 pdp (PDPE64_INDEX va) (set_table_entry (PAGE_TO_BASE_ADDR new_pd)) else m1);
         pd = BASE_TO_PAGE_ADDR (pdpe64_pd_base_addr (m2 pdp (PDPE64_INDEX va)))
     in m2(pd := pde_filled (m2 pd) (PDE64_INDEX va) pa n))"
proof -
  have "n \<le> 512" using assms(2) by simp
  then have "unat bootmem_size = n * 2 ^ 21" unfolding assms(1) by (intro unat_of_nat_u64) simp
  then have "unat (bootmem_size div PAGE_SIZE_2MB) = n" by (simp add: unat_div)
  then have "unat (ucast (bootmem_size div PAGE_SIZE_2MB) :: u32) = n"
    using \<open>n \<le> 512\<close> by (simp add: unsigned_ucast_eq take_bit_nat_eq_self)
  moreover have "\<not> 512 - PDE64_INDEX va < n" using assms(2) by simp
  ultimately show ?thesis by (simp only: map_block_def Let_def map_pdes_filled [OF assms(3, 2)] if_False)
qed

text \<open>The entries the trampoline uses, and the pages they stand for.\<close>

definition table_entry :: "u64 \<Rightarrow> u64" where
  "table_entry p = set_table_entry (PAGE_TO_BASE_ADDR p) 0"

definition large_entry :: "u64 \<Rightarrow> u64" where
  "large_entry p = set_2MB_entry (PAGE_TO_BASE_ADDR_2MB p) 0"

lemma table_entry_simps [simp]:
  "bit (table_entry p) 0" "\<not> bit (table_entry p) 7"
  "aligned52 12 p \<Longrightarrow> push_bit 12 (get_field 12 40 (table_entry p)) = p"
  using set_table_entry_fields [of "PAGE_TO_BASE_ADDR p" 0] table_base_roundtrip [of p]
  by (simp_all add: table_entry_def pg_defs)

lemma large_entry_simps [simp]:
  "bit (large_entry p) 0" "bit (large_entry p) 7"
  "aligned52 21 p \<Longrightarrow> push_bit 21 (get_field 21 31 (large_entry p)) = p"
  using set_2MB_entry_fields [of "PAGE_TO_BASE_ADDR_2MB p" 0] page_2MB_roundtrip [of p]
  by (simp_all add: large_entry_def pg_defs)

definition pgts_ok :: "trampoline_data \<Rightarrow> bool" where
  "pgts_ok t \<longleftrightarrow>
     distinct [pml_pa t, pdp0_pa t, pdp1_pa t, pdp2_pa t, pd0_pa t, pd1_pa t, pd2_pa t] \<and>
     (\<forall>p \<in> set [pml_pa t, pdp0_pa t, pdp1_pa t, pdp2_pa t, pd0_pa t, pd1_pa t, pd2_pa t]. aligned52 12 p)"

definition boot_tables :: "trampoline_data \<Rightarrow> u64 \<Rightarrow> nat \<Rightarrow> ptmem \<Rightarrow> bool" where
  "boot_tables t base n m \<longleftrightarrow>
    (let i4 = PML4E64_INDEX base; i3 = PDPE64_INDEX base; k = PDE64_INDEX base;
         boot = (\<lambda>i. if k \<le> i \<and> i < k + n then large_entry (base + of_nat (i - k) * PAGE_SIZE_2MB) else 0)
     in m (pml_pa t) = (\<lambda>i. if i = 0 then table_entry (pdp0_pa t) else if i = i4 then table_entry (pdp1_pa t)
                            else if i = 511 then table_entry (pdp2_pa t) else 0) \<and>
        m (pdp0_pa t) = (\<lambda>i. if i = 0 then table_entry (pd0_pa t)
                             else if i4 = 0 \<and> i = i3 then table_entry (pd1_pa t) else 0) \<and>
        m (pdp1_pa t) = (\<lambda>i. if i4 \<noteq> 0 \<and> i = i3 then table_entry (pd1_pa t) else 0) \<and>
        m (pdp2_pa t) = (\<lambda>i. if i = 510 then table_entry (pd2_pa t) else 0) \<and>
        m (pd0_pa t) = (\<lambda>i. if i = 0 then large_entry 0 else if i4 = 0 \<and> i3 = 0 then boot i else 0) \<and>
        m (pd1_pa t) = (\<lambda>i. if i4 = 0 \<and> i3 = 0 then 0 else boot i) \<and>
        m (pd2_pa t) = (\<lambda>i. if i < n then large_entry (base + of_nat i * PAGE_SIZE_2MB) else 0))"

lemma kern_index: "PML4E64_INDEX KERN_VA_BASE = 511" "PDPE64_INDEX KERN_VA_BASE = 510" "PDE64_INDEX KERN_VA_BASE = 0"
  by (simp_all add: index_nat)

lemma not_present_0 [simp]: "\<not> pte_present 0"
  by (simp add: pte_present_def)

lemmas block_simps = map_block_filled Let_def upd_entry_def pg_defs table_entry_def [symmetric]

text \<open>A mapping block puts in both tables, only the lower one, or none.\<close>

lemma map_block_new:
  assumes "bootmem_size = of_nat (n * 2 ^ 21)" and "PDE64_INDEX va + n \<le> 512" and "unat va + n * 2 ^ 21 \<le> 2 ^ 64"
    and "aligned52 12 np" "aligned52 12 nd" and "pml \<noteq> np" "pml \<noteq> nd" "np \<noteq> nd"
    and "mem pml (PML4E64_INDEX va) = 0" and "mem np = (\<lambda>_. 0)"
  shows "map_block mem pml np nd va pa bootmem_size =
    mem(pml := (mem pml)(PML4E64_INDEX va := table_entry np), np := (\<lambda>_. 0)(PDPE64_INDEX va := table_entry nd),
        nd := pde_filled (mem nd) (PDE64_INDEX va) pa n)"
  using assms by (simp add: block_simps)

lemma map_block_pdp:
  assumes "bootmem_size = of_nat (n * 2 ^ 21)" and "PDE64_INDEX va + n \<le> 512" and "unat va + n * 2 ^ 21 \<le> 2 ^ 64"
    and "aligned52 12 P" "aligned52 12 nd" and "P \<noteq> nd"
    and "mem pml (PML4E64_INDEX va) = table_entry P" and "mem P (PDPE64_INDEX va) = 0"
  shows "map_block mem pml np nd va pa bootmem_size =
    mem(P := (mem P)(PDPE64_INDEX va := table_entry nd), nd := pde_filled (mem nd) (PDE64_INDEX va) pa n)"
  using assms by (simp add: block_simps)

lemma map_block_pd:
  assumes "bootmem_size = of_nat (n * 2 ^ 21)" and "PDE64_INDEX va + n \<le> 512" and "unat va + n * 2 ^ 21 \<le> 2 ^ 64"
    and "aligned52 12 P" "aligned52 12 D"
    and "mem pml (PML4E64_INDEX va) = table_entry P" and "mem P (PDPE64_INDEX va) = table_entry D"
  shows "map_block mem pml np nd va pa bootmem_size =
    mem(D := pde_filled (mem D) (PDE64_INDEX va) pa n)"
  using assms by (simp add: block_simps)

lemma pde_filled_0: "pde_filled (\<lambda>_. 0) k pa n =
    (\<lambda>i. if k \<le> i \<and> i < k + n then large_entry (pa + of_nat (i - k) * PAGE_SIZE_2MB) else 0)"
  by (simp add: pde_filled_def fun_eq_iff large_entry_def)

lemma pde_filled_first: "pde_filled ((\<lambda>_. 0)(0 := large_entry 0)) k pa n =
    (\<lambda>i. if i = 0 then large_entry 0 else if k \<le> i \<and> i < k + n then large_entry (pa + of_nat (i - k) * PAGE_SIZE_2MB) else 0)"
  by (simp add: pde_filled_def fun_eq_iff pte_present_def) (simp add: large_entry_def)

lemma low_index:
  assumes "unat base \<le> 2 ^ 47"
  shows "PML4E64_INDEX base \<noteq> 511"
proof -
  have "unat base div 2 ^ 39 \<le> 2 ^ 47 div 2 ^ 39" using assms by (rule div_le_mono)
  then show ?thesis unfolding index_nat by simp
qed

text \<open>The tables after the first of the two mappings, whichever of the tables for low memory it shares, and with the second one on top.\<close>

lemma map_boot_memory:
  fixes mem
  assumes t: "pgts_ok t" and size: "bootmem_size = of_nat (n * 2 ^ 21)"
    and fits: "PDE64_INDEX base + n \<le> 512" and low: "unat base + n * 2 ^ 21 \<le> 2 ^ 47"
  defines "m1 \<equiv> map_block (init_trampoline_pgts t mem) (pml_pa t) (pdp1_pa t) (pd1_pa t) base base bootmem_size"
  shows "m1 (pml_pa t) 511 = 0 \<and> m1 (pdp2_pa t) = (\<lambda>_. 0) \<and> m1 (pd2_pa t) = (\<lambda>_. 0) \<and>
    boot_tables t base n (m1(pml_pa t := (m1 (pml_pa t))(511 := table_entry (pdp2_pa t)),
      pdp2_pa t := (\<lambda>_. 0)(510 := table_entry (pd2_pa t)), pd2_pa t := pde_filled (\<lambda>_. 0) 0 base n))"
proof -
  have d: "distinct [pml_pa t, pdp0_pa t, pdp1_pa t, pdp2_pa t, pd0_pa t, pd1_pa t, pd2_pa t]"
    and a: "aligned52 12 (pml_pa t)" "aligned52 12 (pdp0_pa t)" "aligned52 12 (pdp1_pa t)" "aligned52 12 (pdp2_pa t)"
      "aligned52 12 (pd0_pa t)" "aligned52 12 (pd1_pa t)" "aligned52 12 (pd2_pa t)"
    using t by (auto simp: pgts_ok_def)
  from d have d': "distinct (rev [pml_pa t, pdp0_pa t, pdp1_pa t, pdp2_pa t, pd0_pa t, pd1_pa t, pd2_pa t])"
    by (simp only: distinct_rev)
  have i4: "PML4E64_INDEX base \<noteq> 511" using low by (intro low_index) simp
  have b1: "unat base + n * 2 ^ 21 \<le> 2 ^ 64" using low by simp
  define m0 where "m0 = init_trampoline_pgts t mem"
  have m0: "m0 (pml_pa t) = (\<lambda>_. 0)(0 := table_entry (pdp0_pa t))" "m0 (pdp0_pa t) = (\<lambda>_. 0)(0 := table_entry (pd0_pa t))"
    "m0 (pd0_pa t) = (\<lambda>_. 0)(0 := large_entry 0)" "m0 (pdp1_pa t) = (\<lambda>_. 0)" "m0 (pdp2_pa t) = (\<lambda>_. 0)"
    "m0 (pd1_pa t) = (\<lambda>_. 0)" "m0 (pd2_pa t) = (\<lambda>_. 0)"
    using d d' by (simp_all add: m0_def init_trampoline_pgts_def Let_def upd_entry_def table_entry_def large_entry_def)
  note m1_def = m1_def [folded m0_def]
  consider (pml) "PML4E64_INDEX base \<noteq> 0"
    | (pdp) "PML4E64_INDEX base = 0" "PDPE64_INDEX base \<noteq> 0"
    | (pd) "PML4E64_INDEX base = 0" "PDPE64_INDEX base = 0" by blast
  then show ?thesis
  proof cases
    case pml
    then have "m1 = m0(pml_pa t := (m0 (pml_pa t))(PML4E64_INDEX base := table_entry (pdp1_pa t)),
        pdp1_pa t := (\<lambda>_. 0)(PDPE64_INDEX base := table_entry (pd1_pa t)),
        pd1_pa t := pde_filled (\<lambda>_. 0) (PDE64_INDEX base) base n)"
      unfolding m1_def using d d' a by (subst map_block_new [OF size fits b1]) (simp_all add: m0)
    note m1e = this
    show ?thesis unfolding m1e using d d' pml i4 by (auto simp: m0 boot_tables_def Let_def pde_filled_0 fun_eq_iff)
  next
    case pdp
    then have "m1 = m0(pdp0_pa t := (m0 (pdp0_pa t))(PDPE64_INDEX base := table_entry (pd1_pa t)),
        pd1_pa t := pde_filled (\<lambda>_. 0) (PDE64_INDEX base) base n)"
      unfolding m1_def using d d' a by (subst map_block_pdp [OF size fits b1, of "pdp0_pa t"]) (simp_all add: m0)
    note m1e = this
    show ?thesis unfolding m1e using d d' pdp by (auto simp: m0 boot_tables_def Let_def pde_filled_0 fun_eq_iff)
  next
    case pd
    then have "m1 = m0(pd0_pa t := pde_filled ((\<lambda>_. 0)(0 := large_entry 0)) (PDE64_INDEX base) base n)"
      unfolding m1_def using d d' a by (subst map_block_pd [OF size fits b1, of "pdp0_pa t" "pd0_pa t"]) (simp_all add: m0)
    note m1e = this
    show ?thesis unfolding m1e using d d' pd
      by (auto simp: m0 boot_tables_def Let_def pde_filled_0 pde_filled_first fun_eq_iff)
  qed
qed

lemma setup_boot_tables:
  assumes t: "pgts_ok t" and size: "bootmem_size = of_nat (n * 2 ^ 21)"
    and fits: "PDE64_INDEX base + n \<le> 512" and low: "unat base + n * 2 ^ 21 \<le> 2 ^ 47"
  shows "boot_tables t base n
    (map_block (map_block (init_trampoline_pgts t mem) (pml_pa t) (pdp1_pa t) (pd1_pa t) base base bootmem_size)
       (pml_pa t) (pdp2_pa t) (pd2_pa t) KERN_VA_BASE base bootmem_size)"
proof -
  have d: "distinct [pml_pa t, pdp2_pa t, pd2_pa t]" "distinct (rev [pml_pa t, pdp2_pa t, pd2_pa t])"
    and a: "aligned52 12 (pdp2_pa t)" "aligned52 12 (pd2_pa t)" using t by (auto simp: pgts_ok_def)
  have b2: "unat KERN_VA_BASE + n * 2 ^ 21 \<le> 2 ^ 64" "PDE64_INDEX KERN_VA_BASE + n \<le> 512"
    using fits by (simp_all add: kern_index)
  define m1 where "m1 = map_block (init_trampoline_pgts t mem) (pml_pa t) (pdp1_pa t) (pd1_pa t) base base bootmem_size"
  note m1 = map_boot_memory [OF assms, of mem, folded m1_def]
  then have "map_block m1 (pml_pa t) (pdp2_pa t) (pd2_pa t) KERN_VA_BASE base bootmem_size =
      m1(pml_pa t := (m1 (pml_pa t))(511 := table_entry (pdp2_pa t)),
        pdp2_pa t := (\<lambda>_. 0)(510 := table_entry (pd2_pa t)), pd2_pa t := pde_filled (\<lambda>_. 0) 0 base n)"
    using d a by (subst map_block_new [OF size b2(2) b2(1)]) (simp_all add: kern_index)
  then show ?thesis using m1 unfolding m1_def by simp
qed

section \<open>What the processor sees\<close>

definition boot_leaf :: "u64 \<Rightarrow> nat \<Rightarrow> nat \<Rightarrow> nat \<Rightarrow> nat \<Rightarrow> u64 option" where
  "boot_leaf base n i4 i3 i2 =
     (let k = PDE64_INDEX base in
      if i4 = 0 \<and> i3 = 0 \<and> i2 = 0 then Some 0
      else if i4 = PML4E64_INDEX base \<and> i3 = PDPE64_INDEX base \<and> k \<le> i2 \<and> i2 < k + n
      then Some (base + of_nat (i2 - k) * PAGE_SIZE_2MB)
      else if i4 = 511 \<and> i3 = 510 \<and> i2 < n then Some (base + of_nat i2 * PAGE_SIZE_2MB) else None)"

lemma boot_page:
  assumes "2 ^ 21 dvd unat base" and "unat base + n * 2 ^ 21 \<le> 2 ^ 47" and "j < n"
  shows "unat (base + of_nat j * PAGE_SIZE_2MB) = unat base + j * 2 ^ 21"
    and "aligned52 21 (base + of_nat j * PAGE_SIZE_2MB)"
proof -
  have j: "j * 2 ^ 21 + 2 ^ 21 \<le> n * (2 ^ 21 :: nat)" using assms(3) by simp
  then have "unat (of_nat (j * 2 ^ 21) :: u64) = j * 2 ^ 21" using assms(2) by (intro unat_of_nat_u64) simp
  then show u: "unat (base + of_nat j * PAGE_SIZE_2MB) = unat base + j * 2 ^ 21"
    using assms(2) j by (subst unat_add_small) simp_all
  show "aligned52 21 (base + of_nat j * PAGE_SIZE_2MB)"
    unfolding aligned52_def u using assms j by simp
qed

lemma translate_boot_leaf:
  assumes "boot_tables t base n m" and "pgts_ok t" and al: "2 ^ 21 dvd unat base" and low: "unat base + n * 2 ^ 21 \<le> 2 ^ 47"
  shows "translate m (pml_pa t) va =
    map_option (\<lambda>p. p + (va AND 0x1fffff)) (boot_leaf base n (PML4E64_INDEX va) (PDPE64_INDEX va) (PDE64_INDEX va))"
proof -
  have a: "aligned52 12 (pml_pa t)" "aligned52 12 (pdp0_pa t)" "aligned52 12 (pdp1_pa t)" "aligned52 12 (pdp2_pa t)"
      "aligned52 12 (pd0_pa t)" "aligned52 12 (pd1_pa t)" "aligned52 12 (pd2_pa t)"
    using assms(2) by (auto simp: pgts_ok_def)
  have i4: "PML4E64_INDEX base \<noteq> 511"
  proof -
    have "unat base \<le> 2 ^ 47" using low by simp
    then have "unat base div 2 ^ 39 \<le> 2 ^ 47 div 2 ^ 39" by (rule div_le_mono)
    then show ?thesis unfolding index_nat by simp
  qed
  have z: "aligned52 21 0" by (simp add: aligned52_def)
  have p: "PDE64_INDEX base \<le> i \<Longrightarrow> i < PDE64_INDEX base + n \<Longrightarrow>
      aligned52 21 (base + of_nat (i - PDE64_INDEX base) * PAGE_SIZE_2MB)" for i
    using boot_page(2) [OF al low, of "i - PDE64_INDEX base"] by simp
  note q = boot_page(2) [OF al low] boot_page(2) [OF al low, of 0, simplified]
  show ?thesis using assms(1) unfolding boot_tables_def Let_def
    by (cases "PML4E64_INDEX base = 0"; cases "PDPE64_INDEX base = 0";
        cases "PML4E64_INDEX va = 0"; cases "PDPE64_INDEX va = 0"; cases "PDE64_INDEX va = 0")
      (simp_all add: translate_def boot_leaf_def Let_def a z p q i4 del: of_nat_diff, auto)
qed

text \<open>
  The mapping the trampoline is meant to set up, in frames of 2 MB over the 48 bits a processor
  translates: the first frame, the \<open>n\<close> frames of boot memory from \<open>b\<close>, and their alias at the
  kernel's address.
\<close>

definition KERN_FRAME :: nat where "KERN_FRAME = 511 * 2 ^ 18 + 510 * 2 ^ 9"

definition boot_frames :: "nat \<Rightarrow> nat \<Rightarrow> nat \<Rightarrow> nat option" where
  "boot_frames b n q =
     (if q = 0 then Some 0
      else if b \<le> q \<and> q < b + n then Some q
      else if KERN_FRAME \<le> q \<and> q < KERN_FRAME + n then Some (b + (q - KERN_FRAME))
      else None)"

lemma mod_mult_div: "0 < a \<Longrightarrow> y mod (a * b) div a = y div a mod b" for a b y :: nat
  by (simp add: mod_mult2_eq)

text \<open>The frame number as its three table indices.\<close>

lemma frame_index:
  fixes x :: nat
  shows "x div 2 ^ 21 mod 2 ^ 27 = (x div 2 ^ 39 mod 512 * 512 + x div 2 ^ 30 mod 512) * 512 + x div 2 ^ 21 mod 512"
proof -
  define y where "y = x div 2 ^ 21"
  have d: "x div 2 ^ 39 = y div 512 div 512" "x div 2 ^ 30 = y div 512"
    by (simp_all add: y_def div_mult2_eq [symmetric])
  have "y mod (512 * (512 * 512)) = 512 * (y div 512 mod (512 * 512)) + y mod 512" by (rule mod_mult2_eq)
  moreover have "y div 512 mod (512 * 512) = 512 * (y div 512 div 512 mod 512) + y div 512 mod 512" by (rule mod_mult2_eq)
  ultimately show ?thesis unfolding d y_def [symmetric] by simp
qed

lemma digits_eq: "c < 512 \<Longrightarrow> d < 512 \<Longrightarrow> A * 512 + c = B * 512 + d \<longleftrightarrow> A = B \<and> c = d" for A B c d :: nat
  by (metis split512)

lemma digits_range:
  fixes A B c k n :: nat
  assumes "c < 512" and "k + n \<le> 512"
  shows "B * 512 + k \<le> A * 512 + c \<and> A * 512 + c < B * 512 + k + n \<longleftrightarrow> A = B \<and> k \<le> c \<and> c < k + n"
  using assms by (cases A B rule: linorder_cases) auto

lemma boot_leaf_frames:
  assumes i: "i4 < 512" "i3 < 512" "i2 < 512" and al: "2 ^ 21 dvd unat base" and fits: "PDE64_INDEX base + n \<le> 512"
    and low: "unat base + n * 2 ^ 21 \<le> 2 ^ 47"
  shows "map_option unat (boot_leaf base n i4 i3 i2) =
    map_option (\<lambda>f. f * 2 ^ 21) (boot_frames (unat base div 2 ^ 21) n ((i4 * 512 + i3) * 512 + i2))"
proof -
  let ?k = "PDE64_INDEX base" and ?i4 = "PML4E64_INDEX base" and ?i3 = "PDPE64_INDEX base"
  define b where "b = unat base div 2 ^ 21"
  have ub: "unat base = b * 2 ^ 21" using al by (simp add: b_def)
  have "b < 2 ^ 27" using low by (simp add: ub)
  then have b: "b = (?i4 * 512 + ?i3) * 512 + ?k" using frame_index [of "unat base"] by (simp add: b_def index_nat)
  have k3: "?i3 < 512" unfolding index_nat by simp
  have r1: "b \<le> (i4 * 512 + i3) * 512 + i2 \<and> (i4 * 512 + i3) * 512 + i2 < b + n \<longleftrightarrow>
      i4 = ?i4 \<and> i3 = ?i3 \<and> ?k \<le> i2 \<and> i2 < ?k + n"
    unfolding b digits_range [OF i(3) fits] digits_eq [OF i(2) k3] by blast
  have r2: "KERN_FRAME \<le> (i4 * 512 + i3) * 512 + i2 \<and> (i4 * 512 + i3) * 512 + i2 < KERN_FRAME + n \<longleftrightarrow>
      i4 = 511 \<and> i3 = 510 \<and> i2 < n"
    using digits_range [of i2 0 n "511 * 512 + 510" "i4 * 512 + i3"] digits_eq [OF i(2), of 510 i4 511] i(3) fits
    by (simp add: KERN_FRAME_def)
  have p: "j < n \<Longrightarrow> unat (base + of_nat j * PAGE_SIZE_2MB) = (b + j) * 2 ^ 21" for j
    using boot_page(1) [OF al low, of j] by (simp add: ub)
  have "i4 = ?i4 \<and> i3 = ?i3 \<and> ?k \<le> i2 \<and> i2 < ?k + n \<Longrightarrow> b + (i2 - ?k) = (i4 * 512 + i3) * 512 + i2" using b by simp
  moreover have "i4 = 511 \<and> i3 = 510 \<Longrightarrow> (i4 * 512 + i3) * 512 + i2 - KERN_FRAME = i2" by (simp add: KERN_FRAME_def)
  moreover have "i4 = 0 \<and> i3 = 0 \<and> i2 = 0 \<longleftrightarrow> (i4 * 512 + i3) * 512 + i2 = 0" by simp
  ultimately show ?thesis unfolding b_def [symmetric] boot_leaf_def boot_frames_def r1 r2 Let_def
    by (auto simp: p simp del: of_nat_diff)
qed

lemma translate_boot_frames:
  assumes "boot_tables t base n m" and "pgts_ok t" and "2 ^ 21 dvd unat base" and "PDE64_INDEX base + n \<le> 512"
    and "unat base + n * 2 ^ 21 \<le> 2 ^ 47"
  shows "translate m (pml_pa t) va = map_option (\<lambda>f. of_nat (f * 2 ^ 21 + unat va mod 2 ^ 21))
    (boot_frames (unat base div 2 ^ 21) n (unat va div 2 ^ 21 mod 2 ^ 27))"
proof -
  let ?l = "boot_leaf base n (PML4E64_INDEX va) (PDPE64_INDEX va) (PDE64_INDEX va)"
  let ?f = "boot_frames (unat base div 2 ^ 21) n (unat va div 2 ^ 21 mod 2 ^ 27)"
  have f: "map_option unat ?l = map_option (\<lambda>f. f * 2 ^ 21) ?f"
    unfolding frame_index index_nat [symmetric]
    by (rule boot_leaf_frames [OF _ _ _ assms(3-5)]) (simp_all add: index_nat)
  have "p + (va AND 0x1fffff) = of_nat (q * 2 ^ 21 + unat va mod 2 ^ 21)" if "unat p = q * 2 ^ 21" for p :: u64 and q
  proof -
    have "p = of_nat (q * 2 ^ 21)" using that by (metis of_nat_unat ucast_id)
    moreover have "va AND 0x1fffff = of_nat (unat va mod 2 ^ 21)" using unat_offset [of va] by (metis of_nat_unat ucast_id)
    ultimately show ?thesis by (simp only: of_nat_add)
  qed
  with f show ?thesis unfolding translate_boot_leaf [OF assms(1, 2, 3, 5)] by (cases ?l; cases ?f) simp_all
qed

section \<open>Properties\<close>

text \<open>A module whose trampoline is ready and idle.\<close>

definition trampoline_ready :: "boot_state \<Rightarrow> bool" where
  "trampoline_ready s \<longleftrightarrow> pgts_ok (trampoline_state s) \<and> \<not> bt_lock s \<and> \<not> bt_cpu_maps s \<and> cached_pgd s \<noteq> None"

text \<open>
  Initialisation with seven page-aligned pages below \<open>2 ^ 52\<close> makes the trampoline ready exactly
  when it reports success, and records the start address for the start-up interrupt.
\<close>

theorem trampoline_init_correct:
  assumes "2 ^ 12 dvd unat p" and "unat p + 7 * 4096 \<le> 2 ^ 52" and "\<not> bt_cpu_maps s" and "cached_pgd s = None"
  shows "case pisces_init_trampoline (Some p) symbol start page_ok s of (r, s') \<Rightarrow>
    (r = 0 \<longleftrightarrow> symbol ''real_mode_header'' \<and> symbol ''cpu_maps_update_begin'' \<and> symbol ''cpu_maps_update_done'' \<and> page_ok) \<and>
    (r = 0 \<or> r = -1) \<and> pgts_ok (trampoline_state s') \<and> (trampoline_ready s' \<longleftrightarrow> r = 0) \<and>
    (r = 0 \<longrightarrow> cpu_init_rip (trampoline_state s') = start)"
proof -
  have u: "unat (p + of_nat (i * 4096)) = unat p + i * 4096" if "i < 7" for i
  proof -
    have "unat (of_nat (i * 4096) :: u64) = i * 4096" using that by (intro unat_of_nat_u64) simp
    then show ?thesis using assms(2) that by (subst unat_add_small) simp_all
  qed
  have "aligned52 12 (p + of_nat (i * 4096))" if "i < 7" for i
    unfolding aligned52_def u [OF that] using assms(1, 2) that by simp
  then have "aligned52 12 p" "aligned52 12 (p + 4096)" "aligned52 12 (p + 8192)" "aligned52 12 (p + 12288)"
    "aligned52 12 (p + 16384)" "aligned52 12 (p + 20480)" "aligned52 12 (p + 24576)"
    by (auto dest: meta_spec [of _ 0] meta_spec [of _ 1] meta_spec [of _ 2] meta_spec [of _ 3] meta_spec [of _ 4]
        meta_spec [of _ 5] meta_spec [of _ 6])
  then show ?thesis using assms(3, 4)
    by (simp add: pisces_init_trampoline_def init_trampoline_def Let_def pgts_ok_def trampoline_ready_def)
qed

definition demo_boot_state :: boot_state where
  "demo_boot_state = \<lparr>trampoline_state = \<lparr>pml_pa = 0x1000, pdp0_pa = 0x2000, pdp1_pa = 0x3000, pdp2_pa = 0x4000,
      pd0_pa = 0x5000, pd1_pa = 0x6000, pd2_pa = 0x7000, cpu_init_rip = 0x99000\<rparr>,
     pgt_pages = Some 0x1000, pt_mem = (\<lambda>_ _. 0), bt_lock = False, bt_cpu_maps = False, trampoline_target = 77,
     trampoline_pgd = (\<lambda>_. 5), cached_trampoline_target = 0, cached_pgd = Some (\<lambda>_. 0)\<rparr>"

theorem trampoline_init_correct_witness:
  "trampoline_ready (snd (pisces_init_trampoline (Some 0x1000) (\<lambda>_. True) 0x99000 True (demo_boot_state\<lparr>cached_pgd := None\<rparr>)))"
  using trampoline_init_correct [where p = "0x1000" and s = "demo_boot_state\<lparr>cached_pgd := None\<rparr>" and symbol = "\<lambda>_. True"
      and start = "0x99000" and page_ok = True]
  by (auto simp: demo_boot_state_def split: prod.splits)

lemma demo_boot_ready: "trampoline_ready demo_boot_state"
  by (simp add: trampoline_ready_def demo_boot_state_def pgts_ok_def aligned52_def)

lemma setup_trampoline_maps:
  assumes "trampoline_ready s" and "2 ^ 21 dvd unat base" and "bootmem_size = of_nat (n * 2 ^ 21)"
    and "PDE64_INDEX base + n \<le> 512" and "unat base + n * 2 ^ 21 \<le> 2 ^ 47"
  shows "\<exists>s'. pisces_setup_trampoline base bootmem_size s = Some (0, s') \<and> bt_lock s' \<and> bt_cpu_maps s' \<and>
    trampoline_target s' = base \<and> trampoline_pgd s' = pt_mem s' (pml_pa (trampoline_state s')) \<and>
    (\<forall>va. translate (pt_mem s') (pml_pa (trampoline_state s')) va =
       map_option (\<lambda>f. of_nat (f * 2 ^ 21 + unat va mod 2 ^ 21))
         (boot_frames (unat base div 2 ^ 21) n (unat va div 2 ^ 21 mod 2 ^ 27)))"
proof -
  let ?t = "trampoline_state s"
  define m2 where "m2 = map_block (map_block (init_trampoline_pgts ?t (pt_mem s)) (pml_pa ?t) (pdp1_pa ?t) (pd1_pa ?t)
    base base bootmem_size) (pml_pa ?t) (pdp2_pa ?t) (pd2_pa ?t) KERN_VA_BASE base bootmem_size"
  have t: "pgts_ok ?t" using assms(1) by (simp add: trampoline_ready_def)
  have "boot_tables ?t base n m2" unfolding m2_def by (rule setup_boot_tables [OF t assms(3-5)])
  note tr = translate_boot_frames [OF this t assms(2, 4, 5)]
  have "n \<le> 512" using assms(4) by simp
  then have "unat bootmem_size = n * 2 ^ 21" unfolding assms(3) by (intro unat_of_nat_u64) simp
  then have "bootmem_size mod PAGE_SIZE_2MB = 0" by (simp add: unat_inj_iff unat_mod)
  then have "pisces_setup_trampoline base bootmem_size s =
      Some (0, s\<lparr>pt_mem := m2, bt_lock := True, bt_cpu_maps := True, trampoline_target := base,
        trampoline_pgd := m2 (pml_pa ?t), cached_trampoline_target := trampoline_target s,
        cached_pgd := Some (trampoline_pgd s)\<rparr>)"
    using assms(1) by (simp add: pisces_setup_trampoline_def setup_enclave_trampoline_def trampoline_ready_def Let_def m2_def)
  then show ?thesis using tr by simp
qed

text \<open>
  C6: Setting up the trampoline for boot memory of \<open>n\<close> frames of 2 MB that does not cross its 1 GB
  boundary succeeds, points Linux's trampoline at the boot memory, hands it the page directory and
  keeps both locks. The processor then translates every address by the intended mapping and no
  other: the first 2 MB and the boot memory to themselves, the kernel's address range to the boot
  memory, nothing else.
\<close>

theorem trampoline_maps_bootmem:
  assumes "trampoline_ready s" and "2 ^ 21 dvd unat base" and "bootmem_size = of_nat (n * 2 ^ 21)"
    and "PDE64_INDEX base + n \<le> 512" and "unat base + n * 2 ^ 21 \<le> 2 ^ 47"
  shows "\<exists>s'. pisces_setup_trampoline base bootmem_size s = Some (0, s') \<and> bt_lock s' \<and> bt_cpu_maps s' \<and>
    trampoline_target s' = base \<and> trampoline_pgd s' = pt_mem s' (pml_pa (trampoline_state s')) \<and>
    (\<forall>va. translate (pt_mem s') (pml_pa (trampoline_state s')) va =
       map_option (\<lambda>f. of_nat (f * 2 ^ 21 + unat va mod 2 ^ 21))
         (boot_frames (unat base div 2 ^ 21) n (unat va div 2 ^ 21 mod 2 ^ 27)))"
  by (rule setup_trampoline_maps [OF assms])

theorem trampoline_maps_bootmem_witness:
  "\<exists>s'. pisces_setup_trampoline 0x80000000 0x8000000 demo_boot_state = Some (0, s') \<and>
    translate (pt_mem s') 0x1000 0x80012345 = Some 0x80012345 \<and>
    translate (pt_mem s') 0x1000 0xffffffff80200010 = Some 0x80200010 \<and> translate (pt_mem s') 0x1000 0x200000 = None"
proof -
  have "2 ^ 21 dvd unat (0x80000000 :: u64)" "(0x8000000 :: u64) = of_nat (64 * 2 ^ 21)"
    "PDE64_INDEX 0x80000000 + 64 \<le> 512" "unat (0x80000000 :: u64) + 64 * 2 ^ 21 \<le> 2 ^ 47"
    by (simp_all add: index_nat)
  from trampoline_maps_bootmem [OF demo_boot_ready this] obtain s' where
    "pisces_setup_trampoline 0x80000000 0x8000000 demo_boot_state = Some (0, s')"
    "\<And>va. translate (pt_mem s') (pml_pa (trampoline_state s')) va =
       map_option (\<lambda>f. of_nat (f * 2 ^ 21 + unat va mod 2 ^ 21))
         (boot_frames (unat (0x80000000 :: u64) div 2 ^ 21) 64 (unat va div 2 ^ 21 mod 2 ^ 27))" by blast
  moreover from this(1) have "pml_pa (trampoline_state s') = 0x1000"
    by (auto simp: pisces_setup_trampoline_def setup_enclave_trampoline_def demo_boot_state_def Let_def split: if_splits)
  ultimately show ?thesis by (simp add: boot_frames_def KERN_FRAME_def)
qed

text \<open>
  Boot memory that is not a multiple of 2 MB is refused with no lock taken. Otherwise set-up and
  restore together give back both locks, Linux's target and Linux's page directory.
\<close>

theorem trampoline_borrowed:
  assumes "trampoline_ready s"
  shows "if bootmem_size mod PAGE_SIZE_2MB \<noteq> 0 then pisces_setup_trampoline base bootmem_size s = Some (-1, s)
    else \<exists>s1 s2. pisces_setup_trampoline base bootmem_size s = Some (0, s1) \<and> bt_lock s1 \<and> bt_cpu_maps s1 \<and>
      pisces_setup_trampoline base bootmem_size s1 = None \<and>
      pisces_restore_trampoline s1 = Some (0, s2) \<and> trampoline_ready s2 \<and>
      trampoline_target s2 = trampoline_target s \<and> trampoline_pgd s2 = trampoline_pgd s"
  using assms
  by (auto simp: pisces_setup_trampoline_def setup_enclave_trampoline_def pisces_restore_trampoline_def
      restore_enclave_trampoline_def trampoline_ready_def Let_def)

theorem trampoline_borrowed_witness:
  "\<exists>s1 s2. pisces_setup_trampoline 0x80000000 0x8000000 demo_boot_state = Some (0, s1) \<and>
    pisces_restore_trampoline s1 = Some (0, s2) \<and> trampoline_target s2 = 77"
proof -
  have "trampoline_target demo_boot_state = 77" by (simp add: demo_boot_state_def)
  then show ?thesis
    using trampoline_borrowed [OF demo_boot_ready, of "0x8000000" "0x80000000"] by auto
qed

section \<open>Addresses inside the boot memory\<close>

lemma boot_memory_frame:
  assumes "2 ^ 21 dvd B" and "off < n * 2 ^ 21" and "B + n * 2 ^ 21 \<le> 2 ^ 47"
  shows "boot_frames (B div 2 ^ 21) n ((B + off) div 2 ^ 21 mod 2 ^ 27) = Some ((B + off) div 2 ^ 21)"
    "boot_frames (B div 2 ^ 21) n (KERN_FRAME + off div 2 ^ 21) = Some ((B + off) div 2 ^ 21)"
proof -
  obtain b where B: "B = b * 2 ^ 21" using assms(1) by (metis dvd_def mult.commute)
  define f where "f = off div 2 ^ 21"
  have f: "f < n" unfolding f_def using assms(2) by (simp add: less_mult_imp_div_less)
  have d: "(B + off) div 2 ^ 21 = b + f" by (simp add: B f_def)
  have bn: "b + n \<le> 2 ^ 26" using assms(3) unfolding B by simp
  then have m: "(b + f) mod 2 ^ 27 = b + f" using f by simp
  show "boot_frames (B div 2 ^ 21) n ((B + off) div 2 ^ 21 mod 2 ^ 27) = Some ((B + off) div 2 ^ 21)"
    unfolding d m using f by (simp add: B boot_frames_def)
  show "boot_frames (B div 2 ^ 21) n (KERN_FRAME + off div 2 ^ 21) = Some ((B + off) div 2 ^ 21)"
    unfolding d f_def [symmetric] using f bn by (simp add: B boot_frames_def KERN_FRAME_def)
qed

text \<open>The translation at an offset of the boot memory and of its kernel alias.\<close>

lemma boot_memory_translate:
  assumes tr: "\<And>va. translate m pml va = map_option (\<lambda>f. of_nat (f * 2 ^ 21 + unat va mod 2 ^ 21))
      (boot_frames (unat base div 2 ^ 21) n (unat va div 2 ^ 21 mod 2 ^ 27))"
    and "2 ^ 21 dvd unat base" and "off < n * 2 ^ 21" and "unat base + n * 2 ^ 21 \<le> 2 ^ 47" and "n \<le> 512"
  shows "translate m pml (base + of_nat off) = Some (base + of_nat off)"
    and "translate m pml (KERN_VA_BASE + of_nat off) = Some (base + of_nat off)"
proof -
  have off: "off < 2 ^ 30" using assms(3, 5) by simp
  have uo: "unat (of_nat off :: u64) = off" using off by (intro unat_of_nat_u64) simp
  have ub: "unat (base + of_nat off) = unat base + off" using assms(3, 4) by (subst unat_add_small) (simp_all add: uo)
  have uk: "unat (KERN_VA_BASE + of_nat off) = unat KERN_VA_BASE + off" using off by (subst unat_add_small) (simp_all add: uo)
  note F = boot_memory_frame [OF assms(2, 3, 4)]
  have r: "(unat base + off) div 2 ^ 21 * 2 ^ 21 + off mod 2 ^ 21 = unat base + off"
  proof -
    have "off mod 2 ^ 21 = (unat base + off) mod 2 ^ 21" using assms(2) by (metis dvd_imp_mod_0 mod_add_left_eq add_0)
    then show ?thesis by simp
  qed
  have w: "of_nat (unat base + off) = base + of_nat off" by (simp add: of_nat_unat)
  have om: "(unat base + off) mod 2 ^ 21 = off mod 2 ^ 21" using assms(2) by (metis dvd_imp_mod_0 mod_add_left_eq add_0)
  show "translate m pml (base + of_nat off) = Some (base + of_nat off)"
    unfolding tr ub F(1) om by (simp only: option.map r w)
  have "(unat KERN_VA_BASE + off) div 2 ^ 21 mod 2 ^ 27 = KERN_FRAME + off div 2 ^ 21"
  proof -
    define f where "f = off div 2 ^ 21"
    have "f < 512" unfolding f_def using off by (simp add: less_mult_imp_div_less)
    moreover have "(unat KERN_VA_BASE + off) div 2 ^ 21 = 8796093021184 + f"
      unfolding f_def using div_mult_self3 [of "2 ^ 21" 8796093021184 off] by simp
    moreover have "(8796093021184 + f) mod 134217728 = (134216704 + f) mod 134217728"
      using mod_mult_self3 [of 65535 134217728 "134216704 + f"] by simp
    ultimately show ?thesis unfolding f_def [symmetric] by (simp add: KERN_FRAME_def)
  qed
  moreover have "(unat KERN_VA_BASE + off) mod 2 ^ 21 = off mod 2 ^ 21"
    using mod_mult_self3 [of 8796093021184 "2 ^ 21" off] by simp
  ultimately show "translate m pml (KERN_VA_BASE + of_nat off) = Some (base + of_nat off)"
    unfolding tr uk F(2) by (simp only: option.map r w F(2))
qed

end
