(* ===== verification/Boot.thy ===== *)
theory Boot
  imports Trampoline
begin

text \<open>
  Starting and stopping the CPUs of an enclave (the second half of \<open>boot.c\<close>): the INIT and
  start-up interrupts, the launch of the boot CPU and the stop of all of them.

  The local APIC is an environment: its version registers, what the \<open>k\<close>-th wait for an idle
  command register returns and what the \<open>k\<close>-th read of the error register gives. What the module
  does to it is a trace of events. The \<open>initialized\<close> bit of the boot parameters, which the
  enclave's CPU sets, is read at successive points in time.

  Shown: the sequence of interrupts on every branch, the launch returns with Linux's trampoline
  and both locks given back and reports exactly whether the CPU came up, and a stop sends each
  CPU one INIT.
\<close>

section \<open>The local APIC\<close>

text \<open>\<open>APIC_INTEGRATED\<close> and the fields of the version register come from the kernel's headers.\<close>

record apic_env =
  ap_lvr :: u32
  ap_integrated :: "u32 \<Rightarrow> bool"
  ap_get_version :: "u32 \<Rightarrow> u32"
  ap_get_maxlvt :: "u32 \<Rightarrow> int"
  ap_version :: "int \<Rightarrow> u32"
  ap_apicid :: "nat \<Rightarrow> int"
  ap_icr_idle :: "nat \<Rightarrow> u64"
  ap_esr :: "nat \<Rightarrow> u64"

datatype apic_event = ClearEsr | ReadEsr | Icr u64 int | Wait | Delay nat

abbreviation APIC_INT_LEVELTRIG :: u64 where "APIC_INT_LEVELTRIG \<equiv> 0x8000"
abbreviation APIC_INT_ASSERT :: u64 where "APIC_INT_ASSERT \<equiv> 0x4000"
abbreviation APIC_DM_INIT :: u64 where "APIC_DM_INIT \<equiv> 0x500"
abbreviation APIC_DM_STARTUP :: u64 where "APIC_DM_STARTUP \<equiv> 0x600"

definition lapic_get_maxlvt :: "apic_env \<Rightarrow> int" where
  "lapic_get_maxlvt A =
     (let v = ap_lvr A in if ap_integrated A (ap_get_version A v) then ap_get_maxlvt A v else 2)"

text \<open>Clearing APIC errors; the event list tells how often the error register was read.\<close>

definition clear_errors :: "apic_env \<Rightarrow> apic_event list" where
  "clear_errors A = (if lapic_get_maxlvt A > 3 then [ClearEsr] else []) @ [ReadEsr]"

definition init_ipi :: "apic_env \<Rightarrow> int \<Rightarrow> apic_event list" where
  "init_ipi A apicid =
     (if ap_integrated A (ap_version A apicid) then clear_errors A else []) @
     [Icr (APIC_INT_LEVELTRIG OR APIC_INT_ASSERT OR APIC_DM_INIT) apicid, Wait, Delay 10000,
      Icr (APIC_INT_LEVELTRIG OR APIC_DM_INIT) apicid, Wait]"

text \<open>
  The loop of start-up interrupts: \<open>j\<close> runs from 1 to \<open>num_starts\<close>; the waits and reads before the
  loop are counted by \<open>w\<close> and \<open>e\<close>. The result is the pair of the last statuses.
\<close>

function startup_loop ::
    "apic_env \<Rightarrow> u64 \<Rightarrow> int \<Rightarrow> nat \<Rightarrow> nat \<Rightarrow> nat \<Rightarrow> nat \<Rightarrow> u64 \<times> u64 \<Rightarrow> (u64 \<times> u64) \<times> apic_event list" where
  "startup_loop A rip apicid j num_starts w e st =
     (if j > num_starts then (st, [])
      else let evs = clear_errors A @ [Icr (APIC_DM_STARTUP OR drop_bit 12 rip) apicid, Delay 300, Wait, Delay 200]
                       @ clear_errors A;
               send_status = ap_icr_idle A w;
               accept_status = ap_esr A (e + 1) AND 0xEF
           in if send_status \<noteq> 0 \<or> accept_status \<noteq> 0 then ((send_status, accept_status), evs)
              else let (st', evs') = startup_loop A rip apicid (j + 1) num_starts (w + 1) (e + 2)
                                       (send_status, accept_status)
                   in (st', evs @ evs'))"
  by pat_completeness auto
termination by (relation "measure (\<lambda>(A, rip, apicid, j, n, w, e, st). Suc n - j)") auto

definition wakeup_secondary_cpu_via_init :: "apic_env \<Rightarrow> u64 \<Rightarrow> int \<Rightarrow> u64 \<times> apic_event list" where
  "wakeup_secondary_cpu_via_init A rip apicid =
     (let integrated = ap_integrated A (ap_version A apicid);
          num_starts = (if integrated then 2 else 0);
          ((send_status, accept_status), evs) =
            startup_loop A rip apicid 1 num_starts 2 (if integrated then 1 else 0) (ap_icr_idle A 1, 0)
      in (send_status OR accept_status, init_ipi A apicid @ evs))"

section \<open>Launch and stop\<close>

text \<open>The words of the boot parameters that the launch reads and writes.\<close>

record launch_args =
  launch_code_esi :: u64
  launch_code_target_addr :: u64

definition set_enclave_launch_args :: "u64 \<Rightarrow> u64 \<Rightarrow> launch_args \<Rightarrow> launch_args" where
  "set_enclave_launch_args target_addr esi p = p\<lparr>launch_code_esi := esi, launch_code_target_addr := target_addr\<rparr>"

text \<open>
  The wait for the CPU: \<open>init k\<close> is the bit at the \<open>k\<close>-th read. The loop makes at most 15 reads; one
  more decides.
\<close>

fun wait_initialized :: "(nat \<Rightarrow> bool) \<Rightarrow> nat \<Rightarrow> nat \<Rightarrow> nat \<times> apic_event list" where
  "wait_initialized init k 0 = (k, [])"
| "wait_initialized init k (Suc n) =
     (if init k then (k + 1, [])
      else let (k', evs) = wait_initialized init (k + 1) n in (k', Delay 100000 # evs))"

definition boot_enclave ::
    "apic_env \<Rightarrow> (nat \<Rightarrow> bool) \<Rightarrow> nat \<Rightarrow> u64 \<Rightarrow> u64 \<Rightarrow> u64 \<Rightarrow> launch_args \<Rightarrow> boot_state \<Rightarrow>
     (int \<times> launch_args \<times> apic_event list \<times> boot_state) option" where
  "boot_enclave A init boot_cpu kernel_addr bootmem_addr_pa bootmem_size p s =
     (let apicid = ap_apicid A boot_cpu;
          p1 = set_enclave_launch_args kernel_addr (drop_bit 12 bootmem_addr_pa) p
      in do {
        (ret, s1) \<leftarrow> pisces_setup_trampoline bootmem_addr_pa bootmem_size s;
        if ret \<noteq> 0 then Some (-1, p1, [], s1)
        else let (st, evs) = wakeup_secondary_cpu_via_init A (cpu_init_rip (trampoline_state s1)) apicid;
                 (k, evs') = wait_initialized init 0 15;
                 ret = (if init k then 0 else -1)
             in do {
               (_, s2) \<leftarrow> pisces_restore_trampoline s1;
               Some (ret, p1, evs @ evs', s2)
             }
      })"

definition stop_enclave :: "apic_env \<Rightarrow> nat list \<Rightarrow> int \<times> apic_event list" where
  "stop_enclave A assigned_cpus = (0, concat (map (\<lambda>cpu. init_ipi A (ap_apicid A cpu)) assigned_cpus))"

section \<open>The start-up sequence\<close>

text \<open>The interrupt commands of a trace, in order.\<close>

definition icrs :: "apic_event list \<Rightarrow> (u64 \<times> int) list" where
  "icrs evs = concat (map (\<lambda>ev. case ev of Icr c a \<Rightarrow> [(c, a)] | _ \<Rightarrow> []) evs)"

lemma icrs_simps [simp]:
  "icrs [] = []" "icrs (Icr c a # evs) = (c, a) # icrs evs" "icrs (ClearEsr # evs) = icrs evs"
  "icrs (ReadEsr # evs) = icrs evs" "icrs (Wait # evs) = icrs evs" "icrs (Delay n # evs) = icrs evs"
  "icrs (xs @ ys) = icrs xs @ icrs ys"
  by (simp_all add: icrs_def)

lemma icrs_clear [simp]: "icrs (clear_errors A) = []"
  by (simp add: clear_errors_def)

definition init_cmds :: "int \<Rightarrow> (u64 \<times> int) list" where
  "init_cmds a = [(0xC500, a), (0x8500, a)]"

lemma icrs_init [simp]: "icrs (init_ipi A a) = init_cmds a"
  by (simp add: init_ipi_def init_cmds_def)

declare startup_loop.simps [simp del]

text \<open>Delivery of the \<open>k\<close>-th start-up interrupt: neither status word reports an error.\<close>

definition delivered :: "apic_env \<Rightarrow> nat \<Rightarrow> bool" where
  "delivered A k \<longleftrightarrow> ap_icr_idle A (k + 1) = 0 \<and> ap_esr A (2 * k) AND 0xEF = 0"

text \<open>
  Waking a CPU asserts and releases INIT and, on an integrated APIC, sends start-up interrupts
  with the page of the trampoline as vector: a second one exactly when the first was delivered.
  The result is 0 exactly when the last one sent was delivered.
\<close>

theorem wakeup_sequence:
  assumes "ap_integrated A (ap_version A apicid)"
  shows "case wakeup_secondary_cpu_via_init A rip apicid of (st, evs) \<Rightarrow>
    icrs evs = init_cmds apicid @ replicate (if delivered A 1 then 2 else 1) (0x600 OR drop_bit 12 rip, apicid) \<and>
    (st = 0 \<longleftrightarrow> delivered A 1 \<and> delivered A 2)"
  using assms
  by (simp add: wakeup_secondary_cpu_via_init_def startup_loop.simps Let_def delivered_def numeral_2_eq_2
      or_eq_0_iff split: prod.splits) blast

definition demo_apic :: apic_env where
  "demo_apic = \<lparr>ap_lvr = 0x50014, ap_integrated = (\<lambda>_. True), ap_get_version = (\<lambda>v. v AND 0xff),
     ap_get_maxlvt = (\<lambda>v. uint (drop_bit 16 v AND 0xff)), ap_version = (\<lambda>_. 0x14), ap_apicid = int,
     ap_icr_idle = (\<lambda>_. 0), ap_esr = (\<lambda>_. 0)\<rparr>"

theorem wakeup_sequence_witness:
  "fst (wakeup_secondary_cpu_via_init demo_apic 0x99000 3) = 0 \<and>
   icrs (snd (wakeup_secondary_cpu_via_init demo_apic 0x99000 3)) = [(0xC500, 3), (0x8500, 3), (0x699, 3), (0x699, 3)]"
proof -
  have "delivered demo_apic 1" "delivered demo_apic 2" "ap_integrated demo_apic (ap_version demo_apic 3)"
    by (simp_all add: delivered_def demo_apic_def)
  moreover have "(0x600 OR drop_bit 12 0x99000 :: u64) = 0x699" by code_simp
  ultimately show ?thesis using wakeup_sequence [where A = demo_apic and apicid = 3 and rip = "0x99000"]
    by (auto simp: init_cmds_def numeral_2_eq_2 split: prod.splits)
qed

section \<open>Launching\<close>

lemma wait_initialized_reads:
  "wait_initialized init k n = (k', evs) \<Longrightarrow> icrs evs = [] \<and>
     (k' = k + n \<and> (\<forall>i. k \<le> i \<and> i < k + n \<longrightarrow> \<not> init i) \<or> (\<exists>j. k \<le> j \<and> j < k + n \<and> init j \<and> k' = j + 1))"
proof (induction n arbitrary: k k' evs)
  case (Suc n)
  show ?case
  proof (cases "init k")
    case False
    then obtain evs1 where w: "wait_initialized init (k + 1) n = (k', evs1)" "evs = Delay 100000 # evs1"
      using Suc.prems by (auto split: prod.splits)
    from Suc.IH [OF w(1)] consider
        "icrs evs1 = []" "k' = k + 1 + n" "\<forall>i. k + 1 \<le> i \<and> i < k + 1 + n \<longrightarrow> \<not> init i"
      | j where "icrs evs1 = []" "k + 1 \<le> j" "j < k + 1 + n" "init j" "k' = j + 1" by blast
    then show ?thesis
    proof cases
      case 1
      then have "\<not> init i" if "k \<le> i" "i < k + Suc n" for i using that False by (cases "i = k") auto
      then show ?thesis using 1 w(2) by simp
    next
      case (2 j)
      then show ?thesis using w(2) by (auto intro!: exI [of _ j])
    qed
  qed (use Suc.prems in auto)
qed auto

text \<open>A bit that is never cleared again.\<close>

definition stays_up :: "(nat \<Rightarrow> bool) \<Rightarrow> bool" where
  "stays_up init \<longleftrightarrow> (\<forall>i. init i \<longrightarrow> init (i + 1))"

lemma boot_enclave_run:
  assumes "trampoline_ready s" and "stays_up init"
  shows "\<exists>r p' evs s'. boot_enclave A init cpu kernel_addr base bootmem_size p s = Some (r, p', evs, s') \<and>
    trampoline_ready s' \<and> trampoline_target s' = trampoline_target s \<and> trampoline_pgd s' = trampoline_pgd s \<and>
    launch_code_target_addr p' = kernel_addr \<and> launch_code_esi p' = drop_bit 12 base \<and>
    (if bootmem_size mod PAGE_SIZE_2MB \<noteq> 0 then r = -1 \<and> evs = []
     else r = (if \<exists>k \<le> 15. init k then 0 else -1) \<and>
       icrs evs = icrs (snd (wakeup_secondary_cpu_via_init A (cpu_init_rip (trampoline_state s)) (ap_apicid A cpu))))"
proof -
  obtain k evs' where w: "wait_initialized init 0 15 = (k, evs')" by fastforce
  note wr = wait_initialized_reads [OF w]
  have k: "init k \<longleftrightarrow> (\<exists>i \<le> 15. init i)"
  proof
    show "init k \<Longrightarrow> \<exists>i \<le> 15. init i" using wr by (auto intro: exI [of _ k])
    assume "\<exists>i \<le> 15. init i"
    then obtain i where "i \<le> 15" "init i" by blast
    with wr assms(2) show "init k" by (cases "i = 15") (auto simp: stays_up_def)
  qed
  obtain st evs where wk: "wakeup_secondary_cpu_via_init A (cpu_init_rip (trampoline_state s)) (ap_apicid A cpu) = (st, evs)"
    by fastforce
  show ?thesis using assms(1) w wk wr
    by (auto simp: boot_enclave_def set_enclave_launch_args_def pisces_setup_trampoline_def setup_enclave_trampoline_def
        pisces_restore_trampoline_def restore_enclave_trampoline_def trampoline_ready_def Let_def k)
qed

text \<open>
  C23: A launch from a ready trampoline returns, with the trampoline ready again and Linux's own
  contents in it, whatever happens. With boot memory of 2 MB granularity it wakes the boot CPU
  once, with the kernel's entry point and the page number of the boot memory as its arguments. The
  bit that the CPU sets stays set: then the launch reports success exactly when one of its 16
  reads finds it set, and failure otherwise. Other boot memory is refused before any interrupt.
\<close>

theorem boot_enclave_correct:
  assumes "trampoline_ready s" and "stays_up init"
  shows "\<exists>r p' evs s'. boot_enclave A init cpu kernel_addr base bootmem_size p s = Some (r, p', evs, s') \<and>
    trampoline_ready s' \<and> trampoline_target s' = trampoline_target s \<and> trampoline_pgd s' = trampoline_pgd s \<and>
    launch_code_target_addr p' = kernel_addr \<and> launch_code_esi p' = drop_bit 12 base \<and>
    (if bootmem_size mod PAGE_SIZE_2MB \<noteq> 0 then r = -1 \<and> evs = []
     else r = (if \<exists>k \<le> 15. init k then 0 else -1) \<and>
       icrs evs = icrs (snd (wakeup_secondary_cpu_via_init A (cpu_init_rip (trampoline_state s)) (ap_apicid A cpu))))"
  by (rule boot_enclave_run [OF assms])

theorem boot_enclave_correct_witness:
  "\<exists>p' evs s'. boot_enclave demo_apic (\<lambda>k. 3 \<le> k) 1 0x80200000 0x80000000 0x8000000 \<lparr>launch_code_esi = 0, launch_code_target_addr = 0\<rparr>
     demo_boot_state = Some (0, p', evs, s') \<and> launch_code_esi p' = 0x80000 \<and> trampoline_target s' = 77"
proof -
  have "drop_bit 12 0x80000000 = (0x80000 :: u64)" by code_simp
  moreover have "trampoline_target demo_boot_state = 77" by (simp add: demo_boot_state_def)
  moreover have "stays_up (\<lambda>k. 3 \<le> k)" by (simp add: stays_up_def)
  moreover have "\<exists>k \<le> 15. (3 :: nat) \<le> k" by (rule exI [of _ 3]) simp
  ultimately show ?thesis
    using boot_enclave_correct [OF demo_boot_ready, where init = "\<lambda>k. 3 \<le> k" and A = demo_apic and cpu = 1 and kernel_addr = "0x80200000"
        and base = "0x80000000" and bootmem_size = "0x8000000" and p = "\<lparr>launch_code_esi = 0, launch_code_target_addr = 0\<rparr>"]
    by (auto split: if_splits)
qed

text \<open>Stopping an enclave sends every assigned CPU one INIT, asserted and released, and nothing else.\<close>

lemma stop_enclave_commands:
  "fst (stop_enclave A cpus) = 0 \<and>
   icrs (snd (stop_enclave A cpus)) = concat (map (\<lambda>cpu. init_cmds (ap_apicid A cpu)) cpus)"
  by (induction cpus) (auto simp: stop_enclave_def)

end
