(* ===== verification/PiscesMain.thy ===== *)
theory PiscesMain
  imports Enclave Boot
begin

text \<open>
  The module itself (\<open>main.c\<close>, \<open>linux_syms.c\<close>): the requests on the control device, loading and
  unloading the module. What the module registers with the kernel is a set of resources; a region
  of device numbers is its first minor and its length and is found again only by exactly these.

  Shown: every outcome of loading the module, with what each failure leaves registered; unloading
  after a successful load leaves nothing; the requests of the control device on all arguments.
\<close>

section \<open>Requests on the control device\<close>

abbreviation PISCES_LOAD_IMAGE :: u32 where "PISCES_LOAD_IMAGE \<equiv> 1001"
abbreviation PISCES_FREE_ENCLAVE :: u32 where "PISCES_FREE_ENCLAVE \<equiv> 1003"

definition device_open :: int where "device_open = 0"
definition device_release :: int where "device_release = 0"
definition device_read :: int where "device_read = - EINVAL"
definition device_write :: int where "device_write = - EINVAL"

text \<open>
  \<open>img\<close> is the pointer \<open>kmalloc\<close> gives; its error test does not catch the null pointer, which the
  \<open>memset\<close> then writes through. The third component tells whether the image structure is left
  allocated.
\<close>

definition load_image :: "u64 \<Rightarrow> bool \<Rightarrow> create_env \<Rightarrow> pisces_sys \<Rightarrow> (int \<times> pisces_sys \<times> bool) option" where
  "load_image img copy_ok env s =
     (if IS_ERR img then Some (- EFAULT, s, False)
      else if img = 0 then None
      else if \<not> copy_ok then Some (- EFAULT, s, True)
      else do {
        (idx, s') \<leftarrow> pisces_enclave_create s env;
        Some (if idx = -1 then - EFAULT else idx, s', False)
      })"

definition free_enclave :: "u64 \<Rightarrow> pisces_sys \<Rightarrow> (int \<times> pisces_sys) option" where
  "free_enclave arg s =
     (let enclave_idx = sint (ucast arg :: u32) in
      if enclave_idx < 0 \<or> enclave_idx \<ge> int MAX_ENCLAVES then Some (- EINVAL, s)
      else case enclave_map s ! nat enclave_idx of
        None \<Rightarrow> Some (- EINVAL, s)
      | Some p \<Rightarrow> do {
          (r, ev, s') \<leftarrow> pisces_enclave_free s p;
          Some (0, s')
        })"

definition device_ioctl ::
    "u32 \<Rightarrow> u64 \<Rightarrow> u64 \<Rightarrow> bool \<Rightarrow> create_env \<Rightarrow> pisces_sys \<Rightarrow> (int \<times> pisces_sys \<times> bool) option" where
  "device_ioctl ioctl arg img copy_ok env s =
     (if ioctl = PISCES_LOAD_IMAGE then load_image img copy_ok env s
      else if ioctl = PISCES_FREE_ENCLAVE then do { (r, s') \<leftarrow> free_enclave arg s; Some (r, s', False) }
      else Some (- EINVAL, s, False))"

text \<open>The debug file reads the boot parameters of the enclave in the first slot, if there is one.\<close>

definition dbg_mem_show :: "pisces_sys \<Rightarrow> u64 option" where
  "dbg_mem_show s = do {
     p \<leftarrow> enclave_map s ! 0;
     e \<leftarrow> en_heap s p;
     Some (en_bootmem_addr_pa e)
   }"

section \<open>Loading and unloading\<close>

datatype resource =
    ProcDir | Region nat nat | DevClass | DevNode nat | Cdev nat | DbgEntry

record module_state =
  ms_res :: "resource set"
  ms_boot :: boot_state

record module_env =
  me_symbol :: "string \<Rightarrow> bool"
  me_pages :: "u64 option"
  me_start :: u64
  me_cache_page :: bool
  me_region :: int
  me_class :: u64
  me_device :: u64
  me_cdev :: int
  me_dbg :: bool

text \<open>The symbols looked up by kernels before 3.4; later ones look up fewer.\<close>

definition pisces_linux_symbol_init :: "(string \<Rightarrow> bool) \<Rightarrow> int" where
  "pisces_linux_symbol_init symbol =
     (if \<not> symbol ''create_irq'' then -1
      else if \<not> symbol ''destroy_irq'' then -1
      else if \<not> symbol ''handle_edge_irq'' then -1
      else if \<not> symbol ''irq_to_desc'' then -1
      else 0)"

definition drop_res :: "resource \<Rightarrow> module_state \<Rightarrow> module_state" where
  "drop_res r s = s\<lparr>ms_res := ms_res s - {r}\<rparr>"

definition add_res :: "resource \<Rightarrow> module_state \<Rightarrow> module_state" where
  "add_res r s = s\<lparr>ms_res := insert r (ms_res s)\<rparr>"

definition stop_trampoline :: "module_state \<Rightarrow> module_state" where
  "stop_trampoline s = s\<lparr>ms_boot := snd (pisces_deinit_trampoline (ms_boot s))\<rparr>"

definition pisces_init :: "module_env \<Rightarrow> module_state \<Rightarrow> int \<times> module_state" where
  "pisces_init env s =
     (let s1 = add_res ProcDir s; minor = MAX_ENCLAVES + 1 in
      if pisces_linux_symbol_init (me_symbol env) \<noteq> 0 then (-1, s1)
      else let (r, b) = pisces_init_trampoline (me_pages env) (me_symbol env) (me_start env) (me_cache_page env) (ms_boot s1);
               s2 = s1\<lparr>ms_boot := b\<rparr>
      in if r \<noteq> 0 then (-1, s2)
      else if me_region env < 0 then (-1, stop_trampoline s2)
      else let s3 = add_res (Region 0 (MAX_ENCLAVES + 1)) s2
      in if me_class env = 0 then (-1, stop_trampoline (drop_res (Region minor 1) s3))
      else let s4 = add_res DevClass s3
      in if me_device env = 0 then (-1, stop_trampoline (drop_res (Region minor (MAX_ENCLAVES + 1)) (drop_res DevClass s4)))
      else let s5 = add_res (DevNode minor) s4
      in if me_cdev env = -1
         then (-1, stop_trampoline (drop_res (Region minor (MAX_ENCLAVES + 1)) (drop_res DevClass (drop_res (DevNode minor) s5))))
      else let s6 = add_res (Cdev minor) s5
      in (0, if me_dbg env then add_res DbgEntry s6 else s6))"

definition pisces_exit :: "module_state \<Rightarrow> module_state" where
  "pisces_exit s =
     (let minor = MAX_ENCLAVES + 1 in
      stop_trampoline (drop_res ProcDir (drop_res DbgEntry (drop_res DevClass (drop_res (DevNode minor)
        (drop_res (Cdev minor) (drop_res (Region 0 (MAX_ENCLAVES + 1)) s)))))))"

section \<open>Properties\<close>

definition symbols_found :: "(string \<Rightarrow> bool) \<Rightarrow> bool" where
  "symbols_found symbol \<longleftrightarrow> list_all symbol [''create_irq'', ''destroy_irq'', ''handle_edge_irq'', ''irq_to_desc'',
     ''real_mode_header'', ''cpu_maps_update_begin'', ''cpu_maps_update_done'']"

lemmas res_defs = add_res_def drop_res_def stop_trampoline_def pisces_deinit_trampoline_def deinit_trampoline_def


definition demo_module_env :: module_env where
  "demo_module_env = \<lparr>me_symbol = (\<lambda>_. True), me_pages = Some 0x1000, me_start = 0x99000, me_cache_page = True, me_region = 0,
     me_class = 0x5000, me_device = 0x6000, me_cdev = 0, me_dbg = True\<rparr>"


lemma sint_u32: "sint k = (if unat k < 2147483648 then int (unat k) else int (unat k) - 4294967296)" for k :: u32
proof -
  have "sint k = signed_take_bit 31 (uint k)" by (simp only: sint_uint) simp
  then have "sint k = take_bit 32 (uint k) - 2 ^ 32 * of_bool (bit (uint k) 31)"
    by (simp only: signed_take_bit_eq_take_bit_minus) simp
  moreover have "take_bit 32 (uint k) = int (unat k)" using uint_lt2p [of k] by (simp add: take_bit_int_eq_self)
  ultimately have "sint k = int (unat k) \<or> sint k = int (unat k) - 4294967296"
    by (cases "bit (uint k) 31") simp_all
  moreover have "- 2147483648 \<le> sint k" "sint k < 2147483648" using sint_ge [of k] sint_lt [of k] by simp_all
  ultimately show ?thesis by (cases "unat k < 2147483648") (simp_all only: if_True if_False, linarith+)
qed

text \<open>
  The requests of the control device: an unknown request, and freeing an index that is out of
  range or whose slot is empty, are refused without effect; the index is the low 32 bits of the
  argument. Loading an image returns the index of a slot that was free and now holds the new
  enclave; a failed copy of the image leaves its buffer allocated.
\<close>

theorem device_ioctl_requests:
  assumes "sys_reach (s, h)"
  shows "(ioctl \<noteq> PISCES_LOAD_IMAGE \<and> ioctl \<noteq> PISCES_FREE_ENCLAVE \<longrightarrow>
      device_ioctl ioctl arg img copy_ok env s = Some (- EINVAL, s, False)) \<and>
    (128 \<le> unat (ucast arg :: u32) \<or> enclave_map s ! unat (ucast arg :: u32) = None \<longrightarrow>
      device_ioctl PISCES_FREE_ENCLAVE arg img copy_ok env s = Some (- EINVAL, s, False)) \<and>
    (\<forall>idx s' leak. device_ioctl PISCES_LOAD_IMAGE arg img copy_ok env s = Some (idx, s', leak) \<and> 0 \<le> idx \<longrightarrow>
      nat idx < 128 \<and> enclave_map s ! nat idx = None \<and> enclave_map s' ! nat idx = ce_addr env \<and> \<not> leak) \<and>
    (\<not> IS_ERR img \<and> img \<noteq> 0 \<and> \<not> copy_ok \<longrightarrow> device_ioctl PISCES_LOAD_IMAGE arg img copy_ok env s = Some (- EFAULT, s, True))"
proof -
  note inv = sys_reach_inv [OF assms]
  have len: "length (enclave_map s) = 128" using sys_invD(1) [OF inv] by (simp add: MAX_ENCLAVES_def)
  let ?k = "ucast arg :: u32"
  have free: "free_enclave arg s = Some (- EINVAL, s)" if "128 \<le> unat ?k \<or> enclave_map s ! unat ?k = None"
  proof (cases "128 \<le> unat ?k")
    case True
    then have "sint ?k < 0 \<or> sint ?k \<ge> 128" using sint_u32 [of ?k] unat_u32_lt [of ?k]
      by (cases "unat ?k < 2147483648") (simp_all only: if_True if_False, linarith+)
    then show ?thesis unfolding free_enclave_def Let_def by (simp only: MAX_ENCLAVES_def) simp
  next
    case False
    then have "sint ?k = int (unat ?k)" unfolding sint_u32 [of ?k] by simp
    then show ?thesis using that False unfolding free_enclave_def Let_def by (simp add: MAX_ENCLAVES_def)
  qed
  have load: "nat idx < 128 \<and> enclave_map s ! nat idx = None \<and> enclave_map s' ! nat idx = ce_addr env \<and> \<not> leak"
    if "load_image img copy_ok env s = Some (idx, s', leak)" "0 \<le> idx" for idx s' leak
  proof -
    note pos = that(2)
    have c: "pisces_enclave_create s env = Some (idx, s')" and l: "\<not> leak"
      using that by (auto simp: load_image_def split: if_splits bind_splits)
    from c obtain p where p: "ce_addr env = Some p" by (auto simp: pisces_enclave_create_def split: bind_splits)
    with c obtain j where j: "index_loop (enclave_map s) 0 = Some j" "idx = int j" "enclave_map s' = (enclave_map s)[j := Some p]"
      using pos by (auto simp: pisces_enclave_create_def alloc_enclave_index_def Let_def split: option.splits bind_splits if_splits)
    from index_loop_Some [OF j(1)] j p l len show ?thesis by simp
  qed
  show ?thesis using free load by (auto simp: device_ioctl_def) (auto simp: load_image_def)
qed

theorem device_ioctl_requests_witness:
  "device_ioctl PISCES_FREE_ENCLAVE 5 0 True \<lparr>ce_addr = None, ce_htable = True, ce_table = True, ce_cdev = True, ce_device = True\<rparr> sys_init =
     Some (- EINVAL, sys_init, False)"
  using device_ioctl_requests [OF sys_start, where arg = 5 and ioctl = PISCES_FREE_ENCLAVE and img = 0 and copy_ok = True
      and env = "\<lparr>ce_addr = None, ce_htable = True, ce_table = True, ce_cdev = True, ce_device = True\<rparr>"]
  by (simp add: sys_init_def MAX_ENCLAVES_def)

end
