(* ===== verification/Lcall.thy ===== *)
theory Lcall
  imports EnclaveFs Pci XbufDesc CtrlCmd
begin

text \<open>
  Long calls (\<open>pisces_lcall.c\<close>, \<open>pisces_lcall.h\<close> and the request structures of \<open>enclave_fs.h\<close> and
  \<open>enclave_pci.c\<close>): the interrupt handler that wakes the thread, the thread that takes one request
  after the other out of the channel, the dispatch over the call numbers, and bringing the channel
  up and down. The build without XPMEM and with PCI support.

  A request is the bytes received. The handlers read its fields through casts of the buffer: a
  field that lies outside the bytes received is a read outside the allocation and gives \<open>None\<close>.

  Shown: each long call is answered exactly once, except a PCI attach whose attachment fails,
  which is not answered at all; a call number without a handler is answered with -1 and changes
  nothing; the thread answers a wake-up unless it was asked to stop or the channel was inactive.
\<close>

section \<open>Requests\<close>

abbreviation PISCES_LCALL_VFS_READ :: nat where "PISCES_LCALL_VFS_READ \<equiv> 10000"
abbreviation PISCES_LCALL_VFS_WRITE :: nat where "PISCES_LCALL_VFS_WRITE \<equiv> 10001"
abbreviation PISCES_LCALL_VFS_OPEN :: nat where "PISCES_LCALL_VFS_OPEN \<equiv> 10002"
abbreviation PISCES_LCALL_VFS_CLOSE :: nat where "PISCES_LCALL_VFS_CLOSE \<equiv> 10003"
abbreviation PISCES_LCALL_VFS_SIZE :: nat where "PISCES_LCALL_VFS_SIZE \<equiv> 10004"
abbreviation PISCES_LCALL_PCI_ACK_IRQ :: nat where "PISCES_LCALL_PCI_ACK_IRQ \<equiv> 10100"
abbreviation PISCES_LCALL_PCI_CMD :: nat where "PISCES_LCALL_PCI_CMD \<equiv> 10101"
abbreviation PISCES_LCALL_PCI_ATTACH :: nat where "PISCES_LCALL_PCI_ATTACH \<equiv> 10102"
abbreviation PISCES_LCALL_PCI_DETACH :: nat where "PISCES_LCALL_PCI_DETACH \<equiv> 10103"
abbreviation PISCES_LCALL_IOMMU_MAP :: nat where "PISCES_LCALL_IOMMU_MAP \<equiv> 10104"
abbreviation PISCES_LCALL_IOMMU_UNMAP :: nat where "PISCES_LCALL_IOMMU_UNMAP \<equiv> 10105"

definition field :: "bytes \<Rightarrow> nat \<Rightarrow> nat \<Rightarrow> nat option" where
  "field bs off n = (if off + n \<le> length bs then Some (of_le (take n (drop off bs))) else None)"

text \<open>
  A string in the request, read up to its zero byte and at most \<open>n\<close> bytes.
\<close>

definition cstr :: "bytes \<Rightarrow> nat \<Rightarrow> nat \<Rightarrow> string option" where
  "cstr bs off n =
     (let s = takeWhile (\<lambda>b. b \<noteq> 0) (take n (drop off bs)) in
      if length s = n \<or> off + length s < length bs then Some (map (\<lambda>b. char_of (unat b)) s) else None)"

definition pisces_lcall_resp :: "u64 \<Rightarrow> bytes" where
  "pisces_lcall_resp status = le 8 (unat status) @ le 4 0"

fun parse_descs :: "bytes \<Rightarrow> nat \<Rightarrow> nat \<Rightarrow> vfs_buf_desc list option" where
  "parse_descs bs off 0 = Some []"
| "parse_descs bs off (Suc n) = do {
     sz \<leftarrow> field bs off 4;
     pa \<leftarrow> field bs (off + 4) 8;
     ds \<leftarrow> parse_descs bs (off + 12) n;
     Some (\<lparr>bd_size = of_nat sz, bd_phys_addr = of_nat pa\<rparr> # ds)
   }"

definition parse_rw :: "bytes \<Rightarrow> vfs_rw_lcall option" where
  "parse_rw bs = do {
     fh \<leftarrow> field bs 12 8;
     off \<leftarrow> field bs 20 8;
     len \<leftarrow> field bs 28 8;
     num \<leftarrow> field bs 36 4;
     ds \<leftarrow> parse_descs bs 40 num;
     Some \<lparr>rw_file_handle = of_nat fh, rw_offset = of_nat off, rw_length = of_nat len, rw_descs = ds\<rparr>
   }"

section \<open>Dispatch\<close>

text \<open>The answers of the host kernel to what the handlers ask it, and the state they share.\<close>

record lcall_env =
  le_vfs :: vfs
  le_alloc :: fs_alloc
  le_mem :: "u64 \<Rightarrow> u8"
  le_attach :: int
  le_irq :: int
  le_iommu_map :: "u64 \<Rightarrow> u64 \<Rightarrow> u32 \<Rightarrow> int"
  le_iommu_unmap :: "u64 \<Rightarrow> u32 \<Rightarrow> u64"

record lcall_world =
  lw_fs :: enclave_fs
  lw_pci :: enclave_pci_state

datatype lcall_event =
    Answer u64 | Fs fs_event | FileWrite u64 bytes | PciDo nat pci_action
  | IommuMap u64 u64 u32 | IommuUnmap u64 u32

fun fs_lift :: "fs_event \<Rightarrow> lcall_event" where
  "fs_lift (Respond s) = Answer s"
| "fs_lift e = Fs e"

definition pci_lift :: "lcall_world \<Rightarrow> pci_result \<Rightarrow> (lcall_world \<times> lcall_event list) option" where
  "pci_lift w r = do {
     (ret, ans, tr, st) \<leftarrow> r;
     Some (w\<lparr>lw_pci := st\<rparr>, map (\<lambda>(a, act). PciDo a act) tr @
       (case ans of None \<Rightarrow> [] | Some s \<Rightarrow> [Answer (of_int s)]))
   }"

definition lcall_fs :: "lcall_env \<Rightarrow> lcall_world \<Rightarrow> nat \<Rightarrow> bytes \<Rightarrow> (lcall_world \<times> lcall_event list) option" where
  "lcall_fs env w num bs =
     (let v = le_vfs env; fs = lw_fs w in
      if num = PISCES_LCALL_VFS_READ then do {
        rw \<leftarrow> parse_rw bs;
        ev \<leftarrow> enclave_vfs_read_lcall v fs rw;
        Some (w, map fs_lift ev) }
      else if num = PISCES_LCALL_VFS_WRITE then do {
        rw \<leftarrow> parse_rw bs;
        (ws, ev) \<leftarrow> enclave_vfs_write_lcall v (le_mem env) fs rw;
        Some (w, map (\<lambda>(off, d). FileWrite off d) ws @ map fs_lift ev) }
      else if num = PISCES_LCALL_VFS_OPEN then do {
        mode \<leftarrow> field bs 12 4;
        path \<leftarrow> cstr bs 16 (length bs + 1);
        (fs', ev) \<leftarrow> enclave_vfs_open_lcall v (le_alloc env) fs path (of_nat mode);
        Some (w\<lparr>lw_fs := fs'\<rparr>, map fs_lift ev) }
      else if num = PISCES_LCALL_VFS_CLOSE then do {
        fh \<leftarrow> field bs 12 8;
        let (fs', ev) = enclave_vfs_close_lcall fs (of_nat fh) in Some (w\<lparr>lw_fs := fs'\<rparr>, map fs_lift ev) }
      else do {
        fh \<leftarrow> field bs 12 8;
        Some (w, map fs_lift (enclave_vfs_size_lcall v fs (of_nat fh))) })"

definition lcall_pci :: "lcall_env \<Rightarrow> lcall_world \<Rightarrow> nat \<Rightarrow> bytes \<Rightarrow> (lcall_world \<times> lcall_event list) option" where
  "lcall_pci env w num bs = do {
     name \<leftarrow> cstr bs 12 128;
     let st = lw_pci w in
     if num = PISCES_LCALL_IOMMU_MAP then do {
       a \<leftarrow> field bs 140 8; b \<leftarrow> field bs 148 8; g \<leftarrow> field bs 156 8;
       (r, ans, calls) \<leftarrow> enclave_pci_iommu_map (le_iommu_map env) name (of_nat a) (of_nat b) (of_nat g) st;
       Some (w, map (\<lambda>(x, y, z). IommuMap x y z) calls @ [Answer (of_int ans)]) }
     else if num = PISCES_LCALL_IOMMU_UNMAP then do {
       a \<leftarrow> field bs 140 8; b \<leftarrow> field bs 148 8; g \<leftarrow> field bs 156 8;
       (r, ans, calls) \<leftarrow> enclave_pci_iommu_unmap (le_iommu_unmap env) name (of_nat a) (of_nat b) (of_nat g) st;
       Some (w, map (\<lambda>(x, z). IommuUnmap x z) calls @ [Answer (of_int ans)]) }
     else if num = PISCES_LCALL_PCI_ATTACH then do {
       vec \<leftarrow> field bs 140 4;
       pci_lift w (enclave_pci_attach name (of_nat vec) (le_attach env) (le_irq env) st) }
     else if num = PISCES_LCALL_PCI_DETACH then pci_lift w (enclave_pci_detach name st)
     else if num = PISCES_LCALL_PCI_ACK_IRQ then pci_lift w (enclave_pci_ack_irq name st)
     else do {
       cmd \<leftarrow> field bs 140 4;
       pci_lift w (enclave_pci_cmd name (of_nat cmd) (le_irq env) st) }
   }"

text \<open>The \<open>switch\<close> of the thread.\<close>

definition lcall_switch :: "lcall_env \<Rightarrow> lcall_world \<Rightarrow> bytes \<Rightarrow> (lcall_world \<times> lcall_event list) option" where
  "lcall_switch env w bs = do {
     num \<leftarrow> field bs 0 8;
     if num \<in> {PISCES_LCALL_VFS_READ, PISCES_LCALL_VFS_WRITE, PISCES_LCALL_VFS_OPEN, PISCES_LCALL_VFS_CLOSE,
               PISCES_LCALL_VFS_SIZE} then lcall_fs env w num bs
     else if num \<in> {PISCES_LCALL_IOMMU_MAP, PISCES_LCALL_IOMMU_UNMAP, PISCES_LCALL_PCI_ATTACH,
               PISCES_LCALL_PCI_DETACH, PISCES_LCALL_PCI_ACK_IRQ, PISCES_LCALL_PCI_CMD} then lcall_pci env w num bs
     else Some (w, [Answer (-1)])
   }"

section \<open>The thread\<close>

datatype lcall_outcome = Exited int | Next

text \<open>
  One round of \<open>lcall_kern_thread\<close> from a wake-up on. \<open>stop1\<close>, \<open>stop2\<close> and \<open>stop3\<close> are the three
  tests of \<open>kthread_should_stop\<close>, \<open>recv\<close> the result of \<open>pisces_xbuf_recv\<close> and the buffer it left. The
  result also has the value of \<open>active_lcall\<close>.
\<close>

definition lcall_kern_thread ::
    "bool \<Rightarrow> bool \<Rightarrow> bool \<Rightarrow> int \<times> bytes \<Rightarrow> lcall_env \<Rightarrow> lcall_world \<Rightarrow>
     (lcall_outcome \<times> int \<times> lcall_world \<times> lcall_event list) option" where
  "lcall_kern_thread stop1 stop2 stop3 recv env w =
     (if stop1 then Some (Exited 0, 1, w, [])
      else if stop2 then Some (Exited 0, 1, w, [])
      else let (ret, cur_lcall) = recv in
        if ret = -1 then Some (Exited (-1), 0, w, [])
        else if stop3 then Some (Exited 0, 0, w, [])
        else do {
          (w', evs) \<leftarrow> lcall_switch env w cur_lcall;
          Some (Next, 0, w', evs)
        })"

text \<open>The receive handler of the channel: the new value of \<open>active_lcall\<close> and whether the thread is woken.\<close>

definition lcall_handler :: "pisces_xbuf \<Rightarrow> int \<Rightarrow> int \<times> bool" where
  "lcall_handler x active_lcall = (if pisces_xbuf_pending x \<noteq> 0 then (1, True) else (active_lcall, False))"

record pisces_lcall_state =
  ls_kern_thread :: bool
  ls_active_lcall :: int
  ls_xbuf_desc :: "pisces_xbuf_desc option"

text \<open>
  \<open>kthread_create\<close> may fail; its error pointer is then dereferenced by \<open>wake_up_process\<close>.
\<close>

definition pisces_lcall_init ::
    "irq_env \<Rightarrow> bool \<Rightarrow> nat option \<Rightarrow> nat \<Rightarrow> u32 \<Rightarrow> u32 \<Rightarrow> pisces_lcall_state \<Rightarrow> pisces_xbuf \<Rightarrow> irq_state \<Rightarrow>
     (int \<times> pisces_lcall_state \<times> pisces_xbuf \<times> irq_state) option" where
  "pisces_lcall_init env kthread_ok kmalloc enclave apicid0 longcall_buf_size ls x st = do {
     (desc, x1, st1) \<leftarrow> pisces_xbuf_server_init env kmalloc enclave x longcall_buf_size True apicid0 st;
     (case desc of
        None \<Rightarrow> Some (-1, ls, x1, st1)
      | Some d \<Rightarrow> if \<not> kthread_ok then None else
                    Some (0, \<lparr>ls_kern_thread = True, ls_active_lcall = 0, ls_xbuf_desc = Some d\<rparr>,
                       snd (pisces_xbuf_enable x1), st1))
   }"

text \<open>Without a thread, \<open>kthread_stop\<close> goes through a null pointer.\<close>

definition pisces_lcall_deinit ::
    "pisces_lcall_state \<Rightarrow> pisces_xbuf \<Rightarrow> irq_state \<Rightarrow> (int \<times> pisces_lcall_state \<times> pisces_xbuf \<times> irq_state) option" where
  "pisces_lcall_deinit ls x st =
     (if \<not> ls_kern_thread ls then None
      else case ls_xbuf_desc ls of
        None \<Rightarrow> None
      | Some d \<Rightarrow> Some (0, ls\<lparr>ls_active_lcall := 1\<rparr>, snd (pisces_xbuf_disable x),
                      snd (pisces_xbuf_server_deinit d st)))"

section \<open>Every call is answered\<close>

definition answers :: "lcall_event list \<Rightarrow> u64 list" where
  "answers evs = concat (map (\<lambda>e. case e of Answer s \<Rightarrow> [s] | _ \<Rightarrow> []) evs)"

lemma answers_simps [simp]:
  "answers [] = []" "answers (Answer s # evs) = s # answers evs" "answers (Fs e # evs) = answers evs"
  "answers (FileWrite off d # evs) = answers evs" "answers (PciDo a act # evs) = answers evs"
  "answers (IommuMap x y z # evs) = answers evs" "answers (IommuUnmap x z # evs) = answers evs"
  "answers (xs @ ys) = answers xs @ answers ys"
  by (simp_all add: answers_def)

lemma answers_other [simp]:
  "answers (map (\<lambda>(a, act). PciDo a act) tr) = []" "answers (map (\<lambda>(off, d). FileWrite off d) ws) = []"
  "answers (map (\<lambda>(x, y, z). IommuMap x y z) ms) = []" "answers (map (\<lambda>(x, z). IommuUnmap x z) us) = []"
  by (auto simp: answers_def)

lemma read_desc_answers:
  assumes "read_desc v f pa rd left off tot ret ev = Some (r, off', tot', ev')"
  shows "answers (map fs_lift ev') = answers (map fs_lift ev)"
proof -
  have "case y of (r, off', tot', ev') \<Rightarrow> answers (map fs_lift ev') = answers (map fs_lift ev)"
    if "read_desc v f pa rd left off tot ret ev = Some y" for y
  proof (rule read_desc.raw_induct [OF _ that])
    fix rec v f pa rd left off tot ret ev and y :: "int \<times> u64 \<times> u64 \<times> fs_event list"
    assume IH: "\<And>v f pa rd left off tot ret ev y. rec v f pa rd left off tot ret ev = Some y \<Longrightarrow>
        case y of (r, off', tot', ev') \<Rightarrow> answers (map fs_lift ev') = answers (map fs_lift ev)"
      and "(if left = 0 then Some (ret, off, tot, ev)
        else case file_read v f (ucast left) off of (ret, bs) \<Rightarrow>
          if ret \<le> 0 then Some (ret, off, tot, ev)
          else rec v f pa (rd + of_int ret) (left - of_int ret) (off + of_int ret) (tot + of_int ret) ret
                 (ev @ [MemStore (pa + ucast rd) bs])) = Some y"
    then show "case y of (r, off', tot', ev') \<Rightarrow> answers (map fs_lift ev') = answers (map fs_lift ev)"
      by (auto split: if_splits prod.splits dest!: IH)
  qed
  from this [OF assms] show ?thesis by simp
qed

lemma read_descs_answers:
  "read_descs v f ds len off tot ev = Some (tot', ev') \<Longrightarrow> answers (map fs_lift ev') = answers (map fs_lift ev)"
  by (induction ds arbitrary: off tot ev)
    (auto split: if_splits bind_splits prod.splits dest!: read_desc_answers)

lemma fs_answered:
  assumes "num \<in> {PISCES_LCALL_VFS_READ, PISCES_LCALL_VFS_WRITE, PISCES_LCALL_VFS_OPEN, PISCES_LCALL_VFS_CLOSE,
      PISCES_LCALL_VFS_SIZE}" and "lcall_fs env w num bs = Some (w', evs)"
  shows "length (answers evs) = 1 \<and> lw_pci w' = lw_pci w"
  using assms
  by (auto simp: lcall_fs_def Let_def enclave_vfs_read_lcall_def enclave_vfs_write_lcall_def enclave_vfs_open_lcall_def
      enclave_vfs_close_lcall_def enclave_vfs_size_lcall_def read_descs_answers
      split: if_splits bind_splits prod.splits)

lemma pci_lift_answers:
  "pci_lift w r = Some (w', evs) \<Longrightarrow> \<exists>ret ans tr st. r = Some (ret, ans, tr, st) \<and> w' = w\<lparr>lw_pci := st\<rparr> \<and>
     answers evs = (case ans of None \<Rightarrow> [] | Some s \<Rightarrow> [of_int s])"
proof -
  assume l: "pci_lift w r = Some (w', evs)"
  then obtain ret ans tr st where "r = Some (ret, ans, tr, st)" by (cases r) (auto simp: pci_lift_def)
  with l show ?thesis by (cases ans) (auto simp: pci_lift_def)
qed

lemma pci_answered:
  assumes "lcall_pci env w num bs = Some (w', evs)"
  shows "(length (answers evs) = 1 \<or> answers evs = [] \<and> num = PISCES_LCALL_PCI_ATTACH \<and> le_attach env \<noteq> 0) \<and> lw_fs w' = lw_fs w"
  using assms
  by (auto simp: lcall_pci_def Let_def enclave_pci_attach_def enclave_pci_detach_def enclave_pci_ack_irq_def enclave_pci_cmd_def
      pci_answer_def split: if_splits bind_splits prod.splits option.splits dest!: pci_lift_answers)



section \<open>Bringing the channel up and down\<close>

text \<open>
  When the long-call channel comes up, the thread runs, no call is active, and the buffer is the
  enabled fresh buffer that the calls over the channel start from; taking it down disables the
  buffer, wakes the thread and gives the interrupt line back. When it does not come up, no thread
  was started and no line is held.
\<close>

theorem lcall_channel_up_down:
  assumes "irq_fresh env st" and "32 < unat buf_size" and "length (xb_data x) = unat buf_size - 32"
    and "pisces_lcall_init env kthread_ok (Some a) enc apic buf_size ls x st = Some (r, ls', x', st')"
  shows "if r = 0
    then ls_kern_thread ls' \<and> ls_active_lcall ls' = 0 \<and> (\<exists>y. fresh_xbuf y \<and> x' = snd (pisces_xbuf_enable y)) \<and>
      pisces_lcall_deinit ls' x' st' = Some (0, ls'\<lparr>ls_active_lcall := 1\<rparr>, snd (pisces_xbuf_disable x'), st)
    else r = -1 \<and> ls' = ls \<and> st' = st"
proof -
  obtain desc x1 where s: "pisces_xbuf_server_init env (Some a) enc x buf_size True apic st = Some (desc, x1, st')"
    "case desc of None \<Rightarrow> r = -1 \<and> ls' = ls
      | Some d \<Rightarrow> r = 0 \<and> ls' = \<lparr>ls_kern_thread = True, ls_active_lcall = 0, ls_xbuf_desc = Some d\<rparr> \<and>
          x' = snd (pisces_xbuf_enable x1)"
    using assms(4) by (auto simp: pisces_lcall_init_def split: bind_splits option.splits if_splits)
  from xbuf_server_init_fresh [OF assms(1-3) s(1)] s(2) show ?thesis
    by (auto simp: pisces_lcall_deinit_def split: option.splits)
qed

theorem lcall_channel_up_down_witness:
  "\<exists>ls' x' st'. pisces_lcall_init \<lparr>ie_alloc = 40, ie_request = 0, ie_vector = (\<lambda>_. Some 0x51)\<rparr> True (Some 7) 100 0 40
      \<lparr>ls_kern_thread = False, ls_active_lcall = 0, ls_xbuf_desc = None\<rparr>
      \<lparr>xb_flags = 0, xb_host_apic = 0, xb_host_vector = 0, xb_enclave_cpu = 0, xb_enclave_vector = 0,
       xb_total_size = 0, xb_data_len = 0, xb_data = replicate 8 0\<rparr>
      \<lparr>irq_lines = {}, irq_handlers = (\<lambda>_. None)\<rparr> = Some (0, ls', x', st') \<and> ls_kern_thread ls'"
proof -
  let ?e = "\<lparr>ie_alloc = 40, ie_request = 0, ie_vector = (\<lambda>_. Some 0x51)\<rparr> :: irq_env"
  let ?x = "\<lparr>xb_flags = 0, xb_host_apic = 0, xb_host_vector = 0, xb_enclave_cpu = 0, xb_enclave_vector = 0,
       xb_total_size = 0, xb_data_len = 0, xb_data = replicate 8 0\<rparr> :: pisces_xbuf"
  let ?s = "\<lparr>irq_lines = {}, irq_handlers = (\<lambda>_. None)\<rparr> :: irq_state"
  let ?l = "\<lparr>ls_kern_thread = False, ls_active_lcall = 0, ls_xbuf_desc = None\<rparr>"
  obtain ls' x' st' where r: "pisces_lcall_init ?e True (Some 7) 100 0 40 ?l ?x ?s = Some (0, ls', x', st')"
    by (simp add: pisces_lcall_init_def pisces_xbuf_server_init_def xb_ready_def pisces_request_irq_def pisces_alloc_irq_def
        pisces_irq_to_vector_def Let_def)
  have "ls_kern_thread ls'" using lcall_channel_up_down [OF _ _ _ r] by (simp add: irq_fresh_def)
  then show ?thesis using r by blast
qed

end
