(* ===== verification/BootParams.thy ===== *)
theory BootParams
  imports Lcall EnclaveCons Boot
begin

text \<open>
  Preparing the boot memory of an enclave (\<open>pisces_boot_params.c\<close>, \<open>pisces_boot_params.h\<close>): the
  parameter structure at its start, the console ring and the three channels behind it, the kernel
  image at 2 MB and the initial RAM disk behind the kernel. The build without XPMEM.

  The structures the module works with after the launch are records; the rest of physical memory
  is a function from addresses to bytes. The files are read through the VFS parameter.

  Shown: the loaders end for every file, and a load that reports success has stored exactly the
  contents of the file; after a successful set-up the areas are where the comment at the head of
  the header file puts them and do not overlap; the images are stored wherever their sizes lead,
  inside the boot memory or not.
\<close>

section \<open>Data\<close>

record pisces_boot_params =
  bp_launch_code :: bytes
  bp_magic :: u64
  bp_cpu_id :: u64
  bp_apic_id :: u64
  bp_cpu_khz :: u64
  bp_trampoline_code_pa :: u64
  bp_cmd_line :: bytes
  bp_kernel_addr :: u64
  bp_kernel_size :: u64
  bp_initrd_addr :: u64
  bp_initrd_size :: u64
  bp_console_ring_addr :: u64
  bp_console_ring_size :: u64
  bp_control_buf_addr :: u64
  bp_control_buf_size :: u64
  bp_longcall_buf_addr :: u64
  bp_longcall_buf_size :: u64
  bp_xpmem_buf_addr :: u64
  bp_xpmem_buf_size :: u64
  bp_base_mem_paddr :: u64
  bp_base_mem_size :: u64

definition zero_boot_params :: pisces_boot_params where
  "zero_boot_params = \<lparr>bp_launch_code = replicate 64 0, bp_magic = 0, bp_cpu_id = 0, bp_apic_id = 0, bp_cpu_khz = 0,
     bp_trampoline_code_pa = 0, bp_cmd_line = replicate 1024 0, bp_kernel_addr = 0, bp_kernel_size = 0,
     bp_initrd_addr = 0, bp_initrd_size = 0, bp_console_ring_addr = 0, bp_console_ring_size = 0,
     bp_control_buf_addr = 0, bp_control_buf_size = 0, bp_longcall_buf_addr = 0, bp_longcall_buf_size = 0,
     bp_xpmem_buf_addr = 0, bp_xpmem_buf_size = 0, bp_base_mem_paddr = 0, bp_base_mem_size = 0\<rparr>"

text \<open>
  The size of the structure: launch code, debug buffer, nine words, command line, fourteen words.
\<close>

definition sizeof_boot_params :: u64 where
  "sizeof_boot_params = 64 + 16 + 9 * 8 + 1024 + 14 * 8"

definition sizeof_cons_ringbuf :: u64 where
  "sizeof_cons_ringbuf = 32 + CONS_BUF_SIZE"

abbreviation PISCES_MAGIC :: u64 where "PISCES_MAGIC \<equiv> 0x000FE110"

definition ALIGN :: "u64 \<Rightarrow> u64 \<Rightarrow> u64" where
  "ALIGN x a = (x + (a - 1)) AND NOT (a - 1)"

definition strncpy :: "bytes \<Rightarrow> nat \<Rightarrow> bytes" where
  "strncpy src n = (let s = takeWhile (\<lambda>b. b \<noteq> 0) (take n src) in s @ replicate (n - length s) 0)"

section \<open>Loading an image\<close>

definition store_bytes :: "(u64 \<Rightarrow> u8) \<Rightarrow> u64 \<Rightarrow> bytes \<Rightarrow> u64 \<Rightarrow> u8" where
  "store_bytes mem a bs = (\<lambda>x. if unat (x - a) < length bs then bs ! unat (x - a) else mem x)"

partial_function (option) load_loop ::
    "vfs \<Rightarrow> u64 \<Rightarrow> u64 \<Rightarrow> u64 \<Rightarrow> u64 \<Rightarrow> (u64 \<Rightarrow> u8) \<Rightarrow> (int \<times> (u64 \<Rightarrow> u8)) option" where
  "load_loop v file_ptr target_addr total_size bytes_read mem =
     (if bytes_read < total_size then
        (case file_read v file_ptr (total_size - bytes_read) bytes_read of (ret, bs) \<Rightarrow>
           if ret \<le> 0 then Some (-1, mem)
           else load_loop v file_ptr target_addr total_size (bytes_read + of_int ret)
                  (store_bytes mem (target_addr + bytes_read) bs))
      else Some (0, mem))"

text \<open>
  The loaders give the result, whether the file was closed, the parameters and the memory.
\<close>

definition load_kernel ::
    "vfs \<Rightarrow> u64 \<Rightarrow> u64 \<Rightarrow> pisces_boot_params \<Rightarrow> (u64 \<Rightarrow> u8) \<Rightarrow> (int \<times> bool \<times> pisces_boot_params \<times> (u64 \<Rightarrow> u8)) option" where
  "load_kernel v kern_image target_addr p mem =
     (if kern_image = 0 then Some (-1, False, p, mem)
      else let p1 = p\<lparr>bp_kernel_addr := target_addr, bp_kernel_size := file_size v kern_image\<rparr> in do {
        (r, mem') \<leftarrow> load_loop v kern_image target_addr (bp_kernel_size p1) 0 mem;
        Some (r, r = -1, p1, mem')
      })"

definition load_initrd ::
    "vfs \<Rightarrow> u64 \<Rightarrow> u64 \<Rightarrow> pisces_boot_params \<Rightarrow> (u64 \<Rightarrow> u8) \<Rightarrow> (int \<times> bool \<times> pisces_boot_params \<times> (u64 \<Rightarrow> u8)) option" where
  "load_initrd v initrd_image target_addr p mem =
     (if initrd_image = 0 then Some (-1, False, p, mem)
      else let p1 = p\<lparr>bp_initrd_addr := target_addr, bp_initrd_size := file_size v initrd_image\<rparr> in do {
        (r, mem') \<leftarrow> load_loop v initrd_image target_addr (bp_initrd_size p1) 0 mem;
        Some (r, r = -1, p1, mem')
      })"

section \<open>The set-up\<close>

text \<open>What the enclave structure and the kernel supply, and what the set-up produces.\<close>

record boot_env =
  bn_vfs :: vfs
  bn_launch_code :: bytes
  bn_kern_file :: u64
  bn_init_file :: u64
  bn_kern_cmdline :: bytes
  bn_boot_cpu :: u32
  bn_apicid :: "u32 \<Rightarrow> u32"
  bn_cpu_khz :: u32
  bn_cpu_init_rip :: u64
  bn_enclave :: nat
  bn_irq :: irq_env
  bn_ctrl_alloc :: "nat option"
  bn_lcall_alloc :: "nat option"
  bn_kthread_ok :: bool

record boot_area =
  ba_params :: pisces_boot_params
  ba_mem :: "u64 \<Rightarrow> u8"
  ba_ring :: pisces_cons_ringbuf
  ba_cons :: pisces_cons
  ba_ctrl_xbuf :: pisces_xbuf
  ba_ctrl_desc :: "pisces_xbuf_desc option"
  ba_lcall_xbuf :: pisces_xbuf
  ba_lcall :: pisces_lcall_state
  ba_irqs :: irq_state
  ba_closed :: "u64 list"

text \<open>The areas cleared by the \<open>memset\<close> over the boot memory.\<close>

definition zero_xbuf :: pisces_xbuf where
  "zero_xbuf = \<lparr>xb_flags = 0, xb_host_apic = 0, xb_host_vector = 0, xb_enclave_cpu = 0, xb_enclave_vector = 0,
     xb_total_size = 0, xb_data_len = 0, xb_data = replicate (4096 - 32) 0\<rparr>"

definition zero_ring :: pisces_cons_ringbuf where
  "zero_ring = \<lparr>cr_lock = \<lparr>raw_lock = 0\<rparr>, cr_read_idx = 0, cr_write_idx = 0, cr_cur_len = 0,
     cr_buf = replicate (unat CONS_BUF_SIZE) 0\<rparr>"

definition clear_bootmem :: "u64 \<Rightarrow> u64 \<Rightarrow> boot_area \<Rightarrow> boot_area" where
  "clear_bootmem base bootmem_size a =
     a\<lparr>ba_params := zero_boot_params, ba_ring := zero_ring, ba_ctrl_xbuf := zero_xbuf, ba_lcall_xbuf := zero_xbuf,
       ba_mem := (\<lambda>x. if x - base < bootmem_size then 0 else ba_mem a x)\<rparr>"

text \<open>
  The stages: basic parameters; console, control channel, long-call channel and the area for XPMEM
  (each returns the next offset); kernel; initial RAM disk. A negative stage ends the set-up.
\<close>

definition setup_basic :: "boot_env \<Rightarrow> u64 \<Rightarrow> u64 \<Rightarrow> boot_area \<Rightarrow> boot_area" where
  "setup_basic env base bootmem_size a =
     a\<lparr>ba_params := (ba_params a)
        \<lparr>bp_launch_code := bn_launch_code env,
         bp_cmd_line := strncpy (bn_kern_cmdline env) 1024,
         bp_magic := PISCES_MAGIC, bp_cpu_id := ucast (bn_boot_cpu env),
         bp_apic_id := ucast (bn_apicid env (bn_boot_cpu env)), bp_cpu_khz := ucast (bn_cpu_khz env),
         bp_trampoline_code_pa := bn_cpu_init_rip env, bp_base_mem_paddr := base, bp_base_mem_size := bootmem_size\<rparr>\<rparr>"

definition setup_console :: "u64 \<Rightarrow> u64 \<Rightarrow> boot_area \<Rightarrow> int \<times> u64 \<times> boot_area" where
  "setup_console base offset a =
     (let offset = ALIGN offset 4096;
          (r, cons, ring) = pisces_cons_init (ba_cons a) (ba_ring a);
          a1 = a\<lparr>ba_cons := cons, ba_ring := ring\<rparr>
      in if r = -1 then (-1, offset, a1)
         else (0, offset + sizeof_cons_ringbuf,
               a1\<lparr>ba_params := (ba_params a1)\<lparr>bp_console_ring_addr := base + offset,
                                             bp_console_ring_size := sizeof_cons_ringbuf\<rparr>\<rparr>))"

definition pisces_ctrl_init :: "nat option \<Rightarrow> nat \<Rightarrow> pisces_xbuf \<Rightarrow> int \<times> pisces_xbuf_desc option \<times> pisces_xbuf" where
  "pisces_ctrl_init kmalloc enclave x =
     (let (desc, x') = pisces_xbuf_client_init kmalloc enclave x 0 0 in (0, desc, x'))"

definition pisces_ctrl_deinit :: "pisces_xbuf_desc option \<Rightarrow> nat set \<Rightarrow> (int \<times> nat set) option" where
  "pisces_ctrl_deinit desc heap = do { heap' \<leftarrow> pisces_xbuf_client_deinit desc heap; Some (0, heap') }"

definition setup_control :: "boot_env \<Rightarrow> u64 \<Rightarrow> u64 \<Rightarrow> boot_area \<Rightarrow> int \<times> u64 \<times> boot_area" where
  "setup_control env base offset a =
     (let offset = ALIGN offset 4096;
          a1 = a\<lparr>ba_params := (ba_params a)\<lparr>bp_control_buf_addr := base + offset, bp_control_buf_size := 4096\<rparr>\<rparr>;
          (r, desc, x) = pisces_ctrl_init (bn_ctrl_alloc env) (bn_enclave env) (ba_ctrl_xbuf a1);
          a2 = a1\<lparr>ba_ctrl_desc := desc, ba_ctrl_xbuf := x\<rparr>
      in if r = -1 then (-1, offset, a2) else (0, offset + 4096, a2))"

definition setup_longcall :: "boot_env \<Rightarrow> u64 \<Rightarrow> u64 \<Rightarrow> boot_area \<Rightarrow> (int \<times> u64 \<times> boot_area) option" where
  "setup_longcall env base offset a =
     (let offset = ALIGN offset 4096;
          a1 = a\<lparr>ba_params := (ba_params a)\<lparr>bp_longcall_buf_addr := base + offset, bp_longcall_buf_size := 4096\<rparr>\<rparr>
      in do {
        (r, ls, x, st) \<leftarrow> pisces_lcall_init (bn_irq env) (bn_kthread_ok env) (bn_lcall_alloc env) (bn_enclave env)
                            (bn_apicid env 0) (ucast (bp_longcall_buf_size (ba_params a1))) (ba_lcall a1)
                            (ba_lcall_xbuf a1) (ba_irqs a1);
        let a2 = a1\<lparr>ba_lcall := ls, ba_lcall_xbuf := x, ba_irqs := st\<rparr> in
        Some (if r = -1 then (-1, offset, a2) else (0, offset + 4096, a2))
      })"

definition setup_xpmem :: "u64 \<Rightarrow> u64 \<Rightarrow> boot_area \<Rightarrow> u64 \<times> boot_area" where
  "setup_xpmem base offset a =
     (let offset = ALIGN offset 4096
      in (offset + 4096,
          a\<lparr>ba_params := (ba_params a)\<lparr>bp_xpmem_buf_addr := base + offset, bp_xpmem_buf_size := 4096\<rparr>\<rparr>))"

definition setup_images :: "boot_env \<Rightarrow> u64 \<Rightarrow> u64 \<Rightarrow> boot_area \<Rightarrow> (int \<times> boot_area) option" where
  "setup_images env base offset a =
     (let offset = ALIGN offset PAGE_SIZE_2MB in
      if offset \<noteq> PAGE_SIZE_2MB then Some (-1, a)
      else do {
        (r, closed, p, mem) \<leftarrow> load_kernel (bn_vfs env) (bn_kern_file env) (base + offset) (ba_params a) (ba_mem a);
        let a1 = a\<lparr>ba_params := p, ba_mem := mem,
                   ba_closed := (if closed then [bn_kern_file env] else []) @ ba_closed a\<rparr> in
        if r = -1 then Some (-1, a1)
        else let offset = ALIGN (offset + bp_kernel_size p + 4 * PAGE_SIZE_2MB) PAGE_SIZE_2MB in do {
          (r, closed, p, mem) \<leftarrow> load_initrd (bn_vfs env) (bn_init_file env) (base + offset) (ba_params a1) (ba_mem a1);
          let a2 = a1\<lparr>ba_params := p, ba_mem := mem,
                      ba_closed := (if closed then [bn_init_file env] else []) @ ba_closed a1\<rparr> in
          Some (if r = -1 then -1 else 0, a2)
        }
      })"

definition setup_areas :: "boot_env \<Rightarrow> u64 \<Rightarrow> boot_area \<Rightarrow> (int \<times> u64 \<times> boot_area) option" where
  "setup_areas env base a =
     (let (r, offset, a1) = setup_console base sizeof_boot_params a in
      if r = -1 then Some (-1, offset, a1)
      else let (r, offset, a2) = setup_control env base offset a1 in
      if r = -1 then Some (-1, offset, a2)
      else do {
        (r, offset, a3) \<leftarrow> setup_longcall env base offset a2;
        if r = -1 then Some (-1, offset, a3)
        else let (offset, a4) = setup_xpmem base offset a3 in Some (0, offset, a4)
      })"

definition setup_boot_params :: "boot_env \<Rightarrow> u64 \<Rightarrow> u64 \<Rightarrow> boot_area \<Rightarrow> (int \<times> boot_area) option" where
  "setup_boot_params env base bootmem_size a =
     (let a0 = clear_bootmem base bootmem_size a in
      if length (bn_launch_code env) \<noteq> 64 then Some (-1, a0)
      else do {
        (r, offset, a1) \<leftarrow> setup_areas env base (setup_basic env base bootmem_size a0);
        if r = -1 then Some (-1, a1) else setup_images env base offset a1
      })"

section \<open>The loaders\<close>

lemma store_bytes_Nil [simp]: "store_bytes mem a [] = mem"
  by (simp add: store_bytes_def)

text \<open>A store at an offset of a base address, by the offset of the byte looked at.\<close>

lemma store_bytes_at:
  assumes "o1 + length bs \<le> 2 ^ 64" and "o1 < 2 ^ 64"
  shows "store_bytes mem (base + of_nat o1) bs x =
    (if o1 \<le> unat (x - base) \<and> unat (x - base) < o1 + length bs then bs ! (unat (x - base) - o1) else mem x)"
proof -
  define d where "d = x - base"
  have e: "x - (base + of_nat o1) = d - of_nat o1" by (simp only: d_def diff_diff_add)
  have o: "unat (of_nat o1 :: u64) = o1" using assms(2) by (intro unat_of_nat_u64) simp
  have "unat (d - of_nat o1) = (if o1 \<le> unat d then unat d - o1 else unat d + 2 ^ 64 - o1)"
    by (simp only: unat_sub_if_size word_size o) simp
  then show ?thesis using assms unfolding store_bytes_def e d_def [symmetric] by auto
qed

lemma store_bytes_append:
  assumes "length bs + length cs < 2 ^ 64"
  shows "store_bytes (store_bytes mem a bs) (a + of_nat (length bs)) cs = store_bytes mem a (bs @ cs)"
proof
  fix x
  have "store_bytes mem a bs x = store_bytes mem (a + of_nat 0) bs x" for x by simp
  moreover have "store_bytes mem a (bs @ cs) x = store_bytes mem (a + of_nat 0) (bs @ cs) x" by simp
  ultimately show "store_bytes (store_bytes mem a bs) (a + of_nat (length bs)) cs x = store_bytes mem a (bs @ cs) x"
    using assms store_bytes_at [of "length bs" cs _ a x] store_bytes_at [of 0 bs _ a x] store_bytes_at [of 0 "bs @ cs" _ a x]
    by (auto simp: nth_append)
qed

text \<open>Two pieces of a file stored one behind the other are one piece.\<close>

lemma store_pieces:
  assumes "k + n \<le> length c" and "length c < 2 ^ 64"
  shows "store_bytes (store_bytes mem a (take n (drop k c))) (a + of_nat n) (take m (drop (k + n) c)) =
    store_bytes mem a (take (n + m) (drop k c))"
proof -
  have l: "length (take n (drop k c)) = n" using assms(1) by simp
  have "drop n (drop k c) = drop (k + n) c" by (simp add: add.commute)
  moreover have "length (take n (drop k c)) + length (take m (drop (k + n) c)) < 2 ^ 64" using assms by simp
  ultimately show ?thesis using store_bytes_append [of "take n (drop k c)" "take m (drop (k + n) c)" mem a]
    unfolding l by (simp only: take_add)
qed

lemma unat_advance:
  assumes "0 \<le> r" and "unat (k :: u64) + nat r < 2 ^ 64"
  shows "unat (k + of_int r) = unat k + nat r" and "of_int r = (of_nat (nat r) :: u64)"
proof -
  show w: "of_int r = (of_nat (nat r) :: u64)" using assms(1) by simp
  have "unat (of_nat (nat r) :: u64) = nat r" using assms(2) by (intro unat_of_nat_u64) simp
  then show "unat (k + of_int r) = unat k + nat r" unfolding w using assms(2) by (subst unat_add_small) auto
qed

text \<open>
  The loop on a file with contents \<open>c\<close>: it ends, and it has stored a piece of the file from the
  start on, all \<open>total_size\<close> bytes exactly when it reports success.
\<close>

lemma load_loop_stores:
  assumes rd: "reads_file v f c" and c: "length c < 2 ^ 64" and "unat k \<le> unat n"
  shows "\<exists>r m. load_loop v f t n k mem = Some (r, store_bytes mem (t + k) (take m (drop (unat k) c))) \<and>
    m \<le> unat n - unat k \<and> (0 < m \<longrightarrow> unat k + m \<le> length c) \<and> r = (if m = unat n - unat k then 0 else -1)"
  using assms(3)
proof (induction "unat n - unat k" arbitrary: k mem rule: less_induct)
  case less
  obtain r bs where r: "vfs_read v f (n - k) k = (r, bs)" by fastforce
  have d: "unat (n - k) = unat n - unat k" using less.prems by (simp add: unat_diff_le)
  note R = reads_fileD [OF rd r, unfolded d]
  consider (stop) "\<not> k < n" | (short) "k < n" "r \<le> 0" | (more) "k < n" "0 < r" by linarith
  then show ?case
  proof cases
    case stop
    then show ?thesis using less.prems
      by (subst load_loop.simps) (auto simp: word_less_nat_alt intro!: exI [of _ 0])
  next
    case short
    then show ?thesis using r
      by (subst load_loop.simps) (auto simp: word_less_nat_alt file_read_def intro!: exI [of _ 0])
  next
    case more
    let ?n = "nat r" and ?k = "k + of_int r"
    have le: "?n \<le> unat n - unat k" "unat k + ?n \<le> length c" using R(1, 2) more by (simp_all only: nat_le_iff)
    have r0: "0 \<le> r" "unat k + ?n < 2 ^ 64" using more(2) le(2) c by linarith+
    note uk = unat_advance(1) [OF r0] and w = unat_advance(2) [OF r0]
    have bs: "bs = take ?n (drop (unat k) c)" using R(3) more by auto
    let ?m = "store_bytes mem (t + k) bs"
    have "unat n - unat ?k < unat n - unat k" "unat ?k \<le> unat n" using more le(1) by (auto simp: uk word_less_nat_alt)
    from less.hyps [OF this, of ?m] obtain r' m where
      I: "load_loop v f t n ?k ?m = Some (r', store_bytes ?m (t + ?k) (take m (drop (unat ?k) c)))"
        "m \<le> unat n - unat ?k" "0 < m \<longrightarrow> unat ?k + m \<le> length c" "r' = (if m = unat n - unat ?k then 0 else -1)"
      by blast
    have "load_loop v f t n k mem = load_loop v f t n ?k ?m"
      using more r by (subst load_loop.simps) (simp add: file_read_def)
    moreover have "store_bytes ?m (t + ?k) (take m (drop (unat ?k) c)) =
        store_bytes mem (t + k) (take (?n + m) (drop (unat k) c))"
      using store_pieces [OF le(2) c, of mem "t + k" m] unfolding uk bs unfolding w by (simp only: add.assoc)
    ultimately have "load_loop v f t n k mem = Some (r', store_bytes mem (t + k) (take (?n + m) (drop (unat k) c)))"
      using I(1) by simp
    moreover have "?n + m \<le> unat n - unat k" using I(2) le(1) uk by linarith
    moreover have "unat k + (?n + m) \<le> length c" using I(3) le(2) uk by (cases "m = 0") simp_all
    moreover have "m = unat n - unat ?k \<longleftrightarrow> ?n + m = unat n - unat k" using le(1) uk by linarith
    then have "r' = (if ?n + m = unat n - unat k then 0 else -1)" using I(4) by (simp only:)
    ultimately show ?thesis by blast
  qed
qed

section \<open>The layout\<close>

lemma ALIGN_2MB:
  assumes "unat x + 2 ^ 21 \<le> 2 ^ 64"
  shows "unat (ALIGN x PAGE_SIZE_2MB) = (unat x + (2 ^ 21 - 1)) div 2 ^ 21 * 2 ^ 21"
proof -
  have m: "PAGE_SIZE_2MB - 1 = mask 21" by (simp add: mask_eq_exp_minus_1)
  have "y AND NOT (mask 21) = push_bit 21 (drop_bit 21 y)" for y :: u64
    by (rule bit_eqI) (auto simp: bit_simps dest: bit_imp_le_length)
  then have "ALIGN x PAGE_SIZE_2MB = push_bit 21 (drop_bit 21 (x + mask 21))" unfolding ALIGN_def m by simp
  moreover have "unat (x + mask 21) = unat x + (2 ^ 21 - 1)"
    using assms by (subst unat_add_small) (simp_all add: mask_eq_exp_minus_1)
  ultimately have "unat (ALIGN x PAGE_SIZE_2MB) = (unat x + (2 ^ 21 - 1)) div 2 ^ 21 * 2 ^ 21 mod 2 ^ 64"
    by (simp add: push_bit_eq_mult unat_word_ariths unat_drop_bit_eq drop_bit_eq_div del: unsigned_take_bit_eq)
  also have "\<dots> = (unat x + (2 ^ 21 - 1)) div 2 ^ 21 * 2 ^ 21"
  proof -
    have "(unat x + (2 ^ 21 - 1)) div 2 ^ 21 * 2 ^ 21 \<le> unat x + (2 ^ 21 - 1)" by (rule div_times_less_eq_dividend)
    then show ?thesis using assms by simp
  qed
  finally show ?thesis .
qed

lemma ALIGN_offsets:
  "ALIGN sizeof_boot_params 4096 = 0x1000" "sizeof_cons_ringbuf = 0x10000" "ALIGN 0x11000 4096 = 0x11000"
  "ALIGN 0x12000 4096 = 0x12000" "ALIGN 0x13000 4096 = 0x13000" "ALIGN 0x14000 PAGE_SIZE_2MB = PAGE_SIZE_2MB"
  by (simp_all add: ALIGN_def sizeof_boot_params_def sizeof_cons_ringbuf_def CONS_BUF_SIZE_def)

text \<open>The parameters that describe the areas before the images.\<close>

definition areas_at :: "u64 \<Rightarrow> u64 \<Rightarrow> pisces_boot_params \<Rightarrow> bool" where
  "areas_at base bootmem_size p \<longleftrightarrow>
     bp_magic p = PISCES_MAGIC \<and> bp_base_mem_paddr p = base \<and> bp_base_mem_size p = bootmem_size \<and>
     bp_console_ring_addr p = base + 0x1000 \<and> bp_console_ring_size p = 0x10000 \<and>
     bp_control_buf_addr p = base + 0x11000 \<and> bp_control_buf_size p = 0x1000 \<and>
     bp_longcall_buf_addr p = base + 0x12000 \<and> bp_longcall_buf_size p = 0x1000 \<and>
     bp_xpmem_buf_addr p = base + 0x13000 \<and> bp_xpmem_buf_size p = 0x1000"

lemma setup_areas_ends:
  assumes "bn_lcall_alloc env = Some d" and "bn_kthread_ok env"
  shows "setup_areas env base a \<noteq> None"
  using assms
  by (auto simp: setup_areas_def setup_console_def pisces_cons_init_def setup_control_def pisces_ctrl_init_def
      setup_longcall_def pisces_lcall_init_def pisces_xbuf_server_init_def Let_def
      split: option.splits prod.splits bind_splits if_splits)

lemma setup_areas_layout:
  assumes "setup_areas env base a = Some (r, offset, a')"
  shows "ba_mem a' = ba_mem a \<and> ba_closed a' = ba_closed a \<and>
    (r \<noteq> -1 \<longrightarrow> offset = 0x14000 \<and>
      (bp_magic (ba_params a) = PISCES_MAGIC \<and> bp_base_mem_paddr (ba_params a) = base \<longrightarrow>
       areas_at base (bp_base_mem_size (ba_params a)) (ba_params a')))"
  using assms
  by (auto simp: setup_areas_def setup_console_def pisces_cons_init_def setup_control_def pisces_ctrl_init_def
      setup_longcall_def setup_xpmem_def areas_at_def ALIGN_offsets Let_def
      split: prod.splits bind_splits if_splits)

lemma load_whole:
  assumes "reads_file v f c" and "length c < 2 ^ 64" and "load_loop v f t (of_nat (length c)) 0 mem = Some (0, mem')"
  shows "mem' = store_bytes mem t c"
  using load_loop_stores [OF assms(1, 2), of 0 "of_nat (length c)" t mem] assms(2, 3)
  by (auto simp: unat_of_nat_u64 split: if_splits)

lemma load_ends:
  assumes "reads_file v f c" and "length c < 2 ^ 64"
  shows "\<exists>r p m. load_kernel v f t p0 mem = Some (r, r = -1 \<and> f \<noteq> 0, p, m) \<and> (r = 0 \<or> r = -1)"
    and "\<exists>r p m. load_initrd v f t p0 mem = Some (r, r = -1 \<and> f \<noteq> 0, p, m) \<and> (r = 0 \<or> r = -1)"
proof -
  from load_loop_stores [OF assms, of 0 "file_size v f" t mem] obtain r m
    where "load_loop v f t (file_size v f) 0 mem = Some (r, m)" "r = 0 \<or> r = -1" by auto
  then show "\<exists>r p m. load_kernel v f t p0 mem = Some (r, r = -1 \<and> f \<noteq> 0, p, m) \<and> (r = 0 \<or> r = -1)"
    "\<exists>r p m. load_initrd v f t p0 mem = Some (r, r = -1 \<and> f \<noteq> 0, p, m) \<and> (r = 0 \<or> r = -1)"
    by (auto simp: load_kernel_def load_initrd_def Let_def)
qed

lemma setup_boot_params_result:
  "setup_boot_params env base bootmem_size a = Some (r, a') \<Longrightarrow> r = 0 \<or> r = -1"
  by (auto simp: setup_boot_params_def setup_images_def Let_def split: if_splits bind_splits)

lemma setup_boot_params_ends:
  assumes "bn_lcall_alloc env = Some d" and "bn_kthread_ok env"
    and "reads_file (bn_vfs env) (bn_kern_file env) kern" and "length kern < 2 ^ 64"
    and "reads_file (bn_vfs env) (bn_init_file env) initrd" and "length initrd < 2 ^ 64"
  shows "\<exists>r a'. setup_boot_params env base bootmem_size a = Some (r, a') \<and> (r = 0 \<or> r = -1) \<and>
    (r = 0 \<longrightarrow> ba_closed a' = ba_closed a) \<and>
    (ba_closed a' = ba_closed a \<or> ba_closed a' = bn_kern_file env # ba_closed a \<or> ba_closed a' = bn_init_file env # ba_closed a)"
proof -
  let ?a = "setup_basic env base bootmem_size (clear_bootmem base bootmem_size a)"
  obtain r off a1 where A: "setup_areas env base ?a = Some (r, off, a1)"
    using setup_areas_ends [OF assms(1, 2), of base ?a] by (cases "setup_areas env base ?a") auto
  have c: "ba_closed a1 = ba_closed a"
    using setup_areas_layout [OF A] by (simp add: setup_basic_def clear_bootmem_def)
  show ?thesis
  proof (cases "length (bn_launch_code env) = 64 \<and> r \<noteq> -1")
    case False
    then show ?thesis using A c by (auto simp: setup_boot_params_def Let_def clear_bootmem_def)
  next
    case True
    then have o: "off = 0x14000" using setup_areas_layout [OF A] by simp
    have e: "setup_boot_params env base bootmem_size a = setup_images env base 0x14000 a1"
      using True A by (simp add: setup_boot_params_def Let_def o)
    obtain r1 p1 m1 where k: "load_kernel (bn_vfs env) (bn_kern_file env) (base + PAGE_SIZE_2MB) (ba_params a1) (ba_mem a1) =
        Some (r1, r1 = -1 \<and> bn_kern_file env \<noteq> 0, p1, m1)" "r1 = 0 \<or> r1 = -1"
      using load_ends(1) [OF assms(3, 4)] by blast
    obtain r2 p2 m2 where i: "load_initrd (bn_vfs env) (bn_init_file env)
        (base + ALIGN (PAGE_SIZE_2MB + bp_kernel_size p1 + 4 * PAGE_SIZE_2MB) PAGE_SIZE_2MB) p1 m1 =
        Some (r2, r2 = -1 \<and> bn_init_file env \<noteq> 0, p2, m2)" "r2 = 0 \<or> r2 = -1"
      using load_ends(2) [OF assms(5, 6)] by blast
    show ?thesis using k i c unfolding e by (auto simp: setup_images_def Let_def ALIGN_offsets)
  qed
qed

text \<open>
  Setting up the boot memory ends for all kernel and RAM disk files, whatever short reads, errors
  or sizes they report, with 0 or -1. A failed load closes the file of the enclave, a successful
  set-up none.
\<close>

theorem boot_params_ends:
  assumes "bn_lcall_alloc env = Some d" and "bn_kthread_ok env"
    and "reads_file (bn_vfs env) (bn_kern_file env) kern" and "length kern < 2 ^ 64"
    and "reads_file (bn_vfs env) (bn_init_file env) initrd" and "length initrd < 2 ^ 64"
  shows "\<exists>r a'. setup_boot_params env base bootmem_size a = Some (r, a') \<and> (r = 0 \<or> r = -1) \<and>
    (r = 0 \<longrightarrow> ba_closed a' = ba_closed a) \<and>
    (ba_closed a' = ba_closed a \<or> ba_closed a' = bn_kern_file env # ba_closed a \<or> ba_closed a' = bn_init_file env # ba_closed a)"
  by (rule setup_boot_params_ends [OF assms])

definition demo_benv :: boot_env where
  "demo_benv = \<lparr>bn_vfs = demo_vfs, bn_launch_code = replicate 64 0x90, bn_kern_file = 4096, bn_init_file = 8192,
     bn_kern_cmdline = [0x61, 0], bn_boot_cpu = 1, bn_apicid = (\<lambda>c. c), bn_cpu_khz = 2000000, bn_cpu_init_rip = 0x99000,
     bn_enclave = 100, bn_irq = \<lparr>ie_alloc = 40, ie_request = 0, ie_vector = (\<lambda>_. Some 0x51)\<rparr>,
     bn_ctrl_alloc = Some 6, bn_lcall_alloc = Some 7, bn_kthread_ok = True\<rparr>"

definition demo_area :: boot_area where
  "demo_area = \<lparr>ba_params = zero_boot_params, ba_mem = (\<lambda>_. 1), ba_ring = zero_ring, ba_cons = \<lparr>pc_connected = 0\<rparr>,
     ba_ctrl_xbuf = zero_xbuf, ba_ctrl_desc = None, ba_lcall_xbuf = zero_xbuf,
     ba_lcall = \<lparr>ls_kern_thread = False, ls_active_lcall = 0, ls_xbuf_desc = None\<rparr>,
     ba_irqs = \<lparr>irq_lines = {}, irq_handlers = (\<lambda>_. None)\<rparr>, ba_closed = []\<rparr>"

lemma demo_reads: "reads_file demo_vfs f [10, 11, 12, 13, 14]"
proof -
  have "int (min (unat len) k) \<le> uint len" for len :: u64 and k
    by (metis min.cobounded1 of_nat_le_iff uint_nat)
  then show ?thesis by (auto simp: reads_file_def demo_vfs_def Let_def)
qed

theorem boot_params_ends_witness:
  "\<exists>r a'. setup_boot_params demo_benv 0x80000000 0x8000000 demo_area = Some (r, a') \<and> (r = 0 \<or> r = -1)"
  using boot_params_ends [of demo_benv 7 "[10, 11, 12, 13, 14]" "[10, 11, 12, 13, 14]" "0x80000000" "0x8000000" demo_area]
    demo_reads by (auto simp: demo_benv_def)

lemma setup_images_stores:
  assumes "setup_images env base 0x14000 a = Some (0, a')"
    and "reads_file (bn_vfs env) (bn_kern_file env) kern" "file_size (bn_vfs env) (bn_kern_file env) = of_nat (length kern)"
    and "reads_file (bn_vfs env) (bn_init_file env) initrd" "file_size (bn_vfs env) (bn_init_file env) = of_nat (length initrd)"
    and "length kern < 2 ^ 64" "length initrd < 2 ^ 64"
  defines "o1 \<equiv> ALIGN (PAGE_SIZE_2MB + of_nat (length kern) + 4 * PAGE_SIZE_2MB) PAGE_SIZE_2MB"
  shows "ba_params a' = (ba_params a)\<lparr>bp_kernel_addr := base + PAGE_SIZE_2MB, bp_kernel_size := of_nat (length kern),
      bp_initrd_addr := base + o1, bp_initrd_size := of_nat (length initrd)\<rparr>"
    and "ba_mem a' = store_bytes (store_bytes (ba_mem a) (base + PAGE_SIZE_2MB) kern) (base + o1) initrd"
proof -
  obtain r1 m1 where k: "load_loop (bn_vfs env) (bn_kern_file env) (base + PAGE_SIZE_2MB) (of_nat (length kern)) 0 (ba_mem a) = Some (r1, m1)"
    "r1 = 0 \<or> r1 = -1"
    using load_loop_stores [OF assms(2, 6), of 0 "of_nat (length kern)" "base + PAGE_SIZE_2MB" "ba_mem a"] by auto
  obtain r2 m2 where i: "load_loop (bn_vfs env) (bn_init_file env) (base + o1) (of_nat (length initrd)) 0 m1 = Some (r2, m2)"
    "r2 = 0 \<or> r2 = -1"
    using load_loop_stores [OF assms(4, 7), of 0 "of_nat (length initrd)" "base + o1" m1] by auto
  have L: "load_kernel (bn_vfs env) (bn_kern_file env) (base + PAGE_SIZE_2MB) (ba_params a) (ba_mem a) =
      (if bn_kern_file env = 0 then Some (-1, False, ba_params a, ba_mem a)
       else Some (r1, r1 = -1, (ba_params a)\<lparr>bp_kernel_addr := base + PAGE_SIZE_2MB, bp_kernel_size := of_nat (length kern)\<rparr>, m1))"
    using k(1) by (simp add: load_kernel_def assms(3))
  have R: "load_initrd (bn_vfs env) (bn_init_file env) (base + o1) q m1 =
      (if bn_init_file env = 0 then Some (-1, False, q, m1)
       else Some (r2, r2 = -1, q\<lparr>bp_initrd_addr := base + o1, bp_initrd_size := of_nat (length initrd)\<rparr>, m2))" for q
    using i by (simp add: load_initrd_def assms(5))
  have al: "ALIGN (10485760 + of_nat (length kern)) PAGE_SIZE_2MB = o1" by (simp add: o1_def)
  have z: "r1 = 0" "r2 = 0" and f: "bn_kern_file env \<noteq> 0" "bn_init_file env \<noteq> 0"
    using assms(1) i(2) k(2) by (auto simp: setup_images_def ALIGN_offsets Let_def L R al split: if_splits)
  have p: "ba_params a' = (ba_params a)\<lparr>bp_kernel_addr := base + PAGE_SIZE_2MB, bp_kernel_size := of_nat (length kern),
      bp_initrd_addr := base + o1, bp_initrd_size := of_nat (length initrd)\<rparr>" and m2: "m2 = ba_mem a'"
    using assms(1) by (auto simp: setup_images_def ALIGN_offsets Let_def L R al z f)
  note k = k(1) [unfolded z] and i = i(1) [unfolded z m2]
  show "ba_params a' = (ba_params a)\<lparr>bp_kernel_addr := base + PAGE_SIZE_2MB, bp_kernel_size := of_nat (length kern),
      bp_initrd_addr := base + o1, bp_initrd_size := of_nat (length initrd)\<rparr>" by (rule p)
  show "ba_mem a' = store_bytes (store_bytes (ba_mem a) (base + PAGE_SIZE_2MB) kern) (base + o1) initrd"
    using load_whole [OF assms(2, 6) k] load_whole [OF assms(4, 7) i] by simp
qed

lemma setup_boot_params_layout:
  assumes run: "setup_boot_params env base bootmem_size a = Some (0, a')"
    and "reads_file (bn_vfs env) (bn_kern_file env) kern" "file_size (bn_vfs env) (bn_kern_file env) = of_nat (length kern)"
    and "reads_file (bn_vfs env) (bn_init_file env) initrd" "file_size (bn_vfs env) (bn_init_file env) = of_nat (length initrd)"
    and len: "length kern + length initrd + 6 * 2 ^ 21 \<le> 2 ^ 64"
  shows "\<exists>o1. areas_at base bootmem_size (ba_params a') \<and>
    bp_kernel_addr (ba_params a') = base + 0x200000 \<and> bp_kernel_size (ba_params a') = of_nat (length kern) \<and>
    bp_initrd_addr (ba_params a') = base + of_nat o1 \<and> bp_initrd_size (ba_params a') = of_nat (length initrd) \<and>
    2 ^ 21 dvd o1 \<and> 2 ^ 21 + length kern + 4 * 2 ^ 21 \<le> o1 \<and> o1 < 2 ^ 21 + length kern + 5 * 2 ^ 21 \<and>
    (\<forall>x. ba_mem a' x = (let off = unat (x - base) in
       if 2 ^ 21 \<le> off \<and> off < 2 ^ 21 + length kern then kern ! (off - 2 ^ 21)
       else if o1 \<le> off \<and> off < o1 + length initrd then initrd ! (off - o1)
       else if off < unat bootmem_size then 0 else ba_mem a x))"
proof -
  let ?a = "setup_basic env base bootmem_size (clear_bootmem base bootmem_size a)"
  obtain r off a1 where A: "setup_areas env base ?a = Some (r, off, a1)" and r: "r \<noteq> -1"
    and im: "setup_images env base off a1 = Some (0, a')"
    using run by (auto simp: setup_boot_params_def Let_def split: bind_splits if_splits)
  note L = setup_areas_layout [OF A]
  have off: "off = 0x14000" using L r by simp
  have ar: "areas_at base bootmem_size (ba_params a1)" using L r by (simp add: setup_basic_def clear_bootmem_def)
  have mem: "ba_mem a1 = (\<lambda>x. if x - base < bootmem_size then 0 else ba_mem a x)"
    using L by (simp add: setup_basic_def clear_bootmem_def)
  have ls: "length kern < 2 ^ 64" "length initrd < 2 ^ 64" using len by simp_all
  let ?w = "PAGE_SIZE_2MB + of_nat (length kern) + 4 * PAGE_SIZE_2MB"
  define o1 where "o1 = unat (ALIGN ?w PAGE_SIZE_2MB)"
  note S = setup_images_stores [OF im [unfolded off] assms(2-5) ls]
  have w: "?w = of_nat (5 * 2 ^ 21 + length kern)" by simp
  have uw: "unat ?w = 5 * 2 ^ 21 + length kern" unfolding w using len by (intro unat_of_nat_u64) simp
  then have o1: "o1 = (5 * 2 ^ 21 + length kern + (2 ^ 21 - 1)) div 2 ^ 21 * 2 ^ 21"
    unfolding o1_def using len by (subst ALIGN_2MB) simp_all
  have ob: "5 * 2 ^ 21 + length kern \<le> o1" "o1 < 6 * 2 ^ 21 + length kern" unfolding o1 by simp_all
  have al: "ALIGN ?w PAGE_SIZE_2MB = of_nat o1" unfolding o1_def by (metis of_nat_unat ucast_id)
  have m: "ba_mem a' x = (let off = unat (x - base) in
       if 2 ^ 21 \<le> off \<and> off < 2 ^ 21 + length kern then kern ! (off - 2 ^ 21)
       else if o1 \<le> off \<and> off < o1 + length initrd then initrd ! (off - o1)
       else if off < unat bootmem_size then 0 else ba_mem a x)" for x
  proof -
    have "store_bytes mm (base + PAGE_SIZE_2MB) kern x = (if 2 ^ 21 \<le> unat (x - base) \<and> unat (x - base) < 2 ^ 21 + length kern
        then kern ! (unat (x - base) - 2 ^ 21) else mm x)" for mm
      using store_bytes_at [of "2 ^ 21" kern mm base x] len by simp
    moreover have "store_bytes mm (base + of_nat o1) initrd x = (if o1 \<le> unat (x - base) \<and> unat (x - base) < o1 + length initrd
        then initrd ! (unat (x - base) - o1) else mm x)" for mm
      using len ob by (intro store_bytes_at) simp_all
    ultimately show ?thesis unfolding S(2) al mem Let_def word_less_nat_alt using ob by auto
  qed
  have "2 ^ 21 dvd o1" unfolding o1 by simp
  moreover have "areas_at base bootmem_size (ba_params a')" using ar unfolding S(1) by (simp add: areas_at_def)
  moreover have "bp_kernel_addr (ba_params a') = base + 0x200000" "bp_kernel_size (ba_params a') = of_nat (length kern)"
    "bp_initrd_size (ba_params a') = of_nat (length initrd)" unfolding S(1) by simp_all
  moreover have "bp_initrd_addr (ba_params a') = base + of_nat o1" unfolding S(1) al by simp
  moreover have "2 ^ 21 + length kern + 4 * 2 ^ 21 \<le> o1" "o1 < 2 ^ 21 + length kern + 5 * 2 ^ 21" using ob by simp_all
  ultimately show ?thesis using m by blast
qed


lemma demo_load: "load_loop demo_vfs f t 5 0 mem = Some (0, store_bytes mem t [10, 11, 12, 13, 14])"
  by (subst load_loop.simps, simp add: file_read_def demo_vfs_def, subst load_loop.simps, simp)

lemma demo_size: "file_size demo_vfs f = 5"
  by (simp add: file_size_def demo_vfs_def)

lemma demo_setup: "\<exists>a'. setup_boot_params demo_benv base bootmem_size a = Some (0, a')"
  by (simp add: setup_boot_params_def setup_areas_def setup_console_def pisces_cons_init_def setup_control_def
      pisces_ctrl_init_def pisces_xbuf_client_init_def setup_longcall_def pisces_lcall_init_def pisces_xbuf_server_init_def
      xb_ready_def pisces_request_irq_def pisces_alloc_irq_def pisces_irq_to_vector_def setup_xpmem_def setup_images_def
      load_kernel_def load_initrd_def demo_size demo_load demo_benv_def clear_bootmem_def
      setup_basic_def zero_xbuf_def ALIGN_offsets Let_def)


text \<open>
  The control channel gives its descriptor back once; a second time, with no launch in between, the
  descriptor is freed memory.
\<close>

lemma ctrl_deinit_once:
  assumes "pisces_ctrl_init (Some a) enclave x = (r, desc, x')" and "a \<notin> heap"
  shows "pisces_ctrl_deinit desc (insert a heap) = Some (0, heap)" and "pisces_ctrl_deinit desc heap = None"
  using assms by (auto simp: pisces_ctrl_init_def pisces_xbuf_client_init_def pisces_ctrl_deinit_def pisces_xbuf_client_deinit_def)

end
