(* ===== verification/Launch.thy ===== *)
theory Launch
  imports BootParams Ctrl
begin

text \<open>
  The launch of an enclave from end to end: \<open>pisces_enclave_launch\<close> of \<open>enclave.c\<close> over the set-up of
  the boot memory, the trampoline and the wake-up of the boot CPU, and the two requests on an
  enclave's device that use it, launch and reset.

  Shown: what a reset sends to the relaunched enclave; which result of the parts makes an enclave
  run.
\<close>

section \<open>Launch\<close>

text \<open>
  Everything a launch needs besides the enclave: the boot memory, the module's trampoline, the
  APIC, and the bit that the enclave's CPU sets.
\<close>

record launch_env =
  la_boot :: boot_env
  la_apic :: apic_env
  la_init :: "nat \<Rightarrow> bool"

record launch_state =
  lz_enclave :: pisces_enclave
  lz_area :: boot_area
  lz_boot :: boot_state
  lz_events :: "apic_event list"

definition run_launch :: "launch_env \<Rightarrow> launch_state \<Rightarrow> (int \<times> launch_state) option" where
  "run_launch env z =
     (let e = lz_enclave z;
          benv = (la_boot env)\<lparr>bn_boot_cpu := en_boot_cpu e, bn_cpu_init_rip := cpu_init_rip (trampoline_state (lz_boot z))\<rparr>
      in do {
        (sr, area) \<leftarrow> setup_boot_params benv (en_bootmem_addr_pa e) (en_bootmem_size e) (lz_area z);
        let thread = ls_kern_thread (ba_lcall area);
        if sr = -1
        then let (r, e') = pisces_enclave_launch e (-1) thread 0 in
          Some (r, z\<lparr>lz_enclave := e', lz_area := area\<rparr>)
        else do {
          (br, args, evs, b) \<leftarrow>
            boot_enclave (la_apic env) (la_init env) (unat (en_boot_cpu e)) (bp_kernel_addr (ba_params area))
              (en_bootmem_addr_pa e) (en_bootmem_size e) \<lparr>launch_code_esi = 0, launch_code_target_addr = 0\<rparr> (lz_boot z);
          let (r, e') = pisces_enclave_launch e sr thread br in
          Some (r, z\<lparr>lz_enclave := e', lz_area := area, lz_boot := b, lz_events := lz_events z @ evs\<rparr>)
        }
      })"

section \<open>Reset\<close>

text \<open>
  The resources given to the relaunched enclave again. The loop over the devices follows the
  list from the device it has just sent: when the enclave refuses that device it has been taken
  out of the list and freed, and the next step reads freed memory.
\<close>

fun reset_mem :: "ctrl_env \<Rightarrow> u64 \<Rightarrow> u64 \<Rightarrow> enclave_mem_block list \<Rightarrow> ctrl_event list" where
  "reset_mem env base bootmem_size [] = []"
| "reset_mem env base bootmem_size (b # bs) =
     (if mb_base_addr b \<ge> base \<and> mb_base_addr b < base + bootmem_size then reset_mem env base bootmem_size bs
      else snd (ctrl_add_mem env (mb_base_addr b) (ucast (mb_pages b))) @ reset_mem env base bootmem_size bs)"

fun reset_cpus :: "ctrl_env \<Rightarrow> u32 \<Rightarrow> nat list \<Rightarrow> ctrl_event list option" where
  "reset_cpus env boot_cpu [] = Some []"
| "reset_cpus env boot_cpu (c # cs) =
     (if c = unat boot_cpu then reset_cpus env boot_cpu cs
      else do {
        (r, evs) \<leftarrow> ctrl_add_cpu env (of_nat c);
        evs' \<leftarrow> reset_cpus env boot_cpu cs;
        Some (evs @ evs')
      })"

definition readd_spec :: "pisces_pci_dev \<Rightarrow> pisces_pci_spec" where
  "readd_spec d = \<lparr>sp_name = take 128 (pd_name d), sp_bus = pd_bus d, sp_dev = PCI_SLOT (pd_devfn d), sp_func = PCI_FUNC (pd_devfn d)\<rparr>"

fun reset_devs :: "ctrl_env \<Rightarrow> pisces_pci_dev list \<Rightarrow> enclave_pci_state \<Rightarrow> (ctrl_event list \<times> enclave_pci_state) option" where
  "reset_devs env [] st = Some ([], st)"
| "reset_devs env (d # ds) st = do {
     (r, evs, st1) \<leftarrow> ctrl_add_pci env (pci_spec_bytes (readd_spec d)) st;
     if pd_addr d \<notin> pd_addr ` set (pci_dev_list st1) then None
     else do {
       (evs', st2) \<leftarrow> reset_devs env ds st1;
       Some (evs @ evs', st2)
     }
   }"

definition reset_readd :: "ctrl_env \<Rightarrow> pisces_enclave \<Rightarrow> (ctrl_event list \<times> enclave_pci_state) option" where
  "reset_readd env e = do {
     let mems = reset_mem env (en_bootmem_addr_pa e) (en_bootmem_size e) (en_memdesc_list e);
     cpus \<leftarrow> reset_cpus env (en_boot_cpu e) (sorted_list_of_set (en_assigned_cpus e));
     (devs, pst) \<leftarrow> reset_devs env (pci_dev_list (en_pci_state e)) (en_pci_state e);
     Some (mems @ cpus @ devs, pst)
   }"

text \<open>
  The reset request. The control channel is taken down by freeing its descriptor; the pointer to it is
  set again by the launch.
\<close>

definition ioctl_reset ::
    "launch_env \<Rightarrow> ctrl_env \<Rightarrow> (nat \<Rightarrow> pci_env) \<Rightarrow> launch_state \<Rightarrow> (int \<times> ctrl_event list \<times> launch_state) option" where
  "ioctl_reset env cenv penv z =
     (let e = lz_enclave z;
          stop = snd (stop_enclave (la_apic env) (sorted_list_of_set (en_assigned_cpus e)))
      in do {
        (_, ls, x, irqs) \<leftarrow> pisces_lcall_deinit (ba_lcall (lz_area z)) (ba_lcall_xbuf (lz_area z)) (ba_irqs (lz_area z));
        let (_, tr, pst) = reset_enclave_pci penv (en_pci_state e);
        let z1 = z\<lparr>lz_events := lz_events z @ stop,
                   lz_area := (lz_area z)\<lparr>ba_lcall := ls, ba_lcall_xbuf := x, ba_irqs := irqs\<rparr>,
                   lz_enclave := e\<lparr>en_pci_state := pst\<rparr>\<rparr>;
        (ret, z2) \<leftarrow> run_launch env z1;
        if ret \<noteq> 0 then Some (ret, [FreeDesc (map_option xd_addr (ba_ctrl_desc (lz_area z))), PciEvents tr], z2)
        else do {
          (evs, pst') \<leftarrow> reset_readd cenv (lz_enclave z2);
          Some (ret, FreeDesc (map_option xd_addr (ba_ctrl_desc (lz_area z))) # PciEvents tr # evs, z2\<lparr>lz_enclave := (lz_enclave z2)\<lparr>en_pci_state := pst'\<rparr>\<rparr>)
        }
      })"

section \<open>What a launch does\<close>

lemma launch_success:
  assumes "run_launch env z = Some (0, z')"
  shows "setup_boot_params ((la_boot env)\<lparr>bn_boot_cpu := en_boot_cpu (lz_enclave z),
      bn_cpu_init_rip := cpu_init_rip (trampoline_state (lz_boot z))\<rparr>)
      (en_bootmem_addr_pa (lz_enclave z)) (en_bootmem_size (lz_enclave z)) (lz_area z) = Some (0, lz_area z')"
  using assms
  by (auto simp: run_launch_def pisces_enclave_launch_def Let_def split: if_splits bind_splits dest: setup_boot_params_result)

text \<open>
  C22: With a ready trampoline and files that behave, a launch ends. It leaves the trampoline ready. The
  enclave is marked running exactly when the launch returns 0.
\<close>

theorem launch_outcome:
  assumes "trampoline_ready (lz_boot z)" and "stays_up (la_init env)"
    and "en_state (lz_enclave z) \<noteq> ENCLAVE_RUNNING"
    and "bn_lcall_alloc (la_boot env) = Some d" and "bn_kthread_ok (la_boot env)"
    and "reads_file (bn_vfs (la_boot env)) (bn_kern_file (la_boot env)) kern" and "length kern < 2 ^ 64"
    and "reads_file (bn_vfs (la_boot env)) (bn_init_file (la_boot env)) initrd" and "length initrd < 2 ^ 64"
  shows "\<exists>r z'. run_launch env z = Some (r, z') \<and> trampoline_ready (lz_boot z') \<and>
    (r = 0 \<longleftrightarrow> en_state (lz_enclave z') = ENCLAVE_RUNNING) \<and> (r = 0 \<or> r = -1) \<and>
    (r = 0 \<longrightarrow> (\<exists>k \<le> 15. la_init env k) \<and> en_bootmem_size (lz_enclave z) mod PAGE_SIZE_2MB = 0)"
proof -
  let ?e = "lz_enclave z"
  let ?b = "(la_boot env)\<lparr>bn_boot_cpu := en_boot_cpu ?e, bn_cpu_init_rip := cpu_init_rip (trampoline_state (lz_boot z))\<rparr>"
  have "bn_lcall_alloc ?b = Some d" "bn_kthread_ok ?b" "reads_file (bn_vfs ?b) (bn_kern_file ?b) kern"
    "reads_file (bn_vfs ?b) (bn_init_file ?b) initrd" using assms by simp_all
  from setup_boot_params_ends [OF this(1, 2, 3) assms(7) this(4) assms(9)] obtain sr area where
    s: "setup_boot_params ?b (en_bootmem_addr_pa ?e) (en_bootmem_size ?e) (lz_area z) = Some (sr, area)" "sr = 0 \<or> sr = -1"
    by blast
  show ?thesis
  proof (cases "sr = -1")
    case True
    then show ?thesis using s(1) assms(1, 3) by (simp add: run_launch_def pisces_enclave_launch_def Let_def)
  next
    case False
    from boot_enclave_run [OF assms(1, 2), where A = "la_apic env" and cpu = "unat (en_boot_cpu ?e)"
        and kernel_addr = "bp_kernel_addr (ba_params area)" and base = "en_bootmem_addr_pa ?e"
        and bootmem_size = "en_bootmem_size ?e" and p = "\<lparr>launch_code_esi = 0, launch_code_target_addr = 0\<rparr>"]
    obtain r p' evs b where b: "boot_enclave (la_apic env) (la_init env) (unat (en_boot_cpu ?e)) (bp_kernel_addr (ba_params area))
        (en_bootmem_addr_pa ?e) (en_bootmem_size ?e) \<lparr>launch_code_esi = 0, launch_code_target_addr = 0\<rparr> (lz_boot z) = Some (r, p', evs, b)"
      "trampoline_ready b" "if en_bootmem_size ?e mod PAGE_SIZE_2MB \<noteq> 0 then r = -1
        else r = (if \<exists>k \<le> 15. la_init env k then 0 else -1)" by (metis (no_types, lifting))
    then show ?thesis using s False assms(3)
      by (auto simp: run_launch_def pisces_enclave_launch_def Let_def split: if_splits)
  qed
qed

definition demo_launch_env :: launch_env where
  "demo_launch_env = \<lparr>la_boot = demo_benv, la_apic = demo_apic, la_init = (\<lambda>k. 3 \<le> k)\<rparr>"

definition demo_launch :: launch_state where
  "demo_launch = \<lparr>lz_enclave = zero_enclave\<lparr>en_bootmem_addr_pa := 0x80000000, en_bootmem_size := 0x8000000, en_boot_cpu := 1\<rparr>,
     lz_area = demo_area, lz_boot = demo_boot_state, lz_events = []\<rparr>"

lemma demo_launch_ok:
  "trampoline_ready (lz_boot demo_launch)" "stays_up (la_init demo_launch_env)"
  "en_state (lz_enclave demo_launch) \<noteq> ENCLAVE_RUNNING" "bn_lcall_alloc (la_boot demo_launch_env) = Some 7"
  "bn_kthread_ok (la_boot demo_launch_env)"
  "reads_file (bn_vfs (la_boot demo_launch_env)) f [10, 11, 12, 13, 14]"
  by (simp_all add: demo_launch_def demo_boot_ready demo_launch_env_def stays_up_def zero_enclave_def demo_benv_def demo_reads)

theorem launch_outcome_witness:
  "\<exists>r z'. run_launch demo_launch_env demo_launch = Some (r, z') \<and> trampoline_ready (lz_boot z') \<and>
     (r = 0 \<longleftrightarrow> en_state (lz_enclave z') = ENCLAVE_RUNNING)"
  using launch_outcome [OF demo_launch_ok(1-5) demo_launch_ok(6) _ demo_launch_ok(6)] by auto

lemma demo_launch_run:
  assumes "trampoline_ready (lz_boot z)" and "en_boot_cpu (lz_enclave z) = 1" and "en_bootmem_size (lz_enclave z) = 0x8000000"
    and "cpu_init_rip (trampoline_state (lz_boot z)) = 0x99000"
  shows "\<exists>z'. run_launch demo_launch_env z = Some (0, z')"
proof -
  have b: "demo_benv\<lparr>bn_boot_cpu := 1, bn_cpu_init_rip := 0x99000\<rparr> = demo_benv" by (simp add: demo_benv_def)
  obtain area where s: "setup_boot_params demo_benv (en_bootmem_addr_pa (lz_enclave z)) 0x8000000 (lz_area z) = Some (0, area)"
    using demo_setup by blast
  have "\<exists>k \<le> 15. (3 :: nat) \<le> k" by (rule exI [of _ 3]) simp
  with boot_enclave_run [OF assms(1) demo_launch_ok(2), where A = demo_apic and cpu = 1 and kernel_addr = "bp_kernel_addr (ba_params area)"
      and base = "en_bootmem_addr_pa (lz_enclave z)" and bootmem_size = "0x8000000"
      and p = "\<lparr>launch_code_esi = 0, launch_code_target_addr = 0\<rparr>"]
  obtain p' evs b where "boot_enclave demo_apic (\<lambda>k. 3 \<le> k) 1 (bp_kernel_addr (ba_params area)) (en_bootmem_addr_pa (lz_enclave z))
      0x8000000 \<lparr>launch_code_esi = 0, launch_code_target_addr = 0\<rparr> (lz_boot z) = Some (0, p', evs, b)"
    by (auto simp: demo_launch_env_def split: if_splits)
  then show ?thesis using s b assms(2-4)
    by (simp add: run_launch_def demo_launch_env_def pisces_enclave_launch_def Let_def)
qed

section \<open>What a reset sends\<close>

lemma run_launch_keeps:
  assumes "run_launch env z = Some (r, z')"
  shows "en_memdesc_list (lz_enclave z') = en_memdesc_list (lz_enclave z)" "en_assigned_cpus (lz_enclave z') = en_assigned_cpus (lz_enclave z)"
    "en_bootmem_addr_pa (lz_enclave z') = en_bootmem_addr_pa (lz_enclave z)" "en_bootmem_size (lz_enclave z') = en_bootmem_size (lz_enclave z)"
    "en_boot_cpu (lz_enclave z') = en_boot_cpu (lz_enclave z)" "en_pci_state (lz_enclave z') = en_pci_state (lz_enclave z)"
  using assms by (auto simp: run_launch_def pisces_enclave_launch_def Let_def split: if_splits bind_splits)

definition sent :: "ctrl_event list \<Rightarrow> bytes list" where
  "sent evs = concat (map (\<lambda>e. case e of CtrlSend m \<Rightarrow> [m] | _ \<Rightarrow> []) evs)"

lemma sent_simps [simp]:
  "sent [] = []" "sent (CtrlSend m # evs) = m # sent evs" "sent (SetupTrampoline # evs) = sent evs"
  "sent (RestoreTrampoline # evs) = sent evs" "sent (PciEvents tr # evs) = sent evs" "sent (FreeDesc d # evs) = sent evs" "sent (xs @ ys) = sent xs @ sent ys"
  by (simp_all add: sent_def)

text \<open>An enclave that accepts every command.\<close>

definition accepts_all :: "ctrl_env \<Rightarrow> bool" where
  "accepts_all env \<longleftrightarrow> (\<forall>m. send_status env m = Some (0, 0))"

lemma reset_mem_sent:
  "sent (reset_mem env base bootmem_size bs) = map (\<lambda>b. cmd_mem_add (mb_base_addr b) (ucast (mb_pages b) * 4096))
     (filter (\<lambda>b. \<not> (base \<le> mb_base_addr b \<and> mb_base_addr b < base + bootmem_size)) bs)"
  by (induction bs) (auto simp: ctrl_add_mem_def Let_def split: prod.splits)

lemma reset_cpus_sent:
  "reset_cpus env boot_cpu cs = Some evs \<Longrightarrow>
     sent evs = map (\<lambda>c. cmd_cpu_add PISCES_CMD_ADD_CPU (of_nat c) (cx_apicid env (of_nat c))) (filter (\<lambda>c. c \<noteq> unat boot_cpu) cs)"
  by (induction cs arbitrary: evs) (auto simp: ctrl_add_cpu_def Let_def split: if_splits bind_splits)

lemma reset_devs_sent:
  "accepts_all env \<Longrightarrow> pd_addr ` set ds \<subseteq> pd_addr ` set (pci_dev_list st) \<Longrightarrow>
     \<exists>evs. reset_devs env ds st = Some (evs, st) \<and> sent evs = map (\<lambda>d. cmd_add_pci_dev (pci_spec_bytes (readd_spec d)) 0) ds"
proof (induction ds)
  case (Cons d ds)
  then obtain evs where "reset_devs env ds st = Some (evs, st)"
    "sent evs = map (\<lambda>d. cmd_add_pci_dev (pci_spec_bytes (readd_spec d)) 0) ds" by auto
  then show ?case using Cons.prems by (auto simp: ctrl_add_pci_def accepts_all_def Let_def)
qed simp

lemma reset_loop_specs: "map readd_spec (snd (reset_loop env ds)) = map readd_spec ds"
proof (induction ds)
  case (Cons d ds)
  have "readd_spec (snd (snd (init_pci_dev (env (pd_addr d)) (snd (deinit_pci_dev d))))) = readd_spec d"
    by (simp add: init_pci_dev_def deinit_pci_dev_def readd_spec_def)
  then show ?case using Cons by (auto simp: Let_def split: prod.splits)
qed simp

text \<open>
  C24: A reset that relaunches an enclave which accepts its commands sends it exactly the memory
  outside the boot memory, the CPUs other than the boot CPU in ascending order, and the devices,
  in this order, and keeps the device list.
\<close>

theorem reset_readds_resources:
  assumes "accepts_all cenv" and "ioctl_reset env cenv penv z = Some (0, evs, z')"
  defines "e \<equiv> lz_enclave z"
  shows "sent evs =
    map (\<lambda>b. cmd_mem_add (mb_base_addr b) (ucast (mb_pages b) * 4096))
      (filter (\<lambda>b. \<not> (en_bootmem_addr_pa e \<le> mb_base_addr b \<and> mb_base_addr b < en_bootmem_addr_pa e + en_bootmem_size e))
        (en_memdesc_list e)) @
    map (\<lambda>c. cmd_cpu_add PISCES_CMD_ADD_CPU (of_nat c) (cx_apicid cenv (of_nat c)))
      (filter (\<lambda>c. c \<noteq> unat (en_boot_cpu e)) (sorted_list_of_set (en_assigned_cpus e))) @
    map (\<lambda>d. cmd_add_pci_dev (pci_spec_bytes (readd_spec d)) 0) (pci_dev_list (en_pci_state e)) \<and>
    map readd_spec (pci_dev_list (en_pci_state (lz_enclave z'))) = map readd_spec (pci_dev_list (en_pci_state e))"
proof -
  obtain tr pst where rp: "reset_enclave_pci penv (en_pci_state e) = (0, tr, pst)"
    by (cases "reset_loop penv (pci_dev_list (en_pci_state e))") (simp add: reset_enclave_pci_def)
  have specs: "map readd_spec (pci_dev_list pst) = map readd_spec (pci_dev_list (en_pci_state e))"
    using rp reset_loop_specs [of penv "pci_dev_list (en_pci_state e)"]
    by (auto simp: reset_enclave_pci_def Let_def split: prod.splits)
  from assms(2) obtain ls x irqs where
    "pisces_lcall_deinit (ba_lcall (lz_area z)) (ba_lcall_xbuf (lz_area z)) (ba_irqs (lz_area z)) = Some (0, ls, x, irqs)"
    by (auto simp: ioctl_reset_def pisces_lcall_deinit_def Let_def split: bind_splits if_splits option.splits)
  note lc = this
  define z1 where "z1 = z\<lparr>lz_events := lz_events z @ snd (stop_enclave (la_apic env) (sorted_list_of_set (en_assigned_cpus e))),
      lz_area := (lz_area z)\<lparr>ba_lcall := ls, ba_lcall_xbuf := x, ba_irqs := irqs\<rparr>, lz_enclave := e\<lparr>en_pci_state := pst\<rparr>\<rparr>"
  have z1: "lz_enclave z1 = e\<lparr>en_pci_state := pst\<rparr>" by (simp add: z1_def)
  obtain z2 evs1 pst' where l: "run_launch env z1 = Some (0, z2)" and r: "reset_readd cenv (lz_enclave z2) = Some (evs1, pst')"
    and v: "evs = FreeDesc (map_option xd_addr (ba_ctrl_desc (lz_area z))) # PciEvents tr # evs1" "z' = z2\<lparr>lz_enclave := (lz_enclave z2)\<lparr>en_pci_state := pst'\<rparr>\<rparr>"
    using assms(2) rp lc unfolding z1_def e_def by (auto simp: ioctl_reset_def Let_def split: bind_splits if_splits)
  note k = run_launch_keeps [OF l, unfolded z1, simplified]
  from r obtain cpus devs where c: "reset_cpus cenv (en_boot_cpu e) (sorted_list_of_set (en_assigned_cpus e)) = Some cpus"
    and d: "reset_devs cenv (pci_dev_list pst) pst = Some (devs, pst')"
    and e1: "evs1 = reset_mem cenv (en_bootmem_addr_pa e) (en_bootmem_size e) (en_memdesc_list e) @ cpus @ devs"
    by (auto simp: reset_readd_def k Let_def split: bind_splits)
  from reset_devs_sent [OF assms(1), of "pci_dev_list pst" pst] d
  have ds: "pst' = pst" "sent devs = map (\<lambda>d. cmd_add_pci_dev (pci_spec_bytes (readd_spec d)) 0) (pci_dev_list pst)" by auto
  have "map (\<lambda>d. cmd_add_pci_dev (pci_spec_bytes (readd_spec d)) 0) (pci_dev_list pst) =
      map (\<lambda>s. cmd_add_pci_dev (pci_spec_bytes s) 0) (map readd_spec (pci_dev_list pst))" by simp
  also have "\<dots> = map (\<lambda>d. cmd_add_pci_dev (pci_spec_bytes (readd_spec d)) 0) (pci_dev_list (en_pci_state e))"
    unfolding specs by simp
  finally show ?thesis using v e1 ds specs by (simp add: reset_mem_sent reset_cpus_sent [OF c])
qed

definition demo_ctrl :: ctrl_env where
  "demo_ctrl = \<lparr>cx_send = (\<lambda>m. (0, Some (pisces_resp 0 0))), cx_apicid = (\<lambda>c. 2 * c), cx_user = (\<lambda>_. None), cx_addr = 0,
     cx_pci = demo_pci_env, cx_stack = [], cx_irq = \<lparr>ie_alloc = 40, ie_request = 0, ie_vector = (\<lambda>_. Some 0x51)\<rparr>, cx_fd = 3\<rparr>"

definition demo_running :: launch_state where
  "demo_running = demo_launch\<lparr>
     lz_enclave := (lz_enclave demo_launch)\<lparr>en_memdesc_list := [\<lparr>mb_base_addr = 0x80000000, mb_pages = 32768\<rparr>,
       \<lparr>mb_base_addr = 0x100000000, mb_pages = 512\<rparr>], en_assigned_cpus := {1, 2}\<rparr>,
     lz_area := demo_area\<lparr>ba_lcall := \<lparr>ls_kern_thread = True, ls_active_lcall = 0,
       ls_xbuf_desc = Some \<lparr>xd_addr = 7, xd_irq = 40, xd_recv_handler = True, xd_enclave = 100\<rparr>\<rparr>\<rparr>\<rparr>"

lemma demo_accepts: "accepts_all demo_ctrl"
proof -
  have "resp_status (pisces_resp 0 0) = Some 0" by code_simp
  then show ?thesis by (simp add: accepts_all_def send_status_def demo_ctrl_def)
qed

lemma demo_cpus: "sorted_list_of_set {1, 2 :: nat} = [1, 2]"
  by simp

lemma demo_reset: "\<exists>evs z'. ioctl_reset demo_launch_env demo_ctrl (\<lambda>_. demo_pci_env) demo_running = Some (0, evs, z')"
proof -
  define z1 where "z1 = demo_running\<lparr>lz_events := snd (stop_enclave demo_apic [1, 2]),
     lz_area := (lz_area demo_running)\<lparr>ba_lcall := (ba_lcall (lz_area demo_running))\<lparr>ls_active_lcall := 1\<rparr>,
       ba_lcall_xbuf := snd (pisces_xbuf_disable zero_xbuf),
       ba_irqs := snd (pisces_xbuf_server_deinit \<lparr>xd_addr = 7, xd_irq = 40, xd_recv_handler = True, xd_enclave = 100\<rparr>
         \<lparr>irq_lines = {}, irq_handlers = (\<lambda>_. None)\<rparr>)\<rparr>\<rparr>"
  have e1: "lz_enclave z1 = lz_enclave demo_running" "lz_boot z1 = demo_boot_state"
    by (simp_all add: z1_def demo_running_def demo_launch_def)
  obtain z2 where z2: "run_launch demo_launch_env z1 = Some (0, z2)"
    using demo_launch_run [of z1] demo_boot_ready by (auto simp: e1 demo_running_def demo_launch_def demo_boot_state_def)
  note k = run_launch_keeps [OF z2, unfolded e1]
  have acc: "send_status demo_ctrl m = Some (0, 0)" for m using demo_accepts by (simp add: accepts_all_def)
  obtain evs where "reset_readd demo_ctrl (lz_enclave z2) = Some (evs, en_pci_state (lz_enclave z2))"
    using k by (simp add: reset_readd_def demo_running_def demo_launch_def zero_enclave_def demo_cpus ctrl_add_cpu_def acc Let_def)
  then show ?thesis using z2 unfolding ioctl_reset_def z1_def
    by (simp add: demo_running_def demo_launch_def demo_launch_env_def demo_area_def pisces_lcall_deinit_def zero_enclave_def
        reset_enclave_pci_def demo_cpus Let_def)
qed

theorem reset_readds_resources_witness:
  "\<exists>evs z'. ioctl_reset demo_launch_env demo_ctrl (\<lambda>_. demo_pci_env) demo_running = Some (0, evs, z') \<and>
     sent evs = [cmd_mem_add 0x100000000 0x200000, cmd_cpu_add PISCES_CMD_ADD_CPU 2 4]"
proof -
  obtain evs z' where r: "ioctl_reset demo_launch_env demo_ctrl (\<lambda>_. demo_pci_env) demo_running = Some (0, evs, z')"
    using demo_reset by blast
  have "sent evs = [cmd_mem_add 0x100000000 0x200000, cmd_cpu_add PISCES_CMD_ADD_CPU 2 4]"
    using reset_readds_resources [OF demo_accepts r]
    by (simp add: demo_running_def demo_launch_def zero_enclave_def demo_cpus demo_ctrl_def)
  then show ?thesis using r by blast
qed

text \<open>
  A device that the relaunched enclave refuses and that is ready and not assigned is freed while
  the loop stands on it: the reset does not come back from reading it.
\<close>

theorem reset_refused_device:
  assumes "pci_ok st" and "pci_dev_list st = d # ds" and "pd_assigned d = 0" and "pd_ready d = 1"
    and "send_status env (cmd_add_pci_dev (pci_spec_bytes (readd_spec d)) 0) = Some (ret, status)" and "status \<noteq> 0"
    and "sp_name (parse_pci_spec (pci_spec_bytes (readd_spec d))) = pd_name d"
  shows "reset_devs env (d # ds) st = None"
proof -
  have f: "find_dev_by_name st (pd_name d) = Some d" using assms(2) by (simp add: find_dev_by_name_def)
  obtain r tr st' where rm: "enclave_pci_remove_dev (pd_name d) st = (r, tr, st')" using prod_cases3 by blast
  have "pci_dev_list st' = filter (\<lambda>e. pd_addr e \<noteq> pd_addr d) (pci_dev_list st)"
    using remove_dev_cases [OF assms(1), of "pd_name d"] f assms(3, 4) rm by simp
  then show ?thesis using assms(5-7) rm by (auto simp: ctrl_add_pci_def Let_def)
qed

definition demo_ready_dev :: pisces_pci_dev where
  "demo_ready_dev = (zero_dev 5)\<lparr>pd_name := ''nic'', pd_bus := 3, pd_ready := 1, pd_dev := Some \<lparr>kd_hdr_type = 0, kd_irq = 11, kd_dev_flags = 0\<rparr>\<rparr>"

theorem reset_refused_device_witness:
  "reset_devs (demo_ctrl\<lparr>cx_send := (\<lambda>m. (-1, None))\<rparr>) [demo_ready_dev] \<lparr>pci_dev_list = [demo_ready_dev], pci_dev_cnt = 1\<rparr> = None"
proof (rule reset_refused_device [of _ _ _ _ "-1" "-1"])
  show "sp_name (parse_pci_spec (pci_spec_bytes (readd_spec demo_ready_dev))) = pd_name demo_ready_dev" by code_simp
qed (simp_all add: pci_ok_def demo_ready_dev_def zero_dev_def send_status_def demo_ctrl_def)

end
