(* ===== verification/EnclaveDev.thy ===== *)
theory EnclaveDev
  imports Launch
begin

text \<open>
  The files of an enclave: its device with the requests on it (\<open>enclave_ioctl\<close> of \<open>enclave.c\<close>), the
  files of its control channel and of its console that two of these requests create, and its
  information files under \<open>/proc\<close>. All of them reach the same structure through the pointer they keep;
  using it after it was freed is a run that does not come back (\<open>None\<close>).

  Shown: every file that takes a reference keeps the structure allocated, through launches, resets,
  connections and the free request of the module; the file of the console takes none and outlives the
  structure; a launch marks the console free although a file on it may be open.
\<close>

section \<open>The device\<close>

text \<open>
  The enclaves of the module, for each address the host's side of the boot memory (the console, the
  channels), and the trampoline with what was sent through the APIC.
\<close>

record enclave_dev =
  ed_sys :: pisces_sys
  ed_area :: "nat \<Rightarrow> boot_area"
  ed_boot :: boot_state
  ed_events :: "apic_event list"

definition dev_launch :: "enclave_dev \<Rightarrow> nat \<Rightarrow> pisces_enclave \<Rightarrow> launch_state" where
  "dev_launch d p e = \<lparr>lz_enclave = e, lz_area = ed_area d p, lz_boot = ed_boot d, lz_events = ed_events d\<rparr>"

definition dev_store :: "enclave_dev \<Rightarrow> nat \<Rightarrow> launch_state \<Rightarrow> enclave_dev" where
  "dev_store d p z = d\<lparr>ed_sys := (ed_sys d)\<lparr>en_heap := (en_heap (ed_sys d))(p \<mapsto> lz_enclave z)\<rparr>,
     ed_area := (ed_area d)(p := lz_area z), ed_boot := lz_boot z, ed_events := lz_events z\<rparr>"

definition set_cons :: "enclave_dev \<Rightarrow> nat \<Rightarrow> pisces_cons \<Rightarrow> enclave_dev" where
  "set_cons d p c = d\<lparr>ed_area := (ed_area d)(p := (ed_area d p)\<lparr>ba_cons := c\<rparr>)\<rparr>"

text \<open>What the launch request enters into the enclave before it launches it.\<close>

definition launch_resources :: "pisces_enclave \<Rightarrow> enclave_boot_env \<Rightarrow> pisces_enclave option" where
  "launch_resources e env =
     (let num_pages = (ucast (be_num_blocks env) * be_block_size env) div 4096;
          e1 = e\<lparr>en_bootmem_addr_pa := be_base_addr env, en_bootmem_size := num_pages * 4096,
                 en_boot_cpu := be_cpu_id env\<rparr>;
          e2 = snd (pisces_enclave_add_cpu e1 (be_cpu_id env))
      in launch_blocks e2 env [0..<unat (be_num_blocks env)])"

abbreviation PISCES_ENCLAVE_LAUNCH :: u32 where "PISCES_ENCLAVE_LAUNCH \<equiv> 2000"
abbreviation PISCES_ENCLAVE_RESET :: u32 where "PISCES_ENCLAVE_RESET \<equiv> 2001"
abbreviation PISCES_ENCLAVE_CONS_CONNECT :: u32 where "PISCES_ENCLAVE_CONS_CONNECT \<equiv> 2004"
abbreviation PISCES_ENCLAVE_CTRL_CONNECT :: u32 where "PISCES_ENCLAVE_CTRL_CONNECT \<equiv> 2005"

text \<open>
  \<open>arg\<close> is the boot environment copied from user space, \<open>None\<close> when the copy fails; \<open>fd\<close> is what
  \<open>anon_inode_getfd\<close> answers.
\<close>

record dev_env =
  dv_launch :: launch_env
  dv_ctrl :: ctrl_env
  dv_pci :: "nat \<Rightarrow> pci_env"
  dv_fd :: int

definition enclave_ioctl ::
    "dev_env \<Rightarrow> u32 \<Rightarrow> enclave_boot_env option \<Rightarrow> nat \<Rightarrow> enclave_dev \<Rightarrow> (int \<times> ctrl_event list \<times> enclave_dev) option" where
  "enclave_ioctl env ioctl arg p d = do {
     e \<leftarrow> en_heap (ed_sys d) p;
     if ioctl = PISCES_ENCLAVE_LAUNCH then
       (case arg of
          None \<Rightarrow> Some (- EFAULT, [], d)
        | Some benv \<Rightarrow> do {
            e1 \<leftarrow> launch_resources e benv;
            (r, z) \<leftarrow> run_launch (dv_launch env) (dev_launch d p e1);
            Some (r, [], dev_store d p z)
          })
     else if ioctl = PISCES_ENCLAVE_RESET then do {
       (r, evs, z) \<leftarrow> ioctl_reset (dv_launch env) (dv_ctrl env) (dv_pci env) (dev_launch d p e);
       Some (r, evs, dev_store d p z)
     }
     else if ioctl = PISCES_ENCLAVE_CONS_CONNECT then
       (let (r, c) = pisces_cons_connect (dv_fd env) (ba_cons (ed_area d p)) in Some (r, [], set_cons d p c))
     else if ioctl = PISCES_ENCLAVE_CTRL_CONNECT then do {
       (r, s) \<leftarrow> pisces_ctrl_connect (dv_fd env) (ed_sys d) p;
       Some (r, [], d\<lparr>ed_sys := s\<rparr>)
     }
     else Some (0, [], d)
   }"

section \<open>The other files\<close>

text \<open>The console file holds the address of the enclave only.\<close>

definition dev_console_release :: "nat \<Rightarrow> enclave_dev \<Rightarrow> (int \<times> enclave_dev) option" where
  "dev_console_release p d = do {
     e \<leftarrow> en_heap (ed_sys d) p;
     let (r, c) = cons_console_release (ba_cons (ed_area d p)) in Some (r, set_cons d p c)
   }"

text \<open>
  The three information files are opened alike; \<open>single_open\<close> fails when there is no memory, after
  the reference was taken. A file that was not opened is not released.
\<close>

definition proc_open :: "int \<Rightarrow> nat \<Rightarrow> pisces_sys \<Rightarrow> (int \<times> pisces_sys) option" where
  "proc_open single_open p s = do { s1 \<leftarrow> enclave_get s p; Some (single_open, s1) }"

definition proc_release :: "nat \<Rightarrow> pisces_sys \<Rightarrow> (int \<times> pisces_sys) option" where
  "proc_release p s = do { s1 \<leftarrow> enclave_put s p; Some (0, s1) }"

section \<open>What the requests keep\<close>

text \<open>The launch request of the device is the one of the life cycle, on the results of the launch itself.\<close>

lemma ioctl_launch_resources:
  "ioctl_launch e (Some env) sr up br = map_option (\<lambda>e1. pisces_enclave_launch e1 sr up br) (launch_resources e env)"
  by (cases "launch_resources e env") (simp_all add: ioctl_launch_def launch_resources_def Let_def)

lemma launch_blocks_keeps:
  "launch_blocks e env is = Some e' \<Longrightarrow> en_id e' = en_id e \<and> en_refcount e' = en_refcount e \<and>
     en_bootmem_size e' = en_bootmem_size e \<and> en_boot_cpu e' = en_boot_cpu e \<and> en_pci_state e' = en_pci_state e"
  by (induction e env "is" rule: launch_blocks.induct)
    (auto simp: pisces_enclave_add_mem_def Let_def split: bind_splits)

lemma launch_resources_keeps:
  assumes "launch_resources e env = Some e'"
  shows "en_id e' = en_id e" "en_refcount e' = en_refcount e" "en_boot_cpu e' = be_cpu_id env"
    "en_bootmem_size e' = ucast (be_num_blocks env) * be_block_size env div 4096 * 4096" "en_pci_state e' = en_pci_state e"
  using launch_blocks_keeps [OF assms [unfolded launch_resources_def Let_def]]
  by (auto simp: pisces_enclave_add_cpu_def split: if_splits)

lemma launch_identity:
  assumes "run_launch env z = Some (r, z')"
  shows "en_id (lz_enclave z') = en_id (lz_enclave z) \<and> en_refcount (lz_enclave z') = en_refcount (lz_enclave z)"
  using assms by (auto simp: run_launch_def pisces_enclave_launch_def Let_def split: if_splits bind_splits)

lemma reset_identity:
  assumes "ioctl_reset env cenv penv z = Some (r, evs, z')"
  shows "en_id (lz_enclave z') = en_id (lz_enclave z) \<and> en_refcount (lz_enclave z') = en_refcount (lz_enclave z)"
  using assms by (auto simp: ioctl_reset_def Let_def dest!: launch_identity split: if_splits bind_splits prod.splits)

lemma setup_brings_up:
  assumes "setup_boot_params env base bootmem_size a = Some (0, a')"
  shows "ls_kern_thread (ba_lcall a')" "pc_connected (ba_cons a') = 0"
proof -
  obtain r off a1 where A: "setup_areas env base (setup_basic env base bootmem_size (clear_bootmem base bootmem_size a)) = Some (r, off, a1)"
    and r: "r \<noteq> -1" and i: "setup_images env base off a1 = Some (0, a')"
    using assms by (auto simp: setup_boot_params_def Let_def split: if_splits bind_splits)
  have "ls_kern_thread (ba_lcall a1) \<and> pc_connected (ba_cons a1) = 0" using A r
    by (auto simp: setup_areas_def setup_console_def pisces_cons_init_def setup_control_def setup_longcall_def setup_xpmem_def
        pisces_lcall_init_def pisces_ctrl_init_def Let_def split: if_splits bind_splits option.splits prod.splits)
  moreover have "ba_lcall a' = ba_lcall a1" "ba_cons a' = ba_cons a1"
    using i by (auto simp: setup_images_def Let_def split: if_splits bind_splits prod.splits)
  ultimately show "ls_kern_thread (ba_lcall a')" "pc_connected (ba_cons a') = 0" by simp_all
qed

lemma launch_brings_up:
  assumes "run_launch env z = Some (0, z')"
  shows "en_lcall_thread (lz_enclave z')" "pc_connected (ba_cons (lz_area z')) = 0"
proof -
  note u = setup_brings_up [OF launch_success [OF assms]]
  show "pc_connected (ba_cons (lz_area z')) = 0" by (rule u(2))
  obtain a where a: "lz_area z' = a" by simp
  show "en_lcall_thread (lz_enclave z')" using assms u(1) launch_success [OF assms] unfolding a
    by (auto simp: run_launch_def pisces_enclave_launch_def Let_def split: if_splits bind_splits)
qed

section \<open>Every file keeps its enclave\<close>

text \<open>
  The steps of the module with files on its enclaves. \<open>h p\<close> counts the references that files took on
  the enclave at \<open>p\<close> (also the one an information file lost that could not be opened), \<open>c p\<close> the open
  console files. Requests on the device come through a file on it.
\<close>

inductive dev_step ::
    "enclave_dev \<times> (nat \<Rightarrow> nat) \<times> (nat \<Rightarrow> nat) \<Rightarrow> enclave_dev \<times> (nat \<Rightarrow> nat) \<times> (nat \<Rightarrow> nat) \<Rightarrow> bool" where
  dev_create: "pisces_enclave_create (ed_sys d) env = Some (int i, s) \<Longrightarrow> ce_addr env = Some p \<Longrightarrow>
    en_heap (ed_sys d) p = None \<Longrightarrow> dev_step (d, h, c) (d\<lparr>ed_sys := s\<rparr>, h, c)"
| dev_open: "in_table (ed_sys d) p \<Longrightarrow> enclave_open (ed_sys d) p = Some s \<Longrightarrow>
    dev_step (d, h, c) (d\<lparr>ed_sys := s\<rparr>, h(p := h p + 1), c)"
| dev_release: "0 < h p \<Longrightarrow> enclave_release (ed_sys d) p = Some s \<Longrightarrow>
    dev_step (d, h, c) (d\<lparr>ed_sys := s\<rparr>, h(p := h p - 1), c)"
| dev_ctrl_release: "0 < h p \<Longrightarrow> ctrl_release (ed_sys d) p = Some (r, s) \<Longrightarrow>
    dev_step (d, h, c) (d\<lparr>ed_sys := s\<rparr>, h(p := h p - 1), c)"
| dev_proc_open: "in_table (ed_sys d) p \<Longrightarrow> proc_open so p (ed_sys d) = Some (r, s) \<Longrightarrow>
    dev_step (d, h, c) (d\<lparr>ed_sys := s\<rparr>, h(p := h p + 1), c)"
| dev_proc_release: "0 < h p \<Longrightarrow> proc_release p (ed_sys d) = Some (r, s) \<Longrightarrow>
    dev_step (d, h, c) (d\<lparr>ed_sys := s\<rparr>, h(p := h p - 1), c)"
| dev_ioctl: "0 < h p \<Longrightarrow> enclave_ioctl env ioctl arg p d = Some (r, evs, d') \<Longrightarrow>
    dev_step (d, h, c) (d', h(p := h p + (if ioctl = PISCES_ENCLAVE_CTRL_CONNECT \<and> 0 \<le> r then 1 else 0)),
      c(p := c p + (if ioctl = PISCES_ENCLAVE_CONS_CONNECT \<and> 0 \<le> r then 1 else 0)))"
| dev_cons_release: "0 < c p \<Longrightarrow> dev_console_release p d = Some (r, d') \<Longrightarrow> dev_step (d, h, c) (d', h, c(p := c p - 1))"
| dev_free: "in_table (ed_sys d) p \<Longrightarrow> pisces_enclave_free (ed_sys d) p = Some (r, ev, s) \<Longrightarrow>
    dev_step (d, h, c) (d\<lparr>ed_sys := s\<rparr>, h, c)"

inductive dev_reach :: "enclave_dev \<times> (nat \<Rightarrow> nat) \<times> (nat \<Rightarrow> nat) \<Rightarrow> bool" where
  dev_start: "ed_sys d = sys_init \<Longrightarrow> dev_reach (d, \<lambda>_. 0, \<lambda>_. 0)"
| dev_next: "dev_reach x \<Longrightarrow> dev_step x y \<Longrightarrow> dev_reach y"

lemma set_cons_sys [simp]: "ed_sys (set_cons d p c) = ed_sys d"
  by (simp add: set_cons_def)

lemma ctrl_connect_inv:
  assumes "sys_inv (s, h)" and "pisces_ctrl_connect fd s p = Some (r, s')"
  shows "sys_inv (s', h(p := h p + (if 0 \<le> r then 1 else 0)))"
proof -
  obtain s1 where s1: "enclave_get s p = Some s1" using assms(2) by (auto simp: pisces_ctrl_connect_def split: bind_splits)
  note i1 = get_inv [OF assms(1) s1]
  show ?thesis
  proof (cases "fd < 0")
    case True
    then have "enclave_put s1 p = Some s'" "r = fd" using assms(2) s1 by (auto simp: pisces_ctrl_connect_def split: bind_splits)
    then show ?thesis using put_inv [OF i1, of p s'] True by simp
  next
    case False
    then show ?thesis using i1 s1 assms(2) by (auto simp: pisces_ctrl_connect_def)
  qed
qed

lemma dev_store_inv:
  assumes "sys_inv (ed_sys d, h)" and "en_heap (ed_sys d) p = Some e" and "en_id (lz_enclave z) = en_id e"
    and "en_refcount (lz_enclave z) = en_refcount e"
  shows "sys_inv (ed_sys (dev_store d p z), h)"
  using update_inv [OF assms] by (simp add: dev_store_def)

lemma ioctl_inv:
  assumes inv: "sys_inv (ed_sys d, h)" and run: "enclave_ioctl env ioctl arg p d = Some (r, evs, d')"
  shows "sys_inv (ed_sys d', h(p := h p + (if ioctl = PISCES_ENCLAVE_CTRL_CONNECT \<and> 0 \<le> r then 1 else 0)))"
proof -
  obtain e where e: "en_heap (ed_sys d) p = Some e" using run by (auto simp: enclave_ioctl_def split: bind_splits)
  note run' = run [unfolded enclave_ioctl_def e bind.bind_lunit]
  consider (launch) "ioctl = PISCES_ENCLAVE_LAUNCH" | (reset) "ioctl = PISCES_ENCLAVE_RESET"
    | (cons) "ioctl = PISCES_ENCLAVE_CONS_CONNECT" | (ctrl) "ioctl = PISCES_ENCLAVE_CTRL_CONNECT"
    | (none) "ioctl \<notin> {PISCES_ENCLAVE_LAUNCH, PISCES_ENCLAVE_RESET, PISCES_ENCLAVE_CONS_CONNECT, PISCES_ENCLAVE_CTRL_CONNECT}" by auto
  then show ?thesis
  proof cases
    case launch
    show ?thesis
    proof (cases arg)
      case None
      then show ?thesis using run' launch inv by simp
    next
      case (Some benv)
      then obtain e1 z where "launch_resources e benv = Some e1" "run_launch (dv_launch env) (dev_launch d p e1) = Some (r, z)"
        "d' = dev_store d p z" using run' launch by (auto split: bind_splits)
      then show ?thesis using dev_store_inv [OF inv e, of z] launch launch_resources_keeps(1, 2) launch_identity
        by (fastforce simp: dev_launch_def)
    qed
  next
    case reset
    then obtain z where "ioctl_reset (dv_launch env) (dv_ctrl env) (dv_pci env) (dev_launch d p e) = Some (r, evs, z)"
      "d' = dev_store d p z" using run' by (auto split: bind_splits)
    then show ?thesis using dev_store_inv [OF inv e, of z] reset reset_identity by (fastforce simp: dev_launch_def)
  next
    case cons
    then show ?thesis using run' inv by (auto split: prod.splits)
  next
    case ctrl
    then obtain s where "pisces_ctrl_connect (dv_fd env) (ed_sys d) p = Some (r, s)" "d' = d\<lparr>ed_sys := s\<rparr>"
      using run' by (auto split: bind_splits)
    then show ?thesis using ctrl_connect_inv [OF inv, of "dv_fd env" p r s] ctrl by simp
  next
    case none
    then show ?thesis using run' inv by simp
  qed
qed

lemma dev_reach_inv: "dev_reach x \<Longrightarrow> case x of (d, h, c) \<Rightarrow> sys_inv (ed_sys d, h)"
proof (induction rule: dev_reach.induct)
  case (dev_start d)
  then show ?case using sys_reach_inv [OF sys_start] by simp
next
  case (dev_next x y)
  from dev_next(2, 3) show ?case
  proof (cases rule: dev_step.cases)
    case (dev_create d env i s p h c)
    then show ?thesis using create_inv(1) dev_next(3) by fastforce
  next
    case (dev_open d p s h c)
    then show ?thesis using get_inv dev_next(3) by (fastforce simp: enclave_open_def)
  next
    case (dev_release h p d s c)
    then show ?thesis using put_inv dev_next(3) by (fastforce simp: enclave_release_def)
  next
    case (dev_ctrl_release h p d r s c)
    then show ?thesis using put_inv dev_next(3) by (fastforce simp: ctrl_release_def split: bind_splits)
  next
    case (dev_proc_open d p so r s h c)
    then show ?thesis using get_inv dev_next(3) by (fastforce simp: proc_open_def split: bind_splits)
  next
    case (dev_proc_release h p d r s c)
    then show ?thesis using put_inv dev_next(3) by (fastforce simp: proc_release_def split: bind_splits)
  next
    case (dev_ioctl h p env ioctl arg d r evs d' c)
    then show ?thesis using ioctl_inv dev_next(3) by fastforce
  next
    case (dev_cons_release c p d r d' h)
    then show ?thesis using dev_next(3) by (auto simp: dev_console_release_def split: bind_splits prod.splits)
  next
    case (dev_free d p r ev s h c)
    then show ?thesis using free_inv(1) dev_next(3) by (fastforce simp: in_table_def)
  qed
qed

lemmas dev_inv = dev_reach_inv [of "(d, h, c)" for d h c, simplified]

text \<open>
  C13: In every state that creations, files on enclaves, launches, resets, connections and free requests
  lead to, each slot of the table points to a live enclave that carries that slot as its index, no two
  slots to the same one; an enclave on which a file of the device, of the control channel or of \<open>/proc\<close>
  took a reference is still allocated, so that releasing such a file finds it; and the console of an
  enclave in the table can be released.
\<close>

theorem enclave_files_live:
  assumes "dev_reach (d, h, c)"
  shows "(i < MAX_ENCLAVES \<longrightarrow> enclave_map (ed_sys d) ! i = Some p \<longrightarrow>
      (\<exists>e. en_heap (ed_sys d) p = Some e \<and> en_id e = i) \<and>
      (\<forall>j < MAX_ENCLAVES. enclave_map (ed_sys d) ! j = Some p \<longrightarrow> j = i)) \<and>
    (0 < h q \<longrightarrow> en_heap (ed_sys d) q \<noteq> None \<and> enclave_release (ed_sys d) q \<noteq> None \<and>
      ctrl_release (ed_sys d) q \<noteq> None \<and> proc_release q (ed_sys d) \<noteq> None) \<and>
    (in_table (ed_sys d) q \<longrightarrow> dev_console_release q d \<noteq> None)"
proof -
  note inv = dev_inv [OF assms]
  have l: "length (enclave_map (ed_sys d)) = MAX_ENCLAVES" by (rule sys_invD(1) [OF inv])
  have "0 < h q \<longrightarrow> en_heap (ed_sys d) q \<noteq> None \<and> enclave_release (ed_sys d) q \<noteq> None \<and>
      ctrl_release (ed_sys d) q \<noteq> None \<and> proc_release q (ed_sys d) \<noteq> None"
    using sys_inv_handle [OF inv, of q] by (auto simp: enclave_release_def ctrl_release_def proc_release_def enclave_put_def)
  moreover have "in_table (ed_sys d) q \<longrightarrow> dev_console_release q d \<noteq> None"
    using sys_invD(2) [OF inv, of _ q] by (fastforce simp: in_table_def dev_console_release_def cons_console_release_def)
  moreover note sys_invD(2) [OF inv, unfolded l] sys_inv_unique [OF inv, unfolded l]
  ultimately show ?thesis by blast
qed

section \<open>The console file does not\<close>

text \<open>A run of the module: an enclave is created, opened and launched, its console is connected and its device released.\<close>

definition demo_dev_env :: dev_env where
  "demo_dev_env = \<lparr>dv_launch = demo_launch_env, dv_ctrl = Launch.demo_ctrl, dv_pci = (\<lambda>_. demo_pci_env), dv_fd = 3\<rparr>"

definition demo_dev :: enclave_dev where
  "demo_dev = \<lparr>ed_sys = sys_init, ed_area = (\<lambda>_. demo_area), ed_boot = demo_boot_state, ed_events = []\<rparr>"

lemma demo_dev_launched:
  "\<exists>d. dev_reach (d, (\<lambda>_. 0)(100 := 1), \<lambda>_. 0) \<and> in_table (ed_sys d) 100 \<and> pc_connected (ba_cons (ed_area d 100)) = 0 \<and>
     (\<exists>e. en_heap (ed_sys d) 100 = Some e \<and> en_lcall_thread e \<and> pci_dev_list (en_pci_state e) = [])"
proof -
  obtain s e where s: "pisces_enclave_create sys_init (demo_env 100) = Some (int 0, s)" "enclave_map s ! 0 = Some 100"
    and e: "en_heap s 100 = Some e" "pci_dev_list (en_pci_state e) = []" using demo_create by blast
  let ?d = "demo_dev\<lparr>ed_sys := s\<rparr>" and ?b = "\<lparr>be_base_addr = 0x80000000, be_block_size = 0x8000000, be_num_blocks = 1, be_cpu_id = 1\<rparr>"
  have "dev_step (demo_dev, \<lambda>_. 0, \<lambda>_. 0) (?d, \<lambda>_. 0, \<lambda>_. 0)"
    by (rule dev_create [of _ "demo_env 100"]) (use s(1) in \<open>auto simp: demo_dev_def demo_env_def sys_init_def\<close>)
  then have r: "dev_reach (?d, \<lambda>_. 0, \<lambda>_. 0)" by (rule dev_next [rotated]) (simp add: dev_start demo_dev_def)
  have t: "in_table s 100" using s(2) sys_invD(1) [OF dev_inv [OF r]] by (auto simp: in_table_def MAX_ENCLAVES_def intro: exI [of _ 0])
  let ?e = "e\<lparr>en_refcount := en_refcount e + 1\<rparr>"
  define d1 where "d1 = demo_dev\<lparr>ed_sys := s\<lparr>en_heap := (en_heap s)(100 \<mapsto> ?e)\<rparr>\<rparr>"
  have "dev_step (?d, \<lambda>_. 0, \<lambda>_. 0) (d1, (\<lambda>_. 0)(100 := 1), \<lambda>_. 0)"
    using dev_open [of ?d 100 "ed_sys d1" "\<lambda>_. 0"] t e by (simp add: enclave_open_def enclave_get_def d1_def)
  with r have r1: "dev_reach (d1, (\<lambda>_. 0)(100 := 1), \<lambda>_. 0)" by (rule dev_next)
  obtain e1 where e1: "launch_resources ?e ?b = Some e1"
    by (simp add: launch_resources_def pisces_enclave_add_mem_def Let_def)
  note k = launch_resources_keeps [OF e1]
  obtain z where z: "run_launch demo_launch_env (dev_launch d1 100 e1) = Some (0, z)"
    using demo_launch_run [of "dev_launch d1 100 e1"] demo_boot_ready k
    by (auto simp: dev_launch_def d1_def demo_dev_def demo_boot_state_def)
  have io: "enclave_ioctl demo_dev_env PISCES_ENCLAVE_LAUNCH (Some ?b) 100 d1 = Some (0, [], dev_store d1 100 z)"
    using z e1 by (simp add: enclave_ioctl_def d1_def demo_dev_env_def)
  from dev_next [OF r1 dev_ioctl [OF _ io]] have "dev_reach (dev_store d1 100 z, (\<lambda>_. 0)(100 := 1), \<lambda>_. 0)"
    by (simp add: fun_upd_idem)
  then show ?thesis using launch_brings_up [OF z] run_launch_keeps(6) [OF z] k(5) e(2) t
    by (intro exI [of _ "dev_store d1 100 z"]) (simp add: dev_store_def d1_def dev_launch_def in_table_def)
qed

theorem enclave_files_live_witness:
  "\<exists>d. en_heap (ed_sys d) 100 \<noteq> None \<and> proc_release 100 (ed_sys d) \<noteq> None \<and> dev_console_release 100 d \<noteq> None"
proof -
  obtain d where d: "dev_reach (d, (\<lambda>_. 0)(100 := 1), \<lambda>_. 0)" "in_table (ed_sys d) 100" using demo_dev_launched by blast
  from enclave_files_live [OF d(1), of 0 0 100] d(2) show ?thesis by auto
qed

text \<open>
  C14: The file of the console takes no reference. When the enclave is freed while such a file is open and
  no other file is, the run goes on, the structure is gone, and closing the console file uses freed
  memory.
\<close>

theorem console_file_dangles:
  assumes "dev_reach (d, h, c)" and "in_table (ed_sys d) p" and "h p = 0" and "0 < c p"
    and "pisces_enclave_free (ed_sys d) p = Some (r, ev, s)"
  shows "dev_reach (d\<lparr>ed_sys := s\<rparr>, h, c) \<and> en_heap s p = None \<and> dev_console_release p (d\<lparr>ed_sys := s\<rparr>) = None"
proof -
  obtain i where i: "enclave_map (ed_sys d) ! i = Some p" "i < length (enclave_map (ed_sys d))"
    using assms(2) by (auto simp: in_table_def)
  have "en_heap s p = None" using free_inv(3) [OF dev_inv [OF assms(1)] i assms(5,3)] .
  moreover have "dev_reach (d\<lparr>ed_sys := s\<rparr>, h, c)" using dev_next [OF assms(1) dev_free [OF assms(2,5)]] .
  ultimately show ?thesis by (simp add: dev_console_release_def)
qed

theorem console_file_dangles_witness:
  "\<exists>d c. dev_reach (d, \<lambda>_. 0, c) \<and> 0 < c 100 \<and> dev_console_release 100 d = None"
proof -
  obtain d e where d: "dev_reach (d, (\<lambda>_. 0)(100 := 1), \<lambda>_. 0)" "in_table (ed_sys d) 100" "pc_connected (ba_cons (ed_area d 100)) = 0"
    and e: "en_heap (ed_sys d) 100 = Some e" "en_lcall_thread e" "pci_dev_list (en_pci_state e) = []"
    using demo_dev_launched by blast
  define d1 where "d1 = set_cons d 100 ((ba_cons (ed_area d 100))\<lparr>pc_connected := 1\<rparr>)"
  have "enclave_ioctl demo_dev_env PISCES_ENCLAVE_CONS_CONNECT None 100 d = Some (3, [], d1)"
    using d(3) e by (simp add: enclave_ioctl_def pisces_cons_connect_def demo_dev_env_def d1_def)
  from dev_next [OF d(1) dev_ioctl [OF _ this]] have r1: "dev_reach (d1, (\<lambda>_. 0)(100 := 1), (\<lambda>_. 0)(100 := 1))" by simp
  have rc: "en_refcount e = 2" using sys_invD(4) [OF dev_inv [OF d(1)] e(1)] d(2) by (simp add: ref_ok_def)
  let ?s = "(ed_sys d)\<lparr>en_heap := (en_heap (ed_sys d))(100 \<mapsto> e\<lparr>en_refcount := 1\<rparr>)\<rparr>"
  have "enclave_release (ed_sys d1) 100 = Some ?s"
    using e rc by (simp add: enclave_release_def enclave_put_def d1_def)
  from dev_next [OF r1 dev_release [OF _ this]] have r2: "dev_reach (d1\<lparr>ed_sys := ?s\<rparr>, \<lambda>_. 0, (\<lambda>_. 0)(100 := 1))"
    by (simp add: fun_upd_idem)
  obtain ev s where f: "pisces_enclave_free ?s 100 = Some (0, ev, s)"
    using e by (simp add: pisces_enclave_free_def free_enclave_index_def enclave_put_def deinit_enclave_pci_def Let_def)
  from console_file_dangles [OF r2, of 100 0 ev s] f d(2)
  show ?thesis by (intro exI [of _ "d1\<lparr>ed_sys := s\<rparr>"] exI [of _ "(\<lambda>_. 0)(100 := 1)"]) simp
qed

text \<open>
  A launch, also one inside a reset, marks the console as not connected: the next connection is granted
  although the file of an earlier one may still be open.
\<close>

theorem relaunch_grants_console:
  assumes "run_launch env z = Some (0, z')"
  shows "pisces_cons_connect fd (ba_cons (lz_area z')) = (fd, (ba_cons (lz_area z'))\<lparr>pc_connected := 1\<rparr>)"
  using launch_brings_up(2) [OF assms] by (simp add: pisces_cons_connect_def)

text \<open>A request that the device does not know is answered with 0 and does nothing.\<close>

theorem enclave_ioctl_unknown:
  assumes "ioctl \<notin> {PISCES_ENCLAVE_LAUNCH, PISCES_ENCLAVE_RESET, PISCES_ENCLAVE_CONS_CONNECT, PISCES_ENCLAVE_CTRL_CONNECT}"
    and "en_heap (ed_sys d) p = Some e"
  shows "enclave_ioctl env ioctl arg p d = Some (0, [], d)"
  using assms by (simp add: enclave_ioctl_def)

end
