(* ===== verification/Xpmem.thy ===== *)
theory Xpmem
  imports Lcall
begin

text \<open>
  The XPMEM channel (\<open>pisces_xpmem.c\<close>), in the build with XPMEM: commands of the enclave, which arrive as
  long calls and are delivered to the XPMEM module, commands of the XPMEM module, which are sent to the
  enclave, signals, and bringing the channel up and down. The XPMEM module is not part of the
  repository: what its functions answer is a parameter.

  Shown: a command is answered exactly once and delivered unchanged exactly when XPMEM knows the link,
  after its answer, with the reference to the link taken and given back; every other long call is
  handled as without XPMEM. The channel gives its descriptor back when XPMEM ends the connection, and
  loses it when the connection could not be made.
\<close>

section \<open>Commands\<close>

record pisces_xpmem =
  xp_enclave :: nat
  xp_xbuf_desc :: "pisces_xbuf_desc option"
  xp_link :: int

text \<open>
  What XPMEM answers: the data of a link, the size of a command, the vector in a signal, the link of a
  new connection, and whether ending a connection calls \<open>xpmem_kill_fn\<close>.
\<close>

record xpmem_env =
  xe_link_data :: "int \<Rightarrow> pisces_xpmem option"
  xe_cmd_size :: nat
  xe_vector :: "u64 \<Rightarrow> u32"
  xe_add_connection :: int
  xe_kills :: "int \<Rightarrow> bool"

datatype xpmem_event = GetLink int | XAnswer u64 | Deliver int bytes | PutLink int

definition pisces_xpmem_cmd_lcall :: "xpmem_env \<Rightarrow> pisces_xpmem \<Rightarrow> bytes \<Rightarrow> (int \<times> xpmem_event list) option" where
  "pisces_xpmem_cmd_lcall env xpmem lcall =
     (case xe_link_data env (xp_link xpmem) of
        None \<Rightarrow> Some (0, [GetLink (xp_link xpmem), XAnswer (-1)])
      | Some x \<Rightarrow>
        if 12 + xe_cmd_size env \<le> length lcall
        then let cmd = take (xe_cmd_size env) (drop 12 lcall) in
          Some (0, [GetLink (xp_link xpmem), XAnswer 0, Deliver (xp_link x) cmd, PutLink (xp_link x)])
        else None)"

definition xpmem_cmd_fn ::
    "(pisces_xbuf_desc \<Rightarrow> bytes \<Rightarrow> int \<times> bytes option) \<Rightarrow> pisces_xpmem \<Rightarrow> bytes \<Rightarrow> int" where
  "xpmem_cmd_fn sync_send xpmem cmd = pisces_xbuf_send sync_send (xp_xbuf_desc xpmem) cmd"

definition xpmem_segid_fn :: "xpmem_env \<Rightarrow> (u32 \<Rightarrow> u32) \<Rightarrow> u32 \<Rightarrow> u64 \<Rightarrow> int \<times> u32 \<times> u32" where
  "xpmem_segid_fn env apicid boot_cpu sigid = (0, pisces_send_enclave_ipi apicid boot_cpu (xe_vector env sigid))"

definition xpmem_kill_fn :: "pisces_xpmem \<Rightarrow> nat set \<Rightarrow> nat set option" where
  "xpmem_kill_fn xpmem heap = pisces_xbuf_client_deinit (xp_xbuf_desc xpmem) heap"

section \<open>Up and down\<close>

definition pisces_xpmem_init ::
    "xpmem_env \<Rightarrow> nat option \<Rightarrow> nat \<Rightarrow> pisces_xbuf \<Rightarrow> nat set \<Rightarrow> int \<times> pisces_xpmem \<times> pisces_xbuf \<times> nat set" where
  "pisces_xpmem_init env kmalloc enclave x heap =
     (let xpmem = \<lparr>xp_enclave = enclave, xp_xbuf_desc = None, xp_link = 0\<rparr>;
          (desc, x1) = pisces_xbuf_client_init kmalloc enclave x 0 0;
          heap1 = heap \<union> set_option kmalloc;
          xpmem1 = xpmem\<lparr>xp_xbuf_desc := desc\<rparr>
      in case desc of
           None \<Rightarrow> (-1, xpmem1, x1, heap1)
         | Some d \<Rightarrow> (let xpmem2 = xpmem1\<lparr>xp_link := xe_add_connection env\<rparr> in
             if xp_link xpmem2 \<le> 0 then (-1, xpmem2, x1, heap1) else (0, xpmem2, x1, heap1)))"

definition pisces_xpmem_deinit :: "xpmem_env \<Rightarrow> pisces_xpmem \<Rightarrow> nat set \<Rightarrow> (int \<times> nat set) option" where
  "pisces_xpmem_deinit env xpmem heap = do {
     heap1 \<leftarrow> (if xe_kills env (xp_link xpmem) then xpmem_kill_fn xpmem heap else Some heap);
     Some (0, heap1)
   }"

section \<open>The long calls of this build\<close>

abbreviation PISCES_LCALL_XPMEM_CMD_EX :: nat where "PISCES_LCALL_XPMEM_CMD_EX \<equiv> 20200"

datatype lcall_result = PlainCall "lcall_world \<times> lcall_event list" | XpmemCall "xpmem_event list"

definition lcall_switch_xpmem ::
    "xpmem_env \<Rightarrow> pisces_xpmem \<Rightarrow> lcall_env \<Rightarrow> lcall_world \<Rightarrow> bytes \<Rightarrow> lcall_result option" where
  "lcall_switch_xpmem xenv xpmem env w bs = do {
     num \<leftarrow> field bs 0 8;
     if num = PISCES_LCALL_XPMEM_CMD_EX
     then do { (r, evs) \<leftarrow> pisces_xpmem_cmd_lcall xenv xpmem bs; Some (XpmemCall evs) }
     else map_option PlainCall (lcall_switch env w bs)
   }"

definition xanswers :: "xpmem_event list \<Rightarrow> u64 list" where
  "xanswers evs = concat (map (\<lambda>e. case e of XAnswer s \<Rightarrow> [s] | _ \<Rightarrow> []) evs)"

definition delivered :: "xpmem_event list \<Rightarrow> (int \<times> bytes) list" where
  "delivered evs = concat (map (\<lambda>e. case e of Deliver l c \<Rightarrow> [(l, c)] | _ \<Rightarrow> []) evs)"

text \<open>References to links taken and not given back.\<close>

definition links_held :: "xpmem_event list \<Rightarrow> int \<Rightarrow> int" where
  "links_held evs l = int (count_list evs (GetLink l)) - int (count_list evs (PutLink l))"

lemma field_msg: "field (le 8 n @ bs) 0 8 = Some (n mod 2 ^ 64)"
  by (simp add: field_def of_le_le)

text \<open>
  A request that carries a command of the right size is answered exactly once. When XPMEM knows the
  link, the answer is 0, the command is delivered once, unchanged and after the answer, and the
  reference on the link is given back (the data that XPMEM keeps for a link names that link); when it
  does not, the answer is -1 and nothing is delivered.
\<close>

theorem xpmem_command_delivered:
  assumes "length cmd = xe_cmd_size xenv"
    and "\<And>x. xe_link_data xenv (xp_link xpmem) = Some x \<Longrightarrow> xp_link x = xp_link xpmem"
    and "length rest = 4"
  shows "\<exists>evs. lcall_switch_xpmem xenv xpmem env w (le 8 PISCES_LCALL_XPMEM_CMD_EX @ rest @ cmd) = Some (XpmemCall evs) \<and>
    (if xe_link_data xenv (xp_link xpmem) = None
     then xanswers evs = [-1] \<and> delivered evs = []
     else xanswers evs = [0] \<and> delivered evs = [(xp_link xpmem, cmd)] \<and> links_held evs l = 0 \<and>
       (\<exists>a b. evs = a @ b \<and> xanswers a = [0] \<and> delivered a = []))"
proof (cases "xe_link_data xenv (xp_link xpmem)")
  case None
  then show ?thesis using field_msg [of PISCES_LCALL_XPMEM_CMD_EX "rest @ cmd"]
    by (simp add: lcall_switch_xpmem_def pisces_xpmem_cmd_lcall_def xanswers_def delivered_def)
next
  case (Some x)
  let ?l = "xp_link xpmem"
  have x: "xp_link x = ?l" by (rule assms(2) [OF Some])
  have c: "pisces_xpmem_cmd_lcall xenv xpmem (le 8 PISCES_LCALL_XPMEM_CMD_EX @ rest @ cmd) =
      Some (0, [GetLink ?l, XAnswer 0] @ [Deliver ?l cmd, PutLink ?l])"
    using Some assms(1, 3) x by (simp add: pisces_xpmem_cmd_lcall_def)
  have r: "lcall_switch_xpmem xenv xpmem env w (le 8 PISCES_LCALL_XPMEM_CMD_EX @ rest @ cmd) =
      Some (XpmemCall ([GetLink ?l, XAnswer 0] @ [Deliver ?l cmd, PutLink ?l]))"
    using field_msg [of PISCES_LCALL_XPMEM_CMD_EX "rest @ cmd"] by (simp add: lcall_switch_xpmem_def c)
  have a: "xanswers [GetLink ?l, XAnswer 0] = [0]" "delivered [GetLink ?l, XAnswer 0] = []"
    by (simp_all add: xanswers_def delivered_def)
  have "xanswers ([GetLink ?l, XAnswer 0] @ [Deliver ?l cmd, PutLink ?l]) = [0]"
    "delivered ([GetLink ?l, XAnswer 0] @ [Deliver ?l cmd, PutLink ?l]) = [(?l, cmd)]"
    "links_held ([GetLink ?l, XAnswer 0] @ [Deliver ?l cmd, PutLink ?l]) l = 0"
    by (simp_all add: xanswers_def delivered_def links_held_def)
  moreover have "\<exists>b' b. [GetLink ?l, XAnswer 0] @ [Deliver ?l cmd, PutLink ?l] = b' @ b \<and> xanswers b' = [0] \<and> delivered b' = []"
    using a by blast
  ultimately show ?thesis using r Some by (simp del: append.simps)
qed

text \<open>Every other call is handled as in the build without XPMEM.\<close>

theorem xpmem_build_same_calls:
  assumes "field bs 0 8 \<noteq> Some PISCES_LCALL_XPMEM_CMD_EX"
  shows "lcall_switch_xpmem xenv xpmem env w bs = map_option PlainCall (lcall_switch env w bs)"
  using assms by (cases "field bs 0 8") (simp_all add: lcall_switch_xpmem_def lcall_switch_def)

text \<open>
  Bringing the channel up gives a descriptor and a link, and a command of XPMEM then goes to the enclave
  over it; ending the connection gives the descriptor back. When XPMEM makes no connection the
  descriptor stays allocated, and taking the channel down does not free it unless XPMEM calls back on
  the link that it did not make.
\<close>

theorem xpmem_channel_up_down:
  assumes "a \<notin> heap" and "pisces_xpmem_init env (Some a) enclave x heap = (r, xpmem, x', heap')"
  shows "(r = 0 \<longleftrightarrow> 0 < xe_add_connection env) \<and>
    (\<exists>d. xp_xbuf_desc xpmem = Some d \<and> xd_addr d = a \<and> xpmem_cmd_fn sync xpmem cmd = fst (sync d cmd)) \<and>
    pisces_xpmem_deinit env xpmem heap' =
      Some (0, if xe_kills env (xe_add_connection env) then heap else insert a heap)"
  using assms
  by (auto simp: pisces_xpmem_init_def pisces_xbuf_client_init_def pisces_xpmem_deinit_def xpmem_kill_fn_def xpmem_cmd_fn_def
      pisces_xbuf_send_def pisces_xbuf_client_deinit_def Let_def split: if_splits prod.splits)

end
