(* ===== verification/UsrLib.thy ===== *)
theory UsrLib
  imports Ctrl
begin

text \<open>
  The user-space library (\<open>linux_usr/pisces.c\<close>, \<open>linux_usr/pisces_ctrl.c\<close>, \<open>linux_usr/pisces.h\<close>): it
  takes CPUs and memory blocks away from Linux with the petlib library and hands them to an enclave
  with requests to the module.

  Petlib and the requests are parameters: a record of what the calls return. A run yields a result
  and the sequence of the calls that had an effect. \<open>cpu_net\<close> and \<open>mem_net\<close> count how often a CPU or a
  block has been taken from Linux in such a sequence and not been given back.

  Shown: a launch that fails gives everything back, one that succeeds keeps exactly what it names to
  the module; added CPUs are kept exactly when the enclave took them, refused memory is lost; a job
  arrives in the enclave as the caller described it; device paths are printed and parsed back.
\<close>

section \<open>Device paths\<close>

definition get_pisces_dev_path :: "int \<Rightarrow> string" where
  "get_pisces_dev_path pisces_id = ''/dev/pisces-enclave'' @ print_int pisces_id"

text \<open>The conversion \<open>%d\<close> of \<open>sscanf\<close>: \<open>None\<close> when there is no number.\<close>

definition scan_int :: "string \<Rightarrow> int option" where
  "scan_int s =
     (let t = dropWhile is_space s; u = (if t \<noteq> [] \<and> (hd t = CHR ''-'' \<or> hd t = CHR ''+'') then tl t else t) in
      if u \<noteq> [] \<and> is_digit (hd u) then Some (atoi s) else None)"

definition get_pisces_id_from_path :: "string \<Rightarrow> int" where
  "get_pisces_id_from_path dev_path =
     (let p = ''/dev/pisces-enclave'' in
      if take (length p) dev_path \<noteq> p then -1
      else case scan_int (drop (length p) dev_path) of None \<Rightarrow> -1 | Some i \<Rightarrow> i)"

section \<open>Petlib, the requests and what a run did\<close>

record mem_block =
  bk_base :: u64
  bk_pages :: u64

datatype uarg = NoArg | Num u64 | Mem bytes

record usr_env =
  pet_block_size :: u64
  pet_offline_contig_blocks :: "int \<Rightarrow> int \<Rightarrow> u64 \<Rightarrow> int \<times> mem_block list"
  pet_offline_block :: "int \<Rightarrow> int"
  pet_offline_blocks :: "int \<Rightarrow> int \<Rightarrow> int \<times> mem_block list"
  pet_num_blocks :: "int \<Rightarrow> int"
  pet_offline_mem_node :: "int \<Rightarrow> int \<times> mem_block list"
  pet_offline_cpus :: "int \<Rightarrow> int \<Rightarrow> int \<times> u64 list"
  pet_offline_cpu :: "u64 \<Rightarrow> int"
  us_malloc :: bool
  us_open :: "string \<Rightarrow> int"
  us_ioctl_path :: "string \<Rightarrow> int \<Rightarrow> uarg \<Rightarrow> int"
  us_ioctl_fd :: "int \<Rightarrow> u32 \<Rightarrow> uarg \<Rightarrow> int"

datatype usr_event =
    OffContig int u64 | OnContig u32 u64 | OffBlock int | OnBlock int | OffBlocks "mem_block list" | OnBlocks "mem_block list"
  | OffCpu u64 | OnCpu u64 | OffPci u32 u32 u32 | OnPci u32 u32 u32
  | IoctlPath string int uarg | IoctlFd int u32 uarg | Close int

text \<open>The addresses of \<open>n\<close> blocks from an address on, and the block with a number.\<close>

definition contig :: "u64 \<Rightarrow> nat \<Rightarrow> u64 \<Rightarrow> u64 list" where
  "contig bs n base = map (\<lambda>k. base + of_nat k * bs) [0..<n]"

definition block_addr :: "u64 \<Rightarrow> int \<Rightarrow> u64" where
  "block_addr bs i = of_int i * bs"

fun mem_taken :: "u64 \<Rightarrow> usr_event \<Rightarrow> u64 list" where
  "mem_taken bs (OffContig n b) = contig bs (nat n) b"
| "mem_taken bs (OffBlock i) = [block_addr bs i]"
| "mem_taken bs (OffBlocks ms) = map bk_base ms"
| "mem_taken bs _ = []"

fun mem_given :: "u64 \<Rightarrow> usr_event \<Rightarrow> u64 list" where
  "mem_given bs (OnContig n b) = contig bs (unat n) b"
| "mem_given bs (OnBlock i) = [block_addr bs i]"
| "mem_given bs (OnBlocks ms) = map bk_base ms"
| "mem_given bs _ = []"

definition mem_net :: "u64 \<Rightarrow> u64 \<Rightarrow> usr_event list \<Rightarrow> int" where
  "mem_net bs a evs = (\<Sum>e\<leftarrow>evs. int (count_list (mem_taken bs e) a) - int (count_list (mem_given bs e) a))"

definition cpu_net :: "u64 \<Rightarrow> usr_event list \<Rightarrow> int" where
  "cpu_net c evs = int (count_list evs (OffCpu c)) - int (count_list evs (OnCpu c))"

section \<open>\<open>pisces.c\<close>\<close>

text \<open>
  The image request: two open files and the command line, cut at 1023 characters. The structure
  comes from \<open>malloc\<close>, so that what is behind a long command line is whatever the memory held:
  \<open>junk\<close> is its last byte.
\<close>

definition image_bytes :: "u8 \<Rightarrow> int \<Rightarrow> int \<Rightarrow> string \<Rightarrow> bytes" where
  "image_bytes junk kern_fd init_fd cmd_line =
     le 4 (unat (of_int kern_fd :: u32)) @ le 4 (unat (of_int init_fd :: u32)) @ char_array 1023 1023 cmd_line @ [junk]"

definition pisces_load :: "usr_env \<Rightarrow> u8 \<Rightarrow> string \<Rightarrow> string \<Rightarrow> string \<Rightarrow> (int \<times> usr_event list) option" where
  "pisces_load u junk kern initrd cmd_line =
     (let kern_fd = us_open u kern; init_fd = us_open u initrd in
      if kern_fd = -1 then Some (-1, [])
      else if init_fd = -1 then Some (-1, [])
      else if \<not> us_malloc u then None
      else let img = Mem (image_bytes junk kern_fd init_fd cmd_line);
               enclave_id = us_ioctl_path u ''/dev/pisces'' 1001 img
           in Some (if enclave_id < 0 then -1 else enclave_id, [IoctlPath ''/dev/pisces'' 1001 img]))"

definition boot_env_bytes :: "u64 \<Rightarrow> u64 \<Rightarrow> u32 \<Rightarrow> u32 \<Rightarrow> bytes" where
  "boot_env_bytes base_addr block_size num_blocks cpu_id =
     le 8 (unat base_addr) @ le 8 (unat block_size) @ le 4 (unat num_blocks) @ le 4 (unat cpu_id)"

abbreviation PISCES_ANY :: int where "PISCES_ANY \<equiv> -1"

text \<open>The memory: \<open>None\<close> inside is the jump to \<open>mem_error\<close>; otherwise the base address and the number of blocks.\<close>

definition launch_mem :: "usr_env \<Rightarrow> int \<Rightarrow> int \<Rightarrow> int \<Rightarrow> ((u64 \<times> u32) option \<times> usr_event list) option" where
  "launch_mem u block_id numa_zone num_blocks =
     (if block_id = PISCES_ANY then
        if \<not> us_malloc u then Some (None, [])
        else let (ret, blocks) = pet_offline_contig_blocks u num_blocks numa_zone (2 ^ 21) in
          if ret < 0 then Some (None, [])
          else (case blocks of
              [] \<Rightarrow> None
            | b # _ \<Rightarrow> Some (Some (bk_base b, of_int num_blocks), [OffContig num_blocks (bk_base b)]))
      else if pet_offline_block u block_id = -1 then Some (None, [])
      else Some (Some (block_addr (pet_block_size u) block_id, 1), [OffBlock block_id]))"

definition launch_cpu :: "usr_env \<Rightarrow> int \<Rightarrow> int \<Rightarrow> (u32 option \<times> usr_event list) option" where
  "launch_cpu u cpu_id numa_zone =
     (if cpu_id = PISCES_ANY then
        let (n, cpus) = pet_offline_cpus u 1 numa_zone in
        if n \<noteq> 1 then Some (None, [])
        else (case cpus of [] \<Rightarrow> None | c # _ \<Rightarrow> Some (Some (ucast c), [OffCpu c]))
      else if pet_offline_cpu u (of_int cpu_id) = -1 then Some (None, [])
      else Some (Some (of_int cpu_id), [OffCpu (of_int cpu_id)]))"

definition pisces_launch :: "usr_env \<Rightarrow> int \<Rightarrow> int \<Rightarrow> int \<Rightarrow> int \<Rightarrow> int \<Rightarrow> (int \<times> usr_event list) option" where
  "pisces_launch u pisces_id cpu_id block_id numa_zone num_blocks =
     (let path = get_pisces_dev_path pisces_id in do {
        (mem, ev1) \<leftarrow> launch_mem u block_id numa_zone num_blocks;
        case mem of
          None \<Rightarrow> Some (-1, ev1)
        | Some (base, n) \<Rightarrow> do {
            (cpu, ev2) \<leftarrow> launch_cpu u cpu_id numa_zone;
            case cpu of
              None \<Rightarrow> Some (-1, ev1 @ ev2 @ [OnContig n base])
            | Some c \<Rightarrow>
                let arg = Mem (boot_env_bytes base (pet_block_size u) n c); req = IoctlPath path 2000 arg in
                if us_ioctl_path u path 2000 arg < 0
                then Some (-1, ev1 @ ev2 @ [req, OnCpu (ucast c), OnContig n base])
                else Some (0, ev1 @ ev2 @ [req])
          }
      })"

definition pisces_get_cons_fd :: "usr_env \<Rightarrow> int \<Rightarrow> int \<times> usr_event list" where
  "pisces_get_cons_fd u pisces_id =
     (let path = get_pisces_dev_path pisces_id in (us_ioctl_path u path 2004 NoArg, [IoctlPath path 2004 NoArg]))"

definition pisces_reset :: "usr_env \<Rightarrow> int \<Rightarrow> int \<times> usr_event list" where
  "pisces_reset u pisces_id =
     (let path = get_pisces_dev_path pisces_id in (0, [IoctlPath path 2001 NoArg]))"

section \<open>\<open>pisces_ctrl.c\<close>\<close>

definition pisces_send_ctrl_cmd :: "usr_env \<Rightarrow> int \<Rightarrow> u32 \<Rightarrow> uarg \<Rightarrow> int \<times> usr_event list" where
  "pisces_send_ctrl_cmd u pisces_id cmd argp =
     (let path = get_pisces_dev_path pisces_id; ctrl_fd = us_ioctl_path u path 2005 NoArg in
      if ctrl_fd < 0 then (-1, [IoctlPath path 2005 NoArg])
      else (us_ioctl_fd u ctrl_fd cmd argp, [IoctlPath path 2005 NoArg, IoctlFd ctrl_fd cmd argp, Close ctrl_fd]))"

definition mem_range_bytes :: "u64 \<Rightarrow> u64 \<Rightarrow> bytes" where
  "mem_range_bytes base_addr pages = le 8 (unat base_addr) @ le 8 (unat pages)"

definition send_block :: "usr_env \<Rightarrow> int \<Rightarrow> mem_block \<Rightarrow> int \<times> usr_event list" where
  "send_block u pisces_id b = pisces_send_ctrl_cmd u pisces_id 101 (Mem (mem_range_bytes (bk_base b) (bk_pages b)))"

definition send_blocks :: "usr_env \<Rightarrow> int \<Rightarrow> mem_block list \<Rightarrow> usr_event list" where
  "send_blocks u pisces_id bs = concat (map (\<lambda>b. snd (send_block u pisces_id b)) bs)"

text \<open>An array that petlib filled with fewer entries than its size is zero behind them.\<close>

definition filled :: "'a \<Rightarrow> int \<Rightarrow> 'a list \<Rightarrow> 'a list" where
  "filled z n xs = take (nat n) (xs @ replicate (nat n) z)"

abbreviation no_block :: mem_block where "no_block \<equiv> \<lparr>bk_base = 0, bk_pages = 0\<rparr>"

definition pisces_add_mem_node :: "usr_env \<Rightarrow> int \<Rightarrow> int \<Rightarrow> int \<times> usr_event list" where
  "pisces_add_mem_node u pisces_id numa_zone =
     (let n = pet_num_blocks u numa_zone; (ret, bs) = pet_offline_mem_node u numa_zone
      in (ret, OffBlocks bs # send_blocks u pisces_id (filled no_block n bs)))"

definition pisces_add_mem :: "usr_env \<Rightarrow> int \<Rightarrow> int \<Rightarrow> int \<Rightarrow> int \<times> usr_event list" where
  "pisces_add_mem u pisces_id num_blocks numa_zone =
     (let (ret, bs) = pet_offline_blocks u num_blocks numa_zone in
      if ret \<noteq> num_blocks then (-1, [OffBlocks bs, OnBlocks (take (nat ret) bs)])
      else (0, OffBlocks bs # send_blocks u pisces_id (filled no_block num_blocks bs)))"

definition pisces_add_mem_explicit :: "usr_env \<Rightarrow> int \<Rightarrow> int \<Rightarrow> int \<times> usr_event list" where
  "pisces_add_mem_explicit u pisces_id block_id =
     (if pet_offline_block u block_id = -1 then (-1, [])
      else let b = \<lparr>bk_base = block_addr (pet_block_size u) block_id, bk_pages = pet_block_size u div 4096\<rparr>;
               (r, ev) = send_block u pisces_id b
           in if r = -1 then (-1, OffBlock block_id # ev @ [OnBlock block_id]) else (0, OffBlock block_id # ev))"

fun add_cpu_loop :: "usr_env \<Rightarrow> int \<Rightarrow> u64 list \<Rightarrow> usr_event list" where
  "add_cpu_loop u pisces_id [] = []"
| "add_cpu_loop u pisces_id (c # cs) =
     (let (r, ev) = pisces_send_ctrl_cmd u pisces_id 100 (Num c)
      in ev @ (if r \<noteq> 0 then [OnCpu c] else []) @ add_cpu_loop u pisces_id cs)"

definition pisces_add_cpus :: "usr_env \<Rightarrow> int \<Rightarrow> int \<Rightarrow> int \<Rightarrow> int \<times> usr_event list" where
  "pisces_add_cpus u pisces_id num_cpus numa_zone =
     (let (ret, cpus) = pet_offline_cpus u num_cpus numa_zone in
      if ret \<noteq> num_cpus then (-1, map OffCpu cpus @ map OnCpu (take (nat ret) cpus))
      else (0, map OffCpu cpus @ add_cpu_loop u pisces_id (filled 0 num_cpus cpus)))"

definition pisces_add_cpu :: "usr_env \<Rightarrow> int \<Rightarrow> u64 \<Rightarrow> int \<times> usr_event list" where
  "pisces_add_cpu u pisces_id cpu_id =
     (if pet_offline_cpu u cpu_id = -1 then (-1, [])
      else let (r, ev) = pisces_send_ctrl_cmd u pisces_id 100 (Num cpu_id)
           in if r \<noteq> 0 then (-1, OffCpu cpu_id # ev @ [OnCpu cpu_id]) else (0, OffCpu cpu_id # ev))"

definition pisces_remove_cpu :: "usr_env \<Rightarrow> int \<Rightarrow> u64 \<Rightarrow> int \<times> usr_event list" where
  "pisces_remove_cpu u pisces_id cpu_id =
     (let (r, ev) = pisces_send_ctrl_cmd u pisces_id 110 (Num cpu_id)
      in if r \<noteq> 0 then (-1, ev) else (0, ev @ [OnCpu cpu_id]))"

text \<open>The job structure: four strings, a word of flag bits, and the numbers.\<close>

record pisces_job =
  jb_name :: string
  jb_exe_path :: string
  jb_argv :: string
  jb_envp :: string
  jb_large_pages :: bool
  jb_smartmap :: bool
  jb_num_ranks :: u8
  jb_cpu_mask :: u64
  jb_heap_size :: u64
  jb_stack_size :: u64

definition job_flags :: "u8 \<Rightarrow> u8 \<Rightarrow> u64" where
  "job_flags use_large_pages use_smartmap = ucast (use_large_pages AND 1) OR push_bit 1 (ucast (use_smartmap AND 1))"

definition job_spec_bytes :: "string \<Rightarrow> string \<Rightarrow> string \<Rightarrow> string \<Rightarrow> u64 \<Rightarrow> u8 \<Rightarrow> u64 \<Rightarrow> u64 \<Rightarrow> u64 \<Rightarrow> bytes" where
  "job_spec_bytes name exe_path argv envp flags num_ranks cpu_mask heap_size stack_size =
     char_array 64 63 name @ char_array 256 255 exe_path @ char_array 256 255 argv @ char_array 256 255 envp @
     le 8 (unat flags) @ [num_ranks] @ le 8 (unat cpu_mask) @ le 8 (unat heap_size) @ le 8 (unat stack_size)"

text \<open>The structure read back, field by field.\<close>

definition job_of_bytes :: "bytes \<Rightarrow> pisces_job" where
  "job_of_bytes bs =
     (let flags = of_nat (of_le (take 8 (drop 832 bs))) :: u64 in
      \<lparr>jb_name = array_str (take 64 bs), jb_exe_path = array_str (take 256 (drop 64 bs)),
       jb_argv = array_str (take 256 (drop 320 bs)), jb_envp = array_str (take 256 (drop 576 bs)),
       jb_large_pages = bit flags 0, jb_smartmap = bit flags 1, jb_num_ranks = bs ! 840,
       jb_cpu_mask = of_nat (of_le (take 8 (drop 841 bs))), jb_heap_size = of_nat (of_le (take 8 (drop 849 bs))),
       jb_stack_size = of_nat (of_le (take 8 (drop 857 bs)))\<rparr>)"

text \<open>A null pointer is \<open>None\<close>.\<close>

definition pisces_run_job ::
    "usr_env \<Rightarrow> int \<Rightarrow> string option \<Rightarrow> string option \<Rightarrow> string option \<Rightarrow> string option \<Rightarrow> u8 \<Rightarrow> u8 \<Rightarrow> u8 \<Rightarrow> u64 \<Rightarrow> u64 \<Rightarrow> u64 \<Rightarrow>
     int \<times> usr_event list" where
  "pisces_run_job u pisces_id name exe_path exe_argv envp use_large_pages use_smartmap num_ranks cpu_mask heap_size stack_size =
     (case (name, exe_path) of
        (Some name, Some exe_path) \<Rightarrow>
          if length name > 63 then (-1, [])
          else if length exe_path > 255 then (-1, [])
          else if (case exe_argv of None \<Rightarrow> False | Some a \<Rightarrow> length a > 255) then (-1, [])
          else if (case envp of None \<Rightarrow> False | Some e \<Rightarrow> length e > 255) then (-1, [])
          else pisces_send_ctrl_cmd u pisces_id 200
            (Mem (job_spec_bytes name exe_path (case_option [] id exe_argv) (case_option [] id envp)
              (job_flags use_large_pages use_smartmap) num_ranks cpu_mask heap_size stack_size))
      | _ \<Rightarrow> (-1, []))"

definition file_pair_bytes :: "string \<Rightarrow> string \<Rightarrow> bytes" where
  "file_pair_bytes lnx_file lwk_file = char_array 128 127 lnx_file @ char_array 128 127 lwk_file"

definition pisces_load_file :: "usr_env \<Rightarrow> int \<Rightarrow> string \<Rightarrow> string \<Rightarrow> int \<times> usr_event list" where
  "pisces_load_file u pisces_id local_file remote_file =
     (if length local_file > 127 \<or> length remote_file > 127 then (-1, [])
      else pisces_send_ctrl_cmd u pisces_id 201 (Mem (file_pair_bytes local_file remote_file)))"

section \<open>Device paths are read back\<close>

lemma dev_path_back:
  assumes "- (2 ^ 31) \<le> i" and "i < 2 ^ 31"
  shows "get_pisces_id_from_path (get_pisces_dev_path i) = i"
proof -
  have a: "atoi (print_int i) = i" using atoi_print_int [of i "[]"] assms by simp
  have "scan_int (print_int i) = Some i"
  proof (cases "i < 0")
    case True
    obtain d where d: "d < 10" "hd (digits 10 1 (nat (- i))) = digit_char d" using hd_digits [of 10 1] by auto
    then have "is_digit (hd (digits 10 1 (nat (- i))))" by simp
    then show ?thesis using True a by (simp add: scan_int_def print_int_def is_space_def Let_def)
  next
    case False
    obtain d where d: "d < 10" "hd (digits 10 1 (nat i)) = digit_char d" using hd_digits [of 10 1] by auto
    then show ?thesis using False a by (simp add: scan_int_def print_int_def dropWhile_nospace Let_def)
  qed
  then show ?thesis by (simp add: get_pisces_id_from_path_def get_pisces_dev_path_def Let_def)
qed

section \<open>What is taken from Linux\<close>

named_theorems net_simps \<open>counting what a run took and gave back\<close>

lemma mem_net_Nil [net_simps]: "mem_net bs a [] = 0"
  by (simp add: mem_net_def)

lemma mem_net_Cons [net_simps]:
  "mem_net bs a (e # evs) = int (count_list (mem_taken bs e) a) - int (count_list (mem_given bs e) a) + mem_net bs a evs"
  by (simp add: mem_net_def)

lemma mem_net_append [net_simps]: "mem_net bs a (xs @ ys) = mem_net bs a xs + mem_net bs a ys"
  by (simp add: mem_net_def)

lemma cpu_net_Nil [net_simps]: "cpu_net c [] = 0"
  by (simp add: cpu_net_def)

lemma cpu_net_Cons [net_simps]:
  "cpu_net c (e # evs) = (if e = OffCpu c then 1 else if e = OnCpu c then -1 else 0) + cpu_net c evs"
  by (simp add: cpu_net_def)

lemma cpu_net_append [net_simps]: "cpu_net c (xs @ ys) = cpu_net c xs + cpu_net c ys"
  by (simp add: cpu_net_def)

lemma cpu_net_map [net_simps]:
  "cpu_net c (map OffCpu cs) = int (count_list cs c)" "cpu_net c (map OnCpu cs) = - int (count_list cs c)"
  by (induction cs) (simp_all add: net_simps)

lemma contig_one [net_simps]: "contig bs (Suc 0) b = [b]"
  by (simp add: contig_def)

text \<open>What a launch holds after each of its two first stages.\<close>

lemma launch_mem_holds:
  assumes "launch_mem u block_id numa_zone num_blocks = Some (mem, ev)" and "0 \<le> num_blocks" and "num_blocks < 2 ^ 31"
  shows "cpu_net c ev = 0 \<and> mem_net (pet_block_size u) a ev =
    (case mem of None \<Rightarrow> 0 | Some (base, n) \<Rightarrow> int (count_list (contig (pet_block_size u) (unat n) base) a))"
proof -
  have n: "unat (of_int num_blocks :: u32) = nat num_blocks"
    using assms(2,3) by (simp add: nat_eq_iff2 unat_of_nat_u32 flip: of_nat_nat)
  show ?thesis using assms(1)
    by (auto simp: launch_mem_def net_simps n split: if_splits prod.splits list.splits)
qed

lemma launch_cpu_holds:
  assumes "launch_cpu u cpu_id numa_zone = Some (cpu, ev)" and "cpu_id = PISCES_ANY \<or> 0 \<le> cpu_id \<and> cpu_id < 2 ^ 31"
    and "\<forall>c \<in> set (snd (pet_offline_cpus u 1 numa_zone)). unat c < 2 ^ 32"
  shows "mem_net bs a ev = 0 \<and>
    (case cpu of None \<Rightarrow> cpu_net d ev = 0 | Some c \<Rightarrow> cpu_net d ev = (if d = ucast c then 1 else 0))"
proof -
  have c: "(ucast (ucast c :: u32) :: u64) = c" if "unat c < 2 ^ 32" for c :: u64
    using that by (simp add: unat_inj_iff unsigned_ucast_eq unsigned_take_bit_eq take_bit_nat_eq_self)
  have i: "(ucast (of_int cpu_id :: u32) :: u64) = of_int cpu_id" if "0 \<le> cpu_id" "cpu_id < 2 ^ 31"
    using that by (simp add: unsigned_of_int take_bit_int_eq_self)
  show ?thesis using assms
    by (auto simp: launch_cpu_def net_simps c i split: if_splits prod.splits list.splits)
qed

lemma launch_accounts:
  assumes run: "pisces_launch u pisces_id cpu_id block_id numa_zone num_blocks = Some (ret, evs)"
    and "0 \<le> num_blocks" and "num_blocks < 2 ^ 31" and cpu: "cpu_id = PISCES_ANY \<or> 0 \<le> cpu_id \<and> cpu_id < 2 ^ 31"
    and pet: "\<forall>c \<in> set (snd (pet_offline_cpus u 1 numa_zone)). unat c < 2 ^ 32"
  shows "ret = -1 \<and> (\<forall>c a. cpu_net c evs = 0 \<and> mem_net (pet_block_size u) a evs = 0) \<or>
    ret = 0 \<and> (\<exists>base n c arg. arg = Mem (boot_env_bytes base (pet_block_size u) n c) \<and>
      last evs = IoctlPath (get_pisces_dev_path pisces_id) 2000 arg \<and> us_ioctl_path u (get_pisces_dev_path pisces_id) 2000 arg \<ge> 0 \<and>
      (\<forall>d. cpu_net d evs = (if d = ucast c then 1 else 0)) \<and>
      (\<forall>a. mem_net (pet_block_size u) a evs = int (count_list (contig (pet_block_size u) (unat n) base) a)))"
proof -
  obtain mem ev1 where m: "launch_mem u block_id numa_zone num_blocks = Some (mem, ev1)"
    using run by (auto simp: pisces_launch_def Let_def split: bind_splits)
  note mh = launch_mem_holds [OF m assms(2,3)]
  show ?thesis
  proof (cases mem)
    case None
    then show ?thesis using run m mh by (auto simp: pisces_launch_def Let_def)
  next
    case (Some bn)
    obtain base n where bn: "bn = (base, n)" by (cases bn)
    obtain c ev2 where l: "launch_cpu u cpu_id numa_zone = Some (c, ev2)"
      using run m Some bn by (auto simp: pisces_launch_def Let_def split: bind_splits)
    note ch = launch_cpu_holds [OF l cpu pet]
    show ?thesis
    proof (cases "ret = 0")
      case True
      then obtain k where "c = Some k" using run m l Some bn by (cases c) (auto simp: pisces_launch_def Let_def)
      then show ?thesis using True run m l Some bn mh ch
        by (intro disjI2 conjI exI [of _ base] exI [of _ n] exI [of _ k] exI)
          (auto simp: pisces_launch_def Let_def net_simps split: if_splits)
    next
      case False
      then show ?thesis using run m l Some bn mh ch
        by (cases c) (auto simp: pisces_launch_def Let_def net_simps split: if_splits)
    qed
  qed
qed

text \<open>
  C10: \<open>pisces_launch\<close> accounts for what it takes from Linux: it returns 0 or -1; when it returns -1, every
  CPU and every memory block it took has been given back; when it returns 0, the module has accepted a
  request that names one CPU and a run of blocks, and these are exactly what is still taken. Petlib
  hands out CPU numbers of 32 bits.
\<close>

theorem usr_launch_accounts:
  assumes run: "pisces_launch u pisces_id cpu_id block_id numa_zone num_blocks = Some (ret, evs)"
    and "0 \<le> num_blocks" and "num_blocks < 2 ^ 31" and cpu: "cpu_id = PISCES_ANY \<or> 0 \<le> cpu_id \<and> cpu_id < 2 ^ 31"
    and pet: "\<forall>c \<in> set (snd (pet_offline_cpus u 1 numa_zone)). unat c < 2 ^ 32"
  shows "ret = -1 \<and> (\<forall>c a. cpu_net c evs = 0 \<and> mem_net (pet_block_size u) a evs = 0) \<or>
    ret = 0 \<and> (\<exists>base n c arg. arg = Mem (boot_env_bytes base (pet_block_size u) n c) \<and>
      last evs = IoctlPath (get_pisces_dev_path pisces_id) 2000 arg \<and> us_ioctl_path u (get_pisces_dev_path pisces_id) 2000 arg \<ge> 0 \<and>
      (\<forall>d. cpu_net d evs = (if d = ucast c then 1 else 0)) \<and>
      (\<forall>a. mem_net (pet_block_size u) a evs = int (count_list (contig (pet_block_size u) (unat n) base) a)))"
  using assms by (rule launch_accounts)

definition demo_usr :: usr_env where
  "demo_usr = \<lparr>pet_block_size = 0x8000000, pet_offline_contig_blocks = (\<lambda>n z al. (0, [\<lparr>bk_base = 0x10000000, bk_pages = 0x8000\<rparr>])),
     pet_offline_block = (\<lambda>b. 0), pet_offline_blocks = (\<lambda>n z. (n, replicate (nat n) \<lparr>bk_base = 0x20000000, bk_pages = 0x8000\<rparr>)),
     pet_num_blocks = (\<lambda>z. 1), pet_offline_mem_node = (\<lambda>z. (1, [\<lparr>bk_base = 0x20000000, bk_pages = 0x8000\<rparr>])),
     pet_offline_cpus = (\<lambda>n z. (n, map of_nat [3..<3 + nat n])), pet_offline_cpu = (\<lambda>c. 0), us_malloc = True,
     us_open = (\<lambda>p. 3), us_ioctl_path = (\<lambda>p c a. if c = 2000 then -1 else 4),
     us_ioctl_fd = (\<lambda>fd c a. if a = Num 3 then 0 else -1)\<rparr>"

theorem usr_launch_accounts_witness:
  "\<exists>evs. pisces_launch demo_usr 0 PISCES_ANY PISCES_ANY PISCES_ANY 2 = Some (-1, evs) \<and> OffCpu 3 \<in> set evs \<and> OffContig 2 0x10000000 \<in> set evs \<and>
     cpu_net 3 evs = 0 \<and> mem_net 0x8000000 0x18000000 evs = 0"
proof -
  obtain evs where r: "pisces_launch demo_usr 0 PISCES_ANY PISCES_ANY PISCES_ANY 2 = Some (-1, evs)"
      "OffCpu 3 \<in> set evs" "OffContig 2 0x10000000 \<in> set evs"
    by (simp add: pisces_launch_def launch_mem_def launch_cpu_def demo_usr_def upt_rec)
  have "pet_block_size demo_usr = 0x8000000" by (simp add: demo_usr_def)
  then show ?thesis using usr_launch_accounts [OF r(1)] r by (auto simp: demo_usr_def upt_rec)
qed

text \<open>The requests of the control channel take nothing and give nothing back.\<close>

lemma send_ctrl_cmd_net [net_simps]:
  "cpu_net c (snd (pisces_send_ctrl_cmd u i cmd arg)) = 0" "mem_net bs a (snd (pisces_send_ctrl_cmd u i cmd arg)) = 0"
  by (simp_all add: pisces_send_ctrl_cmd_def Let_def net_simps)

lemma send_blocks_net [net_simps]: "mem_net bs a (send_blocks u i bl) = 0" "cpu_net c (send_blocks u i bl) = 0"
  by (induction bl) (simp_all add: send_blocks_def send_block_def net_simps)

lemma add_cpu_loop_net:
  "cpu_net d (add_cpu_loop u i cs) =
     - int (count_list (filter (\<lambda>c. fst (pisces_send_ctrl_cmd u i 100 (Num c)) \<noteq> 0) cs) d)"
proof (induction cs)
  case (Cons c cs)
  have "cpu_net d (snd (pisces_send_ctrl_cmd u i 100 (Num c))) = 0" by (simp add: net_simps)
  then show ?case using Cons by (cases "pisces_send_ctrl_cmd u i 100 (Num c)") (auto simp: net_simps)
qed (simp add: net_simps)

lemma count_list_split: "count_list xs d = count_list (filter P xs) d + count_list (filter (\<lambda>x. \<not> P x) xs) d"
  by (induction xs) auto

lemma filled_full [simp]: "length xs = nat n \<Longrightarrow> filled z n xs = xs"
  by (simp add: filled_def)

text \<open>
  Added CPUs are kept exactly when the enclave took them: after \<open>pisces_add_cpus\<close> the CPUs taken from
  Linux are those whose request returned 0, all others are given back, and when petlib found too few
  nothing is taken at all. Petlib returns as many CPUs as it says.
\<close>

theorem usr_add_cpus_accounts:
  assumes pet: "pet_offline_cpus u num_cpus numa_zone = (ret, cpus)" "length cpus = nat ret"
    and run: "pisces_add_cpus u pisces_id num_cpus numa_zone = (r, evs)"
  shows "r = (if ret = num_cpus then 0 else -1) \<and> cpu_net d evs =
    (if ret = num_cpus
     then int (count_list (filter (\<lambda>c. fst (pisces_send_ctrl_cmd u pisces_id 100 (Num c)) = 0) cpus) d) else 0)"
  using assms count_list_split [of cpus d "\<lambda>c. fst (pisces_send_ctrl_cmd u pisces_id 100 (Num c)) = 0"]
  by (auto simp: pisces_add_cpus_def net_simps add_cpu_loop_net split: if_splits)

theorem usr_add_cpus_accounts_witness:
  "\<exists>evs. pisces_add_cpus demo_usr 0 2 0 = (0, evs) \<and> cpu_net 3 evs = 1 \<and> cpu_net 4 evs = 0"
proof -
  obtain evs where r: "pisces_add_cpus demo_usr 0 2 0 = (0, evs)"
    by (simp add: pisces_add_cpus_def demo_usr_def)
  have p: "pet_offline_cpus demo_usr 2 0 = (2, [3, 4])" by (simp add: demo_usr_def upt_rec)
  show ?thesis using usr_add_cpus_accounts [OF p _ r, of 3] usr_add_cpus_accounts [OF p _ r, of 4] r
    by (auto simp: pisces_send_ctrl_cmd_def demo_usr_def)
qed

text \<open>
  Added memory is kept whatever the enclave answers: \<open>pisces_add_mem\<close> takes all blocks from Linux or
  none, and a block the enclave refuses stays with neither. A block named explicitly is given back
  when its request failed.
\<close>

theorem usr_add_mem_accounts:
  assumes pet: "pet_offline_blocks u num_blocks numa_zone = (ret, bl)" "length bl = nat ret"
    and run: "pisces_add_mem u pisces_id num_blocks numa_zone = (r, evs)" "pisces_add_mem_explicit u pisces_id block_id = (r', evs')"
  shows "r = (if ret = num_blocks then 0 else -1) \<and>
    mem_net (pet_block_size u) a evs = (if ret = num_blocks then int (count_list (map bk_base bl) a) else 0) \<and>
    mem_net (pet_block_size u) a evs' = (if r' = 0 \<and> a = block_addr (pet_block_size u) block_id then 1 else 0)"
proof -
  have "mem_net (pet_block_size u) a (snd (send_block u pisces_id b)) = 0" for b by (simp add: send_block_def net_simps)
  then have "mem_net (pet_block_size u) a evs' = (if r' = 0 \<and> a = block_addr (pet_block_size u) block_id then 1 else 0)"
    using run(2) by (auto simp: pisces_add_mem_explicit_def Let_def net_simps split: prod.splits if_splits) (metis snd_conv)+
  then show ?thesis using pet run(1) by (auto simp: pisces_add_mem_def net_simps split: if_splits)
qed

theorem usr_add_mem_accounts_witness:
  "\<exists>evs. pisces_add_mem demo_usr 0 1 0 = (0, evs) \<and> mem_net 0x8000000 0x20000000 evs = 1 \<and>
     (\<forall>c. fst (send_block demo_usr 0 c) = -1)"
proof -
  obtain evs where r: "pisces_add_mem demo_usr 0 1 0 = (0, evs)" by (simp add: pisces_add_mem_def demo_usr_def)
  have p: "pet_offline_blocks demo_usr 1 0 = (1, [\<lparr>bk_base = 0x20000000, bk_pages = 0x8000\<rparr>])" by (simp add: demo_usr_def)
  obtain r' evs' where e: "pisces_add_mem_explicit demo_usr 0 2 = (r', evs')" by fastforce
  show ?thesis using usr_add_mem_accounts [OF p _ r e, of "0x20000000"] r
    by (auto simp: demo_usr_def send_block_def pisces_send_ctrl_cmd_def)
qed

section \<open>Jobs\<close>

lemma job_flags_bits: "bit (job_flags a b) 0 = odd a" "bit (job_flags a b) (Suc 0) = odd b"
  unfolding job_flags_def bit_or_iff bit_push_bit_iff bit_ucast_iff bit_and_iff by (simp_all add: bit_0 bit_1_iff)

lemma length_job_spec: "length (job_spec_bytes n x a e f r m h s) = sizeof_pisces_job_spec"
  by (simp add: job_spec_bytes_def sizeofs)

lemma job_of_job_spec:
  assumes "length n \<le> 63" "length x \<le> 255" "length a \<le> 255" "length e \<le> 255" "CHR 0x00 \<notin> set n \<union> set x \<union> set a \<union> set e"
  shows "job_of_bytes (job_spec_bytes n x a e f r m h s) =
    \<lparr>jb_name = n, jb_exe_path = x, jb_argv = a, jb_envp = e, jb_large_pages = bit f 0, jb_smartmap = bit f 1,
     jb_num_ranks = r, jb_cpu_mask = m, jb_heap_size = h, jb_stack_size = s\<rparr>"
  using assms by (simp add: job_of_bytes_def job_spec_bytes_def Let_def array_str_char_array nth_append)

lemma job_sent:
  assumes run: "pisces_run_job u pisces_id (Some name) (Some exe_path) (Some argv) (Some envp) large smart ranks cpu_mask heap stack = (r, evs)"
    and fits: "length name \<le> 63" "length exe_path \<le> 255" "length argv \<le> 255" "length envp \<le> 255"
    and nonul: "CHR 0x00 \<notin> set name \<union> set exe_path \<union> set argv \<union> set envp"
    and fd: "us_ioctl_path u (get_pisces_dev_path pisces_id) 2005 NoArg = fd" "0 \<le> fd"
  shows "\<exists>bs. r = us_ioctl_fd u fd 200 (Mem bs) \<and>
    evs = [IoctlPath (get_pisces_dev_path pisces_id) 2005 NoArg, IoctlFd fd 200 (Mem bs), Close fd] \<and>
    job_of_bytes bs = \<lparr>jb_name = name, jb_exe_path = exe_path, jb_argv = argv, jb_envp = envp, jb_large_pages = odd large,
      jb_smartmap = odd smart, jb_num_ranks = ranks, jb_cpu_mask = cpu_mask, jb_heap_size = heap, jb_stack_size = stack\<rparr> \<and>
    (\<forall>env s arg resp m. en_state (cs_enclave s) = ENCLAVE_RUNNING \<and> cx_user env (length bs) = Some bs \<and>
       m = cmd_launch_job bs \<and> cx_send env m = (0, Some resp) \<and> 8 \<le> length resp \<longrightarrow>
       parse_cmd m = Some (200, length bs, bs) \<and> (\<exists>status. ctrl_ioctl env 200 arg s = Some (status, [CtrlSend m], s)))"
proof -
  define bs where "bs = job_spec_bytes name exe_path argv envp (job_flags large smart) ranks cpu_mask heap stack"
  have l: "length bs = sizeof_pisces_job_spec" by (simp add: bs_def length_job_spec)
  have "parse_cmd (cmd_launch_job bs) = Some (200, length bs, bs)"
    using l by (simp add: cmd_launch_job_def parse_cmd_eq sizeofs)
  moreover have "\<exists>status. ctrl_ioctl env 200 arg s = Some (status, [CtrlSend (cmd_launch_job bs)], s)"
    if "en_state (cs_enclave s) = ENCLAVE_RUNNING" "cx_user env (length bs) = Some bs"
      "cx_send env (cmd_launch_job bs) = (0, Some resp)" "8 \<le> length resp" for env s arg resp
    using that l by (simp add: ctrl_ioctl_def ioctl_launch_job_def forward_status_def send_status_def resp_status_def)
  moreover have "r = us_ioctl_fd u fd 200 (Mem bs) \<and>
      evs = [IoctlPath (get_pisces_dev_path pisces_id) 2005 NoArg, IoctlFd fd 200 (Mem bs), Close fd]"
    using run fits fd by (simp add: pisces_run_job_def pisces_send_ctrl_cmd_def bs_def)
  ultimately show ?thesis using job_of_job_spec [OF fits nonul] by (intro exI [of _ bs]) (auto simp: bs_def job_flags_bits)
qed

text \<open>
  A job arrives in the enclave as its caller described it: when the strings fit and the control
  channel opens, \<open>pisces_run_job\<close> makes one request and returns its result; the module answers the
  request of a running enclave by sending one message, whose payload is read back as exactly the
  caller's strings, the low bit of each of the two flags, and the numbers.
\<close>

theorem job_reaches_enclave:
  assumes run: "pisces_run_job u pisces_id (Some name) (Some exe_path) (Some argv) (Some envp) large smart ranks cpu_mask heap stack = (r, evs)"
    and fits: "length name \<le> 63" "length exe_path \<le> 255" "length argv \<le> 255" "length envp \<le> 255"
    and nonul: "CHR 0x00 \<notin> set name \<union> set exe_path \<union> set argv \<union> set envp"
    and fd: "us_ioctl_path u (get_pisces_dev_path pisces_id) 2005 NoArg = fd" "0 \<le> fd"
  shows "\<exists>bs. r = us_ioctl_fd u fd 200 (Mem bs) \<and>
    evs = [IoctlPath (get_pisces_dev_path pisces_id) 2005 NoArg, IoctlFd fd 200 (Mem bs), Close fd] \<and>
    job_of_bytes bs = \<lparr>jb_name = name, jb_exe_path = exe_path, jb_argv = argv, jb_envp = envp, jb_large_pages = odd large,
      jb_smartmap = odd smart, jb_num_ranks = ranks, jb_cpu_mask = cpu_mask, jb_heap_size = heap, jb_stack_size = stack\<rparr> \<and>
    (\<forall>env s arg resp m. en_state (cs_enclave s) = ENCLAVE_RUNNING \<and> cx_user env (length bs) = Some bs \<and>
       m = cmd_launch_job bs \<and> cx_send env m = (0, Some resp) \<and> 8 \<le> length resp \<longrightarrow>
       parse_cmd m = Some (200, length bs, bs) \<and> (\<exists>status. ctrl_ioctl env 200 arg s = Some (status, [CtrlSend m], s)))"
  by (rule job_sent [OF assms])

theorem job_reaches_enclave_witness:
  "\<exists>bs r evs. pisces_run_job demo_usr 0 (Some ''sim'') (Some ''/bin/sim'') (Some ''-n 4'') (Some ''A=1'') 1 0 4 15 0x1000 0x2000 = (r, evs) \<and>
     IoctlFd 4 200 (Mem bs) \<in> set evs \<and> jb_argv (job_of_bytes bs) = ''-n 4'' \<and> jb_large_pages (job_of_bytes bs) \<and>
     jb_cpu_mask (job_of_bytes bs) = 15"
proof -
  obtain r evs where run: "pisces_run_job demo_usr 0 (Some ''sim'') (Some ''/bin/sim'') (Some ''-n 4'') (Some ''A=1'') 1 0 4 15 0x1000 0x2000 = (r, evs)"
    by fastforce
  have "us_ioctl_path demo_usr (get_pisces_dev_path 0) 2005 NoArg = 4" by (simp add: demo_usr_def)
  from job_reaches_enclave [OF run _ _ _ _ _ this] run show ?thesis by fastforce
qed

end
