(* ===== verification/Teardown.thy ===== *)
theory Teardown
  imports UsrLib
begin

text \<open>
  Tearing down an enclave from user space (\<open>linux_usr/teardown.c\<close>): the tool learns from the text of the
  enclave's files under \<open>/proc/pisces\<close> (\<open>proc_cpu_show\<close>, \<open>proc_mem_show\<close>, \<open>proc_pci_show\<close> of
  \<open>src/enclave.c\<close>) which CPUs, blocks and devices the enclave has, shuts the enclave down, frees it, and
  gives everything back to Linux.

  The two regular expressions are recognisers of their own, searched for from left to right as
  \<open>regexec\<close> does. A run is \<open>None\<close> when it does not come back normally; an early return is \<open>Inl\<close>.

  Shown: on the files of an enclave whose counters are right, what is given back is exactly what the
  module has recorded.
\<close>

section \<open>The text of the information files\<close>

definition nl :: string where
  "nl = [CHR 0x0A]"

definition print_u32 :: "u32 \<Rightarrow> string" where
  "print_u32 w = print_int (sint w)"

definition proc_cpu_text :: "pisces_enclave \<Rightarrow> string" where
  "proc_cpu_text e =
     (let (n, cpus) = proc_cpu_show e in
      ''Num CPUs: '' @ print_u32 n @ nl @ concat (map (\<lambda>c. (''CPU '' @ print_int (int c)) @ nl) cpus))"

definition mem_line :: "nat \<times> u64 \<times> u64 \<Rightarrow> string" where
  "mem_line = (\<lambda>(i, a, b). print_int (int i) @ '': '' @ print_ptr a @ '' - '' @ print_ptr b)"

definition proc_mem_text :: "pisces_enclave \<Rightarrow> string" where
  "proc_mem_text e =
     (let (n, blocks) = proc_mem_show e in
      ''Num Memory Blocks: '' @ print_u32 n @ nl @ concat (map (\<lambda>b. mem_line b @ nl) blocks))"

text \<open>Bus, slot and function: \<open>%.2x:%.2x.%x\<close>.\<close>

definition bdf_text :: "u32 \<Rightarrow> u32 \<Rightarrow> u32 \<Rightarrow> string" where
  "bdf_text bus dev fn = digits 16 2 (unat bus) @ '':'' @ digits 16 2 (unat dev) @ ''.'' @ digits 16 1 (unat fn)"

definition pci_line :: "string \<times> u32 \<times> u32 \<times> u32 \<Rightarrow> string" where
  "pci_line = (\<lambda>(name, bus, dev, fn). name @ '': '' @ bdf_text bus dev fn)"

definition proc_pci_text :: "pisces_enclave \<Rightarrow> string" where
  "proc_pci_text e =
     (let (n, devs) = proc_pci_show e in
      ''PCI Devices: '' @ print_u32 n @ nl @ concat (map (\<lambda>d. pci_line d @ nl) devs))"

section \<open>The regular expressions\<close>

fun leftmost :: "(string \<Rightarrow> 'a option) \<Rightarrow> string \<Rightarrow> 'a option" where
  "leftmost m [] = m []"
| "leftmost m (c # cs) = (case m (c # cs) of Some x \<Rightarrow> Some x | None \<Rightarrow> leftmost m cs)"

definition hex16 :: "string \<Rightarrow> bool" where
  "hex16 s \<longleftrightarrow> 16 \<le> length s \<and> list_all is_xdigit (take 16 s)"

text \<open>\<open>[0-9]+: (hex16) - (hex16)\<close> at the beginning of a text: the two groups.\<close>

definition mem_regex :: "string \<Rightarrow> (string \<times> string) option" where
  "mem_regex s =
     (let r = dropWhile is_digit s in
      if takeWhile is_digit s \<noteq> [] \<and> take 2 r = '': '' \<and> hex16 (drop 2 r) \<and> take 3 (drop 18 r) = '' - '' \<and> hex16 (drop 21 r)
      then Some (take 16 (drop 2 r), take 16 (drop 21 r)) else None)"

text \<open>
  The address of a device: four digits or none, a colon or none, then two hexadecimal digits, a
  colon, two hexadecimal digits, any character and an octal digit. The longest match counts.
\<close>

definition bdf_body :: "string \<Rightarrow> bool" where
  "bdf_body s \<longleftrightarrow> 7 \<le> length s \<and> is_xdigit (s ! 0) \<and> is_xdigit (s ! 1) \<and> s ! 2 = CHR '':'' \<and> is_xdigit (s ! 3) \<and> is_xdigit (s ! 4) \<and>
     (case dec_val (s ! 6) of None \<Rightarrow> False | Some d \<Rightarrow> d < 8)"

definition bdf_pre :: "nat \<Rightarrow> string \<Rightarrow> bool" where
  "bdf_pre n s \<longleftrightarrow> n \<le> length s \<and> (4 \<le> n \<longrightarrow> list_all is_digit (take 4 s)) \<and> (odd n \<longrightarrow> s ! (n - 1) = CHR '':'')"

definition bdf_regex :: "string \<Rightarrow> string option" where
  "bdf_regex s = (case filter (\<lambda>n. bdf_pre n s \<and> bdf_body (drop n s)) [5, 4, 1, 0] of [] \<Rightarrow> None | n # _ \<Rightarrow> Some (take (n + 7) s))"

text \<open>\<open>(\s*): (bdf)\<close> at the beginning of a text.\<close>

definition pci_regex :: "string \<Rightarrow> (string \<times> string) option" where
  "pci_regex s =
     (let r = dropWhile is_space s in
      if take 2 r = '': '' then map_option (\<lambda>b. (takeWhile is_space s, b)) (bdf_regex (drop 2 r)) else None)"

section \<open>Reading the files\<close>

datatype enclave_resource = CpuRes u32 | MemRes u64 u64 | PciRes string string

text \<open>The header line: the number behind it, as an \<open>unsigned long\<close>, and the rest of the file.\<close>

definition read_header :: "string \<Rightarrow> string \<Rightarrow> (u64 \<times> string) option" where
  "read_header hdr f =
     (case fgets 63 f of None \<Rightarrow> None
      | Some (hdr_str, f') \<Rightarrow>
          if take (length hdr) hdr_str \<noteq> hdr then None else Some (of_int (atoi (drop (length hdr) hdr_str)), f'))"

fun read_entries :: "nat \<Rightarrow> (string \<Rightarrow> (int + enclave_resource) option) \<Rightarrow> nat \<Rightarrow> string \<Rightarrow> enclave_resource list \<Rightarrow>
    (int + enclave_resource list) option" where
  "read_entries w parse 0 f rs = Some (Inr rs)"
| "read_entries w parse (Suc n) f rs =
     (case fgets w f of None \<Rightarrow> Some (Inl (-1))
      | Some (str, f') \<Rightarrow> do {
          r \<leftarrow> parse str;
          case r of Inl e \<Rightarrow> Some (Inl e) | Inr res \<Rightarrow> read_entries w parse n f' (res # rs)
        })"

definition read_file_entries :: "string option \<Rightarrow> string \<Rightarrow> nat \<Rightarrow> (string \<Rightarrow> (int + enclave_resource) option) \<Rightarrow>
    enclave_resource list \<Rightarrow> (int + enclave_resource list) option" where
  "read_file_entries file hdr w parse rs =
     (case file of None \<Rightarrow> Some (Inl (-1))
      | Some f \<Rightarrow> (case read_header hdr f of None \<Rightarrow> Some (Inl (-1))
          | Some (n, f') \<Rightarrow> read_entries w parse (unat n) f' rs))"

text \<open>One entry of each file. A null pointer from \<open>malloc\<close> is written through.\<close>

definition cpu_entry :: "bool \<Rightarrow> string \<Rightarrow> (int + enclave_resource) option" where
  "cpu_entry malloc_ok cpu_str =
     (if take 4 cpu_str \<noteq> ''CPU '' then Some (Inl (-1))
      else if \<not> malloc_ok then None
      else Some (Inr (CpuRes (of_int (atoi (drop 4 cpu_str))))))"

definition mem_entry :: "bool \<Rightarrow> string \<Rightarrow> (int + enclave_resource) option" where
  "mem_entry malloc_ok mem_str =
     (case leftmost mem_regex mem_str of None \<Rightarrow> Some (Inl (-1))
      | Some (start_str, end_str) \<Rightarrow>
          if \<not> malloc_ok then None
          else Some (Inr (MemRes (of_int (strtol 16 start_str)) (of_int (strtol 16 end_str)))))"

text \<open>A name of 128 characters or more is reported and copied all the same.\<close>

definition pci_entry :: "bool \<Rightarrow> string \<Rightarrow> (int + enclave_resource) option" where
  "pci_entry malloc_ok pci_str =
     (case leftmost pci_regex pci_str of None \<Rightarrow> Some (Inl (-1))
      | Some (name_str, bdf_str) \<Rightarrow>
          if length name_str \<ge> 128 \<or> \<not> malloc_ok then None else Some (Inr (PciRes name_str bdf_str)))"

section \<open>Giving back\<close>

record teardown_env = usr_env +
  td_fopen :: "string \<Rightarrow> string option"
  pet_parse_bdf :: "string \<Rightarrow> (u32 \<times> u32 \<times> u32) option"

definition online_blocks :: "u64 \<Rightarrow> u64 \<Rightarrow> u64 \<Rightarrow> usr_event list" where
  "online_blocks bs start_addr end_addr =
     (let num_blks = sint (ucast ((end_addr - start_addr) div bs) :: u32) in
      map (\<lambda>i. OnBlock (sint (ucast (start_addr div bs + of_nat i) :: u32))) [0..<nat num_blks])"

fun online_all :: "teardown_env \<Rightarrow> enclave_resource list \<Rightarrow> (int \<times> usr_event list) option" where
  "online_all u [] = Some (0, [])"
| "online_all u (CpuRes c # rs) = map_option (map_prod id ((#) (OnCpu (ucast c)))) (online_all u rs)"
| "online_all u (MemRes s e # rs) =
     (if pet_block_size u = 0 then None
      else map_option (map_prod id ((@) (online_blocks (pet_block_size u) s e))) (online_all u rs))"
| "online_all u (PciRes n bdf # rs) =
     (case pet_parse_bdf u bdf of None \<Rightarrow> Some (-1, [])
      | Some (bus, dev, fn) \<Rightarrow> map_option (map_prod id ((#) (OnPci bus dev fn))) (online_all u rs))"

section \<open>\<open>pisces_teardown\<close>\<close>

definition proc_path :: "int \<Rightarrow> string \<Rightarrow> string" where
  "proc_path pisces_id file = ''/proc/pisces/enclave-'' @ print_int pisces_id @ file"

definition cached_cpus :: "teardown_env \<Rightarrow> int \<Rightarrow> enclave_resource list \<Rightarrow> (int + enclave_resource list) option" where
  "cached_cpus u pisces_id rs =
     read_file_entries (td_fopen u (proc_path pisces_id ''/cpus'')) ''Num CPUs: '' 31 (cpu_entry (us_malloc u)) rs"

definition cached_mem :: "teardown_env \<Rightarrow> int \<Rightarrow> enclave_resource list \<Rightarrow> (int + enclave_resource list) option" where
  "cached_mem u pisces_id rs =
     read_file_entries (td_fopen u (proc_path pisces_id ''/memory'')) ''Num Memory Blocks: '' 127 (mem_entry (us_malloc u)) rs"

definition cached_pci :: "teardown_env \<Rightarrow> int \<Rightarrow> enclave_resource list \<Rightarrow> (int + enclave_resource list) option" where
  "cached_pci u pisces_id rs =
     read_file_entries (td_fopen u (proc_path pisces_id ''/pci'')) ''PCI Devices: '' 255 (pci_entry (us_malloc u)) rs"

definition cached_resources :: "teardown_env \<Rightarrow> int \<Rightarrow> (int + enclave_resource list) option" where
  "cached_resources u pisces_id = do {
     r1 \<leftarrow> cached_cpus u pisces_id [];
     case r1 of Inl e \<Rightarrow> Some (Inl e) | Inr rs \<Rightarrow> do {
       r2 \<leftarrow> cached_mem u pisces_id rs;
       case r2 of Inl e \<Rightarrow> Some (Inl e) | Inr rs \<Rightarrow> cached_pci u pisces_id rs
     }
   }"

definition pisces_teardown :: "teardown_env \<Rightarrow> int \<Rightarrow> (int \<times> usr_event list) option" where
  "pisces_teardown u pisces_id =
     (let path = get_pisces_dev_path pisces_id; connect = IoctlPath path 2005 NoArg; ctrl_fd = us_ioctl_path u path 2005 NoArg;
          shut = IoctlFd ctrl_fd 900 (Num 0) in do {
        res \<leftarrow> cached_resources u pisces_id;
        case res of Inl e \<Rightarrow> Some (e, [])
        | Inr rs \<Rightarrow>
            if ctrl_fd < 0 then Some (-1, [connect])
            else if us_ioctl_fd u ctrl_fd 900 (Num 0) \<noteq> 0 then Some (-1, [connect, shut])
            else do {
              (ret, evs) \<leftarrow> online_all u rs;
              Some (ret, [connect, shut, Close ctrl_fd, IoctlPath ''/dev/pisces'' 1003 (Num (of_int pisces_id))] @ evs)
            }
      })"

section \<open>Lines\<close>

lemma nl_Cons [simp]: "l @ nl @ rest = l @ CHR 0x0A # rest" "l @ nl = l @ [CHR 0x0A]"
  by (simp_all add: nl_def)

lemma digits_no_char:
  assumes "2 \<le> b" "b \<le> 16"
  shows "CHR 0x0A \<notin> set (digits b w n)" "CHR '':'' \<notin> set (digits b w n)"
  using digits_chars [OF assms(1), of _ w n] assms(2) digit_char_other(4,5) by (metis less_le_trans)+

lemma print_int_line:
  assumes "0 \<le> i" and "i < 2 ^ 31"
  shows "CHR 0x0A \<notin> set (print_int i)" "length (print_int i) \<le> 10"
  using assms digits_no_char [of 10 1 "nat i"] length_digits [of 10 "nat i" 10 1] by (simp_all add: print_int_def)

lemma atoi_line: "0 \<le> i \<Longrightarrow> i < 2 ^ 31 \<Longrightarrow> atoi (print_int i @ nl) = i"
  by (rule atoi_print_int) (simp_all add: nl_def dec_val_def)

lemma u32_int_conv:
  assumes "n < 2 ^ 31"
  shows "sint (of_nat n :: u32) = int n"
  using assms by (simp add: signed_of_nat signed_take_bit_int_eq_self)

lemma read_header_line:
  assumes "CHR 0x0A \<notin> set hdr" and "length hdr \<le> 50" and "n < 2 ^ 31"
  shows "read_header hdr (hdr @ print_u32 (of_nat n) @ nl @ rest) = Some (of_nat n, rest)"
proof -
  have i: "print_u32 (of_nat n) = print_int (int n)" using assms(3) by (simp add: print_u32_def u32_int_conv)
  have "fgets 63 ((hdr @ print_int (int n)) @ CHR 0x0A # rest) = Some ((hdr @ print_int (int n)) @ [CHR 0x0A], rest)"
    using assms print_int_line [of "int n"] by (intro fgets_whole_line) auto
  then show ?thesis using atoi_line [of "int n"] assms(3) by (simp add: read_header_def i nl_def)
qed

text \<open>Lines that the entry parser understands are all read, the last one first in the list.\<close>

lemma read_entries_lines:
  assumes "\<And>x. x \<in> set xs \<Longrightarrow> CHR 0x0A \<notin> set (line x) \<and> length (line x) + 2 \<le> w \<and> parse (line x @ nl) = Some (Inr (g x))"
  shows "read_entries w parse (length xs) (concat (map (\<lambda>x. line x @ nl) xs)) rs = Some (Inr (rev (map g xs) @ rs))"
  using assms
proof (induction xs arbitrary: rs)
  case (Cons x xs)
  have "fgets w (line x @ CHR 0x0A # concat (map (\<lambda>x. line x @ nl) xs)) = Some (line x @ [CHR 0x0A], concat (map (\<lambda>x. line x @ nl) xs))"
    using Cons.prems [of x] by (intro fgets_whole_line) auto
  then show ?case using Cons.prems [of x] Cons.IH Cons.prems by (simp add: nl_def)
qed simp

lemma read_file_lines:
  assumes "CHR 0x0A \<notin> set hdr" and "length hdr \<le> 50" and "length xs < 2 ^ 31" and "n = of_nat (length xs)"
    and "\<And>x. x \<in> set xs \<Longrightarrow> CHR 0x0A \<notin> set (line x) \<and> length (line x) + 2 \<le> w \<and> parse (line x @ nl) = Some (Inr (g x))"
  shows "read_file_entries (Some (hdr @ print_u32 n @ nl @ concat (map (\<lambda>x. line x @ nl) xs))) hdr w parse rs =
    Some (Inr (rev (map g xs) @ rs))"
  using read_header_line [OF assms(1-3)] read_entries_lines [of xs line w parse g, OF assms(5)] assms(3,4)
  by (simp add: read_file_entries_def unat_of_nat_u64)

subsection \<open>The entries\<close>

lemma cpu_entry_line:
  assumes "c < 2 ^ 31"
  shows "cpu_entry True ((''CPU '' @ print_int (int c)) @ nl) = Some (Inr (CpuRes (of_nat c)))"
  using atoi_line [of "int c"] assms by (simp add: cpu_entry_def nl_def)

lemma leftmost_hit: "m s = Some x \<Longrightarrow> leftmost m s = Some x"
  by (cases s) simp_all

lemma hex16_ptr: "hex16 (print_ptr a @ rest)"
  using print_ptr_hex by (auto simp: hex16_def list_all_iff)

lemma mem_entry_line:
  assumes "i < 2 ^ 31" and "unat a < 2 ^ 63" and "unat b < 2 ^ 63"
  shows "mem_entry True (mem_line (i, a, b) @ nl) = Some (Inr (MemRes a b))"
proof -
  have d: "\<forall>c \<in> set (print_int (int i)). is_digit c"
    using dec_read [of 1 i] by (simp add: print_int_def is_digit_def)
  have "is_digit (CHR '':'') = False" by (simp add: is_digit_def dec_val_def)
  then have "takeWhile is_digit (mem_line (i, a, b) @ nl) = print_int (int i)"
    "dropWhile is_digit (mem_line (i, a, b) @ nl) = '': '' @ print_ptr a @ '' - '' @ print_ptr b @ nl"
    using d by (simp_all add: mem_line_def takeWhile_append dropWhile_append)
  moreover have "print_int (int i) \<noteq> []" by (simp add: print_int_def)
  ultimately have "mem_regex (mem_line (i, a, b) @ nl) = Some (print_ptr a, print_ptr b)"
    using hex16_ptr by (simp add: mem_regex_def)
  then show ?thesis
    using strtol_print_ptr [OF assms(2)] strtol_print_ptr [OF assms(3)] by (simp add: mem_entry_def leftmost_hit)
qed

lemma hex_digits_two: "n < 256 \<Longrightarrow> digits 16 2 n = [digit_char (n div 16), digit_char (n mod 16)]"
  by (simp add: digits.simps [of 16 2] digits.simps [of 16 "Suc 0"] less_mult_imp_div_less)

lemma hex_digits_one: "n < 16 \<Longrightarrow> digits 16 1 n = [digit_char n]"
  by (simp add: digits.simps [of 16 "Suc 0"])

lemma bdf_regex_text:
  assumes "unat bus < 256" and "unat dev < 32" and "unat fn < 8"
  shows "bdf_regex (bdf_text bus dev fn @ nl) = Some (bdf_text bus dev fn)"
proof -
  obtain a b c d e where t: "bdf_text bus dev fn = [digit_char a, digit_char b, CHR '':'', digit_char c, digit_char d, CHR ''.'', digit_char e]"
    and l: "a < 16" "b < 16" "c < 16" "d < 16" "e < 8"
  proof
    show "bdf_text bus dev fn = [digit_char (unat bus div 16), digit_char (unat bus mod 16), CHR '':'', digit_char (unat dev div 16),
        digit_char (unat dev mod 16), CHR ''.'', digit_char (unat fn)]"
      using assms hex_digits_one [of "unat fn"] by (simp add: bdf_text_def hex_digits_two)
  qed (use assms in \<open>simp_all add: less_mult_imp_div_less\<close>)
  have "\<not> is_digit (CHR '':'')" by (simp add: is_digit_def dec_val_def)
  then show ?thesis using l by (simp add: bdf_regex_def bdf_pre_def bdf_body_def t nl_def eval_nat_numeral)
qed

lemma pci_regex_line:
  assumes "bdf_regex s = Some b" and "CHR '':'' \<notin> set name"
  shows "\<exists>n. leftmost pci_regex (name @ '': '' @ s) = Some (n, b) \<and> length n \<le> length name"
  using assms(2)
proof (induction name)
  case Nil
  have "pci_regex ('': '' @ s) = Some ([], b)" using assms(1) by (simp add: pci_regex_def is_space_def)
  then show ?case by (simp add: leftmost_hit)
next
  case (Cons c name)
  show ?case
  proof (cases "\<forall>x \<in> set (c # name). is_space x")
    case True
    then have "pci_regex ((c # name) @ '': '' @ s) = Some (c # name, b)"
      using assms(1) by (simp add: pci_regex_def takeWhile_append dropWhile_append is_space_def)
    then show ?thesis by (auto dest: leftmost_hit)
  next
    case False
    then obtain x where x: "x \<in> set (c # name)" "\<not> is_space x" by blast
    then have "dropWhile is_space (c # name) \<noteq> []" by auto
    then obtain d r where r: "dropWhile is_space (c # name) = d # r" by (cases "dropWhile is_space (c # name)") auto
    have e: "dropWhile is_space ((c # name) @ '': '' @ s) = d # r @ '': '' @ s"
      using dropWhile_append1 [of x "c # name" is_space "'': '' @ s"] x r by simp
    have "d \<in> set (c # name)" using r set_dropWhileD [of d is_space "c # name"] by simp
    then have "d \<noteq> CHR '':''" using Cons.prems by auto
    then have "pci_regex ((c # name) @ '': '' @ s) = None" using e by (simp add: pci_regex_def)
    then show ?thesis using Cons by (auto intro: le_SucI)
  qed
qed

lemma pci_entry_line:
  assumes "CHR '':'' \<notin> set name" and "length name \<le> 127" and "unat bus < 256" and "unat dev < 32" and "unat fn < 8"
  shows "\<exists>n. pci_entry True (pci_line (name, bus, dev, fn) @ nl) = Some (Inr (PciRes n (bdf_text bus dev fn)))"
  using pci_regex_line [OF bdf_regex_text [OF assms(3-5)] assms(1)] assms(2) by (auto simp: pci_entry_def pci_line_def)

section \<open>Everything is given back\<close>

text \<open>
  What an enclave must satisfy for its files to describe it: the counters are right, the devices are
  those of one PCI segment with printable names, and every block lies below \<open>2 ^ 63\<close>, is smaller than
  4 GB and covers whole blocks of the size Linux uses.
\<close>

definition block_fits :: "u64 \<Rightarrow> enclave_mem_block \<Rightarrow> bool" where
  "block_fits bs b \<longleftrightarrow> (\<exists>k m. mb_base_addr b = of_nat (k * unat bs) \<and> unat (mb_pages b) * 4096 = m * unat bs \<and>
     m * unat bs < 2 ^ 32 \<and> (k + m) * unat bs < 2 ^ 63 \<and> k + m < 2 ^ 31)"

definition pci_fits :: "pisces_pci_dev \<Rightarrow> bool" where
  "pci_fits d \<longleftrightarrow> CHR '':'' \<notin> set (pd_name d) \<and> CHR 0x0A \<notin> set (pd_name d) \<and> length (pd_name d) \<le> 127 \<and> unat (pd_bus d) < 256"

definition files_fit :: "u64 \<Rightarrow> pisces_enclave \<Rightarrow> bool" where
  "files_fit bs e \<longleftrightarrow> res_ok e \<and> (\<forall>c \<in> en_assigned_cpus e. c < 2 ^ 31) \<and> card (en_assigned_cpus e) < 2 ^ 31 \<and>
     length (en_memdesc_list e) < 2 ^ 31 \<and> (\<forall>b \<in> set (en_memdesc_list e). block_fits bs b) \<and>
     length (pci_dev_list (en_pci_state e)) < 2 ^ 31 \<and>
     pci_dev_cnt (en_pci_state e) = of_nat (length (pci_dev_list (en_pci_state e))) \<and>
     (\<forall>d \<in> set (pci_dev_list (en_pci_state e)). pci_fits d)"

text \<open>The blocks of a descriptor, by address.\<close>

definition blocks_of :: "u64 \<Rightarrow> enclave_mem_block \<Rightarrow> u64 list" where
  "blocks_of bs b = contig bs (unat (mb_pages b) * 4096 div unat bs) (mb_base_addr b)"

definition block_end :: "enclave_mem_block \<Rightarrow> u64" where
  "block_end b = mb_base_addr b + ucast (mb_pages b * 4096)"

lemma block_end_unat:
  assumes "block_fits bs b" and "0 < unat bs"
  shows "\<exists>k m. unat (mb_base_addr b) = k * unat bs \<and> unat (block_end b) = (k + m) * unat bs \<and>
    unat (mb_pages b) * 4096 div unat bs = m \<and> k + m < 2 ^ 31 \<and> (k + m) * unat bs < 2 ^ 63"
proof -
  obtain k m where km: "mb_base_addr b = of_nat (k * unat bs)" "unat (mb_pages b) * 4096 = m * unat bs" "m * unat bs < 2 ^ 32"
    "(k + m) * unat bs < 2 ^ 63" "k + m < 2 ^ 31" using assms(1) by (auto simp: block_fits_def)
  have s: "k * unat bs + m * unat bs < 9223372036854775808" using km(4) by (simp add: add_mult_distrib)
  then have "k * unat bs < 18446744073709551616" by linarith
  then have b: "unat (mb_base_addr b) = k * unat bs" using km(1) by (simp only: unat_of_nat_u64)
  have "unat (mb_pages b * 4096) = m * unat bs"
    using km(2,3) by (simp add: unat_word_ariths)
  then have "unat (ucast (mb_pages b * 4096) :: u64) = m * unat bs" by (simp add: unat_ucast_u32)
  then have "unat (block_end b) = (k + m) * unat bs"
    using b s unfolding block_end_def by (subst unat_add_small) (simp_all add: add_mult_distrib)
  moreover have "unat (mb_pages b) * 4096 div unat bs = m" using km(2) assms(2) by simp
  ultimately show ?thesis using b km(4,5) by blast
qed

text \<open>The blocks Linux gets back for a descriptor are the ones it covers.\<close>

lemma online_blocks_given:
  assumes "block_fits bs b" and "0 < unat bs"
  shows "concat (map (mem_given bs) (online_blocks bs (mb_base_addr b) (block_end b))) = blocks_of bs b"
    "\<forall>e \<in> set (online_blocks bs (mb_base_addr b) (block_end b)). \<exists>i. e = OnBlock i"
proof -
  obtain k m where km: "unat (mb_base_addr b) = k * unat bs" "unat (block_end b) = (k + m) * unat bs"
    "unat (mb_pages b) * 4096 div unat bs = m" "k + m < 2 ^ 31" "(k + m) * unat bs < 2 ^ 63"
    using block_end_unat [OF assms] by blast
  have "unat (block_end b - mb_base_addr b) = m * unat bs"
    using km(1,2) by (subst unat_diff_le) (simp_all add: add_mult_distrib)
  then have "(block_end b - mb_base_addr b) div bs = of_nat m"
    using assms(2) km(4) by (simp add: unat_inj_iff unat_div unat_of_nat_u64)
  moreover have "mb_base_addr b div bs = of_nat k"
    using assms(2) km(1,4) by (simp add: unat_inj_iff unat_div unat_of_nat_u64)
  moreover have "sint (ucast (of_nat n :: u64) :: u32) = int n" if "n < 2 ^ 31" for n
    using that u32_int_conv [of n] by (simp add: unsigned_of_nat take_bit_nat_eq_self)
  ultimately have e: "online_blocks bs (mb_base_addr b) (block_end b) = map (\<lambda>i. OnBlock (int (k + i))) [0..<m]"
    using km(4) by (auto simp: online_blocks_def Let_def simp flip: of_nat_add)
  have u: "(of_nat (unat x) :: u64) = x" for x by simp
  have "mb_base_addr b = of_nat k * bs" using arg_cong [OF km(1), of "\<lambda>n. of_nat n :: u64"] by (simp only: u of_nat_mult)
  then show "concat (map (mem_given bs) (online_blocks bs (mb_base_addr b) (block_end b))) = blocks_of bs b"
    unfolding e using km(3) by (simp add: blocks_of_def contig_def block_addr_def comp_def algebra_simps)
  show "\<forall>e \<in> set (online_blocks bs (mb_base_addr b) (block_end b)). \<exists>i. e = OnBlock i" by (auto simp: e)
qed

text \<open>The resources the tool has cached after reading the three files.\<close>

definition recorded :: "pisces_enclave \<Rightarrow> (pisces_pci_dev \<Rightarrow> string) \<Rightarrow> enclave_resource list" where
  "recorded e nm =
     rev (map (\<lambda>d. PciRes (nm d) (bdf_text (pd_bus d) (PCI_SLOT (pd_devfn d)) (PCI_FUNC (pd_devfn d)))) (pci_dev_list (en_pci_state e))) @
     rev (map (\<lambda>b. MemRes (mb_base_addr b) (block_end b)) (en_memdesc_list e)) @
     rev (map (\<lambda>c. CpuRes (of_nat c)) (sorted_list_of_set (en_assigned_cpus e)))"

lemma read_cpu_file:
  assumes "files_fit bs e"
  shows "read_file_entries (Some (proc_cpu_text e)) ''Num CPUs: '' 31 (cpu_entry True) rs =
    Some (Inr (rev (map (\<lambda>c. CpuRes (of_nat c)) (sorted_list_of_set (en_assigned_cpus e))) @ rs))"
proof -
  have f: "finite (en_assigned_cpus e)" "card (en_assigned_cpus e) < 2 ^ 31" "en_num_cpus e = of_nat (card (en_assigned_cpus e))"
    using assms by (simp_all add: files_fit_def res_ok_def)
  have "CHR 0x0A \<notin> set (''CPU '' @ print_int (int c)) \<and> length (''CPU '' @ print_int (int c)) + 2 \<le> 31 \<and>
      cpu_entry True ((''CPU '' @ print_int (int c)) @ nl) = Some (Inr (CpuRes (of_nat c)))"
    if "c \<in> set (sorted_list_of_set (en_assigned_cpus e))" for c
  proof -
    have "c < 2 ^ 31" using that f(1) assms by (simp add: files_fit_def)
    then show ?thesis using cpu_entry_line [of c] print_int_line [of "int c"] by auto
  qed
  then show ?thesis unfolding proc_cpu_text_def proc_cpu_show_def prod.case Let_def
    by (intro read_file_lines) (use f in auto)
qed

lemma PCI_bounds: "unat (PCI_SLOT w) < 32" "unat (PCI_FUNC w) < 8"
  using word_and_le1 [of "drop_bit 3 w" "0x1f"] word_and_le1 [of w "0x07"]
  by (simp_all add: PCI_SLOT_def PCI_FUNC_def word_le_nat_alt)

lemma read_mem_file:
  assumes "files_fit bs e" and "0 < unat bs"
  shows "read_file_entries (Some (proc_mem_text e)) ''Num Memory Blocks: '' 127 (mem_entry True) rs =
    Some (Inr (rev (map (\<lambda>b. MemRes (mb_base_addr b) (block_end b)) (en_memdesc_list e)) @ rs))"
proof -
  let ?l = "map (\<lambda>(i, b). (i, mb_base_addr b, block_end b)) (enumerate 0 (en_memdesc_list e))"
  have n: "length ?l < 2 ^ 31" "en_memdesc_num e = of_nat (length ?l)" using assms(1) by (simp_all add: files_fit_def res_ok_def)
  have l: "CHR 0x0A \<notin> set (mem_line x) \<and> length (mem_line x) + 2 \<le> 127 \<and>
      mem_entry True (mem_line x @ nl) = Some (Inr ((\<lambda>(i, a, b). MemRes a b) x))" if xl: "x \<in> set ?l" for x
  proof -
    obtain y where y: "y \<in> set (enumerate 0 (en_memdesc_list e))" "x = (case y of (i, b) \<Rightarrow> (i, mb_base_addr b, block_end b))"
      using xl unfolding set_map by blast
    obtain i b where ib: "y = (i, b)" by (cases y)
    then have x: "x = (i, mb_base_addr b, block_end b)" using y(2) by simp
    have i: "i < 2 ^ 31" "b \<in> set (en_memdesc_list e)" using y(1) ib n(1) by (auto simp: in_set_enumerate_eq)
    then have "block_fits bs b" using assms(1) by (simp add: files_fit_def)
    from block_end_unat [OF this assms(2)] obtain k m where "unat (mb_base_addr b) = k * unat bs"
      "unat (block_end b) = k * unat bs + m * unat bs" "k * unat bs + m * unat bs < 9223372036854775808"
      by (auto simp: add_mult_distrib)
    then have "unat (mb_base_addr b) < 2 ^ 63" "unat (block_end b) < 2 ^ 63" by simp_all
    note e = mem_entry_line [OF i(1) this]
    have "CHR 0x0A \<notin> set (print_ptr a)" for a by (simp add: print_ptr_def digits_no_char)
    then show ?thesis using e x i(1) print_int_line [of "int i"] by (simp add: mem_line_def)
  qed
  have "map (\<lambda>(i, a, b). MemRes a b) ?l = map (\<lambda>b. MemRes (mb_base_addr b) (block_end b)) (en_memdesc_list e)"
    by (rule nth_equalityI) (simp_all add: nth_enumerate_eq)
  then show ?thesis
    using read_file_lines [of "''Num Memory Blocks: ''" ?l "en_memdesc_num e" mem_line 127 "mem_entry True", OF _ _ n l]
    by (simp add: proc_mem_text_def proc_mem_show_def block_end_def)
qed

lemma read_pci_file:
  assumes "files_fit bs e"
  shows "\<exists>nm. read_file_entries (Some (proc_pci_text e)) ''PCI Devices: '' 255 (pci_entry True) rs =
    Some (Inr (rev (map (\<lambda>d. PciRes (nm d) (bdf_text (pd_bus d) (PCI_SLOT (pd_devfn d)) (PCI_FUNC (pd_devfn d))))
      (pci_dev_list (en_pci_state e))) @ rs))"
proof -
  let ?ds = "pci_dev_list (en_pci_state e)" and ?t = "\<lambda>d. bdf_text (pd_bus d) (PCI_SLOT (pd_devfn d)) (PCI_FUNC (pd_devfn d))"
  let ?line = "\<lambda>d. pci_line (pd_name d, pd_bus d, PCI_SLOT (pd_devfn d), PCI_FUNC (pd_devfn d))"
  have "\<forall>d \<in> set ?ds. \<exists>n. pci_entry True (?line d @ nl) = Some (Inr (PciRes n (?t d)))"
    using assms by (intro ballI pci_entry_line) (auto simp: files_fit_def pci_fits_def PCI_bounds)
  then obtain nm where nm: "\<And>d. d \<in> set ?ds \<Longrightarrow> pci_entry True (?line d @ nl) = Some (Inr (PciRes (nm d) (?t d)))" by metis
  have l: "CHR 0x0A \<notin> set (?line d) \<and> length (?line d) + 2 \<le> 255" if "d \<in> set ?ds" for d
  proof -
    have d: "pci_fits d" using that assms by (simp add: files_fit_def)
    have "length (digits 16 2 (unat (pd_bus d))) \<le> 2" "length (digits 16 2 (unat (PCI_SLOT (pd_devfn d)))) \<le> 2"
      "length (digits 16 1 (unat (PCI_FUNC (pd_devfn d)))) \<le> 1"
      using d PCI_bounds [of "pd_devfn d"] by (intro length_digits; simp add: pci_fits_def)+
    then show ?thesis using d digits_no_char [of 16] by (auto simp: pci_line_def bdf_text_def pci_fits_def)
  qed
  have "read_file_entries (Some (''PCI Devices: '' @ print_u32 (pci_dev_cnt (en_pci_state e)) @ nl @ concat (map (\<lambda>d. ?line d @ nl) ?ds)))
      ''PCI Devices: '' 255 (pci_entry True) rs = Some (Inr (rev (map (\<lambda>d. PciRes (nm d) (?t d)) ?ds) @ rs))"
    by (rule read_file_lines) (use assms l nm in \<open>auto simp: files_fit_def\<close>)
  then show ?thesis by (auto simp: proc_pci_text_def proc_pci_show_def comp_def)
qed

lemma cached_recorded:
  assumes "files_fit bs e" and "0 < unat bs" and "us_malloc u"
    and "td_fopen u (proc_path i ''/cpus'') = Some (proc_cpu_text e)" "td_fopen u (proc_path i ''/memory'') = Some (proc_mem_text e)"
      "td_fopen u (proc_path i ''/pci'') = Some (proc_pci_text e)"
  shows "\<exists>nm. cached_resources u i = Some (Inr (recorded e nm))"
proof -
  obtain nm where "read_file_entries (Some (proc_pci_text e)) ''PCI Devices: '' 255 (pci_entry True)
      (rev (map (\<lambda>b. MemRes (mb_base_addr b) (block_end b)) (en_memdesc_list e)) @
       rev (map (\<lambda>c. CpuRes (of_nat c)) (sorted_list_of_set (en_assigned_cpus e)))) = Some (Inr (recorded e nm))"
    using read_pci_file [OF assms(1)] unfolding recorded_def by blast
  then show ?thesis using assms(3-6) read_cpu_file [OF assms(1), of "[]"] read_mem_file [OF assms(1,2)]
    by (intro exI [of _ nm]) (simp add: cached_resources_def cached_cpus_def cached_mem_def cached_pci_def)
qed

text \<open>What the calls at the end give back, and that they all run.\<close>

lemma online_all_append:
  assumes "online_all u xs = Some (0, ev)"
  shows "online_all u (xs @ ys) = map_option (map_prod id ((@) ev)) (online_all u ys)"
  using assms
proof (induction xs arbitrary: ev)
  case Nil
  then show ?case by (cases "online_all u ys") auto
next
  case (Cons x xs)
  then show ?case by (cases x; cases "online_all u ys") (auto split: if_splits option.splits prod.splits)
qed

lemma online_cpus: "online_all u (map (\<lambda>c. CpuRes (of_nat c)) cs) = Some (0, map (\<lambda>c. OnCpu (ucast (of_nat c :: u32))) cs)"
  by (induction cs) auto

lemma online_mems:
  assumes "pet_block_size u \<noteq> 0"
  shows "online_all u (map (\<lambda>b. MemRes (mb_base_addr b) (block_end b)) bl) =
    Some (0, concat (map (\<lambda>b. online_blocks (pet_block_size u) (mb_base_addr b) (block_end b)) bl))"
  using assms by (induction bl) auto

lemma online_pcis:
  assumes "\<And>d. d \<in> set ds \<Longrightarrow> pet_parse_bdf u (t d) = Some (f d)"
  shows "online_all u (map (\<lambda>d. PciRes (nm d) (t d)) ds) = Some (0, map (\<lambda>d. case f d of (b, s, n) \<Rightarrow> OnPci b s n) ds)"
  using assms by (induction ds) (auto split: prod.splits)

lemma cpu_net_events: "\<forall>e \<in> set evs. (\<exists>i. e = OnBlock i) \<or> (\<exists>b s f. e = OnPci b s f) \<Longrightarrow> cpu_net c evs = 0"
  by (induction evs) (auto simp: net_simps)

lemma mem_net_events: "\<forall>e \<in> set evs. (\<exists>i. e = OnCpu i) \<or> (\<exists>b s f. e = OnPci b s f) \<Longrightarrow> mem_net bs a evs = 0"
  by (induction evs) (auto simp: net_simps)

lemma mem_net_given: "\<forall>e \<in> set evs. \<exists>i. e = OnBlock i \<Longrightarrow> mem_net bs a evs = - int (count_list (concat (map (mem_given bs) evs)) a)"
  by (induction evs) (auto simp: net_simps)

lemma count_list_concat_rev: "count_list (concat (map f (rev xs))) a = count_list (concat (map f xs)) a"
  by (induction xs) simp_all

lemma mem_net_blocks:
  assumes "\<forall>b \<in> set bl. block_fits bs b" and "0 < unat bs"
  shows "mem_net bs a (concat (map (\<lambda>b. online_blocks bs (mb_base_addr b) (block_end b)) bl)) = - int (count_list (concat (map (blocks_of bs) bl)) a)"
  using assms(1)
proof (induction bl)
  case (Cons b bl)
  then have b: "block_fits bs b" by simp
  show ?case using Cons mem_net_given [OF online_blocks_given(2) [OF b assms(2)]] online_blocks_given(1) [OF b assms(2)]
    by (simp add: net_simps)
qed (simp add: net_simps)

lemma cpu_net_onlined:
  assumes "\<forall>c \<in> set cs. c < 2 ^ 31" and "distinct cs"
  shows "cpu_net d (map (\<lambda>c. OnCpu (ucast (of_nat c :: u32))) cs) = (if unat d \<in> set cs then -1 else 0)"
  using assms
proof (induction cs)
  case (Cons c cs)
  have "unat (ucast (of_nat c :: u32) :: u64) = c" using Cons.prems(1) by (simp add: unat_ucast_u32 unat_of_nat_u32)
  then have "ucast (of_nat c :: u32) = d \<longleftrightarrow> unat d = c" by (auto simp: unat_inj_iff)
  then show ?case using Cons by (auto simp: net_simps)
qed (simp add: net_simps)

lemma teardown_accounts:
  assumes fit: "files_fit (pet_block_size u) e" and "pet_block_size u \<noteq> 0" and "us_malloc u"
    and files: "td_fopen u (proc_path i ''/cpus'') = Some (proc_cpu_text e)" "td_fopen u (proc_path i ''/memory'') = Some (proc_mem_text e)"
      "td_fopen u (proc_path i ''/pci'') = Some (proc_pci_text e)"
    and fd: "us_ioctl_path u (get_pisces_dev_path i) 2005 NoArg = fd" "0 \<le> fd" "us_ioctl_fd u fd 900 (Num 0) = 0"
    and bdf: "\<And>b s f. unat b < 256 \<Longrightarrow> unat s < 32 \<Longrightarrow> unat f < 8 \<Longrightarrow> pet_parse_bdf u (bdf_text b s f) = Some (b, s, f)"
  shows "\<exists>evs. pisces_teardown u i = Some (0, [IoctlPath (get_pisces_dev_path i) 2005 NoArg, IoctlFd fd 900 (Num 0), Close fd,
        IoctlPath ''/dev/pisces'' 1003 (Num (of_int i))] @ evs) \<and>
    (\<forall>c. cpu_net c evs = (if unat c \<in> en_assigned_cpus e then -1 else 0)) \<and>
    (\<forall>a. mem_net (pet_block_size u) a evs = - int (count_list (concat (map (blocks_of (pet_block_size u)) (en_memdesc_list e))) a)) \<and>
    filter (\<lambda>e. \<exists>b s f. e = OnPci b s f) evs =
      rev (map (\<lambda>d. OnPci (pd_bus d) (PCI_SLOT (pd_devfn d)) (PCI_FUNC (pd_devfn d))) (pci_dev_list (en_pci_state e)))"
proof -
  let ?bs = "pet_block_size u" and ?ds = "pci_dev_list (en_pci_state e)"
  have bs: "0 < unat ?bs" using assms(2) by (simp add: unat_eq_zero_iff)
  obtain nm where c: "cached_resources u i = Some (Inr (recorded e nm))" using cached_recorded [OF fit bs assms(3) files] by blast
  define ev1 where "ev1 = map (\<lambda>d. OnPci (pd_bus d) (PCI_SLOT (pd_devfn d)) (PCI_FUNC (pd_devfn d))) (rev ?ds)"
  define ev2 where "ev2 = concat (map (\<lambda>b. online_blocks ?bs (mb_base_addr b) (block_end b)) (rev (en_memdesc_list e)))"
  define ev3 where "ev3 = map (\<lambda>c. OnCpu (ucast (of_nat c :: u32))) (rev (sorted_list_of_set (en_assigned_cpus e)))"
  have p: "pet_parse_bdf u (bdf_text (pd_bus d) (PCI_SLOT (pd_devfn d)) (PCI_FUNC (pd_devfn d))) =
      Some (pd_bus d, PCI_SLOT (pd_devfn d), PCI_FUNC (pd_devfn d))" if "d \<in> set (rev ?ds)" for d
    using fit that by (intro bdf PCI_bounds) (auto simp: files_fit_def pci_fits_def)
  have o1: "online_all u (map (\<lambda>d. PciRes (nm d) (bdf_text (pd_bus d) (PCI_SLOT (pd_devfn d)) (PCI_FUNC (pd_devfn d)))) (rev ?ds)) = Some (0, ev1)"
    using online_pcis [of "rev ?ds" u, OF p] by (simp add: ev1_def)
  have o2: "online_all u (map (\<lambda>b. MemRes (mb_base_addr b) (block_end b)) (rev (en_memdesc_list e))) = Some (0, ev2)"
    using online_mems [OF assms(2)] by (simp add: ev2_def)
  have run: "online_all u (recorded e nm) = Some (0, ev1 @ ev2 @ ev3)"
    unfolding recorded_def rev_map online_all_append [OF o1] online_all_append [OF o2] online_cpus by (simp add: ev3_def)
  have f: "finite (en_assigned_cpus e)" "\<forall>b \<in> set (rev (en_memdesc_list e)). block_fits ?bs b"
    using fit by (simp_all add: files_fit_def res_ok_def)
  have b2: "\<forall>x \<in> set ev2. \<exists>i. x = OnBlock i" using online_blocks_given(2) [OF _ bs] f(2) by (auto simp: ev2_def)
  have "cpu_net c (ev1 @ ev2 @ ev3) = (if unat c \<in> en_assigned_cpus e then -1 else 0)" for c
    using cpu_net_events [of ev1 c] cpu_net_events [of ev2 c] b2 f(1) fit
      cpu_net_onlined [of "rev (sorted_list_of_set (en_assigned_cpus e))" c]
    by (simp add: net_simps ev1_def ev3_def files_fit_def)
  moreover have "mem_net ?bs a (ev1 @ ev2 @ ev3) = - int (count_list (concat (map (blocks_of ?bs) (en_memdesc_list e))) a)" for a
    using mem_net_events [of ev1 ?bs a] mem_net_events [of ev3 ?bs a] mem_net_blocks [OF f(2) bs, of a]
    by (simp add: net_simps ev1_def ev2_def ev3_def count_list_concat_rev)
  moreover have "filter (\<lambda>e. \<exists>b s f. e = OnPci b s f) (ev1 @ ev2 @ ev3) =
      rev (map (\<lambda>d. OnPci (pd_bus d) (PCI_SLOT (pd_devfn d)) (PCI_FUNC (pd_devfn d))) ?ds)"
    using b2 by (auto simp: ev1_def ev3_def rev_map filter_map comp_def filter_empty_conv)
  ultimately show ?thesis using c run fd by (intro exI [of _ "ev1 @ ev2 @ ev3"]) (simp add: pisces_teardown_def)
qed

text \<open>
  C9: Tearing down an enclave gives Linux back exactly what the enclave had: on the information files the
  module prints for an enclave, \<open>pisces_teardown\<close> shuts the enclave down, has it freed, returns 0, and
  puts online every assigned CPU once, every memory block of every recorded range once, and every
  assigned device, and nothing else. It needs the counters of the enclave to be right, ranges of
  less than 4 GB, and that petlib reads device addresses the way the kernel prints them.
\<close>

theorem teardown_gives_back:
  assumes fit: "files_fit (pet_block_size u) e" and "pet_block_size u \<noteq> 0" and "us_malloc u"
    and files: "td_fopen u (proc_path i ''/cpus'') = Some (proc_cpu_text e)" "td_fopen u (proc_path i ''/memory'') = Some (proc_mem_text e)"
      "td_fopen u (proc_path i ''/pci'') = Some (proc_pci_text e)"
    and fd: "us_ioctl_path u (get_pisces_dev_path i) 2005 NoArg = fd" "0 \<le> fd" "us_ioctl_fd u fd 900 (Num 0) = 0"
    and bdf: "\<And>b s f. unat b < 256 \<Longrightarrow> unat s < 32 \<Longrightarrow> unat f < 8 \<Longrightarrow> pet_parse_bdf u (bdf_text b s f) = Some (b, s, f)"
  shows "\<exists>evs. pisces_teardown u i = Some (0, [IoctlPath (get_pisces_dev_path i) 2005 NoArg, IoctlFd fd 900 (Num 0), Close fd,
        IoctlPath ''/dev/pisces'' 1003 (Num (of_int i))] @ evs) \<and>
    (\<forall>c. cpu_net c evs = (if unat c \<in> en_assigned_cpus e then -1 else 0)) \<and>
    (\<forall>a. mem_net (pet_block_size u) a evs = - int (count_list (concat (map (blocks_of (pet_block_size u)) (en_memdesc_list e))) a)) \<and>
    filter (\<lambda>e. \<exists>b s f. e = OnPci b s f) evs =
      rev (map (\<lambda>d. OnPci (pd_bus d) (PCI_SLOT (pd_devfn d)) (PCI_FUNC (pd_devfn d))) (pci_dev_list (en_pci_state e)))"
  using assms by (rule teardown_accounts)

definition demo_torn :: pisces_enclave where
  "demo_torn = zero_enclave\<lparr>en_num_cpus := 2, en_assigned_cpus := {3, 4}, en_memdesc_num := 1,
     en_memdesc_list := [\<lparr>mb_base_addr = 0x10000000, mb_pages = 0x10000\<rparr>]\<rparr>"

definition demo_teardown :: teardown_env where
  "demo_teardown = usr_env.extend (demo_usr\<lparr>us_ioctl_fd := (\<lambda>fd c a. 0)\<rparr>)
     \<lparr>td_fopen = (\<lambda>p. if p = proc_path 0 ''/cpus'' then Some (proc_cpu_text demo_torn)
        else if p = proc_path 0 ''/memory'' then Some (proc_mem_text demo_torn) else Some (proc_pci_text demo_torn)),
      pet_parse_bdf = (\<lambda>s. if length s = 7
        then Some (of_int (strtol 16 (take 2 s)), of_int (strtol 16 (take 2 (drop 3 s))), of_int (strtol 16 (drop 6 s))) else None)\<rparr>"

lemma demo_fits: "files_fit 0x8000000 demo_torn"
proof -
  have "block_fits 0x8000000 \<lparr>mb_base_addr = 0x10000000, mb_pages = 0x10000\<rparr>"
    unfolding block_fits_def by (intro exI [of _ 2]) simp
  then show ?thesis by (simp add: files_fit_def demo_torn_def zero_enclave_def res_ok_def)
qed

lemma parse_hex_two: "n < 256 \<Longrightarrow> strtol 16 (digits 16 2 n) = int n" "n < 16 \<Longrightarrow> strtol 16 (digits 16 1 n) = int n"
  using strtol_digits [of 16 hex_val n "[]" 2] strtol_digits [of 16 hex_val n "[]" 1] by simp_all

lemma demo_parse_bdf:
  assumes "unat b < 256" "unat s < 32" "unat f < 8"
  shows "pet_parse_bdf demo_teardown (bdf_text b s f) = Some (b, s, f)"
  using assms parse_hex_two [of "unat b"] parse_hex_two [of "unat s"] parse_hex_two [of "unat f"] hex_digits_one [of "unat f"]
  by (simp add: demo_teardown_def usr_env.extend_def bdf_text_def hex_digits_two)

theorem teardown_gives_back_witness:
  "\<exists>evs. pisces_teardown demo_teardown 0 = Some (0, evs) \<and> cpu_net 3 evs = -1 \<and> cpu_net 5 evs = 0 \<and>
     mem_net 0x8000000 0x18000000 evs = -1 \<and> mem_net 0x8000000 0x20000000 evs = 0"
proof -
  have d: "pet_block_size demo_teardown = 0x8000000" "us_malloc demo_teardown"
    "td_fopen demo_teardown (proc_path 0 ''/cpus'') = Some (proc_cpu_text demo_torn)"
    "td_fopen demo_teardown (proc_path 0 ''/memory'') = Some (proc_mem_text demo_torn)"
    "td_fopen demo_teardown (proc_path 0 ''/pci'') = Some (proc_pci_text demo_torn)"
    "us_ioctl_path demo_teardown (get_pisces_dev_path 0) 2005 NoArg = 4" "us_ioctl_fd demo_teardown 4 900 (Num 0) = 0"
    by (simp_all add: demo_teardown_def demo_usr_def usr_env.extend_def proc_path_def)
  have n: "count_list (concat (map (blocks_of 0x8000000) (en_memdesc_list demo_torn))) 0x18000000 = 1"
    "count_list (concat (map (blocks_of 0x8000000) (en_memdesc_list demo_torn))) 0x20000000 = 0"
    by (simp_all add: demo_torn_def blocks_of_def contig_def upt_rec)
  have f: "files_fit (pet_block_size demo_teardown) demo_torn" using demo_fits d(1) by simp
  show ?thesis using teardown_gives_back [OF f _ d(2-6) _ d(7) demo_parse_bdf] d(1) n
    by (auto simp: net_simps demo_torn_def zero_enclave_def)
qed

end
