(* ===== verification/GuestImage.thy ===== *)
theory GuestImage
  imports UsrLib
begin

text \<open>
  Guest images of virtual machines (\<open>linux_usr/v3_create.c\<close>): the tool reads a configuration, appends
  the files it names behind the text of the configuration with a table of their positions, writes
  the image to a file and asks the enclave to create a virtual machine from it.

  The XML library is a parameter: the tags of the auxiliary files, and the text of the configuration
  once every tag has got its number. So are the files: their sizes and what a \<open>read\<close> returns. The
  image is a byte array, written at the offsets the code computes; \<open>None\<close> is a write outside of it.

  Shown: an image that fits into an \<open>int\<close> is built without a write outside, and every entry of its
  table leads to the bytes of its file; interrupted reads and writes are resumed.
\<close>

section \<open>Input\<close>

text \<open>An XML element: its attributes and the text of its children, by name.\<close>

record xml_tag =
  tag_attr :: "string \<Rightarrow> string option"
  tag_child :: "string \<Rightarrow> string option"

record img_env =
  ie_tags :: "xml_tag list option"
  ie_toxml :: "string list \<Rightarrow> string"
  ie_stat :: "string \<Rightarrow> nat option"
  ie_open :: "string \<Rightarrow> bool"
  ie_read :: "string \<Rightarrow> nat \<Rightarrow> nat \<Rightarrow> bytes"
  ie_malloc :: bool
  ie_create :: "string \<Rightarrow> bool"
  ie_write :: "nat \<Rightarrow> int"

record file_info =
  fi_size :: int
  fi_filename :: bytes
  fi_id :: bytes

definition MAX_FILES :: nat where
  "MAX_FILES = 256"

text \<open>Arithmetic of \<open>int\<close>.\<close>

definition i32 :: "int \<Rightarrow> int" where
  "i32 x = sint (of_int x :: u32)"

text \<open>
  The value of a tag, an attribute or a child. \<open>Inl\<close> is a call of \<open>exit\<close>; a missing child reads as
  the empty string.
\<close>

definition get_val :: "xml_tag \<Rightarrow> string \<Rightarrow> int + string" where
  "get_val cfg tag =
     (case (tag_attr cfg tag, tag_child cfg tag) of
        (Some a, Some t) \<Rightarrow> Inl (-1)
      | (Some a, None) \<Rightarrow> Inr a
      | (None, Some t) \<Rightarrow> Inr t
      | (None, None) \<Rightarrow> Inr [])"

text \<open>The table of files; an entry beyond its end is written outside of the array.\<close>

fun parse_aux_files :: "img_env \<Rightarrow> xml_tag list \<Rightarrow> file_info list \<Rightarrow> (int + file_info list) option" where
  "parse_aux_files env [] fs = Some (Inr fs)"
| "parse_aux_files env (t # ts) fs =
     (case get_val t ''filename'' of Inl e \<Rightarrow> Some (Inl e)
      | Inr filename \<Rightarrow> (case get_val t ''id'' of Inl e \<Rightarrow> Some (Inl e)
        | Inr ident \<Rightarrow> (case ie_stat env filename of None \<Rightarrow> Some (Inl (-1))
          | Some st_size \<Rightarrow>
              if length fs \<ge> MAX_FILES then None
              else parse_aux_files env ts (fs @ [\<lparr>fi_size = i32 (int st_size), fi_filename = char_array 2048 2048 filename,
                fi_id = char_array 256 256 ident\<rparr>]))))"

section \<open>Reading and writing files\<close>

text \<open>A write into the image at an offset.\<close>

definition put :: "int \<Rightarrow> bytes \<Rightarrow> bytes \<Rightarrow> bytes option" where
  "put offset bs img = (if offset < 0 then None else memcpy img (nat offset) bs 0 (length bs))"

text \<open>
  The loop of \<open>read_file\<close>: \<open>rd p n\<close> is what a read of \<open>n\<close> bytes at position \<open>p\<close> returns, nothing for an
  error or the end of the file. A negative size makes the first read fail.
\<close>

function read_loop :: "(nat \<Rightarrow> nat \<Rightarrow> bytes) \<Rightarrow> nat \<Rightarrow> nat \<Rightarrow> int \<Rightarrow> bytes \<Rightarrow> (int \<times> bytes) option" where
  "read_loop rd have_read left_to_read offset buf =
     (if left_to_read = 0 then Some (0, buf)
      else let chunk = take left_to_read (rd have_read left_to_read) in
        if chunk = [] then Some (-1, buf)
        else (case put (offset + int have_read) chunk buf of None \<Rightarrow> None
          | Some buf' \<Rightarrow> read_loop rd (have_read + length chunk) (left_to_read - length chunk) offset buf'))"
  by pat_completeness auto
termination
  by (relation "measure (\<lambda>(rd, h, l, off, b). l)") (auto simp: min_def)

declare read_loop.simps [simp del]

definition read_file :: "(nat \<Rightarrow> nat \<Rightarrow> bytes) \<Rightarrow> int \<Rightarrow> int \<Rightarrow> bytes \<Rightarrow> (int \<times> bytes) option" where
  "read_file rd sz offset buf = (if sz < 0 then Some (-1, buf) else read_loop rd 0 (nat sz) offset buf)"

text \<open>
  The loop of \<open>write_file\<close>: \<open>wr n\<close> is what a write returns when \<open>n\<close> bytes are left, at most \<open>n\<close>. The
  result is what has reached the file.
\<close>

function write_loop :: "(nat \<Rightarrow> int) \<Rightarrow> nat \<Rightarrow> bytes \<Rightarrow> int \<times> bytes" where
  "write_loop wr left_to_write buf =
     (if left_to_write = 0 then (0, [])
      else let n = min left_to_write (nat (wr left_to_write)) in
        if n = 0 then (-1, [])
        else let (r, out) = write_loop wr (left_to_write - n) (drop n buf) in (r, take n buf @ out))"
  by pat_completeness auto
termination
  by (relation "measure (\<lambda>(wr, l, b). l)") auto

declare write_loop.simps [simp del]

definition write_file :: "(nat \<Rightarrow> int) \<Rightarrow> int \<Rightarrow> bytes \<Rightarrow> int \<times> bytes" where
  "write_file wr sz buf = (if sz < 0 then (-1, []) else write_loop wr (nat sz) buf)"

section \<open>The image\<close>

text \<open>The table of positions, from an offset on.\<close>

fun put_table :: "nat \<Rightarrow> file_info list \<Rightarrow> int \<Rightarrow> u64 \<Rightarrow> bytes \<Rightarrow> (bytes \<times> int) option" where
  "put_table i [] offset file_offset img = Some (img, offset)"
| "put_table i (f # fs) offset file_offset img = do {
     img \<leftarrow> put offset (le 4 i) img;
     img \<leftarrow> put (i32 (offset + 4)) (le 4 (unat (of_int (fi_size f) :: u32))) img;
     img \<leftarrow> put (i32 (offset + 8)) (le 8 (unat file_offset)) img;
     put_table (i + 1) fs (i32 (offset + 16)) (file_offset + of_int (fi_size f)) img
   }"

text \<open>The file name is read up to a null character, through the identifier when it fills its array.\<close>

definition file_name_of :: "file_info \<Rightarrow> string" where
  "file_name_of f = array_str (fi_filename f @ fi_id f)"

fun put_files :: "img_env \<Rightarrow> file_info list \<Rightarrow> int \<Rightarrow> bytes \<Rightarrow> bytes option option" where
  "put_files env [] offset img = Some (Some img)"
| "put_files env (f # fs) offset img =
     (if \<not> ie_open env (file_name_of f) then Some None
      else do {
        (r, img) \<leftarrow> read_file (ie_read env (file_name_of f)) (fi_size f) offset img;
        put_files env fs (i32 (offset + fi_size f)) img
      })"

definition guest_img_size :: "string \<Rightarrow> file_info list \<Rightarrow> int" where
  "guest_img_size xml fs =
     (let file_data_size = foldl (\<lambda>a f. i32 (a + fi_size f)) 0 fs in
      i32 (8 + 4 + int (length xml) + 8 + 8 + int (length fs) * 16 + 8 + file_data_size))"

definition v3vee_mark :: bytes where
  "v3vee_mark = map of_char ''v3vee'' @ [0, 0, 0]"

lemma length_v3vee_mark [simp]: "length v3vee_mark = 8"
  by (simp add: v3vee_mark_def)

text \<open>The beginning of the image, and the offset behind it.\<close>

definition put_header :: "string \<Rightarrow> nat \<Rightarrow> bytes \<Rightarrow> (bytes \<times> int) option" where
  "put_header xml num_files img = do {
     img \<leftarrow> put 0 v3vee_mark img;
     img \<leftarrow> put 8 (le 4 (length xml)) img;
     img \<leftarrow> put 12 (map of_char xml) img;
     let offset = i32 (12 + int (length xml));
     img \<leftarrow> put offset (replicate 8 0) img;
     img \<leftarrow> put (i32 (offset + 8)) (le 8 num_files) img;
     Some (img, i32 (offset + 16))
   }"

text \<open>The data: \<open>Some None\<close> is the early return with a null pointer.\<close>

definition build_data :: "img_env \<Rightarrow> string \<Rightarrow> file_info list \<Rightarrow> bytes option option" where
  "build_data env xml fs =
     (let n = guest_img_size xml fs in
      if n < 0 \<or> \<not> ie_malloc env then None
      else do {
        (img, offset) \<leftarrow> put_header xml (length fs) (replicate (nat n) 0);
        (img, offset) \<leftarrow> put_table 0 fs offset (of_int offset + 16 * of_nat (length fs) + 8) img;
        img \<leftarrow> put offset (replicate 8 0) img;
        put_files env fs (i32 (offset + 8)) img
      })"

text \<open>
  The name of the image: the first \<open>.xml\<close> becomes \<open>.img\<close> and ends the name. Without one the code
  reallocates a string that is no heap block.
\<close>

fun img_name :: "string \<Rightarrow> string option" where
  "img_name [] = None"
| "img_name (c # cs) = (if take 4 (c # cs) = ''.xml'' then Some ''.img'' else map_option ((#) c) (img_name cs))"

text \<open>
  \<open>build_image\<close>: the name of the file and what is in it; \<open>Inl\<close> is a call of \<open>exit\<close>, \<open>Inr None\<close> the null
  pointer. A configuration that cannot be read is an image without files and without text.
\<close>

definition build_image :: "img_env \<Rightarrow> string \<Rightarrow> (int + (string \<times> bytes) option) option" where
  "build_image env filename = do {
     r \<leftarrow> parse_aux_files env (case_option [] id (ie_tags env)) [];
     case r of Inl e \<Rightarrow> Some (Inl e)
     | Inr fs \<Rightarrow> do {
         let xml = (case ie_tags env of None \<Rightarrow> [] | Some _ \<Rightarrow> ie_toxml env (map (\<lambda>i. print_int (int i)) [0..<length fs]));
         d \<leftarrow> build_data env xml fs;
         case d of None \<Rightarrow> Some (Inr None)
         | Some img \<Rightarrow> do {
             name \<leftarrow> img_name filename;
             Some (Inr (if ie_create env name then Some (name, snd (write_file (ie_write env) (int (length img)) img)) else None))
           }
       }
   }"

section \<open>Creating the virtual machine\<close>

definition vm_path_bytes :: "string \<Rightarrow> string \<Rightarrow> bytes" where
  "vm_path_bytes filename vm_name = char_array 256 256 filename @ char_array 128 128 vm_name"

definition create_vm :: "usr_env \<Rightarrow> string \<Rightarrow> string \<Rightarrow> string \<Rightarrow> int \<times> usr_event list" where
  "create_vm u enclave_path vm_name filename =
     (let ctrl_fd = us_ioctl_path u enclave_path 2005 NoArg; connect = IoctlPath enclave_path 2005 NoArg;
          arg = Mem (vm_path_bytes filename vm_name) in
      if ctrl_fd < 0 then (-1, [connect])
      else (if us_ioctl_fd u ctrl_fd 120 arg < 0 then -1 else 0, [connect, IoctlFd ctrl_fd 120 arg]))"

text \<open>
  The tool itself, behind the options: \<open>exit\<close> ends it with its argument. The configuration options are
  checked and not used. A null pointer from \<open>build_image\<close> is copied from.
\<close>

definition v3_create_main :: "img_env \<Rightarrow> usr_env \<Rightarrow> bool \<Rightarrow> string list \<Rightarrow> (int \<times> usr_event list) option" where
  "v3_create_main env u build_flag args =
     (case args of
        filename # name # enclave_path # cfg \<Rightarrow>
          if \<not> build_flag then Some (create_vm u enclave_path name filename)
          else if \<not> list_all (\<lambda>v. CHR ''='' \<in> set v) cfg then Some (-1, [])
          else do {
            r \<leftarrow> build_image env filename;
            case r of Inl e \<Rightarrow> Some (e, [])
            | Inr None \<Rightarrow> None
            | Inr (Some (img, data)) \<Rightarrow> Some (create_vm u enclave_path name img)
          }
      | _ \<Rightarrow> Some (-1, []))"

section \<open>The loops\<close>

text \<open>A file that is there: every read at a position before its end returns some bytes from there.\<close>

definition serves :: "(nat \<Rightarrow> nat \<Rightarrow> bytes) \<Rightarrow> bytes \<Rightarrow> bool" where
  "serves rd c \<longleftrightarrow> (\<forall>p n. p < length c \<and> 0 < n \<longrightarrow> (\<exists>k. 0 < k \<and> k \<le> n \<and> rd p n = take k (drop p c)))"

lemma i32_small [simp]: "0 \<le> x \<Longrightarrow> x < 2147483648 \<Longrightarrow> i32 x = x"
  by (simp add: i32_def signed_of_int signed_take_bit_int_eq_self)

lemma put_next:
  assumes "length bs \<le> r" and "off = int (length p)"
  shows "put off bs (p @ replicate r 0) = Some (p @ bs @ replicate (r - length bs) 0)"
  using assms by (simp add: put_def memcpy_Some)

lemma read_loop_serves:
  assumes "serves rd c"
  shows "have_read \<le> length c \<Longrightarrow> left = length c - have_read \<Longrightarrow> off = int (length p) \<Longrightarrow>
    read_loop rd have_read left off (p @ take have_read c @ replicate (left + r) 0) = Some (0, p @ c @ replicate r 0)"
proof (induction left arbitrary: have_read rule: less_induct)
  case (less left)
  show ?case
  proof (cases "left = 0")
    case True
    then show ?thesis using less.prems by (simp add: read_loop.simps)
  next
    case False
    then have "have_read < length c" "0 < left" using less.prems by auto
    then obtain k where k: "0 < k" "k \<le> left" "rd have_read left = take k (drop have_read c)"
      using assms unfolding serves_def by blast
    let ?ch = "take k (drop have_read c)"
    have l: "length ?ch = k" using k less.prems by simp
    have t: "take have_read c @ ?ch = take (have_read + k) c" by (rule take_add [symmetric])
    have "put (off + int have_read) ?ch ((p @ take have_read c) @ replicate (left + r) 0) =
        Some ((p @ take have_read c) @ ?ch @ replicate (left + r - length ?ch) 0)"
      using l k less.prems by (intro put_next) auto
    then have w: "put (off + int have_read) ?ch (p @ take have_read c @ replicate (left + r) 0) =
        Some (p @ take (have_read + k) c @ replicate (left - k + r) 0)"
      using k(2) l by (simp add: t [symmetric])
    have "take left ?ch = ?ch" "?ch \<noteq> []" using k l by auto
    then show ?thesis using False w l k less.IH [of "left - k" "have_read + k"] less.prems
      by (subst read_loop.simps) (simp add: Let_def)
  qed
qed

lemma read_file_serves:
  assumes "serves rd c" and "sz = int (length c)" and "off = int (length p)"
  shows "read_file rd sz off (p @ replicate (length c + r) 0) = Some (0, p @ c @ replicate r 0)"
  using read_loop_serves [OF assms(1), of 0 "length c" off p r] assms(2,3) by (simp add: read_file_def)

text \<open>A file that accepts every write, if only in part, gets all the bytes.\<close>

lemma write_loop_all:
  assumes "\<And>n. 0 < n \<Longrightarrow> 0 < wr n"
  shows "left = length buf \<Longrightarrow> write_loop wr left buf = (0, buf)"
proof (induction left arbitrary: buf rule: less_induct)
  case (less left)
  show ?case
  proof (cases "left = 0")
    case False
    let ?n = "min left (nat (wr left))"
    have n: "0 < ?n" "?n \<le> left" using assms [of left] False by auto
    have "write_loop wr (left - ?n) (drop ?n buf) = (0, drop ?n buf)"
      by (rule less.IH) (use n less.prems in auto)
    then show ?thesis using n by (subst write_loop.simps) (simp add: Let_def)
  qed (use less.prems in \<open>simp add: write_loop.simps\<close>)
qed

section \<open>The layout\<close>

fun table_bytes :: "nat \<Rightarrow> nat list \<Rightarrow> nat \<Rightarrow> bytes" where
  "table_bytes i [] pos = []"
| "table_bytes i (n # ns) pos = le 4 i @ le 4 n @ le 8 pos @ table_bytes (i + 1) ns (pos + n)"

lemma length_table_bytes [simp]: "length (table_bytes i ns pos) = 16 * length ns"
  by (induction ns arbitrary: i pos) auto

lemma unat_of_int_size: "0 \<le> z \<Longrightarrow> z < 2147483648 \<Longrightarrow> unat (of_int z :: u32) = nat z"
  by (simp add: unat_of_nat_u32 flip: of_nat_nat)

lemma put_table_bytes:
  assumes "16 * length ns \<le> r" and "off = int (length p)" and "length p + 16 * length ns < 2147483648"
    and "map fi_size fs = map int ns" and "pos + sum_list ns < 2147483648"
  shows "put_table i fs off (of_nat pos) (p @ replicate r 0) =
    Some (p @ table_bytes i ns pos @ replicate (r - 16 * length ns) 0, off + 16 * int (length ns))"
  using assms
proof (induction ns arbitrary: i fs off pos p r)
  case (Cons n ns)
  obtain f fs' where fs: "fs = f # fs'" "fi_size f = int n" "map fi_size fs' = map int ns" using Cons.prems(4) by auto
  have z: "unat (of_int (fi_size f) :: u32) = n" using fs(2) Cons.prems(5) by (simp add: unat_of_nat_u32)
  have o: "i32 (off + 4) = off + 4" "i32 (off + 8) = off + 8" "i32 (off + 16) = off + 16" using Cons.prems(2,3) by simp_all
  have po: "unat (of_nat pos :: u64) = pos" using Cons.prems(5) by (simp add: unat_of_nat_u64)
  let ?p = "p @ le 4 i @ le 4 n @ le 8 pos"
  have "put off (le 4 i) (p @ replicate r 0) = Some ((p @ le 4 i) @ replicate (r - 4) 0)"
    using put_next [of "le 4 i" r off p] Cons.prems by simp
  moreover have "put (off + 4) (le 4 n) ((p @ le 4 i) @ replicate (r - 4) 0) = Some ((p @ le 4 i @ le 4 n) @ replicate (r - 8) 0)"
    using put_next [of "le 4 n" "r - 4" "off + 4" "p @ le 4 i"] Cons.prems by simp
  moreover have "put (off + 8) (le 8 pos) ((p @ le 4 i @ le 4 n) @ replicate (r - 8) 0) = Some (?p @ replicate (r - 16) 0)"
    using put_next [of "le 8 pos" "r - 8" "off + 8" "p @ le 4 i @ le 4 n"] Cons.prems by simp
  moreover have "put_table (i + 1) fs' (off + 16) (of_nat (pos + n)) (?p @ replicate (r - 16) 0) =
      Some (?p @ table_bytes (i + 1) ns (pos + n) @ replicate (r - 16 - 16 * length ns) 0, off + 16 + 16 * int (length ns))"
    by (rule Cons.IH) (use Cons.prems fs in auto)
  ultimately show ?case using o z fs po by (simp add: algebra_simps)
qed simp

lemma put_files_bytes:
  assumes "list_all2 (\<lambda>f c. ie_open env (file_name_of f) \<and> serves (ie_read env (file_name_of f)) c \<and> fi_size f = int (length c)) fs cs"
    and "off = int (length p)" and "length p + length (concat cs) < 2147483648"
  shows "put_files env fs off (p @ replicate (length (concat cs) + r) 0) = Some (Some (p @ concat cs @ replicate r 0))"
  using assms
proof (induction fs cs arbitrary: off p rule: list_all2_induct)
  case (Cons f fs c cs)
  have "read_file (ie_read env (file_name_of f)) (fi_size f) off (p @ replicate (length c + (length (concat cs) + r)) 0) =
      Some (0, (p @ c) @ replicate (length (concat cs) + r) 0)"
    using read_file_serves [of _ c "fi_size f" off p] Cons by simp
  moreover have "i32 (off + fi_size f) = int (length (p @ c))" using Cons by simp
  ultimately show ?case using Cons.IH [of "int (length (p @ c))" "p @ c"] Cons by (simp add: add.assoc)
qed simp

definition image_layout :: "string \<Rightarrow> bytes list \<Rightarrow> bytes" where
  "image_layout xml cs =
     v3vee_mark @ le 4 (length xml) @ map of_char xml @ replicate 8 0 @ le 8 (length cs) @
     table_bytes 0 (map length cs) (36 + length xml + 16 * length cs) @ replicate 8 0 @ concat cs"

definition readable :: "img_env \<Rightarrow> file_info list \<Rightarrow> bytes list \<Rightarrow> bool" where
  "readable env fs cs \<longleftrightarrow>
     list_all2 (\<lambda>f c. ie_open env (file_name_of f) \<and> serves (ie_read env (file_name_of f)) c \<and> fi_size f = int (length c)) fs cs"

lemma readable_sizes: "readable env fs cs \<Longrightarrow> length fs = length cs \<and> map fi_size fs = map int (map length cs)"
  unfolding readable_def by (induction rule: list_all2_induct) auto

lemma data_size:
  assumes "map fi_size fs = map int ns" and "0 \<le> a" and "a + int (sum_list ns) < 2147483648"
  shows "foldl (\<lambda>a f. i32 (a + fi_size f)) a fs = a + int (sum_list ns)"
  using assms
proof (induction ns arbitrary: a fs)
  case (Cons n ns)
  obtain f fs' where "fs = f # fs'" "fi_size f = int n" "map fi_size fs' = map int ns" using Cons.prems(1) by auto
  then show ?case using Cons.IH [of fs' "a + int n"] Cons.prems by simp
qed simp

definition header_bytes :: "string \<Rightarrow> nat \<Rightarrow> bytes" where
  "header_bytes xml n = v3vee_mark @ le 4 (length xml) @ map of_char xml @ replicate 8 0 @ le 8 n"

lemma length_header_bytes [simp]: "length (header_bytes xml n) = 28 + length xml"
  by (simp add: header_bytes_def)

lemma put_header_bytes:
  assumes "28 + length xml \<le> r" and "28 + length xml < 2147483648"
  shows "put_header xml n (replicate r 0) = Some (header_bytes xml n @ replicate (r - (28 + length xml)) 0, 28 + int (length xml))"
proof -
  define x where "x = (map of_char xml :: bytes)"
  let ?X = "length xml"
  have l: "length x = ?X" by (simp add: x_def)
  have w1: "put 0 v3vee_mark (replicate r 0) = Some (v3vee_mark @ replicate (r - 8) 0)"
    using put_next [of v3vee_mark r 0 "[]"] l assms by simp
  have w2: "put 8 (le 4 ?X) (v3vee_mark @ replicate (r - 8) 0) = Some (v3vee_mark @ le 4 ?X @ replicate (r - 12) 0)"
    using put_next [of "le 4 ?X" "r - 8" 8 v3vee_mark] l assms by simp
  have w3: "put 12 x (v3vee_mark @ le 4 ?X @ replicate (r - 12) 0) = Some (v3vee_mark @ le 4 ?X @ x @ replicate (r - 12 - ?X) 0)"
    using put_next [of x "r - 12" 12 "v3vee_mark @ le 4 ?X"] l assms by simp
  have w4: "put (12 + int ?X) (replicate 8 0) (v3vee_mark @ le 4 ?X @ x @ replicate (r - 12 - ?X) 0) =
      Some (v3vee_mark @ le 4 ?X @ x @ replicate 8 0 @ replicate (r - 20 - ?X) 0)"
    using put_next [of "replicate 8 0" "r - 12 - ?X" "12 + int ?X" "v3vee_mark @ le 4 ?X @ x"] l assms by simp
  have w5: "put (20 + int ?X) (le 8 n) (v3vee_mark @ le 4 ?X @ x @ replicate 8 0 @ replicate (r - 20 - ?X) 0) =
      Some (v3vee_mark @ le 4 ?X @ x @ replicate 8 0 @ le 8 n @ replicate (r - (28 + ?X)) 0)"
    using put_next [of "le 8 n" "r - 20 - ?X" "20 + int ?X" "v3vee_mark @ le 4 ?X @ x @ replicate 8 0"] l assms by simp
  have o: "i32 (12 + int ?X) = 12 + int ?X" "i32 (12 + int ?X + 8) = 20 + int ?X" "i32 (12 + int ?X + 16) = 28 + int ?X"
    using assms(2) by simp_all
  show ?thesis unfolding put_header_def header_bytes_def Let_def o x_def [symmetric] w1 w2 w3 w4 w5 bind.bind_lunit
    by simp
qed

lemma build_data_layout:
  assumes "readable env fs cs" and "ie_malloc env" and small: "36 + length xml + 16 * length cs + length (concat cs) < 2147483648"
  shows "build_data env xml fs = Some (Some (image_layout xml cs))"
proof -
  let ?N = "length cs" and ?X = "length xml" and ?D = "length (concat cs)" and ?q = "header_bytes xml (length cs)"
  let ?T = "table_bytes 0 (map length cs) (36 + ?X + 16 * ?N)"
  have s: "length fs = ?N" "map fi_size fs = map int (map length cs)" using readable_sizes [OF assms(1)] by auto
  have d: "sum_list (map length cs) = ?D" by (simp add: length_concat)
  have "guest_img_size xml fs = int (36 + ?X + 16 * ?N + ?D)"
    using data_size [OF s(2), of 0] s(1) d small by (simp add: guest_img_size_def)
  then have n: "nat (guest_img_size xml fs) = 36 + ?X + 16 * ?N + ?D" "\<not> guest_img_size xml fs < 0" by (simp_all only: nat_int)
  have w1: "put_header xml ?N (replicate (36 + ?X + 16 * ?N + ?D) 0) = Some (?q @ replicate (8 + 16 * ?N + ?D) 0, 28 + int ?X)"
    using put_header_bytes [of xml "36 + ?X + 16 * ?N + ?D" ?N] small by simp
  have w2: "put_table 0 fs (28 + int ?X) (of_nat (36 + ?X + 16 * ?N)) (?q @ replicate (8 + 16 * ?N + ?D) 0) =
      Some (?q @ ?T @ replicate (8 + ?D) 0, 28 + int ?X + 16 * int ?N)"
    using put_table_bytes [of "map length cs" "8 + 16 * ?N + ?D" "28 + int ?X" ?q fs "36 + ?X + 16 * ?N" 0] s d small by simp
  have w3: "put (28 + int ?X + 16 * int ?N) (replicate 8 0) (?q @ ?T @ replicate (8 + ?D) 0) = Some (?q @ ?T @ replicate 8 0 @ replicate ?D 0)"
    using put_next [of "replicate 8 0" "8 + ?D" "28 + int ?X + 16 * int ?N" "?q @ ?T"] by simp
  have w4: "put_files env fs (36 + int ?X + 16 * int ?N) (?q @ ?T @ replicate 8 0 @ replicate ?D 0) = Some (Some (?q @ ?T @ replicate 8 0 @ concat cs))"
    using put_files_bytes [OF assms(1) [unfolded readable_def], of "36 + int ?X + 16 * int ?N" "?q @ ?T @ replicate 8 0" 0] small by simp
  have o: "i32 (28 + int ?X + 16 * int ?N + 8) = 36 + int ?X + 16 * int ?N"
    "(of_int (28 + int ?X) + 16 * of_nat ?N + 8 :: u64) = of_nat (36 + ?X + 16 * ?N)" using small by simp_all
  show ?thesis using n(2) assms(2)
    unfolding build_data_def Let_def n(1) s(1) w1 w2 w3 w4 bind.bind_lunit prod.case o image_layout_def by (simp add: header_bytes_def)
qed

section \<open>Reading the image\<close>

text \<open>An entry of the table, and what it leads to.\<close>

definition img_entry :: "bytes \<Rightarrow> nat \<Rightarrow> nat \<Rightarrow> nat \<times> bytes" where
  "img_entry img tbl i =
     (let e = drop (tbl + 16 * i) img; pos = of_le (take 8 (drop 8 e))
      in (of_le (take 4 e), take (of_le (take 4 (drop 4 e))) (drop pos img)))"

lemma table_entry:
  "i < length ns \<Longrightarrow> \<exists>r. drop (16 * i) (table_bytes j ns pos) = le 4 (j + i) @ le 4 (ns ! i) @ le 8 (pos + sum_list (take i ns)) @ r"
proof (induction ns arbitrary: i j pos)
  case (Cons n ns)
  show ?case
  proof (cases i)
    case (Suc k)
    have "drop (16 * i) (table_bytes j (n # ns) pos) = drop (16 * k) (table_bytes (j + 1) ns (pos + n))"
      using Suc by (simp add: drop_drop [symmetric] add.commute del: drop_drop)
    then show ?thesis using Cons.IH [of k "j + 1" "pos + n"] Cons.prems Suc by (simp add: add.assoc)
  qed simp
qed simp

lemma drop_concat: "drop (sum_list (map length (take i cs))) (concat cs) = concat (drop i cs)"
proof -
  have "concat cs = concat (take i cs) @ concat (drop i cs)" by (simp flip: concat_append)
  moreover have "length (concat (take i cs)) = sum_list (map length (take i cs))" by (simp add: length_concat)
  ultimately show ?thesis by (metis append_eq_conv_conj)
qed

lemma layout_entry:
  assumes "i < length cs" and small: "36 + length xml + 16 * length cs + length (concat cs) < 2147483648"
  shows "img_entry (image_layout xml cs) (28 + length xml) i = (i, cs ! i)"
proof -
  let ?img = "image_layout xml cs" and ?P = "36 + length xml + 16 * length cs" and ?T = "table_bytes 0 (map length cs)"
  let ?s = "sum_list (map length (take i cs))"
  obtain r where r: "drop (16 * i) (?T ?P) = le 4 i @ le 4 (length (cs ! i)) @ le 8 (?P + ?s) @ r"
    using table_entry [of i "map length cs" 0 ?P] assms(1) by (auto simp: take_map)
  have q: "?img = header_bytes xml (length cs) @ ?T ?P @ replicate 8 0 @ concat cs" by (simp add: image_layout_def header_bytes_def)
  have e: "drop (28 + length xml + 16 * i) ?img = le 4 i @ le 4 (length (cs ! i)) @ le 8 (?P + ?s) @ r @ replicate 8 0 @ concat cs"
    using r assms(1) by (simp add: q)
  have c: "concat (drop i cs) = cs ! i @ concat (drop (Suc i) cs)" using assms(1) by (simp flip: Cons_nth_drop_Suc)
  have "?s + length (concat (drop i cs)) = length (concat cs)"
    using arg_cong [OF concat_append [of "take i cs" "drop i cs"], of length] by (simp add: length_concat)
  then have b: "?s + length (cs ! i) \<le> length (concat cs)" by (simp add: c)
  have "drop (?P + ?s) ?img = concat (drop i cs)" by (simp add: q drop_concat)
  moreover have "of_le (le 4 i) = i" "of_le (le 4 (length (cs ! i))) = length (cs ! i)" "of_le (le 8 (?P + ?s)) = ?P + ?s"
    using b assms by (simp_all add: of_le_le)
  ultimately show ?thesis using c by (simp add: img_entry_def Let_def e)
qed

text \<open>
  C12: The guest image holds what the configuration names: when all files are there and the image fits
  into an \<open>int\<close>, \<open>build_image\<close> writes, without leaving the memory it allocated, a file with the
  \<open>v3vee\<close> mark, the length and text of the configuration and the number of files, in which the \<open>i\<close>-th entry of
  the table carries the number \<open>i\<close> and leads to exactly the bytes of the \<open>i\<close>-th file. Reads and writes that
  are cut short are resumed.
\<close>

theorem guest_image_complete:
  assumes cfg: "ie_tags env = Some tags" "parse_aux_files env tags [] = Some (Inr fs)"
    and xml: "xml = ie_toxml env (map (\<lambda>i. print_int (int i)) [0..<length fs])"
    and files: "readable env fs cs" "ie_malloc env" "36 + length xml + 16 * length cs + length (concat cs) < 2147483648"
    and out: "img_name filename = Some name" "ie_create env name" "\<And>n. 0 < n \<Longrightarrow> 0 < ie_write env n"
  shows "\<exists>img. build_image env filename = Some (Inr (Some (name, img))) \<and>
    take 8 img = v3vee_mark \<and> of_le (take 4 (drop 8 img)) = length xml \<and>
    take (length xml) (drop 12 img) = map of_char xml \<and> of_le (take 8 (drop (20 + length xml) img)) = length fs \<and>
    (\<forall>i < length fs. img_entry img (28 + length xml) i = (i, cs ! i))"
proof -
  let ?img = "image_layout xml cs"
  have l: "length fs = length cs" using readable_sizes [OF files(1)] by simp
  have "write_file (ie_write env) (int (length ?img)) ?img = (0, ?img)" using write_loop_all [OF out(3)] by (simp add: write_file_def)
  then have "build_image env filename = Some (Inr (Some (name, ?img)))"
    using cfg out(1,2) build_data_layout [OF files] by (simp add: build_image_def flip: xml)
  moreover have "of_le (le 4 (length xml)) = length xml" "of_le (le 8 (length cs)) = length cs" using files(3) by (simp_all add: of_le_le)
  ultimately show ?thesis using layout_entry [OF _ files(3)] l by (intro exI [of _ ?img]) (simp add: image_layout_def)
qed

definition demo_tag :: xml_tag where
  "demo_tag = \<lparr>tag_attr = (\<lambda>a. if a = ''filename'' then Some ''bios'' else Some ''b''), tag_child = (\<lambda>a. None)\<rparr>"

definition demo_img_env :: img_env where
  "demo_img_env = \<lparr>ie_tags = Some [demo_tag], ie_toxml = (\<lambda>ix. ''<vm/>''), ie_stat = (\<lambda>f. Some 5), ie_open = (\<lambda>f. True),
     ie_read = (\<lambda>f p n. take (min 2 n) (drop p [1, 2, 3, 4, 5])), ie_malloc = True, ie_create = (\<lambda>f. True), ie_write = (\<lambda>n. 7)\<rparr>"

theorem guest_image_complete_witness:
  "\<exists>img. build_image demo_img_env ''a.xml'' = Some (Inr (Some (''a.img'', img))) \<and> img_entry img 33 0 = (0, [1, 2, 3, 4, 5])"
proof -
  define f where "f = \<lparr>fi_size = 5, fi_filename = char_array 2048 2048 ''bios'', fi_id = char_array 256 256 ''b''\<rparr>"
  have p: "ie_tags demo_img_env = Some [demo_tag]" "parse_aux_files demo_img_env [demo_tag] [] = Some (Inr [f])"
    by (simp_all add: demo_img_env_def demo_tag_def get_val_def MAX_FILES_def f_def)
  have "serves (\<lambda>p n. take (min 2 n) (drop p [1, 2, 3, 4, 5])) [1, 2, 3, 4, 5]"
    unfolding serves_def by (intro allI impI, rule_tac x = "min 2 n" in exI) auto
  then have r: "readable demo_img_env [f] [[1, 2, 3, 4, 5]]" by (simp add: readable_def demo_img_env_def f_def)
  have x: "''<vm/>'' = ie_toxml demo_img_env (map (\<lambda>i. print_int (int i)) [0..<length [f]])" by (simp add: demo_img_env_def)
  have "img_name ''a.xml'' = Some ''a.img''" by simp
  from guest_image_complete [OF p x r _ _ this] show ?thesis by (auto simp: demo_img_env_def)
qed

text \<open>
  A configuration that cannot be parsed is not an error: the tool goes on and writes an image without
  text and without files.
\<close>

theorem unreadable_config_builds_image:
  assumes "ie_tags env = None" and "ie_malloc env" and "img_name filename = Some name" and "ie_create env name"
    and "\<And>n. 0 < n \<Longrightarrow> 0 < ie_write env n"
  shows "build_image env filename = Some (Inr (Some (name, image_layout [] [])))"
  using assms build_data_layout [of env "[]" "[]" "[]"] write_loop_all [OF assms(5), of _ _ "image_layout [] []"]
  by (simp add: build_image_def write_file_def readable_def)

theorem unreadable_config_builds_image_witness:
  "build_image (demo_img_env\<lparr>ie_tags := None\<rparr>) ''a.xml'' = Some (Inr (Some (''a.img'', image_layout [] [])))"
  by (rule unreadable_config_builds_image) (simp_all add: demo_img_env_def)

end
