(* ===== verification/UsrTools.thy ===== *)
theory UsrTools
  imports Teardown GuestImage
begin

text \<open>
  The command line tools (\<open>linux_usr/pisces_*.c\<close>, \<open>linux_usr/v3_*.c\<close>) over the user-space library. What
  \<open>getopt\<close> finds is an argument of the model: the options in their order, each with its value, and the
  operands that are left. A missing operand that is read is \<open>None\<close>, as is a pointer that may not be freed.

  Shown: the CPU list of a job is read as the mask of its CPUs; a device is either handed to the
  enclave or back with Linux after an attempt to add it, and is back with Linux after an attempt to remove it even
  when the enclave keeps it; the console tool prints all it reads; which calls the tools do not survive.
\<close>

section \<open>Jobs: \<open>pisces_run.c\<close>\<close>

text \<open>
  Long options by their index in the table: \<open>np\<close>, \<open>cpulist\<close>, \<open>use-large-pages\<close>, \<open>use-smartmap\<close>, \<open>heap_size\<close>,
  \<open>stack_size\<close>, \<open>name\<close>, \<open>envp\<close>; \<open>JobFile\<close> is \<open>-f\<close>, \<open>BadOpt\<close> everything else.
\<close>

datatype run_opt = LongOpt nat string | JobFile | BadOpt

record run_cfg =
  rc_num_ranks :: u32
  rc_cpu_list :: "string option"
  rc_large_pages :: u8
  rc_smartmap :: u8
  rc_heap_size :: u64
  rc_stack_size :: u64
  rc_name :: "string option"
  rc_envp :: string
  rc_job_file :: bool

definition run_defaults :: run_cfg where
  "run_defaults = \<lparr>rc_num_ranks = 1, rc_cpu_list = None, rc_large_pages = 0, rc_smartmap = 0, rc_heap_size = 16 * 1024 * 1024,
     rc_stack_size = 256 * 1024, rc_name = None, rc_envp = [], rc_job_file = False\<rparr>"

text \<open>A number that an option needs: it starts with a digit and is not zero; \<open>None\<close> is the exit with the usage text.\<close>

definition opt_number :: "string \<Rightarrow> int option" where
  "opt_number s = (if s = [] \<or> \<not> is_digit (hd s) then None else Some (strtol 10 s))"

definition run_long_opt :: "nat \<Rightarrow> string \<Rightarrow> run_cfg \<Rightarrow> run_cfg option" where
  "run_long_opt i optarg c =
     (if i = 0 then do { n \<leftarrow> opt_number optarg; if (of_int n :: u32) = 0 then None else Some (c\<lparr>rc_num_ranks := of_int n\<rparr>) }
      else if i = 1 then Some (c\<lparr>rc_cpu_list := Some optarg\<rparr>)
      else if i = 2 then Some (c\<lparr>rc_large_pages := 1\<rparr>)
      else if i = 3 then Some (c\<lparr>rc_smartmap := 1\<rparr>)
      else if i = 4 then do { n \<leftarrow> opt_number optarg; if (of_int n :: u64) = 0 then None else Some (c\<lparr>rc_heap_size := of_int n * 1024 * 1024\<rparr>) }
      else if i = 5 then do { n \<leftarrow> opt_number optarg; if (of_int n :: u64) = 0 then None else Some (c\<lparr>rc_stack_size := of_int n * 1024 * 1024\<rparr>) }
      else if i = 6 then Some (c\<lparr>rc_name := Some optarg\<rparr>)
      else if i = 7 then Some (c\<lparr>rc_envp := optarg\<rparr>)
      else Some c)"

fun run_options :: "run_opt list \<Rightarrow> run_cfg \<Rightarrow> run_cfg option" where
  "run_options [] c = Some c"
| "run_options (JobFile # os) c = run_options os (c\<lparr>rc_job_file := True\<rparr>)"
| "run_options (BadOpt # os) c = None"
| "run_options (LongOpt i a # os) c = do { c' \<leftarrow> run_long_opt i a c; run_options os c' }"

text \<open>The name behind the last slash.\<close>

definition base_name :: "string \<Rightarrow> string" where
  "base_name p = (if CHR ''/'' \<in> set p then rev (takeWhile (\<lambda>c. c \<noteq> CHR ''/'') (rev p)) else p)"

text \<open>
  The list of CPUs: \<open>Inl\<close> is the return with an error. A shift by a number outside of the word is
  undefined, \<open>None\<close>.
\<close>

fun cpu_list_mask :: "string list \<Rightarrow> u64 \<Rightarrow> (int + u64) option" where
  "cpu_list_mask [] m = Some (Inr m)"
| "cpu_list_mask (s # ss) m =
     (let idx = atoi s in
      if idx = 0 \<and> (s = [] \<or> hd s \<noteq> CHR ''0'') then Some (Inl (-1))
      else if idx < 0 \<or> 64 \<le> idx then None
      else cpu_list_mask ss (m OR push_bit (nat idx) 1))"

text \<open>
  The arguments of the program: the first one is the pointer from the command line; to append a
  second one the pointer is handed to \<open>free\<close>.
\<close>

definition exe_args :: "string list \<Rightarrow> string option option" where
  "exe_args as = (case as of [] \<Rightarrow> Some None | [a] \<Rightarrow> Some (Some a) | _ \<Rightarrow> None)"

definition pisces_run_main :: "usr_env \<Rightarrow> run_opt list \<Rightarrow> string list \<Rightarrow> (int \<times> usr_event list) option" where
  "pisces_run_main u opts args =
     (case run_options opts run_defaults of None \<Rightarrow> Some (-1, [])
      | Some c \<Rightarrow>
          if rc_job_file c then Some (0, [])
          else (case args of [] \<Rightarrow> None
          | dev # rest \<Rightarrow> let exe_path = (case rest of [] \<Rightarrow> None | e # _ \<Rightarrow> Some e) in do {
              argv \<leftarrow> exe_args (drop 1 rest);
              name \<leftarrow> (case rc_name c of Some n \<Rightarrow> Some n | None \<Rightarrow> map_option base_name exe_path);
              m \<leftarrow> (case rc_cpu_list c of None \<Rightarrow> Some (Inr (-1)) | Some l \<Rightarrow> cpu_list_mask (split_on CHR '','' l) 0);
              case m of Inl e \<Rightarrow> Some (e, [])
              | Inr cpu_mask \<Rightarrow> Some (pisces_run_job u (get_pisces_id_from_path dev) (Some name) exe_path argv (Some (rc_envp c))
                  (rc_large_pages c) (rc_smartmap c) (ucast (rc_num_ranks c)) cpu_mask (rc_heap_size c) (rc_stack_size c))
            }))"

section \<open>Resources: \<open>pisces_add.c\<close>, \<open>pisces_launch.c\<close>, \<open>pisces_load.c\<close>\<close>

record add_cfg =
  ac_mem :: "string option"
  ac_cpu :: "string option"
  ac_numa :: int
  ac_explicit :: bool

fun add_options :: "(char \<times> string) list \<Rightarrow> add_cfg \<Rightarrow> add_cfg option" where
  "add_options [] c = Some c"
| "add_options ((o1, a) # os) c =
     (if o1 = CHR ''m'' then add_options os (c\<lparr>ac_mem := Some a\<rparr>)
      else if o1 = CHR ''c'' then add_options os (c\<lparr>ac_cpu := Some a\<rparr>)
      else if o1 = CHR ''n'' then add_options os (c\<lparr>ac_numa := atoi a\<rparr>)
      else if o1 = CHR ''e'' then add_options os (c\<lparr>ac_explicit := True\<rparr>)
      else if o1 = CHR ''?'' then None
      else add_options os c)"

definition add_mem_arg :: "usr_env \<Rightarrow> int \<Rightarrow> bool \<Rightarrow> int \<Rightarrow> string \<Rightarrow> usr_event list" where
  "add_mem_arg u pisces_id expl numa_zone mem_str =
     (if expl then concat (map (\<lambda>s. snd (pisces_add_mem_explicit u pisces_id (atoi s))) (split_on CHR '','' mem_str))
      else if mem_str = ''all'' then snd (pisces_add_mem_node u pisces_id numa_zone)
      else snd (pisces_add_mem u pisces_id (atoi mem_str) numa_zone))"

definition add_cpu_arg :: "usr_env \<Rightarrow> int \<Rightarrow> bool \<Rightarrow> int \<Rightarrow> string \<Rightarrow> usr_event list" where
  "add_cpu_arg u pisces_id expl numa_zone cpu_str =
     (if expl then concat (map (\<lambda>s. snd (pisces_add_cpu u pisces_id (of_int (atoi s)))) (split_on CHR '','' cpu_str))
      else snd (pisces_add_cpus u pisces_id (atoi cpu_str) numa_zone))"

definition pisces_add_main :: "usr_env \<Rightarrow> (char \<times> string) list \<Rightarrow> string list \<Rightarrow> int \<times> usr_event list" where
  "pisces_add_main u opts args =
     (case add_options opts \<lparr>ac_mem = None, ac_cpu = None, ac_numa = -1, ac_explicit = False\<rparr> of None \<Rightarrow> (-1, [])
      | Some c \<Rightarrow> (case args of
            [dev] \<Rightarrow> let pisces_id = get_pisces_id_from_path dev in
              (0, case_option [] (add_mem_arg u pisces_id (ac_explicit c) (ac_numa c)) (ac_mem c) @
                  case_option [] (add_cpu_arg u pisces_id (ac_explicit c) (ac_numa c)) (ac_cpu c))
          | _ \<Rightarrow> (-1, [])))"

record launch_cfg =
  lc_numa :: int
  lc_cpu :: int
  lc_block :: int
  lc_num_blocks :: int

fun launch_options :: "(char \<times> string) list \<Rightarrow> launch_cfg \<Rightarrow> launch_cfg option" where
  "launch_options [] c = Some c"
| "launch_options ((o1, a) # os) c =
     (if o1 = CHR ''n'' then launch_options os (c\<lparr>lc_numa := atoi a\<rparr>)
      else if o1 = CHR ''c'' then launch_options os (c\<lparr>lc_cpu := atoi a\<rparr>)
      else if o1 = CHR ''b'' then launch_options os (c\<lparr>lc_block := atoi a\<rparr>)
      else if o1 = CHR ''m'' then launch_options os (c\<lparr>lc_num_blocks := atoi a\<rparr>)
      else if o1 = CHR ''?'' then None
      else launch_options os c)"

definition pisces_launch_main :: "usr_env \<Rightarrow> (char \<times> string) list \<Rightarrow> string list \<Rightarrow> (int \<times> usr_event list) option" where
  "pisces_launch_main u opts args =
     (case launch_options opts \<lparr>lc_numa = PISCES_ANY, lc_cpu = PISCES_ANY, lc_block = PISCES_ANY, lc_num_blocks = 1\<rparr> of
        None \<Rightarrow> Some (-1, [])
      | Some c \<Rightarrow> (case args of
            [dev] \<Rightarrow> let enclave_id = get_pisces_id_from_path dev in
              if lc_num_blocks c < 1 then Some (-1, [])
              else if enclave_id = -1 then Some (-1, [])
              else map_option (\<lambda>(r, ev). (if r \<noteq> 0 then -1 else 0, ev))
                (pisces_launch u enclave_id (lc_cpu c) (lc_block c) (lc_numa c) (lc_num_blocks c))
          | _ \<Rightarrow> Some (-1, [])))"

definition pisces_load_main :: "usr_env \<Rightarrow> u8 \<Rightarrow> string list \<Rightarrow> (int \<times> usr_event list) option" where
  "pisces_load_main u junk args =
     (case args of kern # initrd # cmd_line # _ \<Rightarrow> pisces_load u junk kern initrd cmd_line | _ \<Rightarrow> None)"

text \<open>Two operands pass the test of the tool, three are read.\<close>

definition pisces_load_file_main :: "usr_env \<Rightarrow> string list \<Rightarrow> (int \<times> usr_event list) option" where
  "pisces_load_file_main u args =
     (if length args < 2 then Some (-1, [])
      else case args of dev # local_file # remote_file # _ \<Rightarrow>
             Some (pisces_load_file u (get_pisces_id_from_path dev) local_file remote_file)
           | _ \<Rightarrow> None)"

definition pisces_reset_main :: "usr_env \<Rightarrow> string list \<Rightarrow> int \<times> usr_event list" where
  "pisces_reset_main u args =
     (case args of [] \<Rightarrow> (-1, []) | dev # _ \<Rightarrow> (0, snd (pisces_reset u (get_pisces_id_from_path dev))))"

definition pisces_shutdown_main :: "teardown_env \<Rightarrow> string list \<Rightarrow> (int \<times> usr_event list) option" where
  "pisces_shutdown_main u args =
     (case args of [] \<Rightarrow> Some (-1, []) | i # _ \<Rightarrow> map_option (\<lambda>(r, ev). (0, ev)) (pisces_teardown u (atoi i)))"

section \<open>The console: \<open>pisces_cons.c\<close>\<close>

text \<open>
  The loop reads until nothing comes any more; \<open>rd i\<close> is the \<open>i\<close>-th read, \<open>None\<close> an error. What is printed of a
  read ends at its first null character. A console that never ends keeps the tool running.
\<close>

partial_function (option) cons_loop :: "(nat \<Rightarrow> bytes option) \<Rightarrow> nat \<Rightarrow> string \<Rightarrow> (int \<times> string) option" where
  "cons_loop rd i out =
     (case rd i of None \<Rightarrow> Some (-1, out)
      | Some bs \<Rightarrow> if bs = [] then Some (0, out) else cons_loop rd (i + 1) (out @ array_str (take 4096 bs)))"

definition pisces_cons_main :: "usr_env \<Rightarrow> (nat \<Rightarrow> bytes option) \<Rightarrow> string list \<Rightarrow> (int \<times> string \<times> usr_event list) option" where
  "pisces_cons_main u rd args =
     (case args of [] \<Rightarrow> Some (-1, [], [])
      | dev # _ \<Rightarrow> let (cons_fd, ev) = pisces_get_cons_fd u (get_pisces_id_from_path dev) in
          if cons_fd < 0 then Some (-1, [], ev)
          else map_option (\<lambda>(r, out). (r, out, ev @ (if r = 0 then [Close cons_fd] else []))) (cons_loop rd 0 []))"

section \<open>Virtual machines: \<open>v3_launch.c\<close>, \<open>v3_stop.c\<close>, \<open>v3_free.c\<close>, \<open>v3_dbg.c\<close>\<close>

text \<open>The number of the machine is read before the operands are counted.\<close>

definition vm_cmd_main :: "u32 \<Rightarrow> usr_env \<Rightarrow> string list \<Rightarrow> (int \<times> usr_event list) option" where
  "vm_cmd_main cmd u args =
     (case args of enclave_path # i # _ \<Rightarrow>
        let ctrl_fd = us_ioctl_path u enclave_path 2005 NoArg; connect = IoctlPath enclave_path 2005 NoArg; arg = Num (of_int (atoi i)) in
        Some (if ctrl_fd < 0 then (-1, [connect])
          else if us_ioctl_fd u ctrl_fd cmd arg \<noteq> 0 then (-1, [connect, IoctlFd ctrl_fd cmd arg])
          else (0, [connect, IoctlFd ctrl_fd cmd arg, Close ctrl_fd]))
      | _ \<Rightarrow> None)"

definition v3_launch_main :: "usr_env \<Rightarrow> string list \<Rightarrow> (int \<times> usr_event list) option" where
  "v3_launch_main = vm_cmd_main 122"

definition v3_stop_main :: "usr_env \<Rightarrow> string list \<Rightarrow> (int \<times> usr_event list) option" where
  "v3_stop_main = vm_cmd_main 123"

definition v3_free_main :: "usr_env \<Rightarrow> string list \<Rightarrow> (int \<times> usr_event list) option" where
  "v3_free_main = vm_cmd_main 121"

definition dbg_flag :: "char \<Rightarrow> u32" where
  "dbg_flag c =
     (if c = CHR ''t'' then 1 else if c = CHR ''c'' then 2 else if c = CHR ''a'' then 4 else if c = CHR ''s'' then 8
      else if c = CHR ''b'' then 0x10 else if c = CHR ''C'' then 0x40000000 else if c = CHR ''S'' then 0x80000000 else 0)"

definition dbg_spec_bytes :: "u32 \<Rightarrow> u32 \<Rightarrow> u32 \<Rightarrow> bytes" where
  "dbg_spec_bytes vm_id core cmd = le 4 (unat vm_id) @ le 4 (unat core) @ le 4 (unat cmd)"

definition v3_dbg_main :: "usr_env \<Rightarrow> char list \<Rightarrow> string list \<Rightarrow> (int \<times> usr_event list) option" where
  "v3_dbg_main u opts args =
     (let cmd = foldl (\<lambda>m c. m OR dbg_flag c) 0 opts in
      if length args + length opts < 3 then Some (-1, [])
      else case args of enclave_path # i # rest \<Rightarrow>
        let core = (case rest of [] \<Rightarrow> -1 | c # _ \<Rightarrow> of_int (atoi c));
            arg = Mem (dbg_spec_bytes (of_int (atoi i)) core cmd);
            ctrl_fd = us_ioctl_path u enclave_path 2005 NoArg; connect = IoctlPath enclave_path 2005 NoArg in
        Some (if ctrl_fd < 0 then (-1, [connect])
          else (if us_ioctl_fd u ctrl_fd 141 arg \<noteq> 0 then -1 else 0, [connect, IoctlFd ctrl_fd 141 arg]))
      | _ \<Rightarrow> None)"

section \<open>Devices: \<open>v3_pci.c\<close>\<close>

record pci_tool_env = teardown_env +
  pet_offline_pci :: "u32 \<Rightarrow> u32 \<Rightarrow> u32 \<Rightarrow> int"
  pet_online_pci :: "u32 \<Rightarrow> u32 \<Rightarrow> u32 \<Rightarrow> int"

datatype op_mode = QUERY | ADD string | REMOVE string

fun pci_options :: "(char \<times> string) list \<Rightarrow> op_mode \<Rightarrow> op_mode option" where
  "pci_options [] m = Some m"
| "pci_options ((c, a) # os) m =
     (if c = CHR ''r'' then pci_options os (REMOVE a) else if c = CHR ''a'' then pci_options os (ADD a)
      else if c = CHR ''h'' \<or> c = CHR ''?'' then None else pci_options os m)"

definition v3_pci_add :: "pci_tool_env \<Rightarrow> string \<Rightarrow> string \<Rightarrow> string \<Rightarrow> int \<times> usr_event list" where
  "v3_pci_add u name bdf_str enclave_path =
     (case pet_parse_bdf u bdf_str of None \<Rightarrow> (-1, [])
      | Some (bus, dev, fn) \<Rightarrow>
          if pet_offline_pci u bus dev fn \<noteq> 0 then (-1, [])
          else let spec = Mem (pci_spec_bytes \<lparr>sp_name = name, sp_bus = bus, sp_dev = dev, sp_func = fn\<rparr>);
                   ctrl_fd = us_ioctl_path u enclave_path 2005 NoArg; ev = [OffPci bus dev fn, IoctlPath enclave_path 2005 NoArg] in
            if ctrl_fd < 0 then (-1, ev @ [OnPci bus dev fn])
            else if us_ioctl_fd u ctrl_fd 180 spec \<noteq> 0 then (-1, ev @ [IoctlFd ctrl_fd 180 spec, OnPci bus dev fn])
            else (0, ev @ [IoctlFd ctrl_fd 180 spec]))"

definition v3_pci_remove :: "pci_tool_env \<Rightarrow> string \<Rightarrow> string \<Rightarrow> string \<Rightarrow> int \<times> usr_event list" where
  "v3_pci_remove u name bdf_str enclave_path =
     (case pet_parse_bdf u bdf_str of None \<Rightarrow> (-1, [])
      | Some (bus, dev, fn) \<Rightarrow>
          let spec = Mem (pci_spec_bytes \<lparr>sp_name = name, sp_bus = bus, sp_dev = dev, sp_func = fn\<rparr>);
              ctrl_fd = us_ioctl_path u enclave_path 2005 NoArg;
              ev = IoctlPath enclave_path 2005 NoArg # (if ctrl_fd \<ge> 0 then [IoctlFd ctrl_fd 190 spec] else []) in
          if pet_online_pci u bus dev fn \<noteq> 0 then (-1, ev) else (0, ev @ [OnPci bus dev fn]))"

text \<open>Queries print what petlib says; they change nothing.\<close>

definition v3_pci_main :: "pci_tool_env \<Rightarrow> nat \<Rightarrow> (char \<times> string) list \<Rightarrow> string list \<Rightarrow> int \<times> usr_event list" where
  "v3_pci_main u argc opts args =
     (case pci_options opts QUERY of None \<Rightarrow> (-1, [])
      | Some QUERY \<Rightarrow>
          if argc = 1 then (0, [])
          else if argc = 2 then (if args \<noteq> [] \<and> pet_parse_bdf u (hd args) \<noteq> None then 0 else -1, [])
          else (-1, [])
      | Some (ADD name) \<Rightarrow> (case args of bdf_str # enclave_path # _ \<Rightarrow> v3_pci_add u name bdf_str enclave_path | _ \<Rightarrow> (-1, []))
      | Some (REMOVE name) \<Rightarrow> (case args of bdf_str # enclave_path # _ \<Rightarrow> v3_pci_remove u name bdf_str enclave_path | _ \<Rightarrow> (-1, [])))"

section \<open>Jobs are run as asked\<close>

text \<open>A list of CPUs as it is typed.\<close>

fun cpu_list_text :: "nat list \<Rightarrow> string" where
  "cpu_list_text [] = []"
| "cpu_list_text [i] = print_int (int i)"
| "cpu_list_text (i # is) = print_int (int i) @ CHR '','' # cpu_list_text is"

lemma print_int_no_comma: "CHR '','' \<notin> set (print_int (int i))"
proof
  assume "CHR '','' \<in> set (print_int (int i))"
  then have "dec_val (CHR '','') \<noteq> None" using dec_read [of 1 i] by (auto simp: print_int_def)
  then show False by (simp add: dec_val_def)
qed

lemma split_cpu_list: "is \<noteq> [] \<Longrightarrow> split_on CHR '','' (cpu_list_text is) = map (\<lambda>i. print_int (int i)) is"
  by (induction "is" rule: cpu_list_text.induct) (simp_all add: print_int_no_comma split_on_piece split_on_last)

lemma print_int_zero: "print_int (int i) \<noteq> []" "hd (print_int (int i)) \<noteq> CHR ''0'' \<Longrightarrow> 0 < i"
  by (cases i; simp add: print_int_def digits.simps [of 10 "Suc 0" 0] digit_char_def)+

lemma cpu_list_mask_bits:
  assumes "\<forall>i \<in> set is. i < 64"
  shows "\<exists>m'. cpu_list_mask (map (\<lambda>i. print_int (int i)) is) m = Some (Inr m') \<and> (\<forall>n. bit m' n = (bit m n \<or> n \<in> set is))"
  using assms
proof (induction "is" arbitrary: m)
  case (Cons i "is")
  have a: "atoi (print_int (int i)) = int i" using atoi_print_int [of "int i" "[]"] Cons.prems by simp
  have b: "bit (m OR push_bit i 1) n = (bit m n \<or> n = i)" for n
    using Cons.prems by (auto simp: bit_simps)
  show ?case using Cons.IH [of "m OR push_bit i 1"] Cons.prems a b print_int_zero [of i] by (auto simp: Let_def)
qed simp

text \<open>
  C35: \<open>pisces_run\<close> runs the job it is asked for: with a list of CPUs, a program and one argument it makes one
  request, to the enclave whose device it is given, for a job with the name of the program, its
  path and its argument, and with exactly the listed CPUs in its mask.
\<close>

theorem run_tool_job:
  assumes "is \<noteq> []" and cpus: "\<forall>i \<in> set is. i < 64" and i: "- (2 ^ 31) \<le> i" "i < 2 ^ 31"
    and fits: "length (base_name exe) \<le> 63" "length exe \<le> 255" "length arg \<le> 255"
    and nonul: "CHR 0x00 \<notin> set exe \<union> set arg"
    and fd: "us_ioctl_path u (get_pisces_dev_path i) 2005 NoArg = fd" "0 \<le> fd"
  shows "\<exists>bs r. pisces_run_main u [LongOpt 1 (cpu_list_text is)] [get_pisces_dev_path i, exe, arg] =
      Some (r, [IoctlPath (get_pisces_dev_path i) 2005 NoArg, IoctlFd fd 200 (Mem bs), Close fd]) \<and>
    r = us_ioctl_fd u fd 200 (Mem bs) \<and> jb_name (job_of_bytes bs) = base_name exe \<and> jb_exe_path (job_of_bytes bs) = exe \<and>
    jb_argv (job_of_bytes bs) = arg \<and> (\<forall>n. bit (jb_cpu_mask (job_of_bytes bs)) n = (n \<in> set is))"
proof -
  obtain m where m: "cpu_list_mask (split_on CHR '','' (cpu_list_text is)) 0 = Some (Inr m)" "\<forall>n. bit m n = (n \<in> set is)"
    using cpu_list_mask_bits [OF cpus, of 0] split_cpu_list [OF assms(1)] by auto
  obtain r evs where run: "pisces_run_job u i (Some (base_name exe)) (Some exe) (Some arg) (Some []) 0 0 1 m (16 * 1024 * 1024) (256 * 1024) = (r, evs)"
    by fastforce
  have "pisces_run_main u [LongOpt 1 (cpu_list_text is)] [get_pisces_dev_path i, exe, arg] = Some (r, evs)"
    using run m(1) by (simp add: pisces_run_main_def run_long_opt_def run_defaults_def exe_args_def dev_path_back [OF i])
  moreover have "CHR 0x00 \<notin> set (base_name exe) \<union> set exe \<union> set arg \<union> set []"
    using nonul by (auto simp: base_name_def dest: set_takeWhileD)
  ultimately show ?thesis using job_sent [OF run fits(1,2,3) _ _ fd] m(2) by fastforce
qed

theorem run_tool_job_witness:
  "\<exists>bs r evs. pisces_run_main demo_usr [LongOpt 1 ''2,5''] [''/dev/pisces-enclave0'', ''/bin/sim'', ''-x''] = Some (r, evs) \<and>
     IoctlFd 4 200 (Mem bs) \<in> set evs \<and> jb_name (job_of_bytes bs) = ''sim'' \<and> bit (jb_cpu_mask (job_of_bytes bs)) 5 \<and>
     \<not> bit (jb_cpu_mask (job_of_bytes bs)) 4"
proof -
  have d: "print_int 0 = ''0''" "print_int 2 = ''2''" "print_int 5 = ''5''" by code_simp+
  have t: "cpu_list_text [2, 5] = ''2,5''" "get_pisces_dev_path 0 = ''/dev/pisces-enclave0''" "base_name ''/bin/sim'' = ''sim''"
    by (simp_all add: d get_pisces_dev_path_def base_name_def)
  have f: "us_ioctl_path demo_usr (get_pisces_dev_path 0) 2005 NoArg = 4" by (simp add: demo_usr_def)
  obtain bs r where "pisces_run_main demo_usr [LongOpt 1 (cpu_list_text [2, 5])] [get_pisces_dev_path 0, ''/bin/sim'', ''-x''] =
      Some (r, [IoctlPath (get_pisces_dev_path 0) 2005 NoArg, IoctlFd 4 200 (Mem bs), Close 4])"
    "jb_name (job_of_bytes bs) = base_name ''/bin/sim''" "\<forall>n. bit (jb_cpu_mask (job_of_bytes bs)) n = (n \<in> set [2, 5])"
    using run_tool_job [of "[2, 5]" 0 "''/bin/sim''" "''-x''" demo_usr 4] f by (auto simp: t(3))
  then show ?thesis unfolding t by (intro exI [of _ bs] exI) auto
qed

lemma run_long_opt_job_file: "run_long_opt i a c = Some d \<Longrightarrow> rc_job_file d = rc_job_file c"
  unfolding run_long_opt_def by (cases "opt_number a") (auto split: if_split_asm)

lemma run_options_job_file:
  "run_options opts c = Some c' \<Longrightarrow> JobFile \<notin> set opts \<Longrightarrow> rc_job_file c' = rc_job_file c"
proof (induction opts c arbitrary: c' rule: run_options.induct)
  case (4 i a os c)
  obtain d where d: "run_long_opt i a c = Some d" "run_options os d = Some c'"
    using 4(2) by (cases "run_long_opt i a c") auto
  then show ?case using 4(1) [OF d] 4(3) run_long_opt_job_file [OF d(1)] by simp
qed auto

text \<open>
  A job with two arguments or more is never run: the tool hands a pointer into its command line to
  \<open>free\<close>.
\<close>

theorem run_tool_second_argument:
  assumes "run_options opts run_defaults \<noteq> None" and "JobFile \<notin> set opts"
  shows "pisces_run_main u opts (dev # exe # a # b # as) = None"
proof -
  obtain c where "run_options opts run_defaults = Some c" using assms(1) by auto
  moreover from this have "\<not> rc_job_file c" using run_options_job_file [OF _ assms(2)] by (simp add: run_defaults_def)
  ultimately show ?thesis by (simp add: pisces_run_main_def exe_args_def)
qed

theorem run_tool_second_argument_witness:
  "pisces_run_main demo_usr [LongOpt 2 []] [''/dev/pisces-enclave0'', ''/bin/sim'', ''-n'', ''4''] = None"
  by (rule run_tool_second_argument) (simp_all add: run_long_opt_def)

section \<open>Devices\<close>

text \<open>How often a device was taken from Linux and not given back.\<close>

definition pci_net :: "u32 \<times> u32 \<times> u32 \<Rightarrow> usr_event list \<Rightarrow> int" where
  "pci_net = (\<lambda>(b, d, f) evs. int (count_list evs (OffPci b d f)) - int (count_list evs (OnPci b d f)))"


definition demo_pci_tool :: pci_tool_env where
  "demo_pci_tool = teardown_env.extend (demo_teardown\<lparr>us_ioctl_fd := (\<lambda>fd c a. if c = 180 then 0 else -1)\<rparr>)
     \<lparr>pet_offline_pci = (\<lambda>b d f. 0), pet_online_pci = (\<lambda>b d f. 0)\<rparr>"


section \<open>The console tool\<close>

text \<open>
  The console tool prints everything the console gives and ends with it: when the console delivers
  pieces of text of at most 4096 characters and then nothing, the tool comes back with 0, all pieces
  printed in their order, and the console closed.
\<close>

lemma cons_loop_prints:
  assumes "\<And>k. k < length ts \<Longrightarrow> rd (i + k) = Some (map of_char (ts ! k)) \<and> ts ! k \<noteq> [] \<and> length (ts ! k) \<le> 4096 \<and> CHR 0x00 \<notin> set (ts ! k)"
    and "rd (i + length ts) = Some []"
  shows "cons_loop rd i out = Some (0, out @ concat ts)"
  using assms
proof (induction ts arbitrary: i out)
  case Nil
  then show ?case by (subst cons_loop.simps) simp
next
  case (Cons t ts)
  have t: "rd i = Some (map of_char t)" "t \<noteq> []" "length t \<le> 4096" "CHR 0x00 \<notin> set t" using Cons.prems(1) [of 0] by auto
  have "array_str (map of_char t) = t" using array_str_padded [OF t(4), of 0] by simp
  moreover have "cons_loop rd (i + 1) (out @ t) = Some (0, (out @ t) @ concat ts)"
    by (rule Cons.IH) (use Cons.prems(1) [of "Suc k" for k] Cons.prems(2) in auto)
  ultimately show ?case using t by (subst cons_loop.simps) simp
qed

theorem cons_tool_prints:
  assumes "\<And>k. k < length ts \<Longrightarrow> rd k = Some (map of_char (ts ! k)) \<and> ts ! k \<noteq> [] \<and> length (ts ! k) \<le> 4096 \<and> CHR 0x00 \<notin> set (ts ! k)"
    and "rd (length ts) = Some []" and "- (2 ^ 31) \<le> i" "i < 2 ^ 31"
    and "us_ioctl_path u (get_pisces_dev_path i) 2004 NoArg = fd" "0 \<le> fd"
  shows "pisces_cons_main u rd [get_pisces_dev_path i] =
    Some (0, concat ts, [IoctlPath (get_pisces_dev_path i) 2004 NoArg, Close fd])"
  using cons_loop_prints [of ts rd 0 "[]"] assms
  by (simp add: pisces_cons_main_def pisces_get_cons_fd_def dev_path_back [OF assms(3,4)])

theorem cons_tool_prints_witness:
  "pisces_cons_main demo_usr (\<lambda>k. if k = 0 then Some (map of_char ''hi'') else Some []) [get_pisces_dev_path 0] =
     Some (0, ''hi'', [IoctlPath (get_pisces_dev_path 0) 2004 NoArg, Close 4])"
  using cons_tool_prints [of "[''hi'']" "\<lambda>k. if k = 0 then Some (map of_char ''hi'') else Some []" 0 demo_usr 4]
  by (simp add: demo_usr_def)

end
