(* ===== verification/V3Cons.thy ===== *)
theory V3Cons
  imports UsrLib
begin

text \<open>
  The console tools of virtual machines (\<open>linux_usr/v3_cons_sc.c\<close>, \<open>linux_usr/v3_cons_nosc.c\<close>): screen messages
  read from the console file of the module are drawn with the curses library, keys are turned into
  the scan codes of a PC keyboard and written to the console file.

  Curses enters as the sequence of calls made to it, with the size of the window as a parameter; a
  failed assertion is \<open>None\<close>. A pass of the main loop is a step on what \<open>select\<close>, \<open>read\<close> and \<open>getch\<close> deliver.

  Shown: nothing is ever drawn outside of the window, whatever the virtual machine sends; text that is
  typed reaches the virtual machine as that text, over the module, with no key left down; the second
  tool never reaches the virtual machine.
\<close>

section \<open>Messages\<close>

text \<open>\<open>struct cons_msg\<close> read from its bytes; \<open>None\<close> is an operation the tool does not know.\<close>

definition cons_int :: "nat \<Rightarrow> bytes \<Rightarrow> u32" where
  "cons_int off bs = of_nat (of_le (take 4 (drop off bs)))"

definition parse_cons_msg :: "bytes \<Rightarrow> cons_msg option" where
  "parse_cons_msg bs =
     (let op = bs ! 0 in
      if op = 1 then Some (CONSOLE_CURS_SET (cons_int 1 bs) (cons_int 5 bs))
      else if op = 2 then Some (CONSOLE_CHAR_SET (cons_int 1 bs) (cons_int 5 bs) (bs ! 9) (bs ! 10))
      else if op = 3 then Some (CONSOLE_SCROLL (cons_int 1 bs))
      else if op = 4 then Some CONSOLE_UPDATE
      else if op = 5 then Some (CONSOLE_RESOLUTION (cons_int 1 bs) (cons_int 5 bs))
      else None)"

section \<open>The screen\<close>

record console =
  cn_x :: int
  cn_y :: int
  cn_rows :: int
  cn_cols :: int

record window =
  w_maxx :: int
  w_maxy :: int

datatype draw = MvAddCh int int char | ScrollWin | WMove int int | WRefresh | Putc char | Flush

type_synonym drawn = "(int \<times> draw list \<times> console) option"

text \<open>The character that is shown: zero is a blank, what cannot be printed is a question mark; \<open>char\<close> is signed.\<close>

definition shown_char :: "u8 \<Rightarrow> char" where
  "shown_char b =
     (let c = sint b; c = (if c = 0 then 32 else c) in
      if c < 32 \<or> c \<ge> 127 then CHR ''?'' else char_of (nat c))"

text \<open>With curses (\<open>Some\<close> window), or as plain text on the output.\<close>

definition handle_char_set :: "window option \<Rightarrow> console \<Rightarrow> u32 \<Rightarrow> u32 \<Rightarrow> u8 \<Rightarrow> drawn" where
  "handle_char_set win cn mx my b =
     (let x = sint mx; y = sint my; c = shown_char b in
      case win of
        Some w \<Rightarrow>
          if x < 0 \<or> y < 0 \<or> x > w_maxx w \<or> y > w_maxy w then Some (-1, [], cn)
          else if x = w_maxx w \<and> y = w_maxy w then Some (-1, [], cn)
          else Some (0, [MvAddCh y x c], cn)
      | None \<Rightarrow>
          let newlines = nat (y - cn_y cn); x0 = (if newlines > 0 then 0 else cn_x cn); y0 = cn_y cn + int newlines;
              blanks = nat (x - x0); x1 = x0 + int blanks + 1;
              out = replicate newlines (Putc CHR 0x0A) @ replicate blanks (Putc CHR '' '') @ [Putc c] in
          if x1 > cn_cols cn then None
          else if x1 = cn_cols cn then Some (0, out @ [Putc CHR 0x0A], cn\<lparr>cn_x := 0, cn_y := y0 + 1\<rparr>)
          else Some (0, out, cn\<lparr>cn_x := x1, cn_y := y0\<rparr>))"

definition handle_curs_set :: "window option \<Rightarrow> console \<Rightarrow> u32 \<Rightarrow> u32 \<Rightarrow> drawn" where
  "handle_curs_set win cn mx my =
     Some (0, [], if win = None then cn else cn\<lparr>cn_x := sint mx, cn_y := sint my\<rparr>)"

definition handle_scroll :: "window option \<Rightarrow> console \<Rightarrow> u32 \<Rightarrow> drawn" where
  "handle_scroll win cn n =
     (let lines = sint n in
      if lines < 0 then None
      else if win = None then Some (0, [], cn\<lparr>cn_y := cn_y cn - lines\<rparr>)
      else Some (0, replicate (nat lines) ScrollWin, cn))"

definition handle_text_resolution :: "console \<Rightarrow> u32 \<Rightarrow> u32 \<Rightarrow> drawn" where
  "handle_text_resolution cn cols rows = Some (0, [], cn\<lparr>cn_rows := sint rows, cn_cols := sint cols\<rparr>)"

definition handle_update :: "window option \<Rightarrow> console \<Rightarrow> drawn" where
  "handle_update win cn =
     Some (0, (case win of
         None \<Rightarrow> [Flush]
       | Some w \<Rightarrow>
           (if 0 \<le> cn_x cn \<and> 0 \<le> cn_y cn \<and> cn_x cn \<le> w_maxx w \<and> cn_y cn \<le> w_maxy w then [WMove (cn_y cn) (cn_x cn)] else []) @
           [WRefresh]), cn)"

text \<open>
  A message from the console: the number \<open>read\<close> returned is the number of bytes, or \<open>None\<close> for -1. A
  short read is returned as it is; the results of the handlers are not looked at.
\<close>

definition handle_msg :: "window option \<Rightarrow> console \<Rightarrow> cons_msg \<Rightarrow> drawn" where
  "handle_msg win cn m =
     (case m of
        CONSOLE_CURS_SET x y \<Rightarrow> handle_curs_set win cn x y
      | CONSOLE_CHAR_SET x y c style \<Rightarrow> handle_char_set win cn x y c
      | CONSOLE_SCROLL n \<Rightarrow> handle_scroll win cn n
      | CONSOLE_UPDATE \<Rightarrow> handle_update win cn
      | CONSOLE_RESOLUTION c r \<Rightarrow> handle_text_resolution cn c r)"

definition handle_console_msg :: "window option \<Rightarrow> console \<Rightarrow> bytes option \<Rightarrow> drawn" where
  "handle_console_msg win cn rd =
     (case rd of None \<Rightarrow> Some (-1, [], cn)
      | Some bs \<Rightarrow>
          if length bs \<noteq> sizeof_cons_msg then Some (int (length bs), [], cn)
          else (case parse_cons_msg bs of
              None \<Rightarrow> Some (0, [], cn)
            | Some m \<Rightarrow> map_option (\<lambda>(r, ev, cn'). (0, ev, cn')) (handle_msg win cn m)))"

section \<open>Keys\<close>

definition ascii_to_key_code :: "(u8 \<times> u8) list" where
  "ascii_to_key_code =
     [(0, 0), (0, 0), (0, 0), (0, 0), (0, 0), (0, 0), (0, 0), (0x0E, 0),
      (0x0E, 0), (0x0F, 0), (0x1C, 0), (0, 0), (0, 0), (0x1C, 0), (0, 0), (0, 0),
      (0, 0), (0, 0), (0, 0), (0, 0), (0, 0), (0, 0), (0, 0), (0, 0),
      (0, 0), (0, 0), (0, 0), (0x01, 0), (0, 0), (0, 0), (0, 0), (0, 0),
      (0x39, 0), (0x02, 1), (0x28, 1), (0x04, 1), (0x05, 1), (0x06, 1), (0x08, 1), (0x28, 0),
      (0x0A, 1), (0x0B, 1), (0x09, 1), (0x0D, 1), (0x33, 0), (0x0C, 0), (0x34, 0), (0x35, 0),
      (0x0B, 0), (0x02, 0), (0x03, 0), (0x04, 0), (0x05, 0), (0x06, 0), (0x07, 0), (0x08, 0),
      (0x09, 0), (0x0A, 0), (0x27, 1), (0x27, 0), (0x33, 1), (0x0D, 0), (0x34, 1), (0x35, 1),
      (0x03, 1), (0x1E, 1), (0x30, 1), (0x2E, 1), (0x20, 1), (0x12, 1), (0x21, 1), (0x22, 1),
      (0x23, 1), (0x17, 1), (0x24, 1), (0x25, 1), (0x26, 1), (0x32, 1), (0x31, 1), (0x18, 1),
      (0x19, 1), (0x10, 1), (0x13, 1), (0x1F, 1), (0x14, 1), (0x16, 1), (0x2F, 1), (0x11, 1),
      (0x2D, 1), (0x15, 1), (0x2C, 1), (0x1A, 0), (0x2B, 0), (0x1B, 0), (0x07, 1), (0x0C, 1),
      (0x29, 0), (0x1E, 0), (0x30, 0), (0x2E, 0), (0x20, 0), (0x12, 0), (0x21, 0), (0x22, 0),
      (0x23, 0), (0x17, 0), (0x24, 0), (0x25, 0), (0x26, 0), (0x32, 0), (0x31, 0), (0x18, 0),
      (0x19, 0), (0x10, 0), (0x13, 0), (0x1F, 0), (0x14, 0), (0x16, 0), (0x2F, 0), (0x11, 0),
      (0x2D, 0), (0x15, 0), (0x2C, 0), (0x1A, 1), (0x2B, 1), (0x1B, 1), (0x29, 1), (0x0E, 0)]"

text \<open>The codes a character is sent as: shift, down, up, shift released.\<close>

definition char_scancodes :: "u8 \<Rightarrow> u8 list" where
  "char_scancodes c =
     (if c \<ge> 0x80 then []
      else let (scan_code, capital) = ascii_to_key_code ! unat c in
        if scan_code = 0 \<and> capital = 0 then []
        else (if capital \<noteq> 0 then [0x2a] else []) @ [scan_code, scan_code OR 0x80] @ (if capital \<noteq> 0 then [0xaa] else []))"

text \<open>Single-byte writes, until one fails: whether all succeeded, and what has been written.\<close>

fun write_codes :: "(nat \<Rightarrow> bool) \<Rightarrow> u8 list \<Rightarrow> u8 list \<Rightarrow> bool \<times> u8 list" where
  "write_codes wr [] out = (True, out)"
| "write_codes wr (c # cs) out = (if wr (length out) then write_codes wr cs (out @ [c]) else (False, out))"

definition send_char_to_palacios_as_scancodes :: "(nat \<Rightarrow> bool) \<Rightarrow> u8 \<Rightarrow> u8 list \<Rightarrow> bool \<times> u8 list" where
  "send_char_to_palacios_as_scancodes wr c out = write_codes wr (char_scancodes c) out"

abbreviation KEY_DOWN :: int where "KEY_DOWN \<equiv> 258"
abbreviation KEY_UP :: int where "KEY_UP \<equiv> 259"
abbreviation KEY_LEFT :: int where "KEY_LEFT \<equiv> 260"
abbreviation KEY_RIGHT :: int where "KEY_RIGHT \<equiv> 261"

text \<open>A key, with the one that follows for the escape key; \<open>None\<close> ends the tool.\<close>

definition key_codes :: "int \<Rightarrow> int \<Rightarrow> u8 list option" where
  "key_codes key key2 =
     (if key = 27 then
        if key2 = 96 then None
        else if key2 = 27 then Some [0x01, 0x81]
        else Some ([0x1d] @ char_scancodes (of_int key2) @ [0x9d])
      else if key = KEY_LEFT then Some [0x4B, 0xCB]
      else if key = KEY_RIGHT then Some [0x4D, 0xCD]
      else if key = KEY_UP then Some [0x48, 0xC8]
      else if key = KEY_DOWN then Some [0x50, 0xD0]
      else Some (char_scancodes (of_int key)))"

section \<open>The main loop\<close>

text \<open>
  What one pass finds: an error of \<open>select\<close>, or a read of the console and keys, where they are ready.
\<close>

datatype wakeup = SelectError | Ready "bytes option option" "(int \<times> int) option"

record tool_state =
  ts_console :: console
  ts_out :: "u8 list"
  ts_drawn :: "draw list"

text \<open>
  One pass, and passes over a sequence of wakeups: \<open>Inl\<close> the value of \<open>main\<close>, \<open>Inr\<close> a tool that still runs.
\<close>

definition send_keys :: "(nat \<Rightarrow> bool) \<Rightarrow> (int \<times> int) option \<Rightarrow> tool_state \<Rightarrow> (int + unit) \<times> tool_state" where
  "send_keys wr keys s =
     (case keys of None \<Rightarrow> (Inr (), s)
      | Some (key, key2) \<Rightarrow> (case key_codes key key2 of None \<Rightarrow> (Inl 0, s)
        | Some cs \<Rightarrow> let (ok, out) = write_codes wr cs (ts_out s) in (if ok then Inr () else Inl (-1), s\<lparr>ts_out := out\<rparr>)))"

definition cons_pass :: "window option \<Rightarrow> (nat \<Rightarrow> bool) \<Rightarrow> wakeup \<Rightarrow> tool_state \<Rightarrow> ((int + unit) \<times> tool_state) option" where
  "cons_pass win wr wk s =
     (case wk of SelectError \<Rightarrow> Some (Inl (-1), s)
      | Ready msg keys \<Rightarrow> do {
          (r, ev, cn) \<leftarrow> (case msg of None \<Rightarrow> Some (0, [], ts_console s) | Some rd \<Rightarrow> handle_console_msg win (ts_console s) rd);
          let s1 = s\<lparr>ts_console := cn, ts_drawn := ts_drawn s @ ev\<rparr>;
          Some (if r = -1 then (Inl (-1), s1) else send_keys wr keys s1)
        })"

fun cons_tool_loop :: "window option \<Rightarrow> (nat \<Rightarrow> bool) \<Rightarrow> wakeup list \<Rightarrow> tool_state \<Rightarrow> ((int + unit) \<times> tool_state) option" where
  "cons_tool_loop win wr [] s = Some (Inr (), s)"
| "cons_tool_loop win wr (w # ws) s =
     (case cons_pass win wr w s of None \<Rightarrow> None
      | Some (Inl r, s') \<Rightarrow> Some (Inl r, s')
      | Some (Inr _, s') \<Rightarrow> cons_tool_loop win wr ws s')"

definition check_terminal_size :: "u16 \<Rightarrow> u16 \<Rightarrow> int" where
  "check_terminal_size n_cols n_rows = (if n_cols < 80 \<or> n_rows < 25 then -1 else 0)"

text \<open>
  \<open>main\<close> up to the loop: the number is read before the arguments are counted; \<open>Inl\<close> a return, \<open>Inr\<close> the
  console file. The terminal and the curses screen enter with their size.
\<close>

definition v3_cons_open :: "usr_env \<Rightarrow> u16 \<Rightarrow> u16 \<Rightarrow> string list \<Rightarrow> ((int + int) \<times> usr_event list) option" where
  "v3_cons_open u n_cols n_rows args =
     (case args of enclave_path # i # _ \<Rightarrow>
        let ctrl_fd = us_ioctl_path u enclave_path 2005 NoArg; connect = IoctlPath enclave_path 2005 NoArg;
            arg = Num (of_int (atoi i)); cons_fd = us_ioctl_fd u ctrl_fd 150 arg in
        Some (if check_terminal_size n_cols n_rows \<noteq> 0 then (Inl (-1), [])
          else if ctrl_fd < 0 then (Inl (-1), [connect])
          else if cons_fd < 0 then (Inl (-1), [connect, IoctlFd ctrl_fd 150 arg, Close ctrl_fd, Close cons_fd])
          else (Inr cons_fd, [connect, IoctlFd ctrl_fd 150 arg, Close ctrl_fd]))
      | _ \<Rightarrow> None)"

definition v3_cons_main :: "usr_env \<Rightarrow> window \<Rightarrow> u16 \<Rightarrow> u16 \<Rightarrow> (nat \<Rightarrow> bool) \<Rightarrow> wakeup list \<Rightarrow> string list \<Rightarrow>
    ((int + unit) \<times> usr_event list \<times> tool_state option) option" where
  "v3_cons_main u w n_cols n_rows wr ws args = do {
     (r, ev) \<leftarrow> v3_cons_open u n_cols n_rows args;
     case r of Inl e \<Rightarrow> Some (Inl e, ev, None)
     | Inr cons_fd \<Rightarrow> do {
         (res, s) \<leftarrow> cons_tool_loop (Some w) wr ws
           \<lparr>ts_console = \<lparr>cn_x = 0, cn_y = 0, cn_rows = 0, cn_cols = 0\<rparr>, ts_out = [], ts_drawn = []\<rparr>;
         Some (res, ev @ (if res = Inl 0 then [Close cons_fd] else []), Some s)
       }
   }"

subsection \<open>The tool without a screen\<close>

text \<open>
  \<open>v3_cons_nosc.c\<close> hands every code to the control channel, as a signed character, and ignores what
  comes back. A key is read as above; only the keyboard is waited for.
\<close>

definition nosc_writeit :: "int \<Rightarrow> u8 \<Rightarrow> usr_event" where
  "nosc_writeit fd c = IoctlFd fd 152 (Num (scast c))"

fun nosc_loop :: "int \<Rightarrow> (int \<times> int) option list \<Rightarrow> (int + unit) \<times> usr_event list" where
  "nosc_loop fd [] = (Inr (), [])"
| "nosc_loop fd (None # ws) = (Inl (-1), [])"
| "nosc_loop fd (Some (key, key2) # ws) =
     (case key_codes key key2 of None \<Rightarrow> (Inl 0, [Close fd])
      | Some cs \<Rightarrow> let (r, ev) = nosc_loop fd ws in (r, map (nosc_writeit fd) cs @ ev))"

definition v3_cons_nosc_main :: "usr_env \<Rightarrow> u16 \<Rightarrow> u16 \<Rightarrow> (int \<times> int) option list \<Rightarrow> string list \<Rightarrow> (int + unit) \<times> usr_event list" where
  "v3_cons_nosc_main u n_cols n_rows ws args =
     (case args of enclave_path # _ # _ \<Rightarrow>
        let ctrl_fd = us_ioctl_path u enclave_path 2005 NoArg; connect = IoctlPath enclave_path 2005 NoArg in
        if check_terminal_size n_cols n_rows \<noteq> 0 then (Inl (-1), [])
        else if ctrl_fd < 0 then (Inl (-1), [connect])
        else let (r, ev) = nosc_loop ctrl_fd ws in (r, connect # ev)
      | _ \<Rightarrow> (Inl (-1), []))"

section \<open>Nothing is drawn outside of the window\<close>

definition inside :: "window \<Rightarrow> draw \<Rightarrow> bool" where
  "inside w d =
     (case d of
        MvAddCh y x c \<Rightarrow> 0 \<le> x \<and> x \<le> w_maxx w \<and> 0 \<le> y \<and> y \<le> w_maxy w \<and> (x, y) \<noteq> (w_maxx w, w_maxy w) \<and>
          32 \<le> (of_char c :: nat) \<and> (of_char c :: nat) < 127
      | WMove y x \<Rightarrow> 0 \<le> x \<and> x \<le> w_maxx w \<and> 0 \<le> y \<and> y \<le> w_maxy w
      | ScrollWin \<Rightarrow> True | WRefresh \<Rightarrow> True | Putc c \<Rightarrow> False | Flush \<Rightarrow> False)"

lemma shown_char_printable: "32 \<le> (of_char (shown_char b) :: nat) \<and> (of_char (shown_char b) :: nat) < 127"
proof -
  have "of_char (char_of n :: char) = n" if "n < 127" for n :: nat using that by simp
  then show ?thesis by (auto simp: shown_char_def Let_def nat_less_iff)
qed

lemma handle_msg_inside: "handle_msg (Some w) cn m = Some (r, ev, cn') \<Longrightarrow> list_all (inside w) ev"
  using shown_char_printable
  by (auto simp: handle_msg_def handle_char_set_def handle_curs_set_def handle_scroll_def handle_update_def
      handle_text_resolution_def inside_def Let_def list_all_iff split: cons_msg.splits if_splits)

lemma handle_console_msg_inside: "handle_console_msg (Some w) cn rd = Some (r, ev, cn') \<Longrightarrow> list_all (inside w) ev"
  by (auto simp: handle_console_msg_def split: option.splits if_splits dest: handle_msg_inside)

lemma send_keys_drawn: "send_keys wr keys s = (r, s') \<Longrightarrow> ts_drawn s' = ts_drawn s"
  by (auto simp: send_keys_def Let_def split: option.splits prod.splits)

lemma cons_pass_inside:
  assumes "cons_pass (Some w) wr k s = Some (r, s')" and "list_all (inside w) (ts_drawn s)"
  shows "list_all (inside w) (ts_drawn s')"
proof (cases k)
  case (Ready msg keys)
  obtain q ev cn where m: "(case msg of None \<Rightarrow> Some (0, [], ts_console s) | Some rd \<Rightarrow> handle_console_msg (Some w) (ts_console s) rd) =
      Some (q, ev, cn)" using assms(1) Ready by (auto simp: cons_pass_def split: bind_splits)
  then have "list_all (inside w) ev" by (auto split: option.splits dest: handle_console_msg_inside)
  moreover have "ts_drawn s' = ts_drawn s @ ev"
    using assms(1) Ready m by (auto simp: cons_pass_def Let_def split: if_splits dest: send_keys_drawn)
  ultimately show ?thesis using assms(2) by simp
qed (use assms in \<open>simp add: cons_pass_def\<close>)



section \<open>What is typed arrives\<close>

text \<open>
  A PC keyboard as a virtual machine sees it: the rows of the keyboard by their first scan code, plain
  and with shift, the set of keys that are down, and the characters, each with the state of the
  control key, that a sequence of codes produces.
\<close>

definition kbd_rows :: "(nat \<times> string \<times> string) list" where
  "kbd_rows =
     [(0x02, ''1234567890-='', ''!@#$%^&*()_+''),
      (0x10, ''qwertyuiop[]'', ''QWERTYUIOP{}''),
      (0x1E, ''asdfghjkl;'' @ [CHR 0x27, CHR 0x60], ''ASDFGHJKL:'' @ [CHR 0x22, CHR ''~'']),
      (0x2B, [CHR 0x5C] @ ''zxcvbnm,./'', ''|ZXCVBNM<>?''),
      (0x39, '' '', '' '')]"

definition key_char :: "nat \<Rightarrow> bool \<Rightarrow> char option" where
  "key_char sc shift =
     (case filter (\<lambda>(b, p, q). b \<le> sc \<and> sc < b + length p) kbd_rows of
        [] \<Rightarrow> None
      | (b, p, q) # _ \<Rightarrow> Some ((if shift then q else p) ! (sc - b)))"

fun kbd_run :: "u8 list \<Rightarrow> u8 list \<Rightarrow> u8 list \<times> (bool \<times> char) list" where
  "kbd_run held [] = (held, [])"
| "kbd_run held (c # cs) =
     (if c \<ge> 0x80 then kbd_run (filter (\<lambda>k. k \<noteq> c AND 0x7f) held) cs
      else let out = (if c = 0x2a \<or> c = 0x1d then []
             else case key_char (unat c) (0x2a \<in> set held) of None \<Rightarrow> [] | Some ch \<Rightarrow> [(0x1d \<in> set held, ch)]);
             (h, os) = kbd_run (c # held) cs
           in (h, out @ os))"

lemma kbd_run_append: "kbd_run held (xs @ ys) = (let (h, o1) = kbd_run held xs; (h', o2) = kbd_run h ys in (h', o1 @ o2))"
  by (induction held xs rule: kbd_run.induct) (auto simp: Let_def split: prod.splits)

definition printable :: "char \<Rightarrow> bool" where
  "printable c \<longleftrightarrow> 32 \<le> (of_char c :: nat) \<and> (of_char c :: nat) < 127"

text \<open>The table of the tool agrees with the keyboard on every printable character, alone and with control.\<close>

lemma scancode_table:
  "list_all (\<lambda>n. 32 \<le> n \<longrightarrow> kbd_run [] (char_scancodes (of_nat n)) = ([], [(False, char_of n)])) [0..<127]"
  by code_simp

lemma scancode_table_ctrl:
  "list_all (\<lambda>n. 32 \<le> n \<longrightarrow> kbd_run [] ([0x1d] @ char_scancodes (of_nat n) @ [0x9d]) = ([], [(True, char_of n)])) [0..<127]"
  by code_simp

text \<open>Typing a character, alone or after the escape key, which stands for control.\<close>

definition typed :: "bool \<times> char \<Rightarrow> wakeup" where
  "typed = (\<lambda>(ctrl, c). Ready None (Some (if ctrl then (27, of_char c) else (of_char c, 0))))"

definition typed_codes :: "bool \<times> char \<Rightarrow> u8 list" where
  "typed_codes = (\<lambda>(ctrl, c). if ctrl then [0x1d] @ char_scancodes (of_char c) @ [0x9d] else char_scancodes (of_char c))"

lemma typed_codes_read:
  assumes "printable c"
  shows "kbd_run [] (typed_codes (ctrl, c)) = ([], [(ctrl, c)])"
proof -
  have n: "(of_char c :: u8) = of_nat (of_char c)" by (simp only: of_nat_of_char)
  have p: "32 \<le> (of_char c :: nat)" "(of_char c :: nat) < 127" using assms by (simp_all add: printable_def)
  show ?thesis
    using all_less_code [OF scancode_table p(2)] all_less_code [OF scancode_table_ctrl p(2)] p(1)
    by (cases ctrl) (simp_all add: typed_codes_def n)
qed

lemma kbd_run_typed: "\<forall>k \<in> set ks. printable (snd k) \<Longrightarrow> kbd_run [] (concat (map typed_codes ks)) = ([], ks)"
  by (induction ks) (auto simp: kbd_run_append typed_codes_read)

lemma write_codes_all: "write_codes (\<lambda>_. True) cs out = (True, out @ cs)"
  by (induction cs arbitrary: out) auto

lemma typed_pass:
  assumes "printable (snd k)" and "k \<noteq> (True, CHR 0x60)"
  shows "cons_pass win (\<lambda>_. True) (typed k) s = Some (Inr (), s\<lparr>ts_out := ts_out s @ typed_codes k\<rparr>)"
proof -
  obtain ctrl c where k: "k = (ctrl, c)" by (cases k)
  have p: "32 \<le> (of_char c :: int)" "(of_char c :: int) < 127"
    using assms(1) k by (simp_all add: printable_def flip: of_nat_of_char [where 'a = int])
  have "(of_char c :: int) \<noteq> 96" if ctrl
  proof
    assume "(of_char c :: int) = 96"
    then have "(of_char c :: nat) = of_char (CHR 0x60)" by (simp flip: of_nat_of_char [where 'a = int])
    then have "c = CHR 0x60" by (simp only: of_char_eq_iff)
    then show False using that assms(2) k by simp
  qed
  moreover have "(of_int (of_char c) :: u8) = of_char c" by (metis of_int_of_nat_eq of_nat_of_char)
  ultimately show ?thesis using p
    by (auto simp: k typed_def typed_codes_def cons_pass_def send_keys_def key_codes_def write_codes_all Let_def)
qed

lemma typed_loop:
  assumes "\<forall>k \<in> set ks. printable (snd k) \<and> k \<noteq> (True, CHR 0x60)"
  shows "cons_tool_loop win (\<lambda>_. True) (map typed ks) s = Some (Inr (), s\<lparr>ts_out := ts_out s @ concat (map typed_codes ks)\<rparr>)"
  using assms by (induction ks arbitrary: s) (simp_all add: typed_pass)

text \<open>The scan code in a key command the module sends.\<close>

definition cmd_scan_code :: "bytes \<Rightarrow> u8" where
  "cmd_scan_code m = (case parse_cmd m of None \<Rightarrow> 0 | Some (c, n, d) \<Rightarrow> d ! 4)"

definition cmd_vm_of :: "bytes \<Rightarrow> nat" where
  "cmd_vm_of m = (case parse_cmd m of None \<Rightarrow> 0 | Some (c, n, d) \<Rightarrow> of_le (take 4 d))"

text \<open>
  C11: What is typed reaches the virtual machine: for any sequence of printable characters, each alone or
  with control, the console tool keeps running, and the module turns every code it writes into one
  key command for the virtual machine of the console; a PC keyboard fed with the codes of these
  commands produces exactly the characters typed, in order and with control where it was typed, and no
  key remains down.
\<close>

theorem typed_text_reaches_vm:
  assumes "\<forall>k \<in> set ks. printable (snd k) \<and> k \<noteq> (True, CHR 0x60)" and "ts_out s = []"
  shows "\<exists>s'. cons_tool_loop win (\<lambda>_. True) (map typed ks) s = Some (Inr (), s') \<and>
    (let ms = concat (map (\<lambda>c. snd (console_write vm_id [Some c])) (ts_out s')) in
     kbd_run [] (map cmd_scan_code ms) = ([], ks) \<and> (\<forall>m \<in> set ms. framed PISCES_CMD_VM_CONS_KEYCODE m \<and> cmd_vm_of m = unat vm_id))"
proof -
  have m: "parse_cmd (cmd_vm_cons_keycode vm_id c) = Some (152, 5, le 4 (unat vm_id) @ [c])" for c
    by (simp add: cmd_vm_cons_keycode_def parse_cmd_eq sizeofs)
  have "map cmd_scan_code (concat (map (\<lambda>c. snd (console_write vm_id [Some c])) cs)) = cs" for cs
    by (induction cs) (simp_all add: console_write_def cmd_scan_code_def m nth_append)
  moreover have "framed PISCES_CMD_VM_CONS_KEYCODE x \<and> cmd_vm_of x = unat vm_id"
    if "x \<in> set (concat (map (\<lambda>c. snd (console_write vm_id [Some c])) cs))" for x cs
    using that by (auto simp: console_write_def cmd_vm_of_def framed_def m)
  ultimately show ?thesis using typed_loop [OF assms(1), of win s] kbd_run_typed [of ks] assms by (auto simp: Let_def)
qed

theorem typed_text_reaches_vm_witness:
  "\<exists>s'. cons_tool_loop None (\<lambda>_. True) (map typed [(False, CHR ''H''), (False, CHR ''!''), (True, CHR ''c'')])
       \<lparr>ts_console = \<lparr>cn_x = 0, cn_y = 0, cn_rows = 25, cn_cols = 80\<rparr>, ts_out = [], ts_drawn = []\<rparr> = Some (Inr (), s') \<and>
     kbd_run [] (map cmd_scan_code (concat (map (\<lambda>c. snd (console_write 3 [Some c])) (ts_out s')))) =
       ([], [(False, CHR ''H''), (False, CHR ''!''), (True, CHR ''c'')])"
  using typed_text_reaches_vm [of "[(False, CHR ''H''), (False, CHR ''!''), (True, CHR ''c'')]"
      "\<lparr>ts_console = \<lparr>cn_x = 0, cn_y = 0, cn_rows = 25, cn_cols = 80\<rparr>, ts_out = [], ts_drawn = []\<rparr>" None 3]
  by (auto simp: printable_def Let_def)

section \<open>The tool without a screen\<close>

lemma nosc_loop_events: "nosc_loop fd ws = (r, evs) \<Longrightarrow> e \<in> set evs \<Longrightarrow> e = Close fd \<or> (\<exists>a. e = IoctlFd fd 152 a)"
  by (induction fd ws arbitrary: r evs rule: nosc_loop.induct)
    (auto simp: nosc_writeit_def Let_def split: option.splits prod.splits)

text \<open>
  The tool without a screen never reaches the virtual machine: the only requests it makes on the
  control channel carry the number of the key command, which the control channel refuses in every
  state of the enclave, without sending anything.
\<close>

theorem nosc_keys_refused:
  assumes "v3_cons_nosc_main u n_cols n_rows ws args = (r, evs)" and "IoctlFd fd cmd arg \<in> set evs"
  shows "ctrl_ioctl env cmd a s = Some (-1, [], s)"
proof -
  have "cmd = 152" using assms
    by (auto simp: v3_cons_nosc_main_def Let_def split: list.splits if_splits prod.splits dest!: nosc_loop_events)
  then show ?thesis by (simp add: ctrl_ioctl_def)
qed

theorem nosc_keys_refused_witness:
  "IoctlFd 4 152 (Num 0x1E) \<in> set (snd (v3_cons_nosc_main demo_usr 80 25 [Some (97, 0)] [''/dev/pisces-enclave0'', ''1''])) \<and>
     ctrl_ioctl (demo_ctrl_env 0) 152 0x1E demo_ctrl = Some (-1, [], demo_ctrl)"
proof -
  have k: "key_codes 97 0 = Some [0x1E, 0x9E]" by code_simp
  have i: "IoctlFd 4 152 (Num 0x1E) \<in> set (snd (v3_cons_nosc_main demo_usr 80 25 [Some (97, 0)] [''/dev/pisces-enclave0'', ''1'']))"
    by (simp add: v3_cons_nosc_main_def check_terminal_size_def demo_usr_def k nosc_writeit_def)
  show ?thesis using i nosc_keys_refused [OF surjective_pairing i] by simp
qed

end
