(* ===== verification/Lending.thy ===== *)
theory Lending
  imports Teardown
begin

text \<open>
  What is lent comes back: the launch from user space (\<open>linux_usr/pisces.c\<close>), the request as the module
  handles it (\<open>src/enclave.c\<close>) and the teardown from user space (\<open>linux_usr/teardown.c\<close>) put together.

  Shown: after a launch and a teardown Linux has exactly the CPUs and memory blocks it had before.
\<close>

text \<open>The boot environment as the module reads it from the bytes of the request.\<close>

definition parse_boot_env :: "bytes \<Rightarrow> enclave_boot_env" where
  "parse_boot_env bs =
     \<lparr>be_base_addr = of_nat (of_le (take 8 bs)), be_block_size = of_nat (of_le (take 8 (drop 8 bs))),
      be_num_blocks = of_nat (of_le (take 4 (drop 16 bs))), be_cpu_id = of_nat (of_le (take 4 (drop 20 bs)))\<rparr>"

lemma parse_boot_env_bytes [simp]:
  "parse_boot_env (boot_env_bytes base sz n c) = \<lparr>be_base_addr = base, be_block_size = sz, be_num_blocks = n, be_cpu_id = c\<rparr>"
  by (simp add: parse_boot_env_def boot_env_bytes_def)

text \<open>
  Blocks as Linux has them: a size of whole pages below 4 GB, and a range of whole blocks below \<open>2 ^ 63\<close>.
\<close>

definition env_fits :: "enclave_boot_env \<Rightarrow> bool" where
  "env_fits env \<longleftrightarrow> 0 < unat (be_block_size env) \<and> 4096 dvd unat (be_block_size env) \<and> unat (be_block_size env) < 2 ^ 32 \<and>
     unat (be_cpu_id env) < 2 ^ 31 \<and>
     (\<exists>k. be_base_addr env = of_nat (k * unat (be_block_size env)) \<and> k + unat (be_num_blocks env) < 2 ^ 31 \<and>
        (k + unat (be_num_blocks env)) * unat (be_block_size env) < 2 ^ 63)"

lemma boot_block_pages:
  assumes "env_fits env"
  shows "unat (mb_pages (boot_block env i)) * 4096 = unat (be_block_size env)"
proof -
  let ?s = "unat (be_block_size env)"
  have "unat (be_block_size env div 4096) = ?s div 4096" by (simp add: unat_div)
  moreover have "?s div 4096 < 2 ^ 32" by (rule le_less_trans [OF div_le_dividend]) (use assms in \<open>simp add: env_fits_def\<close>)
  ultimately have "unat (ucast (be_block_size env div 4096) :: u32) = ?s div 4096"
    by (simp add: unsigned_ucast_eq take_bit_nat_eq_self)
  then show ?thesis using assms by (simp add: boot_block_def env_fits_def)
qed

lemma boot_block_fits:
  assumes "env_fits env" and "i < unat (be_num_blocks env)"
  shows "block_fits (be_block_size env) (boot_block env i)"
    "blocks_of (be_block_size env) (boot_block env i) = [be_base_addr env + of_nat i * be_block_size env]"
proof -
  let ?s = "be_block_size env"
  have u: "(of_nat (unat x) :: u64) = x" for x by simp
  obtain k where k: "be_base_addr env = of_nat (k * unat ?s)" "k + unat (be_num_blocks env) < 2 ^ 31"
    "(k + unat (be_num_blocks env)) * unat ?s < 2 ^ 63" and s: "0 < unat ?s" "unat ?s < 2 ^ 32"
    using assms(1) by (auto simp: env_fits_def)
  have b: "mb_base_addr (boot_block env i) = of_nat ((k + i) * unat ?s)"
    by (simp only: boot_block_def k(1) of_nat_mult of_nat_add u distrib_right) simp
  have "(k + i + 1) * unat ?s \<le> (k + unat (be_num_blocks env)) * unat ?s" using assms(2) by (intro mult_right_mono) simp_all
  then have "(k + i + 1) * unat ?s < 2 ^ 63" using k(3) by (rule le_less_trans)
  then show "block_fits ?s (boot_block env i)"
    using b boot_block_pages [OF assms(1), of i] s(2) k(2) assms(2)
    unfolding block_fits_def by (intro exI [of _ "k + i"] exI [of _ 1]) simp
  show "blocks_of ?s (boot_block env i) = [be_base_addr env + of_nat i * ?s]"
    using boot_block_pages [OF assms(1), of i] s(1) by (simp add: blocks_of_def net_simps boot_block_def)
qed

lemma count_blocks_of:
  assumes "env_fits env" and "mset bl = mset (map (boot_block env) [0..<unat (be_num_blocks env)])"
  shows "count_list (concat (map (blocks_of (be_block_size env)) bl)) a =
    count_list (contig (be_block_size env) (unat (be_num_blocks env)) (be_base_addr env)) a"
proof -
  have "mset (concat (map f xs)) = (\<Sum>x\<in>#mset xs. mset (f x))" for f :: "enclave_mem_block \<Rightarrow> u64 list" and xs
    by (induction xs) simp_all
  then have "mset (concat (map (blocks_of (be_block_size env)) bl)) =
      mset (concat (map (blocks_of (be_block_size env)) (map (boot_block env) [0..<unat (be_num_blocks env)])))"
    by (simp only: assms(2))
  moreover have "concat (map (blocks_of (be_block_size env)) (map (boot_block env) is)) =
      map (\<lambda>i. be_base_addr env + of_nat i * be_block_size env) is" if "\<forall>i \<in> set is. i < unat (be_num_blocks env)" for "is"
    using that by (induction "is") (simp_all add: boot_block_fits(2) [OF assms(1)])
  ultimately show ?thesis by (simp add: contig_def flip: count_mset)
qed

section \<open>Launch and teardown\<close>

lemma launched_files_fit:
  assumes "res_ok e'" and "env_fits env" and "mset (en_memdesc_list e') = mset (map (boot_block env) [0..<unat (be_num_blocks env)])"
    and "en_assigned_cpus e' = {unat (be_cpu_id env)}" and "pci_dev_list (en_pci_state e') = []" "pci_dev_cnt (en_pci_state e') = 0"
  shows "files_fit (be_block_size env) e'"
proof -
  have "set (en_memdesc_list e') = boot_block env ` {0..<unat (be_num_blocks env)}"
    using arg_cong [OF assms(3), of set_mset] by simp
  moreover have "length (en_memdesc_list e') = unat (be_num_blocks env)" using arg_cong [OF assms(3), of size] by simp
  ultimately show ?thesis using assms boot_block_fits(1) [OF assms(2)] by (auto simp: files_fit_def env_fits_def)
qed

text \<open>Whether an enclave has a CPU, and how often it has a memory block, in the records of the module.\<close>

definition has_cpu :: "u64 \<Rightarrow> pisces_enclave \<Rightarrow> int" where
  "has_cpu c e = (if unat c \<in> en_assigned_cpus e then 1 else 0)"

definition has_block :: "u64 \<Rightarrow> u64 \<Rightarrow> pisces_enclave \<Rightarrow> int" where
  "has_block bs a e = int (count_list (concat (map (blocks_of bs) (en_memdesc_list e))) a)"

text \<open>An enclave before its launch.\<close>

definition unlaunched :: "pisces_enclave \<Rightarrow> bool" where
  "unlaunched e \<longleftrightarrow> res_ok e \<and> en_assigned_cpus e = {} \<and> en_memdesc_list e = []"

lemma unlaunched_has [simp]: "unlaunched e \<Longrightarrow> has_cpu c e = 0" "unlaunched e \<Longrightarrow> has_block bs a e = 0"
  by (simp_all add: unlaunched_def has_cpu_def has_block_def)

text \<open>After a launch the module has recorded exactly what user space took from Linux.\<close>

lemma launch_records_taken:
  assumes fresh: "unlaunched e"
    and launch: "pisces_launch v i cpu_id block_id numa_zone num_blocks = Some (0, evs)" "0 \<le> num_blocks" "num_blocks < 2 ^ 31"
      "cpu_id = PISCES_ANY \<or> 0 \<le> cpu_id \<and> cpu_id < 2 ^ 31" "\<forall>c \<in> set (snd (pet_offline_cpus v 1 numa_zone)). unat c < 2 ^ 32"
    and request: "last evs = IoctlPath (get_pisces_dev_path i) 2000 (Mem bytes)" "env_fits (parse_boot_env bytes)"
      "ioctl_launch e (Some (parse_boot_env bytes)) 0 lcall 0 = Some (0, e')"
  shows "res_ok e'" "cpu_net c evs = has_cpu c e'" "mem_net (pet_block_size v) a evs = has_block (pet_block_size v) a e'"
    "en_pci_state e' = en_pci_state e" "pet_block_size v \<noteq> 0"
    "pci_dev_list (en_pci_state e) = [] \<Longrightarrow> pci_dev_cnt (en_pci_state e) = 0 \<Longrightarrow> files_fit (pet_block_size v) e'"
proof -
  let ?bs = "pet_block_size v"
  obtain base n k where l: "bytes = boot_env_bytes base ?bs n k" "\<And>d. cpu_net d evs = (if d = ucast k then 1 else 0)"
    "\<And>a. mem_net ?bs a evs = int (count_list (contig ?bs (unat n) base) a)"
    using launch_accounts [OF launch] request(1) by auto
  define env where "env = parse_boot_env bytes"
  have v: "env = \<lparr>be_base_addr = base, be_block_size = ?bs, be_num_blocks = n, be_cpu_id = k\<rparr>" by (simp add: env_def l(1))
  have fits: "env_fits env" using request(2) by (simp add: env_def)
  have f: "res_ok e" "en_assigned_cpus e = {}" "en_memdesc_list e = []" using fresh by (simp_all add: unlaunched_def)
  have "unat n < 4294967296" "card (en_assigned_cpus e) < 4294967295" using f(2) by simp_all
  with enclave_launch_records [OF f(1), of env 0 lcall 0] request(3) f
  have r: "res_ok e'" "mset (en_memdesc_list e') = mset (map (boot_block env) [0..<unat (be_num_blocks env)])"
    "en_assigned_cpus e' = {unat k}" "en_pci_state e' = en_pci_state e" by (simp_all add: env_def [symmetric] v)
  have "unat d = unat k \<longleftrightarrow> d = ucast k" for d :: u64 by (simp add: unat_inj_iff unat_ucast_u32)
  then show "cpu_net c evs = has_cpu c e'" by (simp add: l(2) has_cpu_def r(3))
  show "mem_net ?bs a evs = has_block ?bs a e'" using count_blocks_of [OF fits r(2)] by (simp add: l(3) has_block_def v)
  show "pet_block_size v \<noteq> 0" using fits by (auto simp: env_fits_def v)
  show "files_fit ?bs e'" if "pci_dev_list (en_pci_state e) = []" "pci_dev_cnt (en_pci_state e) = 0"
    using launched_files_fit [OF r(1) fits r(2)] r(3,4) that by (simp add: v)
  show "res_ok e'" "en_pci_state e' = en_pci_state e" using r by simp_all
qed

text \<open>
  C7: What is lent comes back: when \<open>pisces_launch\<close> has started a fresh enclave, and the module has handled
  exactly the request it made, then \<open>pisces_teardown\<close> on the files the module shows for that enclave
  leaves Linux with every CPU and every memory block it had before the launch: over both runs nothing is taken
  that is not given back, and nothing is given back twice.
\<close>

theorem lent_resources_return:
  assumes fresh: "res_ok e" "en_assigned_cpus e = {}" "en_memdesc_list e = []" "pci_dev_list (en_pci_state e) = []"
      "pci_dev_cnt (en_pci_state e) = 0"
    and launch: "pisces_launch v i cpu_id block_id numa_zone num_blocks = Some (0, evs)" "0 \<le> num_blocks" "num_blocks < 2 ^ 31"
      "cpu_id = PISCES_ANY \<or> 0 \<le> cpu_id \<and> cpu_id < 2 ^ 31" "\<forall>c \<in> set (snd (pet_offline_cpus v 1 numa_zone)). unat c < 2 ^ 32"
    and request: "last evs = IoctlPath (get_pisces_dev_path i) 2000 (Mem bytes)" "env_fits (parse_boot_env bytes)"
      "ioctl_launch e (Some (parse_boot_env bytes)) 0 lcall 0 = Some (0, e')"
    and tool: "pet_block_size u = pet_block_size v" "us_malloc u"
      "td_fopen u (proc_path i ''/cpus'') = Some (proc_cpu_text e')" "td_fopen u (proc_path i ''/memory'') = Some (proc_mem_text e')"
      "td_fopen u (proc_path i ''/pci'') = Some (proc_pci_text e')"
      "us_ioctl_path u (get_pisces_dev_path i) 2005 NoArg = fd" "0 \<le> fd" "us_ioctl_fd u fd 900 (Num 0) = 0"
      "\<And>b s f. unat b < 256 \<Longrightarrow> unat s < 32 \<Longrightarrow> unat f < 8 \<Longrightarrow> pet_parse_bdf u (bdf_text b s f) = Some (b, s, f)"
  shows "\<exists>evs'. pisces_teardown u i = Some (0, evs') \<and>
    (\<forall>c. cpu_net c (evs @ evs') = 0) \<and> (\<forall>a. mem_net (pet_block_size v) a (evs @ evs') = 0)"
proof -
  let ?bs = "pet_block_size v"
  have u: "unlaunched e" using fresh by (simp add: unlaunched_def)
  note l = launch_records_taken [OF u launch request]
  have f: "files_fit (pet_block_size u) e'" "pet_block_size u \<noteq> 0" using l(5,6) fresh(4,5) tool(1) by simp_all
  obtain evs' where t: "pisces_teardown u i = Some (0, [IoctlPath (get_pisces_dev_path i) 2005 NoArg, IoctlFd fd 900 (Num 0), Close fd,
        IoctlPath ''/dev/pisces'' 1003 (Num (of_int i))] @ evs')"
    "\<And>d. cpu_net d evs' = (if unat d \<in> en_assigned_cpus e' then -1 else 0)"
    "\<And>a. mem_net ?bs a evs' = - int (count_list (concat (map (blocks_of ?bs) (en_memdesc_list e'))) a)"
    using teardown_accounts [OF f tool(2-9)] tool(1) by auto
  show ?thesis using t l(2,3) by (simp add: net_simps has_cpu_def has_block_def)
qed

definition demo_lender :: usr_env where
  "demo_lender = demo_usr\<lparr>us_ioctl_path := (\<lambda>p c a. 4), us_ioctl_fd := (\<lambda>fd c a. 0)\<rparr>"

definition demo_lent :: pisces_enclave where
  "demo_lent = snd (the (ioctl_launch zero_enclave (Some (parse_boot_env (boot_env_bytes 0x10000000 0x8000000 2 3))) 0 True 0))"

definition demo_returner :: teardown_env where
  "demo_returner = demo_teardown\<lparr>td_fopen := (\<lambda>p. if p = proc_path 0 ''/cpus'' then Some (proc_cpu_text demo_lent)
     else if p = proc_path 0 ''/memory'' then Some (proc_mem_text demo_lent) else Some (proc_pci_text demo_lent))\<rparr>"

abbreviation demo_request :: bytes where "demo_request \<equiv> boot_env_bytes 0x10000000 0x8000000 2 3"

lemma demo_lending:
  "pisces_launch demo_lender 0 PISCES_ANY PISCES_ANY PISCES_ANY 2 =
     Some (0, [OffContig 2 0x10000000, OffCpu 3, IoctlPath (get_pisces_dev_path 0) 2000 (Mem demo_request)])"
  "unlaunched zero_enclave" "env_fits (parse_boot_env demo_request)"
  "ioctl_launch zero_enclave (Some (parse_boot_env demo_request)) 0 True 0 = Some (0, demo_lent)"
  "\<forall>c \<in> set (snd (pet_offline_cpus demo_lender 1 PISCES_ANY)). unat c < 2 ^ 32" "pet_block_size demo_lender = 0x8000000"
proof -
  show z: "unlaunched zero_enclave" by (simp add: unlaunched_def zero_enclave_def res_ok_def)
  show "ioctl_launch zero_enclave (Some (parse_boot_env demo_request)) 0 True 0 = Some (0, demo_lent)"
    using enclave_launch_records [of zero_enclave "parse_boot_env demo_request" 0 True 0] z by (auto simp: demo_lent_def unlaunched_def)
  show "env_fits (parse_boot_env demo_request)" unfolding env_fits_def by (simp, intro exI [of _ 2]) simp
qed (simp_all add: pisces_launch_def launch_mem_def launch_cpu_def demo_lender_def demo_usr_def upt_rec)

theorem lent_resources_return_witness:
  "\<exists>evs evs'. pisces_launch demo_lender 0 PISCES_ANY PISCES_ANY PISCES_ANY 2 = Some (0, evs) \<and> cpu_net 3 evs = 1 \<and>
     pisces_teardown demo_returner 0 = Some (0, evs') \<and> cpu_net 3 (evs @ evs') = 0 \<and> mem_net 0x8000000 0x18000000 (evs @ evs') = 0"
proof -
  let ?evs = "[OffContig 2 0x10000000, OffCpu 3, IoctlPath (get_pisces_dev_path 0) 2000 (Mem demo_request)]"
  note run = demo_lending(1) and f = demo_lending(3) and k = demo_lending(4) and c = demo_lending(5)
  have z: "res_ok zero_enclave" "en_assigned_cpus zero_enclave = {}" "en_memdesc_list zero_enclave = []"
    "pci_dev_list (en_pci_state zero_enclave) = []" "pci_dev_cnt (en_pci_state zero_enclave) = 0"
    by (simp_all add: zero_enclave_def res_ok_def)
  have d: "pet_block_size demo_returner = pet_block_size demo_lender" "us_malloc demo_returner"
    "td_fopen demo_returner (proc_path 0 ''/cpus'') = Some (proc_cpu_text demo_lent)"
    "td_fopen demo_returner (proc_path 0 ''/memory'') = Some (proc_mem_text demo_lent)"
    "td_fopen demo_returner (proc_path 0 ''/pci'') = Some (proc_pci_text demo_lent)"
    "us_ioctl_path demo_returner (get_pisces_dev_path 0) 2005 NoArg = 4" "us_ioctl_fd demo_returner 4 900 (Num 0) = 0"
    "pet_parse_bdf demo_returner = pet_parse_bdf demo_teardown" "pet_block_size demo_lender = 0x8000000"
    by (simp_all add: demo_returner_def demo_teardown_def demo_lender_def demo_usr_def usr_env.extend_def proc_path_def)
  have "\<exists>evs'. pisces_teardown demo_returner 0 = Some (0, evs') \<and> (\<forall>c. cpu_net c (?evs @ evs') = 0) \<and>
      (\<forall>a. mem_net (pet_block_size demo_lender) a (?evs @ evs') = 0)"
    by (rule lent_resources_return [OF z run _ _ _ c _ f k d(1-6) _ d(7)]) (simp_all add: d(8) demo_parse_bdf)
  then obtain evs' where t: "pisces_teardown demo_returner 0 = Some (0, evs')" "cpu_net 3 (?evs @ evs') = 0"
    "mem_net 0x8000000 0x18000000 (?evs @ evs') = 0" unfolding d(9) by blast
  have "cpu_net 3 ?evs = 1" by (simp add: net_simps)
  then show ?thesis using run t by blast
qed

end
