(* ===== verification/Partition.thy ===== *)
theory Partition
  imports Lending Launch
begin

text \<open>
  Who has a CPU or a memory block: Linux and the enclaves of a host, over all that is done to them. The parts are
  the tools of user space (\<open>linux_usr/pisces.c\<close>, \<open>linux_usr/pisces_ctrl.c\<close>, \<open>linux_usr/teardown.c\<close>), which
  take from Linux and give back, and the requests of the module (\<open>src/enclave.c\<close>, \<open>src/enclave_ctrl.c\<close>),
  which keep the records.

  Shown: as long as every request of the tools succeeds, each CPU and each block is with Linux or with exactly
  one enclave, and the records of the module say with which. Three failures break this: a launch that fails in
  the module, a CPU that the enclave refuses, and a CPU that is taken back from an enclave.
\<close>

section \<open>A host and what is done to it\<close>

text \<open>All events of user space so far, and the enclaves by number.\<close>

record host =
  ho_log :: "usr_event list"
  ho_enclaves :: "int \<rightharpoonup> pisces_enclave"

text \<open>Memory blocks of whole pages, of less than 4 GB.\<close>

definition block_size_ok :: "u64 \<Rightarrow> bool" where
  "block_size_ok bs \<longleftrightarrow> 0 < unat bs \<and> 4096 dvd unat bs \<and> unat bs < 2 ^ 32"

text \<open>The teardown finds the files of the enclave, and the enclave accepts the shutdown.\<close>

definition teardown_ready :: "teardown_env \<Rightarrow> int \<Rightarrow> pisces_enclave \<Rightarrow> bool" where
  "teardown_ready u i e \<longleftrightarrow> files_fit (pet_block_size u) e \<and> us_malloc u \<and>
     td_fopen u (proc_path i ''/cpus'') = Some (proc_cpu_text e) \<and> td_fopen u (proc_path i ''/memory'') = Some (proc_mem_text e) \<and>
     td_fopen u (proc_path i ''/pci'') = Some (proc_pci_text e) \<and> 0 \<le> us_ioctl_path u (get_pisces_dev_path i) 2005 NoArg \<and>
     us_ioctl_fd u (us_ioctl_path u (get_pisces_dev_path i) 2005 NoArg) 900 (Num 0) = 0 \<and>
     (\<forall>b s f. unat b < 256 \<longrightarrow> unat s < 32 \<longrightarrow> unat f < 8 \<longrightarrow> pet_parse_bdf u (bdf_text b s f) = Some (b, s, f))"

inductive host_step :: "u64 \<Rightarrow> host \<Rightarrow> host \<Rightarrow> bool" for bs where
  load: "ho_enclaves h i = None \<Longrightarrow> unlaunched e \<Longrightarrow>
    host_step bs h (h\<lparr>ho_enclaves := (ho_enclaves h)(i \<mapsto> e)\<rparr>)"
| launch: "ho_enclaves h i = Some e \<Longrightarrow> unlaunched e \<Longrightarrow> pet_block_size v = bs \<Longrightarrow>
    pisces_launch v i cpu_id block_id numa_zone num_blocks = Some (0, evs) \<Longrightarrow> 0 \<le> num_blocks \<Longrightarrow> num_blocks < 2 ^ 31 \<Longrightarrow>
    cpu_id = PISCES_ANY \<or> 0 \<le> cpu_id \<and> cpu_id < 2 ^ 31 \<Longrightarrow> \<forall>c \<in> set (snd (pet_offline_cpus v 1 numa_zone)). unat c < 2 ^ 32 \<Longrightarrow>
    last evs = IoctlPath (get_pisces_dev_path i) 2000 (Mem bytes) \<Longrightarrow> env_fits (parse_boot_env bytes) \<Longrightarrow>
    ioctl_launch e (Some (parse_boot_env bytes)) 0 lcall 0 = Some (0, e') \<Longrightarrow>
    host_step bs h \<lparr>ho_log = ho_log h @ evs, ho_enclaves = (ho_enclaves h)(i \<mapsto> e')\<rparr>"
| launch_not_made: "pet_block_size v = bs \<Longrightarrow>
    pisces_launch v i cpu_id block_id numa_zone num_blocks = Some (-1, evs) \<Longrightarrow> 0 \<le> num_blocks \<Longrightarrow> num_blocks < 2 ^ 31 \<Longrightarrow>
    cpu_id = PISCES_ANY \<or> 0 \<le> cpu_id \<and> cpu_id < 2 ^ 31 \<Longrightarrow> \<forall>c \<in> set (snd (pet_offline_cpus v 1 numa_zone)). unat c < 2 ^ 32 \<Longrightarrow>
    \<forall>p c a. IoctlPath p c a \<notin> set evs \<Longrightarrow>
    host_step bs h (h\<lparr>ho_log := ho_log h @ evs\<rparr>)"
| add_cpu: "ho_enclaves h i = Some (cs_enclave s) \<Longrightarrow> pisces_add_cpu u i c = (0, evs) \<Longrightarrow> unat c < 2 ^ 32 \<Longrightarrow>
    ioctl_add_cpu env c s = Some (0, ev, s') \<Longrightarrow> card (en_assigned_cpus (cs_enclave s)) < 4294967295 \<Longrightarrow>
    host_step bs h \<lparr>ho_log = ho_log h @ evs, ho_enclaves = (ho_enclaves h)(i \<mapsto> cs_enclave s')\<rparr>"
| add_mem: "ho_enclaves h i = Some (cs_enclave s) \<Longrightarrow> pet_block_size u = bs \<Longrightarrow> block_size_ok bs \<Longrightarrow>
    pisces_add_mem_explicit u i b = (0, evs) \<Longrightarrow>
    cx_user env 16 = Some (mem_range_bytes (block_addr bs b) (bs div 4096)) \<Longrightarrow> ioctl_add_mem env s = Some (0, ev, s') \<Longrightarrow>
    length (en_memdesc_list (cs_enclave s)) < 4294967295 \<Longrightarrow>
    host_step bs h \<lparr>ho_log = ho_log h @ evs, ho_enclaves = (ho_enclaves h)(i \<mapsto> cs_enclave s')\<rparr>"
| reset: "ho_enclaves h i = Some (lz_enclave z) \<Longrightarrow> ioctl_reset lenv cenv penv z = Some (r, evs, z') \<Longrightarrow>
    host_step bs h (h\<lparr>ho_enclaves := (ho_enclaves h)(i \<mapsto> lz_enclave z')\<rparr>)"
| teardown: "ho_enclaves h i = Some e \<Longrightarrow> pet_block_size u = bs \<Longrightarrow> bs \<noteq> 0 \<Longrightarrow> teardown_ready u i e \<Longrightarrow>
    pisces_teardown u i = Some (0, evs) \<Longrightarrow>
    host_step bs h \<lparr>ho_log = ho_log h @ evs, ho_enclaves = (ho_enclaves h)(i := None)\<rparr>"

section \<open>The ledger\<close>

definition held :: "('e \<Rightarrow> int) \<Rightarrow> ('k \<rightharpoonup> 'e) \<Rightarrow> int" where
  "held f m = (\<Sum>i\<in>dom m. f (the (m i)))"

lemma held_upd:
  assumes "finite (dom m)"
  shows "held f (m(i \<mapsto> e)) = held f (m(i := None)) + f e"
proof -
  have "(\<Sum>j\<in>dom m - {i}. f (the (if j = i then Some e else m j))) = (\<Sum>j\<in>dom m - {i}. f (the (if j = i then None else m j)))"
    by (intro sum.cong) auto
  then show ?thesis using assms by (simp add: held_def insert_absorb sum.insert_remove)
qed

lemma held_same: "m i = Some e \<Longrightarrow> finite (dom m) \<Longrightarrow> held f m = held f (m(i := None)) + f e"
  using held_upd [of m f i e] by (simp add: map_upd_triv)

lemma held_ge:
  assumes "finite (dom m)" and "\<And>e. 0 \<le> f e" and "m i = Some e"
  shows "f e \<le> held f m" "m j = Some e' \<Longrightarrow> j \<noteq> i \<Longrightarrow> f e + f e' \<le> held f m"
proof -
  have pos: "0 \<le> held f k" for k :: "'a \<rightharpoonup> 'b" using assms(2) by (simp add: held_def sum_nonneg)
  show "f e \<le> held f m" using held_same [OF assms(3,1)] pos by simp
  show "f e + f e' \<le> held f m" if "m j = Some e'" "j \<noteq> i"
    using held_same [OF assms(3,1)] held_same [of "m(i := None)" j e' f] pos that assms(1) by simp
qed

text \<open>What is away from Linux is what the enclaves have.\<close>

definition ledger :: "u64 \<Rightarrow> host \<Rightarrow> bool" where
  "ledger bs h \<longleftrightarrow> finite (dom (ho_enclaves h)) \<and> (\<forall>i e. ho_enclaves h i = Some e \<longrightarrow> res_ok e) \<and>
     (\<forall>c. cpu_net c (ho_log h) = held (has_cpu c) (ho_enclaves h)) \<and>
     (\<forall>a. mem_net bs a (ho_log h) = held (has_block bs a) (ho_enclaves h))"

text \<open>Every step changes one enclave at most, and the events account for the change.\<close>

lemma ledger_upd:
  assumes "ledger bs h" and "ho_enclaves h i = Some e" and "res_ok e'"
    and "\<And>c. cpu_net c evs = has_cpu c e' - has_cpu c e" and "\<And>a. mem_net bs a evs = has_block bs a e' - has_block bs a e"
  shows "ledger bs \<lparr>ho_log = ho_log h @ evs, ho_enclaves = (ho_enclaves h)(i \<mapsto> e')\<rparr>"
proof -
  have "finite (dom (ho_enclaves h))" using assms(1) by (simp add: ledger_def)
  then show ?thesis
    using assms held_same [where m = "ho_enclaves h", OF assms(2)] by (auto simp: ledger_def net_simps held_upd)
qed

lemma ledger_events:
  assumes "ledger bs h" and "\<And>c. cpu_net c evs = 0" and "\<And>a. mem_net bs a evs = 0"
  shows "ledger bs (h\<lparr>ho_log := ho_log h @ evs\<rparr>)"
  using assms by (simp add: ledger_def net_simps)

section \<open>The steps\<close>

lemma add_cpu_records:
  assumes "ioctl_add_cpu env c s = Some (0, ev, s')" and "unat c < 2 ^ 32" and "res_ok (cs_enclave s)"
    and "card (en_assigned_cpus (cs_enclave s)) < 4294967295"
  shows "res_ok (cs_enclave s')" "has_cpu d (cs_enclave s') = has_cpu d (cs_enclave s) + (if d = c then 1 else 0)"
    "has_block bs a (cs_enclave s') = has_block bs a (cs_enclave s)"
proof -
  let ?p = "pisces_enclave_add_cpu (cs_enclave s) (ucast c)"
  have n: "fst ?p = 0" "cs_enclave s' = snd ?p"
    using assms(1) by (auto simp: ioctl_add_cpu_def cs_upd_enclave_def split: prod.splits if_splits bind_splits)
  then have new: "unat (ucast c :: u32) \<notin> en_assigned_cpus (cs_enclave s)" by (auto simp: pisces_enclave_add_cpu_def split: if_splits)
  have u: "unat (ucast c :: u32) = unat c" using assms(2) by (simp add: unsigned_ucast_eq take_bit_nat_eq_self)
  note ok = add_cpu_ok [OF assms(3,4), of "ucast c", folded n(2)]
  show "res_ok (cs_enclave s')" by (rule ok(1))
  show "has_cpu d (cs_enclave s') = has_cpu d (cs_enclave s) + (if d = c then 1 else 0)"
    using ok(2) new by (auto simp: has_cpu_def u unat_inj_iff)
  show "has_block bs a (cs_enclave s') = has_block bs a (cs_enclave s)" using ok(3) by (simp add: has_block_def)
qed

lemma one_block:
  assumes "block_size_ok bs"
  shows "blocks_of bs \<lparr>mb_base_addr = b, mb_pages = ucast (bs div 4096)\<rparr> = [b]"
proof -
  let ?env = "\<lparr>be_base_addr = 0, be_block_size = bs, be_num_blocks = 0, be_cpu_id = 0\<rparr>"
  have "env_fits ?env" unfolding env_fits_def using assms by (simp add: block_size_ok_def, intro exI [of _ 0]) simp
  from boot_block_pages [OF this, of 0] show ?thesis using assms
    by (simp add: boot_block_def blocks_of_def net_simps block_size_ok_def)
qed

lemma count_concat_mset:
  "mset xs = mset ys \<Longrightarrow> count_list (concat (map f xs)) a = count_list (concat (map f ys)) a"
proof -
  have "mset (concat (map f zs)) = (\<Sum>z\<in>#mset zs. mset (f z))" for zs by (induction zs) simp_all
  then show "mset xs = mset ys \<Longrightarrow> ?thesis" by (metis count_mset)
qed

lemma add_mem_records:
  assumes "ioctl_add_mem env s = Some (0, ev, s')" and "cx_user env 16 = Some (mem_range_bytes b (bs div 4096))"
    and "block_size_ok bs" and "res_ok (cs_enclave s)" and "length (en_memdesc_list (cs_enclave s)) < 4294967295"
  shows "res_ok (cs_enclave s')" "has_cpu d (cs_enclave s') = has_cpu d (cs_enclave s)"
    "has_block bs a (cs_enclave s') = has_block bs a (cs_enclave s) + (if a = b then 1 else 0)"
proof -
  let ?b = "\<lparr>mb_base_addr = b, mb_pages = ucast (bs div 4096)\<rparr>"
  have p: "of_nat (of_le (take 8 (mem_range_bytes b q))) = b" "of_nat (of_le (drop 8 (mem_range_bytes b q))) = q" for q :: u64
    by (simp_all add: mem_range_bytes_def)
  have n: "pisces_enclave_add_mem (cs_enclave s) b (ucast (bs div 4096)) True = Some (0, cs_enclave s')"
    using assms(1,2) by (auto simp: ioctl_add_mem_def sizeof_memory_range_def p cs_upd_enclave_def Let_def split: prod.splits if_splits bind_splits)
  note ok = add_mem_ok [OF assms(4,5) n]
  show "res_ok (cs_enclave s')" by (rule ok(1))
  show "has_cpu d (cs_enclave s') = has_cpu d (cs_enclave s)" using ok(4) by (simp add: has_cpu_def)
  have "mset (en_memdesc_list (cs_enclave s')) = mset (?b # en_memdesc_list (cs_enclave s))" using ok(3) by simp
  from count_concat_mset [OF this, of "blocks_of bs" a]
  show "has_block bs a (cs_enclave s') = has_block bs a (cs_enclave s) + (if a = b then 1 else 0)"
    by (simp add: has_block_def one_block [OF assms(3)])
qed

lemma reset_keeps:
  assumes "ioctl_reset lenv cenv penv z = Some (r, evs, z')"
  shows "res_ok (lz_enclave z') = res_ok (lz_enclave z)" "has_cpu c (lz_enclave z') = has_cpu c (lz_enclave z)"
    "has_block bs a (lz_enclave z') = has_block bs a (lz_enclave z)"
proof -
  have n: "en_memdesc_list (lz_enclave y') = en_memdesc_list (lz_enclave y) \<and> en_assigned_cpus (lz_enclave y') = en_assigned_cpus (lz_enclave y) \<and>
      en_memdesc_num (lz_enclave y') = en_memdesc_num (lz_enclave y) \<and> en_num_cpus (lz_enclave y') = en_num_cpus (lz_enclave y)"
    if "run_launch lenv y = Some (q, y')" for y y' q
    using that by (auto simp: run_launch_def pisces_enclave_launch_def Let_def split: if_splits bind_splits)
  obtain ls x irqs d tr pst q where
    l: "pisces_lcall_deinit (ba_lcall (lz_area z)) (ba_lcall_xbuf (lz_area z)) (ba_irqs (lz_area z)) = Some (d, ls, x, irqs)"
      "reset_enclave_pci penv (en_pci_state (lz_enclave z)) = (q, tr, pst)"
    using assms unfolding ioctl_reset_def by (cases "reset_enclave_pci penv (en_pci_state (lz_enclave z))") (auto simp: Let_def split: bind_splits)
  obtain y z2 where y: "run_launch lenv y = Some (r, z2)" "lz_enclave y = (lz_enclave z)\<lparr>en_pci_state := pst\<rparr>"
    and z: "z' = z2 \<or> (\<exists>p. z' = z2\<lparr>lz_enclave := (lz_enclave z2)\<lparr>en_pci_state := p\<rparr>\<rparr>)"
  proof -
    let ?y = "z\<lparr>lz_events := lz_events z @ snd (stop_enclave (la_apic lenv) (sorted_list_of_set (en_assigned_cpus (lz_enclave z)))),
      lz_area := (lz_area z)\<lparr>ba_lcall := ls, ba_lcall_xbuf := x, ba_irqs := irqs\<rparr>, lz_enclave := (lz_enclave z)\<lparr>en_pci_state := pst\<rparr>\<rparr>"
    obtain ret z2 where y: "run_launch lenv ?y = Some (ret, z2)"
      using assms unfolding ioctl_reset_def by (auto simp: l Let_def split: bind_splits)
    then have "ret = r \<and> (z' = z2 \<or> (\<exists>p. z' = z2\<lparr>lz_enclave := (lz_enclave z2)\<lparr>en_pci_state := p\<rparr>\<rparr>))"
      using assms unfolding ioctl_reset_def by (auto simp: l Let_def split: bind_splits if_splits)
    then show thesis using that [of ?y z2] y by simp
  qed
  have "en_memdesc_list (lz_enclave z') = en_memdesc_list (lz_enclave z) \<and> en_assigned_cpus (lz_enclave z') = en_assigned_cpus (lz_enclave z) \<and>
      en_memdesc_num (lz_enclave z') = en_memdesc_num (lz_enclave z) \<and> en_num_cpus (lz_enclave z') = en_num_cpus (lz_enclave z)"
    using z
  proof
    assume "z' = z2"
    then show ?thesis using n [OF y(1)] unfolding y(2) by simp
  next
    assume "\<exists>p. z' = z2\<lparr>lz_enclave := (lz_enclave z2)\<lparr>en_pci_state := p\<rparr>\<rparr>"
    then obtain p where "lz_enclave z' = (lz_enclave z2)\<lparr>en_pci_state := p\<rparr>" by auto
    then show ?thesis using n [OF y(1)] unfolding y(2) by simp
  qed
  then show "res_ok (lz_enclave z') = res_ok (lz_enclave z)" "has_cpu c (lz_enclave z') = has_cpu c (lz_enclave z)"
    "has_block bs a (lz_enclave z') = has_block bs a (lz_enclave z)" by (simp_all add: res_ok_def has_cpu_def has_block_def)
qed

lemma teardown_gives:
  assumes "teardown_ready u i e" and "pet_block_size u \<noteq> 0" and "pisces_teardown u i = Some (0, evs)"
  shows "cpu_net c evs = - has_cpu c e" "mem_net (pet_block_size u) a evs = - has_block (pet_block_size u) a e"
proof -
  have "\<exists>evs. pisces_teardown u i = Some (0, evs) \<and> (\<forall>c. cpu_net c evs = - has_cpu c e) \<and>
      (\<forall>a. mem_net (pet_block_size u) a evs = - has_block (pet_block_size u) a e)"
    using teardown_accounts [of u e i, OF _ assms(2) _ _ _ _ refl] assms(1)
    by (force simp: teardown_ready_def net_simps has_cpu_def has_block_def)
  then show "cpu_net c evs = - has_cpu c e" "mem_net (pet_block_size u) a evs = - has_block (pet_block_size u) a e"
    using assms(3) by auto
qed

lemma send_ctrl_cmd_takes_nothing:
  "pisces_send_ctrl_cmd u i cmd arg = (r, ev) \<Longrightarrow> cpu_net c ev = 0" "pisces_send_ctrl_cmd u i cmd arg = (r, ev) \<Longrightarrow> mem_net bs a ev = 0"
  by (metis send_ctrl_cmd_net snd_conv)+

lemma host_step_ledger:
  assumes "host_step bs h h'" and "ledger bs h"
  shows "ledger bs h'"
  using assms
proof cases
  case (load i e)
  then show ?thesis using assms(2) held_upd [of "ho_enclaves h"] by (auto simp: ledger_def unlaunched_def fun_upd_idem)
next
  case (launch i e v cpu_id block_id numa_zone num_blocks evs bytes lcall e')
  note r = launch_records_taken [OF launch(3,5-12)]
  show ?thesis unfolding launch(1)
    using r(1-3) launch(3,4) by (intro ledger_upd [OF assms(2) launch(2)]) simp_all
next
  case (launch_not_made v i cpu_id block_id numa_zone num_blocks evs)
  then show ?thesis using launch_accounts [OF launch_not_made(3-7)] assms(2) by (auto intro!: ledger_events)
next
  case (add_cpu i s u c evs env ev s')
  have "res_ok (cs_enclave s)" using assms(2) add_cpu(2) by (simp add: ledger_def)
  note r = add_cpu_records [OF add_cpu(5,4) this add_cpu(6)]
  have "cpu_net d evs = (if d = c then 1 else 0)" "mem_net bs a evs = 0" for d a
    using add_cpu(3)
    by (auto simp: pisces_add_cpu_def send_ctrl_cmd_takes_nothing net_simps split: if_splits prod.splits)
  then show ?thesis unfolding add_cpu(1)
    using r by (intro ledger_upd [OF assms(2) add_cpu(2)]) simp_all
next
  case (add_mem i s u b evs env ev s')
  have "res_ok (cs_enclave s)" using assms(2) add_mem(2) by (simp add: ledger_def)
  note r = add_mem_records [OF add_mem(7,6,4) this add_mem(8)]
  have "cpu_net d evs = 0" "mem_net bs a evs = (if a = block_addr bs b then 1 else 0)" for d a
    using add_mem(3,5)
    by (auto simp: pisces_add_mem_explicit_def send_ctrl_cmd_takes_nothing send_block_def net_simps Let_def split: if_splits prod.splits)
  then show ?thesis unfolding add_mem(1)
    using r by (intro ledger_upd [OF assms(2) add_mem(2)]) simp_all
next
  case (reset i z lenv cenv penv r evs z')
  note k = reset_keeps [OF reset(3)]
  have "ledger bs \<lparr>ho_log = ho_log h @ [], ho_enclaves = (ho_enclaves h)(i \<mapsto> lz_enclave z')\<rparr>"
    using assms(2) reset(2) k by (intro ledger_upd [OF assms(2) reset(2)]) (auto simp: ledger_def net_simps)
  then show ?thesis using reset(1) by (simp add: ledger_def)
next
  case (teardown i e u evs)
  have "pet_block_size u \<noteq> 0" using teardown(3,4) by simp
  note g = teardown_gives [OF teardown(5) this teardown(6)]
  show ?thesis using assms(2) g held_same [where m = "ho_enclaves h", OF teardown(2)] teardown(1,3)
    by (auto simp: ledger_def net_simps)
qed

section \<open>The partition\<close>

text \<open>Petlib takes only what Linux has.\<close>

definition honest :: "u64 \<Rightarrow> usr_event list \<Rightarrow> bool" where
  "honest bs log \<longleftrightarrow> (\<forall>k < length log.
     (\<forall>c. log ! k = OffCpu c \<longrightarrow> cpu_net c (take k log) \<le> 0) \<and>
     (\<forall>a. count_list (mem_taken bs (log ! k)) a \<le> (if mem_net bs a (take k log) \<le> 0 then 1 else 0)))"

lemma honest_bounds:
  assumes "honest bs log"
  shows "cpu_net c log \<le> 1" "mem_net bs a log \<le> 1"
proof -
  have "k \<le> length log \<Longrightarrow> cpu_net c (take k log) \<le> 1 \<and> mem_net bs a (take k log) \<le> 1" for k
  proof (induction k)
    case (Suc k)
    then have k: "k < length log" by simp
    have h: "log ! k = OffCpu c \<Longrightarrow> cpu_net c (take k log) \<le> 0"
      "count_list (mem_taken bs (log ! k)) a \<le> (if mem_net bs a (take k log) \<le> 0 then 1 else 0)"
      using assms k by (auto simp: honest_def)
    show ?case using Suc h by (auto simp: take_Suc_conv_app_nth [OF k] net_simps split: if_splits)
  qed (simp add: net_simps)
  from this [of "length log"] show "cpu_net c log \<le> 1" "mem_net bs a log \<le> 1" by simp_all
qed

definition no_host :: host where
  "no_host = \<lparr>ho_log = [], ho_enclaves = Map.empty\<rparr>"

lemma reachable_ledger: "rtranclp (host_step bs) no_host h \<Longrightarrow> ledger bs h"
proof (induction rule: rtranclp_induct)
  case base
  show ?case by (simp add: ledger_def no_host_def held_def net_simps)
qed (rule host_step_ledger)


definition demo_host :: host where
  "demo_host = \<lparr>ho_log = [OffContig 2 0x10000000, OffCpu 3, IoctlPath (get_pisces_dev_path 0) 2000 (Mem demo_request)],
     ho_enclaves = [0 \<mapsto> demo_lent]\<rparr>"


section \<open>Failures that break it\<close>

text \<open>
  C39: Two requests leave a CPU with Linux and with the enclave. When the enclave refuses an added CPU, the tool
  gives the CPU back to Linux, but the module, which recorded it before it asked, keeps it; when a CPU is
  removed the tool gives it to Linux, and the module does not touch its records. A reset then tells the
  enclave to start the CPU that Linux runs on.
\<close>

theorem returned_cpu_still_recorded:
  assumes "unat c < 2 ^ 32" and "0 \<le> us_ioctl_path u (get_pisces_dev_path i) 2005 NoArg" and "pet_offline_cpu u c \<noteq> -1"
    and tool: "\<And>r ev t. ioctl_add_cpu env c s = Some (r, ev, t) \<Longrightarrow> us_ioctl_fd u (us_ioctl_path u (get_pisces_dev_path i) 2005 NoArg) 100 (Num c) = r"
      "\<And>r ev t. ioctl_remove_cpu env c s' = Some (r, ev, t) \<Longrightarrow> us_ioctl_fd u (us_ioctl_path u (get_pisces_dev_path i) 2005 NoArg) 110 (Num c) = r"
    and refused: "unat c \<notin> en_assigned_cpus (cs_enclave s)" "finite (en_assigned_cpus (cs_enclave s))"
      "send_status env (cmd_cpu_add PISCES_CMD_ADD_CPU c (cx_apicid env c)) = Some (ret, status)" "status \<noteq> 0"
    and removed: "unat c \<in> en_assigned_cpus (cs_enclave s')"
      "send_status env (cmd_cpu_add PISCES_CMD_REMOVE_CPU c (cx_apicid env c)) = Some (0, 0)"
  shows "(\<exists>evs ev t. pisces_add_cpu u i c = (-1, evs) \<and> ioctl_add_cpu env c s = Some (-1, ev, t) \<and>
      cpu_net c evs = 0 \<and> unat c \<in> en_assigned_cpus (cs_enclave t) \<and>
      (\<forall>cenv boot evs'. reset_cpus cenv boot (sorted_list_of_set (en_assigned_cpus (cs_enclave t))) = Some evs' \<and> unat c \<noteq> unat boot \<longrightarrow>
        cmd_cpu_add PISCES_CMD_ADD_CPU c (cx_apicid cenv c) \<in> set (sent evs'))) \<and>
    (\<exists>evs ev t. pisces_remove_cpu u i c = (0, evs) \<and> ioctl_remove_cpu env c s' = Some (0, ev, t) \<and>
      cpu_net c evs = -1 \<and> unat c \<in> en_assigned_cpus (cs_enclave t))"
proof (intro conjI)
  let ?fd = "us_ioctl_path u (get_pisces_dev_path i) 2005 NoArg"
  have v: "unat (ucast c :: u32) = unat c" using assms(1) by (simp add: unsigned_ucast_eq take_bit_nat_eq_self)
  obtain ev t where t: "ioctl_add_cpu env c s = Some (-1, ev, t)"
    "en_assigned_cpus (cs_enclave t) = insert (unat c) (en_assigned_cpus (cs_enclave s))"
    using refused by (simp add: ioctl_add_cpu_def pisces_enclave_add_cpu_def ctrl_add_cpu_def cs_upd_enclave_def v)
  have "us_ioctl_fd u ?fd 100 (Num c) = -1" by (rule tool(1) [OF t(1)])
  then obtain evs where a: "pisces_add_cpu u i c = (-1, evs)" "cpu_net c evs = 0"
    using assms(2,3) by (simp add: pisces_add_cpu_def pisces_send_ctrl_cmd_def Let_def net_simps)
  have "cmd_cpu_add PISCES_CMD_ADD_CPU c (cx_apicid cenv c) \<in> set (sent evs')"
    if "reset_cpus cenv boot (sorted_list_of_set (en_assigned_cpus (cs_enclave t))) = Some evs'" "unat c \<noteq> unat boot" for cenv boot evs'
  proof -
    have "unat c \<in> set (filter (\<lambda>d. d \<noteq> unat boot) (sorted_list_of_set (en_assigned_cpus (cs_enclave t))))"
      using that(2) t(2) refused(2) by (simp add: set_insort_key)
    then show ?thesis unfolding reset_cpus_sent [OF that(1)] set_map by (rule rev_image_eqI) simp
  qed
  then show "\<exists>evs ev t. pisces_add_cpu u i c = (-1, evs) \<and> ioctl_add_cpu env c s = Some (-1, ev, t) \<and>
      cpu_net c evs = 0 \<and> unat c \<in> en_assigned_cpus (cs_enclave t) \<and>
      (\<forall>cenv boot evs'. reset_cpus cenv boot (sorted_list_of_set (en_assigned_cpus (cs_enclave t))) = Some evs' \<and> unat c \<noteq> unat boot \<longrightarrow>
        cmd_cpu_add PISCES_CMD_ADD_CPU c (cx_apicid cenv c) \<in> set (sent evs'))" using a t by blast
  obtain ev' where r: "ioctl_remove_cpu env c s' = Some (0, ev', s')" using removed(2) by (simp add: ioctl_remove_cpu_def)
  have "us_ioctl_fd u ?fd 110 (Num c) = 0" by (rule tool(2) [OF r])
  then show "\<exists>evs ev t. pisces_remove_cpu u i c = (0, evs) \<and> ioctl_remove_cpu env c s' = Some (0, ev, t) \<and>
      cpu_net c evs = -1 \<and> unat c \<in> en_assigned_cpus (cs_enclave t)"
    using assms(2) r removed(1) by (simp add: pisces_remove_cpu_def pisces_send_ctrl_cmd_def Let_def net_simps)
qed

definition demo_refusing :: ctrl_env where
  "demo_refusing = (demo_ctrl_env 0)\<lparr>cx_send := (\<lambda>m. (0, Some (pisces_resp (if m = cmd_cpu_add PISCES_CMD_ADD_CPU 3 3 then 1 else 0) 0)))\<rparr>"

definition demo_with_cpu :: Ctrl.ctrl_state where
  "demo_with_cpu = Ctrl.demo_ctrl\<lparr>cs_enclave := zero_enclave\<lparr>en_assigned_cpus := {3}, en_num_cpus := 1\<rparr>\<rparr>"

theorem returned_cpu_still_recorded_witness:
  "\<exists>evs ev t. pisces_add_cpu (demo_usr\<lparr>us_ioctl_fd := (\<lambda>fd c a. if c = 100 then -1 else 0)\<rparr>) 0 3 = (-1, evs) \<and> cpu_net 3 evs = 0 \<and>
     ioctl_add_cpu demo_refusing 3 Ctrl.demo_ctrl = Some (-1, ev, t) \<and> 3 \<in> en_assigned_cpus (cs_enclave t)"
proof -
  let ?u = "demo_usr\<lparr>us_ioctl_fd := (\<lambda>fd c a. if c = 100 then -1 else 0)\<rparr>"
  have ne: "cmd_cpu_add PISCES_CMD_REMOVE_CPU 3 3 \<noteq> cmd_cpu_add PISCES_CMD_ADD_CPU 3 3" by code_simp
  have "send_status demo_refusing (cmd_cpu_add PISCES_CMD_ADD_CPU 3 (cx_apicid demo_refusing 3)) = Some (0, 1)"
    using resp_status_resp [of 1 0 "[]"] by (simp add: send_status_def demo_refusing_def demo_ctrl_env_def)
  moreover have "send_status demo_refusing (cmd_cpu_add PISCES_CMD_REMOVE_CPU 3 (cx_apicid demo_refusing 3)) = Some (0, 0)"
    using resp_status_resp [of 0 0 "[]"] ne by (simp add: send_status_def demo_refusing_def demo_ctrl_env_def)
  moreover from calculation have "us_ioctl_fd ?u (us_ioctl_path ?u (get_pisces_dev_path 0) 2005 NoArg) 100 (Num 3) = r"
    if "ioctl_add_cpu demo_refusing 3 Ctrl.demo_ctrl = Some (r, ev, t)" for r ev t
    using that by (auto simp: ioctl_add_cpu_def ctrl_add_cpu_def Let_def split: if_splits prod.splits)
  moreover from calculation have "us_ioctl_fd ?u (us_ioctl_path ?u (get_pisces_dev_path 0) 2005 NoArg) 110 (Num 3) = r"
    if "ioctl_remove_cpu demo_refusing 3 demo_with_cpu = Some (r, ev, t)" for r ev t
    using that by (auto simp: ioctl_remove_cpu_def Let_def)
  ultimately show ?thesis
    using returned_cpu_still_recorded [of 3 ?u 0 demo_refusing Ctrl.demo_ctrl demo_with_cpu 0 1]
    by (simp add: demo_usr_def Ctrl.demo_ctrl_def zero_enclave_def demo_with_cpu_def) blast
qed

text \<open>
  A launch that fails in the module, because the boot parameters cannot be set up or the CPU does not come up:
  user space gives everything back to Linux, and the module keeps the CPU and all blocks in the
  records of the enclave, which a teardown or a second launch then uses.
\<close>

theorem failed_launch_still_recorded:
  assumes fresh: "unlaunched e"
    and launch: "pisces_launch v i cpu_id block_id numa_zone num_blocks = Some (-1, evs)" "0 \<le> num_blocks" "num_blocks < 2 ^ 31"
      "cpu_id = PISCES_ANY \<or> 0 \<le> cpu_id \<and> cpu_id < 2 ^ 31" "\<forall>c \<in> set (snd (pet_offline_cpus v 1 numa_zone)). unat c < 2 ^ 32"
    and request: "IoctlPath (get_pisces_dev_path i) 2000 (Mem bytes) \<in> set evs"
      "ioctl_launch e (Some (parse_boot_env bytes)) setup_ret lcall boot_ret = Some (-1, e')"
  shows "(\<forall>c. cpu_net c evs = 0) \<and> (\<forall>a. mem_net (pet_block_size v) a evs = 0) \<and>
    has_cpu (ucast (be_cpu_id (parse_boot_env bytes))) e' = 1 \<and>
    length (en_memdesc_list e') = unat (be_num_blocks (parse_boot_env bytes))"
proof -
  let ?env = "parse_boot_env bytes"
  have "res_ok e" "length (en_memdesc_list e) + unat (be_num_blocks ?env) < 4294967296" "card (en_assigned_cpus e) < 4294967295"
    using fresh by (simp_all add: unlaunched_def)
  from enclave_launch_records [OF this, of setup_ret lcall boot_ret] request(2) fresh
  have "en_assigned_cpus e' = {unat (be_cpu_id ?env)}" "mset (en_memdesc_list e') = mset (map (boot_block ?env) [0..<unat (be_num_blocks ?env)])"
    by (auto simp: unlaunched_def)
  then have "has_cpu (ucast (be_cpu_id ?env)) e' = 1" "length (en_memdesc_list e') = unat (be_num_blocks ?env)"
    by (simp_all add: has_cpu_def unat_ucast_u32 flip: size_mset)
  then show ?thesis using launch_accounts [OF launch] by simp
qed

theorem failed_launch_still_recorded_witness:
  "\<exists>evs e'. pisces_launch demo_usr 0 PISCES_ANY PISCES_ANY PISCES_ANY 2 = Some (-1, evs) \<and> cpu_net 3 evs = 0 \<and>
     ioctl_launch zero_enclave (Some (parse_boot_env demo_request)) 0 True (-1) = Some (-1, e') \<and> has_cpu 3 e' = 1"
proof -
  let ?evs = "[OffContig 2 0x10000000, OffCpu 3, IoctlPath (get_pisces_dev_path 0) 2000 (Mem demo_request), OnCpu 3, OnContig 2 0x10000000]"
  have r: "pisces_launch demo_usr 0 PISCES_ANY PISCES_ANY PISCES_ANY 2 = Some (-1, ?evs)"
    by (simp add: pisces_launch_def launch_mem_def launch_cpu_def demo_usr_def upt_rec)
  obtain e' where e': "ioctl_launch zero_enclave (Some (parse_boot_env demo_request)) 0 True (-1) = Some (-1, e')"
    using enclave_launch_records [of zero_enclave "parse_boot_env demo_request" 0 True "-1"] demo_lending(2) by (auto simp: unlaunched_def)
  have "\<forall>c \<in> set (snd (pet_offline_cpus demo_usr 1 PISCES_ANY)). unat c < 2 ^ 32" by (simp add: demo_usr_def upt_rec)
  from failed_launch_still_recorded [OF demo_lending(2) r _ _ _ this _ e'] show ?thesis using r e' by simp
qed

end
