(* ===== verification/TrampolineLoan.thy ===== *)
theory TrampolineLoan
  imports Trampoline
begin

text \<open>
  The contract of a trampoline: what \<open>boot.c\<close> relies on when it calls \<open>setup_enclave_trampoline\<close> and
  \<open>restore_enclave_trampoline\<close>, whichever variant the build selects. The locale \<open>trampoline_loan\<close> states it;
  it is met by the variant for current kernels (\<open>trampoline_3/trampoline.c\<close>, theory \<open>Trampoline\<close>) and by the
  three for older kernels, which are modelled here: \<open>trampoline_0/trampoline.c\<close> for Cray Linux,
  \<open>trampoline_1/trampoline.c\<close> and \<open>trampoline_2/trampoline.c\<close>. The last two lack a semicolon each (after the
  assignments of \<open>__trampoline_base\<close> and of \<open>__x86_trampoline_base\<close>); they are modelled with it.

  Shown: loans exclude each other, and any sequence of loans can be run, each with its own target. The
  locale \<open>trampoline_restoring\<close> adds that Linux finds its own start-up code again after any loans; this
  holds for \<open>trampoline_2\<close> and \<open>trampoline_3\<close>. The other two leave theirs behind.
\<close>

section \<open>The contract\<close>

locale trampoline_loan =
  fixes lend :: "u64 \<Rightarrow> 's \<Rightarrow> (int \<times> 's) option" and give :: "'s \<Rightarrow> (int \<times> 's) option"
    and ready :: "'s \<Rightarrow> bool" and lent :: "'s \<Rightarrow> bool"
    and tables :: "'s \<Rightarrow> nat \<Rightarrow> u64" and target :: "'s \<Rightarrow> u64" and pml :: "'s \<Rightarrow> nat \<Rightarrow> u64"
  assumes lend_ready: "ready s \<Longrightarrow> \<exists>s'. lend a s = Some (0, s') \<and> lent s' \<and> target s' = a \<and> tables s' = pml s \<and> pml s' = pml s"
    and lend_lent: "lent s \<Longrightarrow> lend a s = None"
    and give_lent: "lent s \<Longrightarrow> \<exists>s'. give s = Some (0, s') \<and> ready s' \<and> pml s' = pml s"
begin

lemma exclusive: "ready s \<Longrightarrow> lend a s = Some (r, s1) \<Longrightarrow> lend b s1 = None"
  using lend_ready [of s a] lend_lent by auto

lemma loan:
  assumes "ready s"
  shows "\<exists>s1 s2. lend a s = Some (0, s1) \<and> target s1 = a \<and> tables s1 = pml s \<and> give s1 = Some (0, s2) \<and> ready s2 \<and> pml s2 = pml s"
proof -
  obtain s1 where s1: "lend a s = Some (0, s1)" "lent s1" "target s1 = a" "tables s1 = pml s" "pml s1 = pml s"
    using lend_ready [OF assms] by blast
  obtain s2 where "give s1 = Some (0, s2)" "ready s2" "pml s2 = pml s1" using give_lent [OF s1(2)] by blast
  then show ?thesis using s1 by auto
qed

text \<open>Loans one after the other, with the target and the tables each processor starts on.\<close>

primrec loans :: "u64 list \<Rightarrow> 's \<Rightarrow> ((u64 \<times> (nat \<Rightarrow> u64)) list \<times> 's) option" where
  "loans [] s = Some ([], s)"
| "loans (a # as) s = do {
     (r, s1) \<leftarrow> lend a s;
     (r, s2) \<leftarrow> give s1;
     (ts, s3) \<leftarrow> loans as s2;
     Some ((target s1, tables s1) # ts, s3)
   }"

lemma loans_run:
  "ready s \<Longrightarrow> \<exists>s'. loans as s = Some (map (\<lambda>a. (a, pml s)) as, s') \<and> ready s'"
proof (induction as arbitrary: s)
  case (Cons a as)
  obtain s1 s2 where l: "lend a s = Some (0, s1)" "target s1 = a" "tables s1 = pml s" "give s1 = Some (0, s2)" "ready s2" "pml s2 = pml s"
    using loan [OF Cons.prems] by blast
  then show ?case using Cons.IH [of s2] by auto
qed simp

end

text \<open>A trampoline that saves what Linux has in its place and puts it back.\<close>

locale trampoline_restoring = trampoline_loan lend give ready lent tables target pml
  for lend :: "u64 \<Rightarrow> 's \<Rightarrow> (int \<times> 's) option" and give ready lent tables target pml +
  fixes place :: "'s \<Rightarrow> 'r"
  assumes place_restored: "ready s \<Longrightarrow> lend a s = Some (r, s1) \<Longrightarrow> give s1 = Some (r', s2) \<Longrightarrow> place s2 = place s"
begin

lemma loans_invisible: "ready s \<Longrightarrow> loans as s = Some (ts, s') \<Longrightarrow> place s' = place s"
proof (induction as arbitrary: s ts s')
  case (Cons a as)
  obtain s1 s2 where l: "lend a s = Some (0, s1)" "give s1 = Some (0, s2)" "ready s2" using loan [OF Cons.prems(1)] by blast
  then obtain ts' where "loans as s2 = Some (ts', s')" using Cons.prems(2) by (auto split: bind_splits)
  then show ?case using Cons.IH [OF l(3)] place_restored [OF Cons.prems(1) l(1,2)] by simp
qed simp

end

section \<open>Current kernels\<close>

interpretation tramp3: trampoline_restoring setup_enclave_trampoline restore_enclave_trampoline
  "\<lambda>s. \<not> bt_cpu_maps s \<and> cached_pgd s \<noteq> None" "\<lambda>s. bt_cpu_maps s \<and> cached_pgd s \<noteq> None"
  trampoline_pgd trampoline_target "\<lambda>s. pt_mem s (pml_pa (trampoline_state s))" "\<lambda>s. (trampoline_pgd s, trampoline_target s)"
  by unfold_locales (auto simp: setup_enclave_trampoline_def restore_enclave_trampoline_def Let_def)

section \<open>Cray Linux\<close>

text \<open>
  The start-up code with its page table and its target is data of the module, copied to the place
  from which processors start; \<open>None\<close> is the wait for the lock of Linux.
\<close>

record startup_code =
  su_code :: bytes
  su_level4_pgt :: "nat \<Rightarrow> u64"
  su_startup_vector :: u64

record cray_state =
  cr_cpu_maps :: bool
  cr_trampoline_data :: startup_code
  cr_at_base :: startup_code
  cr_pml :: "nat \<Rightarrow> u64"
  cr_cpu_init_rip :: u64

definition cray_init_trampoline :: "(string \<Rightarrow> bool) \<Rightarrow> u64 \<Rightarrow> cray_state \<Rightarrow> int \<times> cray_state" where
  "cray_init_trampoline symbol trampoline_base s =
     (if \<not> symbol ''cpu_maps_update_begin'' then (-1, s)
      else if \<not> symbol ''cpu_maps_update_done'' then (-1, s)
      else (0, s\<lparr>cr_cpu_init_rip := trampoline_base\<rparr>))"

definition cray_deinit_trampoline :: "cray_state \<Rightarrow> int \<times> cray_state" where
  "cray_deinit_trampoline s = (0, s)"

definition cray_setup_enclave_trampoline :: "u64 \<Rightarrow> cray_state \<Rightarrow> (int \<times> cray_state) option" where
  "cray_setup_enclave_trampoline bootmem_addr_pa s =
     (if cr_cpu_maps s then None
      else let s1 = s\<lparr>cr_cpu_maps := True\<rparr>;
               s2 = s1\<lparr>cr_trampoline_data := (cr_trampoline_data s1)\<lparr>su_startup_vector := bootmem_addr_pa\<rparr>\<rparr>;
               s3 = s2\<lparr>cr_trampoline_data := (cr_trampoline_data s2)\<lparr>su_level4_pgt := cr_pml s2\<rparr>\<rparr>
           in Some (0, s3\<lparr>cr_at_base := cr_trampoline_data s3\<rparr>))"

definition cray_restore_enclave_trampoline :: "cray_state \<Rightarrow> (int \<times> cray_state) option" where
  "cray_restore_enclave_trampoline s = Some (0, s\<lparr>cr_cpu_maps := False\<rparr>)"

interpretation tramp0: trampoline_loan cray_setup_enclave_trampoline cray_restore_enclave_trampoline
  "\<lambda>s. \<not> cr_cpu_maps s" cr_cpu_maps "\<lambda>s. su_level4_pgt (cr_at_base s)" "\<lambda>s. su_startup_vector (cr_at_base s)" cr_pml
  by unfold_locales (auto simp: cray_setup_enclave_trampoline_def cray_restore_enclave_trampoline_def Let_def)

section \<open>The other older kernels\<close>

text \<open>
  Here the start-up code is copied to an address looked up by name. \<open>lm_mem\<close> is the memory at an address,
  seen as start-up code. \<open>lm_cached_trampoline\<close> is the buffer of the last variant with its contents, \<open>None\<close>
  before it was allocated and when there was no memory for it: a copy into it then does not come back.
\<close>

record lowmem_state =
  lm_cpu_maps :: bool
  lm_trampoline_data :: startup_code
  lm_mem :: "u64 \<Rightarrow> startup_code"
  lm_pml :: "nat \<Rightarrow> u64"
  lm_cpu_init_rip :: u64
  lm_trampoline_base :: u64
  lm_cached_trampoline :: "startup_code option"

definition tr1_init_trampoline :: "(string \<Rightarrow> u64) \<Rightarrow> lowmem_state \<Rightarrow> int \<times> lowmem_state" where
  "tr1_init_trampoline kallsyms s =
     (if kallsyms ''cpu_maps_update_begin'' = 0 then (-1, s)
      else if kallsyms ''cpu_maps_update_done'' = 0 then (-1, s)
      else let symbol_addr = kallsyms ''trampoline_base'' in
        if symbol_addr = 0 then (-1, s)
        else let s1 = s\<lparr>lm_trampoline_base := symbol_addr\<rparr> in (0, s1\<lparr>lm_cpu_init_rip := lm_trampoline_base s1\<rparr>))"

definition tr1_deinit_trampoline :: "lowmem_state \<Rightarrow> int \<times> lowmem_state" where
  "tr1_deinit_trampoline s = (0, s)"

text \<open>The part that both variants share: target, page table, copy.\<close>

definition install_startup :: "u64 \<Rightarrow> lowmem_state \<Rightarrow> lowmem_state" where
  "install_startup bootmem_addr_pa s =
     (let s1 = s\<lparr>lm_trampoline_data := (lm_trampoline_data s)\<lparr>su_startup_vector := bootmem_addr_pa\<rparr>\<rparr>;
          s2 = s1\<lparr>lm_trampoline_data := (lm_trampoline_data s1)\<lparr>su_level4_pgt := (\<lambda>_. 0)\<rparr>\<rparr>;
          s3 = s2\<lparr>lm_trampoline_data := (lm_trampoline_data s2)\<lparr>su_level4_pgt := lm_pml s2\<rparr>\<rparr>
      in s3\<lparr>lm_mem := (lm_mem s3)(lm_trampoline_base s3 := lm_trampoline_data s3)\<rparr>)"

definition tr1_setup_enclave_trampoline :: "u64 \<Rightarrow> lowmem_state \<Rightarrow> (int \<times> lowmem_state) option" where
  "tr1_setup_enclave_trampoline bootmem_addr_pa s =
     (if lm_cpu_maps s then None else Some (0, install_startup bootmem_addr_pa (s\<lparr>lm_cpu_maps := True\<rparr>)))"

definition tr1_restore_enclave_trampoline :: "lowmem_state \<Rightarrow> (int \<times> lowmem_state) option" where
  "tr1_restore_enclave_trampoline s = Some (0, s\<lparr>lm_cpu_maps := False\<rparr>)"

text \<open>\<open>kmalloc\<close> gives a buffer with some contents or nothing, which is not tested.\<close>

definition tr2_init_trampoline :: "(string \<Rightarrow> u64) \<Rightarrow> startup_code option \<Rightarrow> lowmem_state \<Rightarrow> int \<times> lowmem_state" where
  "tr2_init_trampoline kallsyms kmalloc s =
     (if kallsyms ''cpu_maps_update_begin'' = 0 then (-1, s)
      else if kallsyms ''cpu_maps_update_done'' = 0 then (-1, s)
      else let symbol_addr = kallsyms ''x86_trampoline_base'' in
        if symbol_addr = 0 then (-1, s)
        else let s1 = s\<lparr>lm_trampoline_base := symbol_addr\<rparr>;
                 s2 = s1\<lparr>lm_cached_trampoline := kmalloc\<rparr>
             in (0, s2\<lparr>lm_cpu_init_rip := lm_trampoline_base s2\<rparr>))"

definition tr2_deinit_trampoline :: "lowmem_state \<Rightarrow> int \<times> lowmem_state" where
  "tr2_deinit_trampoline s = (0, s)"

definition tr2_setup_enclave_trampoline :: "u64 \<Rightarrow> lowmem_state \<Rightarrow> (int \<times> lowmem_state) option" where
  "tr2_setup_enclave_trampoline bootmem_addr_pa s =
     (if lm_cpu_maps s then None
      else case lm_cached_trampoline s of
        None \<Rightarrow> None
      | Some _ \<Rightarrow>
        let s1 = s\<lparr>lm_cpu_maps := True\<rparr>;
            s2 = s1\<lparr>lm_cached_trampoline := Some (lm_mem s1 (lm_trampoline_base s1))\<rparr>
        in Some (0, install_startup bootmem_addr_pa s2))"

definition tr2_restore_enclave_trampoline :: "lowmem_state \<Rightarrow> (int \<times> lowmem_state) option" where
  "tr2_restore_enclave_trampoline s =
     (case lm_cached_trampoline s of
        None \<Rightarrow> None
      | Some c \<Rightarrow> let s1 = s\<lparr>lm_mem := (lm_mem s)(lm_trampoline_base s := c)\<rparr> in Some (0, s1\<lparr>lm_cpu_maps := False\<rparr>))"

lemma install_startup_simps [simp]:
  "lm_cpu_maps (install_startup a s) = lm_cpu_maps s" "lm_pml (install_startup a s) = lm_pml s"
  "lm_trampoline_base (install_startup a s) = lm_trampoline_base s"
  "lm_cached_trampoline (install_startup a s) = lm_cached_trampoline s"
  "lm_mem (install_startup a s) = (lm_mem s)(lm_trampoline_base s :=
     (lm_trampoline_data s)\<lparr>su_startup_vector := a, su_level4_pgt := lm_pml s\<rparr>)"
  by (simp_all add: install_startup_def Let_def)

interpretation tramp1: trampoline_loan tr1_setup_enclave_trampoline tr1_restore_enclave_trampoline
  "\<lambda>s. \<not> lm_cpu_maps s" lm_cpu_maps "\<lambda>s. su_level4_pgt (lm_mem s (lm_trampoline_base s))"
  "\<lambda>s. su_startup_vector (lm_mem s (lm_trampoline_base s))" lm_pml
  by unfold_locales (auto simp: tr1_setup_enclave_trampoline_def tr1_restore_enclave_trampoline_def)

interpretation tramp2: trampoline_restoring tr2_setup_enclave_trampoline tr2_restore_enclave_trampoline
  "\<lambda>s. \<not> lm_cpu_maps s \<and> lm_cached_trampoline s \<noteq> None" "\<lambda>s. lm_cpu_maps s \<and> lm_cached_trampoline s \<noteq> None"
  "\<lambda>s. su_level4_pgt (lm_mem s (lm_trampoline_base s))" "\<lambda>s. su_startup_vector (lm_mem s (lm_trampoline_base s))" lm_pml lm_mem
  by unfold_locales (auto simp: tr2_setup_enclave_trampoline_def tr2_restore_enclave_trampoline_def Let_def split: option.splits)

section \<open>All variants\<close>

text \<open>
  A loan as \<open>boot.c\<close> needs it: it can be made for every address, the processor starts at that address on
  the page tables of the module, nobody else gets the trampoline meanwhile, and afterwards it can be
  lent again.
\<close>

definition good_loan ::
    "(u64 \<Rightarrow> 's \<Rightarrow> (int \<times> 's) option) \<Rightarrow> ('s \<Rightarrow> (int \<times> 's) option) \<Rightarrow> ('s \<Rightarrow> u64) \<Rightarrow> ('s \<Rightarrow> nat \<Rightarrow> u64) \<Rightarrow>
     (nat \<Rightarrow> u64) \<Rightarrow> 's \<Rightarrow> bool" where
  "good_loan lend give target tables pml s \<longleftrightarrow>
     (\<forall>a. \<exists>s1 s2. lend a s = Some (0, s1) \<and> target s1 = a \<and> tables s1 = pml \<and> (\<forall>b. lend b s1 = None) \<and>
        give s1 = Some (0, s2) \<and> (\<forall>b. lend b s2 \<noteq> None))"

context trampoline_loan
begin

lemma good_loan: "ready s \<Longrightarrow> good_loan lend give target tables (pml s) s"
  unfolding good_loan_def using loan [of s] exclusive [of s] lend_ready by (metis option.distinct(1))

end

text \<open>Every variant of the trampoline makes good loans from its idle state.\<close>

theorem trampolines_lend:
  "(\<not> bt_cpu_maps s \<and> cached_pgd s \<noteq> None \<longrightarrow>
      good_loan setup_enclave_trampoline restore_enclave_trampoline trampoline_target trampoline_pgd
        (pt_mem s (pml_pa (trampoline_state s))) s) \<and>
   (\<not> lm_cpu_maps m \<and> lm_cached_trampoline m \<noteq> None \<longrightarrow>
      good_loan tr2_setup_enclave_trampoline tr2_restore_enclave_trampoline
        (\<lambda>m. su_startup_vector (lm_mem m (lm_trampoline_base m))) (\<lambda>m. su_level4_pgt (lm_mem m (lm_trampoline_base m))) (lm_pml m) m) \<and>
   (\<not> lm_cpu_maps m \<longrightarrow>
      good_loan tr1_setup_enclave_trampoline tr1_restore_enclave_trampoline
        (\<lambda>m. su_startup_vector (lm_mem m (lm_trampoline_base m))) (\<lambda>m. su_level4_pgt (lm_mem m (lm_trampoline_base m))) (lm_pml m) m) \<and>
   (\<not> cr_cpu_maps c \<longrightarrow>
      good_loan cray_setup_enclave_trampoline cray_restore_enclave_trampoline
        (\<lambda>c. su_startup_vector (cr_at_base c)) (\<lambda>c. su_level4_pgt (cr_at_base c)) (cr_pml c) c)"
  by (intro conjI impI tramp3.good_loan tramp2.good_loan tramp1.good_loan tramp0.good_loan) simp_all

text \<open>
  After a loan Linux finds its start-up code as it was with the variant for kernels before 3.5 and, target
  and page table, with the one for current kernels. The variant before that leaves the start-up code of
  the module, with the address of the enclave, in the place of the one of Linux.
\<close>

theorem trampoline_loan_restores:
  assumes "tr2_setup_enclave_trampoline a m = Some (r, m1)" and "tr2_restore_enclave_trampoline m1 = Some (r', m2)"
  shows "lm_mem m2 = lm_mem m"
  using tramp2.place_restored [OF _ assms] assms(1) by (auto simp: tr2_setup_enclave_trampoline_def split: if_splits option.splits)

theorem trampoline_1_leaves_code:
  assumes "tr1_setup_enclave_trampoline a m = Some (r, m1)" and "tr1_restore_enclave_trampoline m1 = Some (r', m2)"
  shows "lm_mem m2 (lm_trampoline_base m2) = (lm_trampoline_data m)\<lparr>su_startup_vector := a, su_level4_pgt := lm_pml m\<rparr>"
  using assms by (auto simp: tr1_setup_enclave_trampoline_def tr1_restore_enclave_trampoline_def split: if_splits)

text \<open>
  Without memory for its buffer the last variant still reports that it was initialised, and the first
  loan copies through a null pointer.
\<close>

theorem trampoline_2_no_buffer:
  assumes "tr2_init_trampoline kallsyms None s = (0, s')"
  shows "tr2_setup_enclave_trampoline a s' = None"
  using assms by (auto simp: tr2_init_trampoline_def tr2_setup_enclave_trampoline_def Let_def split: if_splits)

end
