(* ===== verification/MemTool.thy ===== *)
theory MemTool
  imports CText
begin

text \<open>
  The tool that takes memory out of Linux on machines without the library of the other tools
  (\<open>bak/linux_usr.bak/gemini_mem_rm.c\<close>): it scans the memory blocks that Linux shows under \<open>/sys\<close>, enters the
  removable ones that are online into a bitmap, searches a run of blocks in it and takes that run
  offline. The files under \<open>/sys\<close> are a parameter, and so is what Linux makes of a request.

  An access outside of the bitmap or of the list of names gives \<open>None\<close>.

  Shown: the search finds the lowest run of the length asked for; without such a run it reads behind
  the bitmap exactly when the number of blocks is a multiple of 8; when Linux does as told, the blocks
  of that run and no others go offline.
\<close>

section \<open>The files of Linux\<close>

datatype sys_file = Missing | NoData | Contents string

text \<open>The contents of the \<open>state\<close> files by block, and everything that does not change.\<close>

type_synonym block_states = "int \<Rightarrow> sys_file"

record gemini_env =
  gm_block_size :: sys_file
  gm_names :: "string list"
  gm_malloc :: bool
  gm_removable :: "string \<Rightarrow> sys_file"
  gm_writable :: "int \<Rightarrow> bool"
  gm_linux :: "int \<Rightarrow> block_states \<Rightarrow> block_states"

definition dir_filter :: "string \<Rightarrow> int" where
  "dir_filter name = (if take 6 name = ''memory'' then 1 else 0)"

definition dir_cmp :: "string \<Rightarrow> string \<Rightarrow> int" where
  "dir_cmp dir1 dir2 = (let num1 = atoi (drop 6 dir1); num2 = atoi (drop 6 dir2) in num1 - num2)"

text \<open>\<open>scandir\<close> with these two functions.\<close>

fun insert_name :: "string \<Rightarrow> string list \<Rightarrow> string list" where
  "insert_name n [] = [n]"
| "insert_name n (m # ms) = (if dir_cmp n m \<le> 0 then n # m # ms else m # insert_name n ms)"

definition scandir_names :: "string list \<Rightarrow> string list" where
  "scandir_names names = foldr insert_name (filter (\<lambda>n. dir_filter n \<noteq> 0) names) []"

definition offline_block :: "gemini_env \<Rightarrow> int \<Rightarrow> block_states \<Rightarrow> int \<times> block_states" where
  "offline_block env index st = (if \<not> gm_writable env index then (-1, st) else (0, gm_linux env index st))"

abbreviation OFFLINE :: int where "OFFLINE \<equiv> 1"
abbreviation ONLINE :: int where "ONLINE \<equiv> 0"

definition get_block_status :: "block_states \<Rightarrow> int \<Rightarrow> int" where
  "get_block_status st index =
     (case st index of
        Missing \<Rightarrow> -1
      | NoData \<Rightarrow> -1
      | Contents s \<Rightarrow> if take 7 s = ''offline'' then OFFLINE else if take 6 s = ''online'' then ONLINE else -1)"

section \<open>The bitmap\<close>

definition get_bit :: "u8 list \<Rightarrow> int \<Rightarrow> bool option" where
  "get_bit bitmap k =
     (if 0 \<le> k \<and> nat (k div 8) < length bitmap
      then Some (bitmap ! nat (k div 8) AND push_bit (nat (k mod 8)) 1 \<noteq> 0) else None)"

definition mark_block :: "u8 list \<Rightarrow> int \<Rightarrow> u8 list option" where
  "mark_block bitmap k =
     (if 0 \<le> k \<and> nat (k div 8) < length bitmap
      then Some (bitmap[nat (k div 8) := bitmap ! nat (k div 8) OR push_bit (nat (k mod 8)) 1]) else None)"

definition bitmap_size :: "int \<Rightarrow> int" where
  "bitmap_size bitmap_entries = (let sz = bitmap_entries div 8 in if bitmap_entries mod 8 \<noteq> 0 then sz + 1 else sz)"

text \<open>The scan: \<open>j\<close> is the number of the block looked at last. \<open>Inl\<close> is a return with an error.\<close>

definition sys_path :: string where
  "sys_path = ''/sys/devices/system/memory/''"

fun scan_blocks :: "gemini_env \<Rightarrow> block_states \<Rightarrow> int \<Rightarrow> string list \<Rightarrow> int \<Rightarrow> u8 list \<Rightarrow> (int + u8 list) option" where
  "scan_blocks env st bitmap_entries [] j bitmap = (if j < bitmap_entries - 1 then None else Some (Inr bitmap))"
| "scan_blocks env st bitmap_entries (d_name # names) j bitmap =
     (if j < bitmap_entries - 1
      then let fname = take 127 (sys_path @ d_name @ ''/removable''); j = atoi (drop 6 d_name) in
        (case gm_removable env fname of
           Missing \<Rightarrow> scan_blocks env st bitmap_entries names j bitmap
         | NoData \<Rightarrow> Some (Inl (-1))
         | Contents s \<Rightarrow>
             if atoi s = 1 \<and> get_block_status st j = ONLINE
             then do { bitmap' \<leftarrow> mark_block bitmap j; scan_blocks env st bitmap_entries names j bitmap' }
             else scan_blocks env st bitmap_entries names j bitmap)
      else Some (Inr bitmap))"

section \<open>The search\<close>

function run_length :: "u8 list \<Rightarrow> int \<Rightarrow> int \<Rightarrow> int \<Rightarrow> int option" where
  "run_length bitmap num_blocks i j =
     (if j < num_blocks
      then do { b \<leftarrow> get_bit bitmap (i + j); if b then run_length bitmap num_blocks i (j + 1) else Some j }
      else Some j)"
  by pat_completeness auto
termination by (relation "measure (\<lambda>(bm, n, i, j). nat (n - j))") auto

function find_run :: "u8 list \<Rightarrow> int \<Rightarrow> int \<Rightarrow> int \<Rightarrow> int option" where
  "find_run bitmap bitmap_entries num_blocks i =
     (if i \<le> bitmap_entries
      then do { j \<leftarrow> run_length bitmap num_blocks i 0;
                if j = num_blocks then Some i else find_run bitmap bitmap_entries num_blocks (i + 1) }
      else Some i)"
  by pat_completeness auto
termination by (relation "measure (\<lambda>(bm, e, n, i). nat (e + 1 - i))") auto

section \<open>Taking the blocks offline\<close>

function offline_blocks :: "gemini_env \<Rightarrow> u8 list \<Rightarrow> int \<Rightarrow> int \<Rightarrow> int \<Rightarrow> int \<Rightarrow> block_states \<Rightarrow> block_states option" where
  "offline_blocks env bitmap bitmap_entries num_blocks i cur_idx st =
     (if i < bitmap_entries then do {
        b \<leftarrow> get_bit bitmap i;
        let (r, st1) = (if b then offline_block env i st else (0, st));
        if r = -1 then Some st1
        else let cur = (if b \<and> get_block_status st1 i = OFFLINE then cur_idx + 1 else cur_idx) in
          if cur \<ge> num_blocks then Some st1 else offline_blocks env bitmap bitmap_entries num_blocks (i + 1) cur st1
      } else Some st)"
  by pat_completeness auto
termination by (relation "measure (\<lambda>(env, bm, e, n, i, c, st). nat (e - i))") auto

declare run_length.simps [simp del] find_run.simps [simp del] offline_blocks.simps [simp del]

text \<open>\<open>num_blocks\<close> is the operand, a 64-bit number put into an \<open>int\<close>.\<close>

definition gemini_main :: "gemini_env \<Rightarrow> string list \<Rightarrow> block_states \<Rightarrow> (int \<times> block_states) option" where
  "gemini_main env argv st =
     (case argv of
        [num] \<Rightarrow>
          let num_blocks = sint (of_int (strtol 10 num) :: u32) in
          if gm_block_size env = Missing \<or> gm_block_size env = NoData then Some (-1, st)
          else let namelist = scandir_names (gm_names env) in
            if namelist = [] then None
            else let bitmap_entries = atoi (drop 6 (last namelist)) + 1 in
              if \<not> gm_malloc env then Some (-1, st)
              else do {
                res \<leftarrow> scan_blocks env st bitmap_entries namelist 0 (replicate (nat (bitmap_size bitmap_entries)) 0);
                (case res of
                   Inl r \<Rightarrow> Some (r, st)
                 | Inr bitmap \<Rightarrow> do {
                     i \<leftarrow> find_run bitmap bitmap_entries num_blocks 0;
                     if i \<le> bitmap_entries
                     then do { st' \<leftarrow> offline_blocks env bitmap bitmap_entries num_blocks i 0 st; Some (0, st') }
                     else Some (0, st)
                   })
              }
      | _ \<Rightarrow> Some (-1, st))"

section \<open>The bitmap as a set of blocks\<close>

text \<open>A bitmap for \<open>n\<close> blocks that holds the set \<open>B\<close>.\<close>

definition holds :: "u8 list \<Rightarrow> nat \<Rightarrow> nat set \<Rightarrow> bool" where
  "holds bitmap n B \<longleftrightarrow> length bitmap = nat (bitmap_size (int n)) \<and> B \<subseteq> {..<n} \<and>
     (\<forall>k. k div 8 < length bitmap \<longrightarrow> get_bit bitmap (int k) = Some (k \<in> B))"

lemma bitmap_size_nat: "nat (bitmap_size (int n)) = n div 8 + (if n mod 8 = 0 then 0 else 1)"
proof -
  have "int n div 8 = int (n div 8)" "int n mod 8 = int (n mod 8)" by (simp_all add: zdiv_int zmod_int)
  then show ?thesis by (simp add: bitmap_size_def nat_add_distrib)
qed

lemma bitmap_bounds: "nat (int k div 8) < nat (bitmap_size (int n)) \<longleftrightarrow> k < n \<or> k div 8 = n div 8 \<and> n mod 8 \<noteq> 0"
proof -
  have k: "nat (int k div 8) = k div 8" by (simp add: nat_div_distrib)
  show ?thesis
  proof (cases "n mod 8 = 0")
    case True
    then obtain q where "n = 8 * q" by (auto simp: mod_eq_0_iff_dvd)
    then show ?thesis unfolding k bitmap_size_nat by auto
  next
    case False
    have "k div 8 < n div 8 + 1 \<longleftrightarrow> k < n \<or> k div 8 = n div 8" using div_le_mono [of k n 8] div_le_mono [of n k 8] by linarith
    then show ?thesis using False unfolding k bitmap_size_nat by simp
  qed
qed

lemma holds_less: "holds bitmap n B \<Longrightarrow> k \<in> B \<Longrightarrow> k < n"
  by (auto simp: holds_def)

lemma holds_get:
  assumes "holds bitmap n B"
  shows "get_bit bitmap (int k) = (if k < n \<or> k div 8 = n div 8 \<and> n mod 8 \<noteq> 0 then Some (k \<in> B) else None)"
proof -
  have l: "length bitmap = nat (bitmap_size (int n))" using assms by (simp add: holds_def)
  have "get_bit bitmap (int k) = None" if "\<not> nat (int k div 8) < nat (bitmap_size (int n))"
    using that l by (simp add: get_bit_def)
  moreover have "get_bit bitmap (int k) = Some (k \<in> B)" if "nat (int k div 8) < nat (bitmap_size (int n))"
    using that assms l by (simp add: holds_def nat_div_distrib)
  ultimately show ?thesis unfolding bitmap_bounds by auto
qed

lemma holds_empty: "holds (replicate (nat (bitmap_size (int n))) 0) n {}"
  by (auto simp: holds_def get_bit_def nat_div_distrib)

lemma get_bit_iff: "get_bit bitmap (int m) = (if m div 8 < length bitmap then Some (bit (bitmap ! (m div 8)) (m mod 8)) else None)"
  by (simp add: get_bit_def bit_iff_and_push_bit_not_eq_0 nat_div_distrib nat_mod_distrib)

lemma holds_mark:
  assumes "holds bitmap n B" and "k < n"
  shows "\<exists>bitmap'. mark_block bitmap (int k) = Some bitmap' \<and> holds bitmap' n (insert k B)"
proof -
  have l: "length bitmap = nat (bitmap_size (int n))" using assms(1) by (simp add: holds_def)
  have kd: "nat (int k div 8) = k div 8" "nat (int k mod 8) = k mod 8" for k by (simp_all add: nat_div_distrib nat_mod_distrib)
  have i: "k div 8 < length bitmap" using bitmap_bounds [of k n] assms(2) by (simp add: l kd)
  let ?bm = "bitmap[k div 8 := bitmap ! (k div 8) OR push_bit (k mod 8) 1]"
  have b: "bit (bitmap ! (m div 8)) (m mod 8) \<longleftrightarrow> m \<in> B" if "m div 8 < length bitmap" for m
    using assms(1) that by (simp add: holds_def get_bit_iff)
  have "get_bit ?bm (int m) = Some (m = k \<or> m \<in> B)" if "m div 8 < length bitmap" for m
  proof -
    have "m mod 8 < 8" "m div 8 = k div 8 \<and> m mod 8 = k mod 8 \<longleftrightarrow> m = k" by (simp, metis mult_div_mod_eq)
    then show ?thesis using that b [OF that] i
      by (auto simp: get_bit_iff nth_list_update bit_simps)
  qed
  then have "holds ?bm n (insert k B)" using assms l by (auto simp: holds_def)
  moreover have "mark_block bitmap (int k) = Some ?bm" using i by (simp add: mark_block_def kd)
  ultimately show ?thesis by blast
qed

section \<open>The lowest run\<close>

definition run_at :: "nat set \<Rightarrow> nat \<Rightarrow> nat \<Rightarrow> bool" where
  "run_at B num k \<longleftrightarrow> {k..<k + num} \<subseteq> B"

lemma run_at_first: "run_at B num k \<Longrightarrow> 0 < num \<Longrightarrow> k \<in> B"
  by (auto simp: run_at_def)

lemma run_length_all:
  assumes "holds bitmap n B" and "j \<le> num" and "{i + j..<i + num} \<subseteq> B"
  shows "run_length bitmap (int num) (int i) (int j) = Some (int num)"
  using assms(2,3)
proof (induction "num - j" arbitrary: j)
  case (Suc d)
  then have "i + j \<in> B" and j: "j < num" using assms by auto
  then have "get_bit bitmap (int i + int j) = Some True"
    using holds_get [OF assms(1), of "i + j"] holds_less [OF assms(1)] by simp
  moreover have "run_length bitmap (int num) (int i) (int (j + 1)) = Some (int num)"
    using Suc(2-4) by (intro Suc(1)) (auto simp: subset_iff)
  ultimately show ?case using j by (subst run_length.simps) (simp add: add.commute)
qed (subst run_length.simps, simp)

text \<open>The run ends at the first block \<open>c\<close> that is not in the set, when the bitmap still has a bit for it.\<close>

lemma run_length_part:
  assumes "holds bitmap n B" and "i + j \<le> c" and "{i + j..<c} \<subseteq> B" and "c \<notin> B" and "c < i + num"
  shows "run_length bitmap (int num) (int i) (int j) =
    (if c < n \<or> c div 8 = n div 8 \<and> n mod 8 \<noteq> 0 then Some (int (c - i)) else None)"
  using assms(2,3)
proof (induction "c - (i + j)" arbitrary: j)
  case 0
  then have "c = i + j" by simp
  then show ?case using assms(4,5) holds_get [OF assms(1), of "i + j"] by (subst run_length.simps) simp
next
  case (Suc d)
  then have "i + j \<in> B" and j: "j < num" using assms by auto
  then have "get_bit bitmap (int i + int j) = Some True"
    using holds_get [OF assms(1), of "i + j"] holds_less [OF assms(1)] by simp
  then have "run_length bitmap (int num) (int i) (int j) = run_length bitmap (int num) (int i) (int (j + 1))"
    using j by (subst run_length.simps) (simp add: add.commute)
  also have "\<dots> = (if c < n \<or> c div 8 = n div 8 \<and> n mod 8 \<noteq> 0 then Some (int (c - i)) else None)"
    using Suc(2-4) by (intro Suc(1)) (auto simp: subset_iff)
  finally show ?case .
qed

lemma no_run_stop:
  assumes "\<not> run_at B num i"
  shows "\<exists>c. i \<le> c \<and> {i..<c} \<subseteq> B \<and> c \<notin> B \<and> c < i + num"
proof -
  obtain d where d: "i \<le> d" "d < i + num" "d \<notin> B" using assms by (auto simp: run_at_def subset_eq)
  define c where "c = (LEAST c. i \<le> c \<and> c \<notin> B)"
  have "i \<le> c \<and> c \<notin> B" using LeastI [of "\<lambda>c. i \<le> c \<and> c \<notin> B" d, folded c_def] d by blast
  moreover have "c \<le> d" using Least_le [of "\<lambda>c. i \<le> c \<and> c \<notin> B" d, folded c_def] d by blast
  moreover have "k \<in> B" if "i \<le> k" "k < c" for k using that not_less_Least [of k "\<lambda>c. i \<le> c \<and> c \<notin> B", folded c_def] by simp
  ultimately show ?thesis using d by (intro exI [of _ c]) auto
qed

lemma find_run_from:
  assumes h: "holds bitmap n B" and "0 < num" and "i \<le> n"
  shows "find_run bitmap (int n) (int num) (int i) =
    (if \<exists>k \<ge> i. run_at B num k then Some (int (LEAST k. i \<le> k \<and> run_at B num k))
     else if n mod 8 = 0 then None else Some (int n + 1))"
  using assms(3)
proof (induction "Suc n - i" arbitrary: i)
  case (Suc d)
  show ?case
  proof (cases "run_at B num i")
    case True
    then have "(LEAST k. i \<le> k \<and> run_at B num k) = i" by (intro Least_equality) auto
    moreover have "run_length bitmap (int num) (int i) 0 = Some (int num)"
      using run_length_all [OF h, of 0 num i] True by (simp add: run_at_def)
    ultimately show ?thesis using True Suc(3) by (subst find_run.simps) auto
  next
    case False
    have later: "i \<le> k \<and> run_at B num k \<longleftrightarrow> Suc i \<le> k \<and> run_at B num k" for k using False by (auto simp: le_less)
    obtain c where c: "i \<le> c" "{i..<c} \<subseteq> B" "c \<notin> B" "c < i + num" using no_run_stop [OF False] by blast
    have cn: "c \<le> n" using c(2) holds_less [OF h, of n] by (meson atLeastLessThan_iff Suc.prems not_le subsetD less_irrefl)
    note L = run_length_part [OF h, of i 0 c num, simplified, OF c]
    show ?thesis
    proof (cases "c < n \<or> n mod 8 \<noteq> 0")
      case True
      then have f: "find_run bitmap (int n) (int num) (int i) = find_run bitmap (int n) (int num) (int (Suc i))"
        using L cn c(1,4) Suc(3) by (subst find_run.simps) (auto simp: le_less add.commute)
      show ?thesis
      proof (cases "i = n")
        case True
        then have "\<not> run_at B num k" if "i \<le> k" for k using that holds_less [OF h, of k] assms(2)
          by (force simp: run_at_def subset_eq)
        moreover have "n mod 8 \<noteq> 0" using \<open>c < n \<or> _\<close> c(1) True by auto
        moreover have "find_run bitmap (int n) (int num) (1 + int n) = Some (1 + int n)" by (subst find_run.simps) simp
        ultimately show ?thesis using f True by auto
      next
        case False
        then show ?thesis using Suc(1) [of "Suc i"] Suc(2,3) unfolding f later by simp
      qed
    next
      case False
      then have "c = n" "n mod 8 = 0" using cn by auto
      moreover have "\<not> run_at B num k" if "i \<le> k" for k
      proof
        assume "run_at B num k"
        then have "k + num - 1 \<in> B" using assms(2) by (auto simp: run_at_def)
        then show False using holds_less [OF h] c(4) \<open>c = n\<close> that by fastforce
      qed
      ultimately show ?thesis using L Suc(3) by (subst find_run.simps) auto
    qed
  qed
qed simp

text \<open>
  On a bitmap for \<open>n\<close> blocks the search gives the lowest run of the length asked for. When there is none,
  it comes to the bit behind the last block: that bit lies outside of the bitmap exactly when the number
  of blocks is a multiple of 8.
\<close>

lemma find_run_lowest:
  assumes "holds bitmap n B" and "0 < num"
  shows "find_run bitmap (int n) (int num) 0 =
    (if \<exists>k. run_at B num k then Some (int (LEAST k. run_at B num k))
     else if n mod 8 = 0 then None else Some (int n + 1))"
proof -
  have e: "0 \<le> k \<and> run_at B num k \<longleftrightarrow> run_at B num k" for k :: nat by simp
  show ?thesis using find_run_from [OF assms le0, unfolded e] by simp
qed

section \<open>Taking a run offline\<close>

text \<open>Linux does as told: the block goes offline and nothing else changes.\<close>

definition obeys :: "gemini_env \<Rightarrow> bool" where
  "obeys env \<longleftrightarrow> (\<forall>i st. gm_writable env i \<and> get_block_status (gm_linux env i st) i = OFFLINE \<and>
     (\<forall>k. k \<noteq> i \<longrightarrow> gm_linux env i st k = st k))"

definition took :: "nat \<Rightarrow> nat \<Rightarrow> block_states \<Rightarrow> block_states \<Rightarrow> bool" where
  "took a b st st' \<longleftrightarrow> (\<forall>k. if int a \<le> k \<and> k < int b then get_block_status st' k = OFFLINE else st' k = st k)"

lemma offline_run:
  assumes h: "holds bitmap n B" and o: "obeys env" and "run_at B num s" and "c < num"
  shows "\<exists>st'. offline_blocks env bitmap (int n) (int num) (int (s + c)) (int c) st = Some st' \<and> took (s + c) (s + num) st st'"
  using assms(4)
proof (induction "num - c" arbitrary: c st)
  case (Suc d)
  let ?i = "int (s + c)"
  let ?st = "gm_linux env ?i st"
  have m: "s + c \<in> B" using assms(3) Suc.prems by (auto simp: run_at_def)
  have n: "s + c < n" by (rule holds_less [OF h m])
  have b: "get_bit bitmap ?i = Some True" using holds_get [OF h, of "s + c"] m n by simp
  have st: "get_block_status ?st ?i = OFFLINE" "\<And>k. k \<noteq> ?i \<Longrightarrow> ?st k = st k" using o by (auto simp: obeys_def)
  have e: "offline_blocks env bitmap (int n) (int num) ?i (int c) st =
      (if int c + 1 \<ge> int num then Some ?st else offline_blocks env bitmap (int n) (int num) (?i + 1) (int c + 1) ?st)"
    using n b st(1) o by (subst offline_blocks.simps) (simp add: offline_block_def obeys_def)
  show ?case
  proof (cases "Suc c < num")
    case True
    have "d = num - Suc c" using Suc(2) by simp
    from Suc(1) [OF this True, of ?st] obtain st' where
      r: "offline_blocks env bitmap (int n) (int num) (int (s + Suc c)) (int (Suc c)) ?st = Some st'"
      "took (s + Suc c) (s + num) ?st st'" by blast
    have "took (s + c) (s + num) st st'" unfolding took_def
    proof
      fix k
      show "if int (s + c) \<le> k \<and> k < int (s + num) then get_block_status st' k = OFFLINE else st' k = st k"
        using r(2) [unfolded took_def, rule_format, of k] st n True
        by (cases "k = ?i") (auto simp: get_block_status_def split: if_splits)
    qed
    then show ?thesis using e r(1) True by (auto simp: algebra_simps)
  next
    case False
    then have "num = Suc c" using Suc.prems by simp
    moreover have "took (s + c) (s + Suc c) st ?st" unfolding took_def
    proof
      fix k
      show "if int (s + c) \<le> k \<and> k < int (s + Suc c) then get_block_status ?st k = OFFLINE else ?st k = st k"
        by (cases "k = ?i") (use st in auto)
    qed
    ultimately show ?thesis using e by simp
  qed
qed simp

section \<open>The scan\<close>

definition block_name :: "nat \<Rightarrow> string" where
  "block_name k = ''memory'' @ print_int (int k)"

lemma block_number: "k < 2 ^ 31 \<Longrightarrow> atoi (drop 6 (block_name k)) = int k"
  using atoi_print_int [of "int k" "[]"] by (simp add: block_name_def)

lemma insert_block_name:
  assumes "\<forall>m \<in> set (k # ks). m < 2 ^ 31"
  shows "insert_name (block_name k) (map block_name ks) = map block_name (insort k ks)"
  using assms by (induction ks) (auto simp: dir_cmp_def block_number)

lemma scandir_blocks:
  assumes "filter (\<lambda>n. dir_filter n \<noteq> 0) names = map block_name ks" and "\<forall>k \<in> set ks. k < 2 ^ 31"
  shows "scandir_names names = map block_name (sort ks)"
proof -
  have "foldr insert_name (map block_name ks) [] = map block_name (foldr insort ks [])"
    using assms(2) by (induction ks) (simp_all add: insert_block_name set_insort_key flip: sort_key_def)
  then show ?thesis using assms(1) by (simp add: scandir_names_def sort_key_def)
qed

text \<open>The blocks that can be taken: shown as removable, and online.\<close>

definition removable_file :: "gemini_env \<Rightarrow> nat \<Rightarrow> sys_file" where
  "removable_file env k = gm_removable env (take 127 (sys_path @ block_name k @ ''/removable''))"

definition free_blocks :: "gemini_env \<Rightarrow> block_states \<Rightarrow> nat set \<Rightarrow> nat set" where
  "free_blocks env st K = {k \<in> K. (\<exists>s. removable_file env k = Contents s \<and> atoi s = 1) \<and> get_block_status st (int k) = ONLINE}"

lemma scan_step:
  assumes "j < n - 1" and "k < 2 ^ 31"
  shows "scan_blocks env st n (block_name k # names) j bitmap =
    (case removable_file env k of
       Missing \<Rightarrow> scan_blocks env st n names (int k) bitmap
     | NoData \<Rightarrow> Some (Inl (-1))
     | Contents s \<Rightarrow>
         if atoi s = 1 \<and> get_block_status st (int k) = ONLINE
         then mark_block bitmap (int k) \<bind> scan_blocks env st n names (int k)
         else scan_blocks env st n names (int k) bitmap)"
  using assms(1) by (simp only: scan_blocks.simps removable_file_def Let_def if_True block_number [OF assms(2)])

lemma scan_holds:
  assumes "sorted ks" and "distinct ks" and "\<forall>k \<in> set ks. k < n \<and> k < 2 ^ 31 \<and> removable_file env k \<noteq> NoData"
    and "holds bitmap n B" and "ks \<noteq> [] \<Longrightarrow> last ks = n - 1 \<and> j < int n - 1" and "ks = [] \<Longrightarrow> int n - 1 \<le> j"
  shows "\<exists>bitmap'. scan_blocks env st (int n) (map block_name ks) j bitmap = Some (Inr bitmap') \<and>
    holds bitmap' n (B \<union> free_blocks env st (set ks))"
  using assms
proof (induction ks arbitrary: j bitmap B)
  case Nil
  then show ?case by (auto simp: free_blocks_def)
next
  case (Cons k ks)
  have k: "k < n" "k < 2 ^ 31" "removable_file env k \<noteq> NoData" using Cons.prems(3) by auto
  have j: "j < int n - 1" using Cons.prems(5) by simp
  have next_j: "ks \<noteq> [] \<Longrightarrow> last ks = n - 1 \<and> int k < int n - 1" "ks = [] \<Longrightarrow> int n - 1 \<le> int k"
  proof -
    assume ne: "ks \<noteq> []"
    then have "last ks = n - 1" using Cons.prems(5) by simp
    moreover have "k < last ks" using Cons.prems(1,2) ne last_in_set [OF ne] by (auto simp: le_less)
    ultimately show "last ks = n - 1 \<and> int k < int n - 1" by linarith
  qed (use Cons.prems(5) k(1) in auto)
  let ?free = "(\<exists>s. removable_file env k = Contents s \<and> atoi s = 1) \<and> get_block_status st (int k) = ONLINE"
  obtain b where b: "holds b n (if ?free then insert k B else B)"
    "scan_blocks env st (int n) (map block_name (k # ks)) j bitmap = scan_blocks env st (int n) (map block_name ks) (int k) b"
  proof (cases ?free)
    case True
    obtain b where "mark_block bitmap (int k) = Some b" "holds b n (insert k B)" using holds_mark [OF Cons.prems(4) k(1)] by blast
    then show ?thesis using that [of b] True by (auto simp: scan_step [OF j k(2)] simp del: scan_blocks.simps)
  next
    case False
    then have "scan_blocks env st (int n) (map block_name (k # ks)) j bitmap = scan_blocks env st (int n) (map block_name ks) (int k) bitmap"
      using k(3) by (auto simp: scan_step [OF j k(2)] simp del: scan_blocks.simps split: sys_file.splits)
    then show ?thesis using that [of bitmap] Cons.prems(4) False by simp
  qed
  have "free_blocks env st (set (k # ks)) = (if ?free then {k} else {}) \<union> free_blocks env st (set ks)"
    by (auto simp: free_blocks_def)
  moreover obtain bitmap' where "scan_blocks env st (int n) (map block_name ks) (int k) b = Some (Inr bitmap')"
    "holds bitmap' n ((if ?free then insert k B else B) \<union> free_blocks env st (set ks))"
    using Cons.IH [OF _ _ _ b(1) next_j] Cons.prems(1-3) by auto
  ultimately show ?case using b(2) by (auto simp: Un_commute split: if_splits)
qed

lemma sorted_last_Max:
  assumes "sort ks \<noteq> []"
  shows "last (sort ks) = Max (set ks)"
proof -
  have "x \<le> last xs" if "sorted xs" "x \<in> set xs" for x :: "'a :: linorder" and xs
    using that by (induction xs) auto
  then have "Max (set (sort ks)) = last (sort ks)" using last_in_set [OF assms] by (intro Max_eqI) (auto simp del: set_sort)
  then show ?thesis by simp
qed

section \<open>The tool\<close>

text \<open>
  C34: On a machine that shows its memory blocks as Linux does, with a block other than block 0, and whose
  Linux does as told, the tool takes the lowest run of as many blocks as it was asked for offline, from
  the blocks that are removable and online, and changes nothing else. When there is no such run
  nothing changes; the search then reads behind the bitmap exactly when the number of blocks, up to
  the last one, is a multiple of 8.
\<close>

theorem mem_tool_takes_lowest_run:
  assumes names: "filter (\<lambda>n. dir_filter n \<noteq> 0) (gm_names env) = map block_name ks" "distinct ks"
      "\<forall>k \<in> set ks. k < 2 ^ 31 - 1 \<and> removable_file env k \<noteq> NoData" "k0 \<in> set ks" "0 < k0"
    and env: "gm_block_size env = Contents bs" "gm_malloc env" "obeys env"
    and num: "0 < num" "num < 2 ^ 31"
    and "B = free_blocks env st (set ks)" and "n = Max (set ks) + 1"
  shows "if \<exists>k. run_at B num k
    then \<exists>st'. gemini_main env [print_int (int num)] st = Some (0, st') \<and>
      took (LEAST k. run_at B num k) ((LEAST k. run_at B num k) + num) st st'
    else gemini_main env [print_int (int num)] st = (if n mod 8 = 0 then None else Some (0, st))"
proof -
  let ?ks = "sort ks"
  have s: "scandir_names (gm_names env) = map block_name ?ks" using names(3) by (intro scandir_blocks [OF names(1)]) force
  have "set ?ks \<noteq> {}" using names(4) by auto
  then have ne: "?ks \<noteq> []" "map block_name ?ks \<noteq> []" by (auto simp del: set_sort)
  have l: "last ?ks = n - 1" using sorted_last_Max [OF ne(1)] assms(12) by simp
  have m: "k < n \<and> k < 2 ^ 31 \<and> removable_file env k \<noteq> NoData" if "k \<in> set ?ks" for k
    using that names(3) assms(12) by (force simp: less_Suc_eq_le)
  have n1: "1 < n" using Max_ge [OF finite_set names(4)] names(5) assms(12) by linarith
  have e: "atoi (drop 6 (last (map block_name ?ks))) + 1 = int n"
    using block_number [of "last ?ks"] m [OF last_in_set [OF ne(1)]] l n1 by (simp add: last_map [OF ne(1)])
  obtain bm where bm: "scan_blocks env st (int n) (map block_name ?ks) 0 (replicate (nat (bitmap_size (int n))) 0) = Some (Inr bm)"
    "holds bm n B"
    using scan_holds [of ?ks n env _ "{}" 0 st, OF _ _ _ holds_empty] names(2) m l n1 ne(1) assms(11) by auto
  have a: "sint (of_int (strtol 10 (print_int (int num))) :: u32) = int num"
    using atoi_print_int [of "int num" "[]"] num(2) by (simp add: atoi_def)
  have main: "gemini_main env [print_int (int num)] st = (find_run bm (int n) (int num) 0) \<bind> (\<lambda>i.
      if i \<le> int n then offline_blocks env bm (int n) (int num) i 0 st \<bind> (\<lambda>st'. Some (0, st')) else Some (0, st))"
    using env(1,2) ne(2) unfolding gemini_main_def by (simp add: s e a bm(1) Let_def del: map_is_Nil_conv)
  show ?thesis
  proof (cases "\<exists>k. run_at B num k")
    case True
    let ?k = "LEAST k. run_at B num k"
    have r: "run_at B num ?k" using True by (rule LeastI_ex)
    have "?k < n" by (rule holds_less [OF bm(2) run_at_first [OF r num(1)]])
    moreover obtain st' where "offline_blocks env bm (int n) (int num) (int ?k) 0 st = Some st'" "took ?k (?k + num) st st'"
      using offline_run [OF bm(2) env(3) r num(1), of st] by auto
    ultimately show ?thesis using True main find_run_lowest [OF bm(2) num(1)] by simp
  next
    case False
    then show ?thesis using main find_run_lowest [OF bm(2) num(1)] by simp
  qed
qed

definition demo_gemini :: gemini_env where
  "demo_gemini = \<lparr>gm_block_size = Contents ''8000000'', gm_names = [''probe'', ''memory1'', ''memory0'', ''memory2'', ''memory3''],
     gm_malloc = True, gm_removable = (\<lambda>_. Contents ''1''), gm_writable = (\<lambda>_. True),
     gm_linux = (\<lambda>i st. st(i := Contents ''offline''))\<rparr>"

definition demo_blocks :: block_states where
  "demo_blocks = (\<lambda>_. Contents ''online'')(0 := Contents ''offline'')"

theorem mem_tool_takes_lowest_run_witness:
  "\<exists>st'. gemini_main demo_gemini [''2''] demo_blocks = Some (0, st') \<and> took 1 3 demo_blocks st'"
proof -
  have f: "filter (\<lambda>n. dir_filter n \<noteq> 0) (gm_names demo_gemini) = map block_name [1, 0, 2, 3]" by code_simp
  have at: "atoi ''1'' = 1" by code_simp
  have B: "{1, 2, 3} = free_blocks demo_gemini demo_blocks (set [1, 0, 2, 3])"
    by (auto simp: free_blocks_def removable_file_def demo_gemini_def demo_blocks_def get_block_status_def at)
  have o: "obeys demo_gemini" by (simp add: obeys_def demo_gemini_def get_block_status_def)
  have le: "(LEAST k. run_at {1, 2, 3} 2 k) = 1"
  proof (rule Least_equality)
    show "run_at {1, 2, 3} 2 1" by (auto simp: run_at_def)
    show "1 \<le> k" if "run_at {1, 2, 3} 2 k" for k using that by (cases k) (auto simp: run_at_def subset_eq)
  qed
  have t: "(1 :: nat) + 2 = 3" by simp
  have p: "print_int (int 2) = ''2''" by code_simp
  have "\<exists>k. run_at {1, 2, 3} 2 k" by (rule exI [of _ 1]) (auto simp: run_at_def)
  then show ?thesis
    using mem_tool_takes_lowest_run [OF f _ _ _ _ _ _ o _ _ B, of 1 "''8000000''" 2 4] unfolding le p t
    by (simp add: removable_file_def demo_gemini_def)
qed

text \<open>
  When Linux keeps a block of the run online, the tool goes on with the free blocks behind the run: it ends
  with as many blocks as asked for, which are not contiguous.
\<close>

theorem mem_tool_leaves_run:
  "map_option (\<lambda>(r, st). (r, map (get_block_status st) [1, 2, 3]))
     (gemini_main (demo_gemini\<lparr>gm_linux := (\<lambda>i st. if i = 2 then st else st(i := Contents ''offline''))\<rparr>) [''2''] demo_blocks) =
   Some (0, [OFFLINE, ONLINE, OFFLINE])"
  by code_simp

end
