(* ===== verification/Spec2Isabelle.thy ===== *)
theory Spec2Isabelle
  imports PiscesLock Ringbuf XbufLive XbufDesc Hashtable Ctrl EnclaveCons Queue PiscesMain Launch EnclaveDev Xpmem UsrTools V3Cons Partition TrampolineLoan MemTool
begin

text \<open>
  A verification library for the Pisces co-kernel: the module of the host, the C sources under \<open>src/src\<close>,
  and the tools that drive it from user space, those under \<open>src/linux_usr\<close>. Pisces
  splits a machine: the Linux host gives CPUs, memory and PCI devices to \<^emph>\<open>enclaves\<close>, each of which
  boots a kernel of its own. Host and enclave share nothing but memory areas and inter-processor
  interrupts.

  \<^bold>\<open>The program and how its parts interact.\<close> \<open>main.c\<close> loads the module and creates and frees enclaves
  on request. \<open>enclave.c\<close> keeps the table of enclaves, their memory and CPUs, and launches and resets
  them. A launch lays out the boot memory (\<open>pisces_boot_params.c\<close>), lends itself the start-up code of
  Linux with page tables for the new kernel (\<open>boot.c\<close>, \<open>trampoline_3/trampoline.c\<close>) and wakes the boot
  CPU. From then on two channels of the same kind (\<open>pisces_xbuf.c\<close>) connect the two kernels: the
  control channel (\<open>enclave_ctrl.c\<close>), over which the host adds resources and controls virtual machines,
  and the long calls (\<open>pisces_lcall.c\<close>), by which the enclave uses host files (\<open>enclave_fs.c\<close> over
  \<open>file_io.c\<close>, with the open files in a hash table, \<open>util-hashtable.c\<close>) and host PCI devices
  (\<open>enclave_pci.c\<close>). Console output goes through byte rings in shared memory (\<open>pisces_ringbuf.c\<close>,
  \<open>enclave_cons.c\<close>, \<open>v3_console.c\<close>) under a spinlock that both kernels use (\<open>pisces_lock.c\<close>). With
  XPMEM a third channel forwards its commands (\<open>pisces_xpmem.c\<close>). In user space a library (\<open>pisces.c\<close>,
  \<open>pisces_ctrl.c\<close>, \<open>teardown.c\<close>) takes CPUs, memory and devices out of Linux, hands them to the module by
  its requests and gives them back when an enclave is torn down; the command line tools call it. Two
  of them are programs of their own: \<open>v3_create.c\<close> builds the image of a virtual machine, \<open>v3_cons_sc.c\<close>
  and \<open>v3_cons_nosc.c\<close> show its screen and send it keys.

  \<^bold>\<open>The theories.\<close> Each has one record per C structure and one definition per C function, under the
  name of the function; loop bodies and switch cases have definitions of their own.

  \<^item> \<open>Prelude\<close>: integer types as words, error numbers, byte copies with bounds checks, cyclic lists.
  \<^item> \<open>PiscesLock\<close> (\<open>pisces_lock.c\<close>): the lock word, and any number of threads as a step relation.
    Mutual exclusion and progress.
  \<^item> \<open>Ringbuf\<close> (\<open>pisces_ringbuf.c\<close>): the early console. Writes and reads are exact or refused; the
    locale \<open>byte_fifo\<close> states the contract and gives the order of bytes for all sequences of calls.
  \<^item> \<open>Xbuf\<close>, \<open>XbufSession\<close>, \<open>XbufCall\<close>, \<open>XbufLive\<close>, \<open>XbufDesc\<close> (\<open>pisces_xbuf.c\<close>): flags and transfer loops, split
    at every access to shared memory; any number of clients, the server and a disabling host as a
    step relation; the phases of a call; bringing a channel up and down. One owner at a time, no copy
    outside an array, every call gets the answer to its own request and can always be completed.
  \<^item> \<open>Hashtable\<close> (\<open>util-hashtable.c\<close>): refinement to a finite map, through growth and failed
    allocations; the locale \<open>dictionary\<close> is what \<open>EnclaveFs\<close> builds on.
  \<^item> \<open>Queue\<close> (\<open>util-queue.c\<close>): the locale \<open>bounded_fifo\<close>, and the bound under concurrent callers.
  \<^item> \<open>FileIo\<close>, \<open>EnclaveFs\<close> (\<open>file_io.c\<close>, \<open>enclave_fs.c\<close>): the kernel's files as a parameter \<open>vfs\<close>; the
    table of open files; scatter reads and gather writes.
  \<^item> \<open>Pci\<close> (\<open>enclave_pci.c\<close>): the device list as a state with addresses, kernel calls as results and a
    trace. Names stay distinct, nothing acquired is lost on a failed registration, attach and detach,
    the IOMMU loops.
  \<^item> \<open>Irq\<close> (\<open>pisces_irq.c\<close>): interrupt lines and IPIs.
  \<^item> \<open>EnclaveCons\<close>, \<open>V3Console\<close> (\<open>enclave_cons.c\<close>, \<open>v3_console.c\<close>): the two console readers.
  \<^item> \<open>CtrlCmd\<close>, \<open>Ctrl\<close> (\<open>ctrl_ioctl.h\<close>, \<open>enclave_ctrl.c\<close>): the messages as bytes and every control
    request. Framing, reporting of failures, all-or-nothing registration of devices.
  \<^item> \<open>Lcall\<close> (\<open>pisces_lcall.c\<close>): the dispatch of a long call from its bytes, one answer per call.
  \<^item> \<open>PgTables\<close> (\<open>pgtables.h\<close>, \<open>pgtables.c\<close>): page table entries as words, the translation of the
    processor as the reference for the two routines that print tables.
  \<^item> \<open>Trampoline\<close>, \<open>Boot\<close> (\<open>boot.c\<close>, \<open>trampoline_3\<close>): page tables for the first instructions, the loan
    of the trampoline, the interrupts that wake a CPU, and the wait for it.
  \<^item> \<open>TrampolineLoan\<close>: the locale \<open>trampoline_loan\<close> is what \<open>boot.c\<close> relies on, and \<open>trampoline_restoring\<close> the
    promise to leave the page of the kernel as it was. The first is met by all four variants; the three for older
    kernels, \<open>trampoline_0\<close> to \<open>trampoline_2\<close>, are modelled there. The second is met by \<open>trampoline_2\<close> and
    \<open>trampoline_3\<close> only.
  \<^item> \<open>BootParams\<close> (\<open>pisces_boot_params.c\<close>): the layout of the boot memory and the two images.
  \<^item> \<open>Enclave\<close> (\<open>enclave.c\<close>): the enclave table with a heap of structures and reference counts,
    reachable states, memory and CPU lists, the information files.
  \<^item> \<open>Launch\<close> (\<open>enclave.c\<close>): launch and reset over all of the above.
  \<^item> \<open>EnclaveDev\<close> (\<open>enclave.c\<close>): the requests on an enclave's device and all files that point to an enclave,
    as a step relation: which of them keep it allocated.
  \<^item> \<open>Xpmem\<close> (\<open>pisces_xpmem.c\<close>): commands between enclave and XPMEM, the long calls of that build.
  \<^item> \<open>PiscesMain\<close> (\<open>main.c\<close>, \<open>linux_syms.c\<close>): loading, unloading, the requests on the control device.
  \<^item> \<open>CText\<close>: the C library's conversions between numbers and text that the tools use.
  \<^item> \<open>UsrLib\<close> (\<open>pisces.c\<close>, \<open>pisces_ctrl.c\<close>): the library as the sequence of requests and of calls that take
    resources out of Linux or return them. What is out of Linux after each call, and that a job
    reaches the enclave as asked.
  \<^item> \<open>Teardown\<close> (\<open>teardown.c\<close>): the text of the information files and the program that reads it back.
  \<^item> \<open>Lending\<close>: launch in user space, launch request in the module, and teardown joined: everything
    taken out of Linux goes back.
  \<^item> \<open>Partition\<close>: any number of enclaves as a step relation over the tools and the requests of the module. Every
    CPU and memory block is with Linux or with one enclave, as long as the requests succeed; and the failures
    that leave one with both.
  \<^item> \<open>GuestImage\<close> (\<open>v3_create.c\<close>): the image of a virtual machine and what its table of files leads to.
  \<^item> \<open>UsrTools\<close>: the \<open>main\<close> functions of the command line tools. \<open>V3Cons\<close>: the console tools, joined with
    the module's side (\<open>V3Console\<close>) for the keys typed.
  \<^item> \<open>MemTool\<close> (\<open>bak/linux_usr.bak/gemini_mem_rm.c\<close>): the older tool that takes memory out of Linux; its bitmap as
    a set of blocks, and the lowest run of free ones.
  \<^item> This theory: the theorem that joins launch, boot memory, page tables and the translation of the
    processor, and the one that joins control commands and the channel.

  \<^bold>\<open>State, errors and loops.\<close> State is passed explicitly. An \<open>option\<close> around a result is a fault of the
  C program (a null or freed pointer, a copy outside an array, a lock taken twice) or a loop that does
  not end; error codes of the code are values. Loops with a bound in the code are recursive functions
  with a measure. Loops that may run for ever (the spin on the lock, file transfers, the IOMMU loops)
  are partial functions, whose theorems show that they return. No fuel is used. Waits on the other
  kernel are steps of the relations in \<open>PiscesLock\<close> and \<open>XbufSession\<close>. The wait for a booting CPU
  reads its bit 16 times as the code does.

  \<^bold>\<open>Parameters.\<close> Linux is not part of the repository. Its calls enter as arguments: results of
  allocations and registrations, the file system (\<open>vfs\<close>, with \<open>reads_file\<close> as the documented behaviour
  of \<open>vfs_read\<close>), PCI and IOMMU calls, the local APIC, the addresses of symbols. The kernel inside an
  enclave appears as the answers it gives to messages. So do the XPMEM module, and for the tools the
  external library \<open>petlib\<close> that takes resources out of Linux, \<open>getopt\<close>, curses, and the tags and text
  that the vendored XML library finds in a configuration.

  The C files of \<open>trampoline_1\<close> and \<open>trampoline_2\<close> do not compile as they are: they are modelled with the
  semicolon that is missing.

  \<^bold>\<open>Not modelled.\<close> The assembly files; third-party code copied into the repository (\<open>ezxml.c\<close>, \<open>list.h\<close>); the
  other superseded files under \<open>bak\<close> and headers that nothing includes; the functions of \<open>v3_cons_nosc.c\<close> that
  nothing calls, copies of those of \<open>v3_cons_sc.c\<close>; page table structures for 32-bit and
  PAE modes, which the module does not use; printing; weak memory ordering (every access to shared
  memory takes effect at once, in program order).
\<close>

section \<open>From the boot memory to the first instruction\<close>



section \<open>Control commands over the message channel\<close>

lemma pisces_resp_not_empty [simp]: "pisces_resp status n \<noteq> []"
  using resp_status_resp [of status n "[]"] by (auto simp: resp_status_def)


definition demo_vm_cfg :: xcfg where
  "demo_vm_cfg = \<lparr>xc_req = (\<lambda>i. cmd_vm_ctrl 5 7), xc_want = (\<lambda>i. True),
     xc_handler = Some (\<lambda>ret d. Some (pisces_resp 3 0))\<rparr>"


end
